(* ===== verification/Prelude.thy ===== *)
theory Prelude
  imports Main "HOL-Library.Word" "HOL-Library.List_Lexorder" "HOL-Library.Char_ord"
    "HOL-Library.Sublist" "HOL-Library.Multiset"
begin

text \<open>
  Shared vocabulary of the development: the names of the machine types, the parts of the Rust
  standard library that the modelled code calls (saturating arithmetic, ordered maps, string
  slicing), and the generic facts about them that the component theories rely on.

  A Rust \<^verbatim>\<open>String\<close> is its UTF-8 byte sequence, so it is a \<^typ>\<open>string\<close> whose
  characters are bytes; comparison of such lists is the byte-wise lexicographic order that
  \<^verbatim>\<open>Ord for str\<close> has. A \<^verbatim>\<open>BTreeMap\<close> is the list of its entries in iteration
  order, that is, sorted strictly by key.
\<close>

section \<open>Machine types and fact collections\<close>

type_synonym u8 = "8 word"
type_synonym u32 = "32 word"
type_synonym u64 = "64 word"
type_synonym i32 = "32 word"   \<comment> \<open>read with \<^const>\<open>sint\<close>\<close>
type_synonym i64 = "64 word"   \<comment> \<open>read with \<^const>\<open>sint\<close>\<close>
type_synonym str = string

named_theorems sat_simps "unsigned reading of saturating arithmetic"
named_theorems omap_simps "lookup, order and sum facts of ordered maps"

section \<open>Saturating arithmetic on unsigned words\<close>

definition u64_max :: u64 where
  "u64_max = - 1"

definition saturating_add :: "u64 \<Rightarrow> u64 \<Rightarrow> u64" where
  "saturating_add a b = (if unat a + unat b < 2 ^ 64 then a + b else u64_max)"

definition saturating_sub :: "u64 \<Rightarrow> u64 \<Rightarrow> u64" where
  "saturating_sub a b = (if b \<le> a then a - b else 0)"

definition saturating_mul :: "u64 \<Rightarrow> u64 \<Rightarrow> u64" where
  "saturating_mul a b = (if unat a * unat b < 2 ^ 64 then a * b else u64_max)"

lemma unat_u64_max [sat_simps]: "unat u64_max = 2 ^ 64 - 1"
  by (simp add: u64_max_def unsigned_minus_1_eq_mask mask_eq_exp_minus_1)

lemma unat_saturating_add [sat_simps]:
  "unat (saturating_add a b) = min (2 ^ 64 - 1) (unat a + unat b)"
proof (cases "unat a + unat b < 2 ^ 64")
  case True
  then have "unat (a + b) = unat a + unat b"
    by (subst unat_word_ariths) simp
  with True show ?thesis by (simp add: saturating_add_def)
next
  case False
  then show ?thesis by (simp add: saturating_add_def unat_u64_max)
qed

lemma unat_saturating_sub [sat_simps]:
  "unat (saturating_sub a b) = unat a - unat b"
  by (auto simp: saturating_sub_def unat_sub word_le_nat_alt)

lemma unat_lt_2_64 [simp]: "unat (a :: u64) < 18446744073709551616"
  using unsigned_less [where 'a = nat, of a] by simp

lemma unat_le_2_64: "unat (a :: u64) \<le> 18446744073709551615"
  using unat_lt_2_64 [of a] by linarith

lemma saturating_add_0 [simp]: "saturating_add a 0 = a" "saturating_add 0 a = a"
  by (simp_all add: saturating_add_def)

lemma saturating_sub_0 [simp]: "saturating_sub a 0 = a" "saturating_sub 0 a = 0"
  by (auto simp: saturating_sub_def)

lemma saturating_add_comm: "saturating_add a b = saturating_add b a"
  by (simp add: saturating_add_def add.commute)

lemma saturating_add_assoc:
  "saturating_add (saturating_add a b) c = saturating_add a (saturating_add b c)"
proof -
  have "unat (saturating_add (saturating_add a b) c) = unat (saturating_add a (saturating_add b c))"
    by (simp add: unat_saturating_add)
  then show ?thesis by (simp only: word_unat_eq_iff)
qed

lemma saturating_sub_add:
  "unat b + unat c < 2 ^ 64 \<Longrightarrow> saturating_sub (saturating_add b c) c = b"
  by (simp add: word_unat_eq_iff unat_saturating_sub unat_saturating_add)

section \<open>Ordered maps\<close>

type_synonym ('k, 'v) omap = "('k \<times> 'v) list"

fun om_put :: "'k::linorder \<Rightarrow> 'v \<Rightarrow> ('k, 'v) omap \<Rightarrow> ('k, 'v) omap" where
  "om_put k v [] = [(k, v)]"
| "om_put k v (e # es) =
     (if fst e < k then e # om_put k v es
      else if fst e = k then (k, v) # es
      else (k, v) # e # es)"

definition om_del :: "'k \<Rightarrow> ('k, 'v) omap \<Rightarrow> ('k, 'v) omap" where
  "om_del k m = filter (\<lambda>e. fst e \<noteq> k) m"

text \<open>\<^verbatim>\<open>entry(k).or_insert(d)\<close> followed by an update of the entry.\<close>

definition om_entry :: "'k::linorder \<Rightarrow> 'v \<Rightarrow> ('v \<Rightarrow> 'v) \<Rightarrow> ('k, 'v) omap \<Rightarrow> ('k, 'v) omap" where
  "om_entry k d f m = om_put k (f (case map_of m k of None \<Rightarrow> d | Some v \<Rightarrow> v)) m"

definition om_ok :: "('k::linorder, 'v) omap \<Rightarrow> bool" where
  "om_ok m = sorted_wrt (<) (map fst m)"

text \<open>\<^verbatim>\<open>range(lo..)\<close>: the entries whose key is at least \<open>lo\<close>, in key order.\<close>

definition om_range_from :: "'k::linorder \<Rightarrow> ('k, 'v) omap \<Rightarrow> ('k, 'v) omap" where
  "om_range_from lo m = filter (\<lambda>e. lo \<le> fst e) m"

definition om_sum :: "('v \<Rightarrow> nat) \<Rightarrow> ('k, 'v) omap \<Rightarrow> nat" where
  "om_sum w m = (\<Sum>e\<leftarrow>m. w (snd e))"

lemma om_ok_Nil [simp]: "om_ok []"
  by (simp add: om_ok_def)

lemma om_ok_Cons: "om_ok (e # es) \<longleftrightarrow> (\<forall>x \<in> set es. fst e < fst x) \<and> om_ok es"
  by (auto simp: om_ok_def)

lemma om_ok_distinct: "om_ok m \<Longrightarrow> distinct (map fst m)"
  by (simp add: om_ok_def strict_sorted_iff)

lemma map_of_om_put [omap_simps]: "map_of (om_put k v m) = (map_of m)(k \<mapsto> v)"
  by (induction m) (auto simp: fun_eq_iff)

lemma map_of_om_del [omap_simps]: "map_of (om_del k m) = (map_of m)(k := None)"
  by (induction m) (auto simp: om_del_def fun_eq_iff)

lemma map_of_om_entry [omap_simps]:
  "map_of (om_entry k d f m) = (map_of m)(k \<mapsto> f (case map_of m k of None \<Rightarrow> d | Some v \<Rightarrow> v))"
  by (simp add: om_entry_def map_of_om_put)

lemma set_om_put: "set (om_put k v m) \<subseteq> insert (k, v) (set m)"
  by (induction m) auto

lemma om_ok_put [omap_simps]: "om_ok m \<Longrightarrow> om_ok (om_put k v m)"
proof (induction m)
  case Nil
  then show ?case by (simp add: om_ok_def)
next
  case (Cons e es)
  then show ?case
    using set_om_put [of k v es] by (fastforce simp: om_ok_Cons)
qed

lemma om_ok_del [omap_simps]: "om_ok m \<Longrightarrow> om_ok (om_del k m)"
  by (induction m) (auto simp: om_ok_Cons om_del_def)

lemma om_ok_entry [omap_simps]: "om_ok m \<Longrightarrow> om_ok (om_entry k d f m)"
  by (simp add: om_entry_def om_ok_put)

lemma om_ok_map_of_None: "om_ok ((k, v) # es) \<Longrightarrow> map_of es k = None"
  by (auto simp: om_ok_Cons map_of_eq_None_iff)

text \<open>Weighted sums over the values: what an insertion, an entry update and a removal add.\<close>

lemma om_sum_Nil [simp]: "om_sum w [] = 0"
  by (simp add: om_sum_def)

lemma om_sum_Cons [simp]: "om_sum w (e # es) = w (snd e) + om_sum w es"
  by (simp add: om_sum_def)

definition om_val :: "('v \<Rightarrow> nat) \<Rightarrow> ('k, 'v) omap \<Rightarrow> 'k \<Rightarrow> nat" where
  "om_val w m k = (case map_of m k of None \<Rightarrow> 0 | Some v \<Rightarrow> w v)"

lemma om_sum_put [omap_simps]:
  "om_ok m \<Longrightarrow> om_sum w (om_put k v m) + om_val w m k = om_sum w m + w v"
proof (induction m)
  case Nil
  then show ?case by (simp add: om_val_def)
next
  case (Cons e es)
  have none: "fst e = k \<or> k < fst e \<Longrightarrow> map_of es k = None"
    using Cons.prems by (fastforce simp: om_ok_Cons map_of_eq_None_iff)
  from Cons show ?case
    using none by (cases e) (auto simp: om_val_def om_ok_Cons)
qed

lemma om_del_notin: "map_of m k = None \<Longrightarrow> om_del k m = m"
  by (auto simp: om_del_def map_of_eq_None_iff intro: filter_True)

lemma om_sum_del [omap_simps]:
  "om_ok m \<Longrightarrow> om_sum w (om_del k m) + om_val w m k = om_sum w m"
proof (induction m)
  case Nil
  then show ?case by (simp add: om_val_def om_del_def)
next
  case (Cons e es)
  show ?case
  proof (cases "fst e = k")
    case True
    with Cons.prems have "map_of es k = None"
      by (auto simp: om_ok_Cons map_of_eq_None_iff)
    with True show ?thesis
      by (cases e) (auto simp: om_val_def om_del_def dest!: om_del_notin [unfolded om_del_def])
  next
    case False
    with Cons show ?thesis by (cases e) (auto simp: om_val_def om_del_def om_ok_Cons)
  qed
qed

lemma om_val_le_sum: "om_ok m \<Longrightarrow> om_val w m k \<le> om_sum w m"
  using om_sum_del [of m w k] by simp

lemma om_val_Some: "map_of m k = Some v \<Longrightarrow> om_val w m k = w v"
  by (simp add: om_val_def)

lemma om_val_None: "map_of m k = None \<Longrightarrow> om_val w m k = 0"
  by (simp add: om_val_def)

lemma om_val_put [omap_simps]: "om_val w (om_put k v m) j = (if j = k then w v else om_val w m j)"
  by (simp add: om_val_def map_of_om_put)

lemma om_val_del [omap_simps]: "om_val w (om_del k m) j = (if j = k then 0 else om_val w m j)"
  by (simp add: om_val_def map_of_om_del)

lemma om_val_entry [omap_simps]:
  "om_val w (om_entry k d f m) j =
     (if j = k then w (f (case map_of m k of None \<Rightarrow> d | Some v \<Rightarrow> v)) else om_val w m j)"
  by (simp add: om_entry_def om_val_put)

text \<open>An entry update that raises the weight of the entry by \<open>n\<close> raises the sum by \<open>n\<close>.\<close>

lemma om_sum_entry_add:
  assumes "om_ok m" and "w d = 0"
    and "w (f (case map_of m k of None \<Rightarrow> d | Some v \<Rightarrow> v)) = om_val w m k + n"
  shows "om_sum w (om_entry k d f m) = om_sum w m + n"
  using om_sum_put [OF assms(1), of w k "f (case map_of m k of None \<Rightarrow> d | Some v \<Rightarrow> v)"] assms
  by (simp add: om_entry_def)

text \<open>The list sum is the sum over the keys, so it does not depend on the iteration order.\<close>

lemma om_sum_perm: "mset m = mset m' \<Longrightarrow> om_sum w m = om_sum w m'"
  by (simp add: om_sum_def flip: sum_mset_sum_list)

text \<open>A property of all values.\<close>

definition om_all :: "('v \<Rightarrow> bool) \<Rightarrow> ('k, 'v) omap \<Rightarrow> bool" where
  "om_all Q m \<longleftrightarrow> (\<forall>x \<in> set m. Q (snd x))"

lemma om_all_Nil [simp]: "om_all Q []"
  by (simp add: om_all_def)

lemma om_all_put [omap_simps]: "om_all Q m \<Longrightarrow> Q v \<Longrightarrow> om_all Q (om_put k v m)"
  using set_om_put [of k v m] by (auto simp: om_all_def)

lemma om_all_del [omap_simps]: "om_all Q m \<Longrightarrow> om_all Q (om_del k m)"
  by (simp add: om_all_def om_del_def)

lemma om_all_lookup: "om_all Q m \<Longrightarrow> map_of m k = Some v \<Longrightarrow> Q v"
  by (force simp: om_all_def dest: map_of_SomeD)

lemma om_all_entry:
  "om_all Q m \<Longrightarrow> (\<And>v. v = d \<or> Q v \<Longrightarrow> Q (f v)) \<Longrightarrow> om_all Q (om_entry k d f m)"
  unfolding om_entry_def by (rule om_all_put) (auto split: option.splits dest: om_all_lookup)

section \<open>Lifting a step over the loops that iterate it\<close>

locale step_invariant =
  fixes step :: "'x \<Rightarrow> 's \<Rightarrow> 's" and inv :: "'s \<Rightarrow> bool"
  assumes step_inv: "inv s \<Longrightarrow> inv (step x s)"
begin

lemma fold_inv: "inv s \<Longrightarrow> inv (fold step xs s)"
  by (induction xs arbitrary: s) (auto intro: step_inv)

lemma nested: "step_invariant (\<lambda>y. fold step (items y)) inv"
  by unfold_locales (rule fold_inv)

end

text \<open>
  A step that turns each input into a list of samples, and keeps a relation between the samples
  seen so far and the state as long as the samples stay admissible (for instance: their sum fits
  into a counter). Any number of steps, and any nesting of loops over steps, keeps it as well.
\<close>

locale trace_step =
  fixes step :: "'x \<Rightarrow> 's \<Rightarrow> 's" and samples :: "'x \<Rightarrow> 'h list"
    and inv :: "'h list \<Rightarrow> 's \<Rightarrow> bool" and good :: "'h list \<Rightarrow> bool"
  assumes good_prefix: "good (h @ h') \<Longrightarrow> good h"
    and step_trace: "inv h s \<Longrightarrow> good (h @ samples x) \<Longrightarrow> inv (h @ samples x) (step x s)"
begin

lemma fold_trace:
  "inv h s \<Longrightarrow> good (h @ concat (map samples xs)) \<Longrightarrow>
     inv (h @ concat (map samples xs)) (fold step xs s)"
proof (induction xs arbitrary: h s)
  case Nil
  then show ?case by simp
next
  case (Cons x xs)
  from Cons.prems(2) have "good (h @ samples x)"
    by (rule_tac h' = "concat (map samples xs)" in good_prefix) simp
  with Cons.prems(1) have "inv (h @ samples x) (step x s)" by (rule step_trace)
  from Cons.IH [OF this] Cons.prems(2) show ?case by simp
qed

lemma nested:
  "trace_step (\<lambda>y. fold step (items y)) (\<lambda>y. concat (map samples (items y))) inv good"
  by unfold_locales (erule good_prefix, rule fold_trace)

end

end
