(* ===== verification/F64.thy ===== *)
theory F64
  imports Prelude Complex_Main "HOL-Library.Log_Nat"
begin

text \<open>
  IEEE 754 binary64, as the Rust code sees it: an \<^verbatim>\<open>f64\<close> is its 64-bit pattern, read
  through the rational number it denotes. Arithmetic is exact on the rationals followed by one
  rounding to nearest, ties to even; conversions to integers truncate. Reading and writing the
  pattern goes through its unsigned value: bit 63 is the sign, the next 11 bits the biased
  exponent, the low 52 bits the fraction.
\<close>

type_synonym f64 = u64

definition f64_neg :: "f64 \<Rightarrow> bool" where
  "f64_neg x = (2 ^ 63 \<le> unat x)"

text \<open>The magnitude bits: exponent and fraction without the sign.\<close>

definition f64_mag :: "f64 \<Rightarrow> nat" where
  "f64_mag x = unat x mod 2 ^ 63"

definition f64_inf_mag :: nat where
  "f64_inf_mag = 2047 * 2 ^ 52"

definition is_finite :: "f64 \<Rightarrow> bool" where
  "is_finite x = (f64_mag x < f64_inf_mag)"

definition is_nan :: "f64 \<Rightarrow> bool" where
  "is_nan x = (f64_inf_mag < f64_mag x)"

definition is_infinite :: "f64 \<Rightarrow> bool" where
  "is_infinite x = (f64_mag x = f64_inf_mag)"

text \<open>
  The value of magnitude bits \<open>n\<close> in units of \<open>2\<^sup>-\<^sup>1\<^sup>0\<^sup>7\<^sup>4\<close>, the smallest positive
  double: subnormal when the exponent field is zero.
\<close>

definition mag_scaled :: "nat \<Rightarrow> nat" where
  "mag_scaled n = (let e = n div 2 ^ 52; m = n mod 2 ^ 52 in
     if e = 0 then m else (2 ^ 52 + m) * 2 ^ (e - 1))"

definition mag_val :: "nat \<Rightarrow> rat" where
  "mag_val n = of_nat (mag_scaled n) / 2 ^ 1074"

definition f64_val :: "f64 \<Rightarrow> rat" where
  "f64_val x = (if f64_neg x then - mag_val (f64_mag x) else mag_val (f64_mag x))"

definition f64_of_bits :: "bool \<Rightarrow> nat \<Rightarrow> f64" where
  "f64_of_bits neg n = word_of_nat ((if neg then 2 ^ 63 else 0) + n)"

definition f64_infinity :: "bool \<Rightarrow> f64" where
  "f64_infinity neg = f64_of_bits neg f64_inf_mag"

definition f64_nan :: f64 where
  "f64_nan = f64_of_bits False (f64_inf_mag + 2 ^ 51)"

text \<open>\<^verbatim>\<open>f64::MAX\<close>.\<close>

definition f64_max :: f64 where
  "f64_max = f64_of_bits False (f64_inf_mag - 1)"

section \<open>Rounding\<close>

definition round_half_even :: "rat \<Rightarrow> int" where
  "round_half_even q = (let f = \<lfloor>q\<rfloor>; d = q - of_int f in
     if d < 1 / 2 \<or> (d = 1 / 2 \<and> even f) then f else f + 1)"

text \<open>
  \<open>ulp_shift s\<close> is the number of binary places to drop so that \<open>s\<close> fits in the 53 bits of
  a significand (none when it already fits).
\<close>

definition ulp_shift :: "rat \<Rightarrow> nat" where
  "ulp_shift s = floorlog 2 (nat \<lfloor>s\<rfloor>) - 53"

definition round_mag :: "rat \<Rightarrow> nat" where
  "round_mag q = (let s = q * 2 ^ 1074; k = ulp_shift s in
     min f64_inf_mag (k * 2 ^ 52 + nat (round_half_even (s / 2 ^ k))))"

definition f64_round :: "bool \<Rightarrow> rat \<Rightarrow> f64" where
  "f64_round neg q = f64_of_bits (if q = 0 then neg else q < 0) (round_mag \<bar>q\<bar>)"

section \<open>Operations\<close>

text \<open>
  Comparison is on the signed magnitude, which orders all values that are not NaN, infinities
  included, and identifies the two zeros.
\<close>

definition f64_ord :: "f64 \<Rightarrow> int" where
  "f64_ord x = (if f64_neg x then - int (f64_mag x) else int (f64_mag x))"

definition f64_lt :: "f64 \<Rightarrow> f64 \<Rightarrow> bool" where
  "f64_lt x y = (\<not> is_nan x \<and> \<not> is_nan y \<and> f64_ord x < f64_ord y)"

definition f64_le :: "f64 \<Rightarrow> f64 \<Rightarrow> bool" where
  "f64_le x y = (\<not> is_nan x \<and> \<not> is_nan y \<and> f64_ord x \<le> f64_ord y)"

definition f64_eq :: "f64 \<Rightarrow> f64 \<Rightarrow> bool" where
  "f64_eq x y = (\<not> is_nan x \<and> \<not> is_nan y \<and> f64_ord x = f64_ord y)"

definition f64_negate :: "f64 \<Rightarrow> f64" where
  "f64_negate x = f64_of_bits (\<not> f64_neg x) (f64_mag x)"

definition f64_add :: "f64 \<Rightarrow> f64 \<Rightarrow> f64" where
  "f64_add x y =
     (if is_nan x \<or> is_nan y then f64_nan
      else if is_infinite x \<and> is_infinite y \<and> f64_neg x \<noteq> f64_neg y then f64_nan
      else if is_infinite x then x
      else if is_infinite y then y
      else f64_round (f64_neg x \<and> f64_neg y) (f64_val x + f64_val y))"

definition f64_sub :: "f64 \<Rightarrow> f64 \<Rightarrow> f64" where
  "f64_sub x y = f64_add x (f64_negate y)"

text \<open>\<^verbatim>\<open>f64::max\<close>: a NaN operand is ignored.\<close>

definition f64_maximum :: "f64 \<Rightarrow> f64 \<Rightarrow> f64" where
  "f64_maximum x y = (if is_nan x then y else if is_nan y then x else if f64_lt x y then y else x)"

text \<open>\<^verbatim>\<open>as\<close> conversions: truncation towards zero, clamped to the target range, NaN to 0.\<close>

definition f64_trunc :: "f64 \<Rightarrow> int" where
  "f64_trunc x = (if f64_val x < 0 then - \<lfloor>- f64_val x\<rfloor> else \<lfloor>f64_val x\<rfloor>)"

definition f64_as_u64 :: "f64 \<Rightarrow> u64" where
  "f64_as_u64 x =
     (if is_nan x then 0
      else if is_infinite x then (if f64_neg x then 0 else u64_max)
      else word_of_int (max 0 (min (2 ^ 64 - 1) (f64_trunc x))))"

definition f64_as_i64 :: "f64 \<Rightarrow> i64" where
  "f64_as_i64 x =
     (if is_nan x then 0
      else if is_infinite x then word_of_int (if f64_neg x then - (2 ^ 63) else 2 ^ 63 - 1)
      else word_of_int (max (- (2 ^ 63)) (min (2 ^ 63 - 1) (f64_trunc x))))"

definition f64_of_int :: "int \<Rightarrow> f64" where
  "f64_of_int i = f64_round False (of_int i)"

definition f64_zero :: f64 where
  "f64_zero = 0"

section \<open>The bit pattern\<close>

lemma f64_mag_lt: "f64_mag x < 2 ^ 63"
  by (simp add: f64_mag_def)

lemma unat_f64_of_bits: "n < 2 ^ 63 \<Longrightarrow> unat (f64_of_bits neg n) = (if neg then 2 ^ 63 else 0) + n"
  by (auto simp: f64_of_bits_def unat_of_nat simp del: of_nat_add)

lemma f64_neg_of_bits [simp]: "n < 2 ^ 63 \<Longrightarrow> f64_neg (f64_of_bits neg n) = neg"
  by (simp add: f64_neg_def unat_f64_of_bits)

lemma f64_mag_of_bits [simp]: "n < 2 ^ 63 \<Longrightarrow> f64_mag (f64_of_bits neg n) = n"
  by (simp add: f64_mag_def unat_f64_of_bits)

lemma f64_zero_bits [simp]:
  "f64_neg 0 = False" "f64_mag 0 = 0" "f64_val 0 = 0" "f64_ord 0 = 0"
  "is_finite 0" "\<not> is_nan 0" "\<not> is_infinite 0"
  by (simp_all add: f64_neg_def f64_mag_def f64_val_def mag_val_def mag_scaled_def f64_ord_def
      is_finite_def is_nan_def is_infinite_def f64_inf_mag_def)

lemma is_finite_iff: "is_finite x \<longleftrightarrow> \<not> is_nan x \<and> \<not> is_infinite x"
  by (auto simp: is_finite_def is_nan_def is_infinite_def)

lemma round_mag_le: "round_mag q \<le> f64_inf_mag"
  by (simp add: round_mag_def Let_def)

lemma inf_mag_lt: "f64_inf_mag < 2 ^ 63"
  by (simp add: f64_inf_mag_def)

lemma round_mag_lt: "round_mag q < 2 ^ 63"
  using round_mag_le inf_mag_lt by (rule le_less_trans)

lemmas round_mag_lt_numeral [simp] = round_mag_lt [simplified]

lemma f64_max_bits [simp]: "f64_neg f64_max = False" "f64_mag f64_max = f64_inf_mag - 1"
  using inf_mag_lt by (simp_all add: f64_max_def)

lemma not_nan_f64_round: "\<not> is_nan (f64_round neg q)"
  using round_mag_le [of "\<bar>q\<bar>"] by (simp add: is_nan_def f64_round_def)

section \<open>Magnitude bits are ordered like the values they denote\<close>

lemma mag_scaled_strict_mono:
  assumes "m < n"
  shows "mag_scaled m < mag_scaled n"
proof -
  define e f where "e = m div 2 ^ 52" and "f = n div 2 ^ 52"
  have m: "m = e * 2 ^ 52 + m mod 2 ^ 52" and n: "n = f * 2 ^ 52 + n mod 2 ^ 52"
    by (simp_all add: e_def f_def)
  have bm: "m mod 2 ^ 52 < 2 ^ 52" and bn: "n mod 2 ^ 52 < 2 ^ 52" by simp_all
  have sm: "mag_scaled m = (if e = 0 then m mod 2 ^ 52 else (2 ^ 52 + m mod 2 ^ 52) * 2 ^ (e - 1))"
    and sn: "mag_scaled n = (if f = 0 then n mod 2 ^ 52 else (2 ^ 52 + n mod 2 ^ 52) * 2 ^ (f - 1))"
    by (simp_all only: mag_scaled_def Let_def e_def f_def)
  have "e \<le> f" unfolding e_def f_def using assms by (simp add: div_le_mono)
  then consider "e = f" | "e < f" by linarith
  then show ?thesis
  proof cases
    case 1
    then have "m mod 2 ^ 52 < n mod 2 ^ 52" using assms m n by (metis nat_add_left_cancel_less)
    with 1 show ?thesis by (simp add: sm sn)
  next
    case 2
    have "mag_scaled m < 2 ^ 52 * 2 ^ e"
    proof (cases e)
      case 0
      then show ?thesis using bm by (simp add: sm)
    next
      case (Suc e')
      have "(2 ^ 52 + m mod 2 ^ 52) * 2 ^ e' < 2 ^ 53 * (2 ^ e' :: nat)" using bm by simp
      with Suc show ?thesis by (simp add: sm)
    qed
    also have "\<dots> \<le> 2 ^ 52 * 2 ^ (f - 1)" using 2 by simp
    also have "\<dots> \<le> mag_scaled n" using 2 by (simp add: sn)
    finally show ?thesis .
  qed
qed

lemma mag_scaled_less_iff [simp]: "mag_scaled m < mag_scaled n \<longleftrightarrow> m < n"
  by (metis mag_scaled_strict_mono not_less_iff_gr_or_eq)

lemma mag_scaled_le_iff [simp]: "mag_scaled m \<le> mag_scaled n \<longleftrightarrow> m \<le> n"
  by (simp flip: not_less)

lemma mag_scaled_0 [simp]: "mag_scaled 0 = 0"
  by (simp add: mag_scaled_def)

lemma mag_val_le_iff: "mag_val m \<le> mag_val n \<longleftrightarrow> m \<le> n"
  by (simp add: mag_val_def divide_le_cancel)

lemma mag_val_less_iff: "mag_val m < mag_val n \<longleftrightarrow> m < n"
  by (simp add: mag_val_le_iff flip: not_le)

lemma mag_val_nonneg [simp]: "0 \<le> mag_val n"
  by (simp add: mag_val_def)

lemma mag_val_pos_iff [simp]: "0 < mag_val n \<longleftrightarrow> 0 < n"
  using mag_val_less_iff [of 0 n] by (simp add: mag_val_def)

lemma mag_val_0 [simp]: "mag_val 0 = 0"
  by (simp add: mag_val_def)

lemma f64_val_less_0_iff: "f64_val x < 0 \<longleftrightarrow> f64_ord x < 0"
  by (auto simp: f64_val_def f64_ord_def not_less)

lemma f64_val_pos_iff: "0 < f64_val x \<longleftrightarrow> 0 < f64_ord x"
  by (auto simp: f64_val_def f64_ord_def not_less)

lemma f64_val_0_iff: "f64_val x = 0 \<longleftrightarrow> f64_ord x = 0"
  using f64_val_less_0_iff [of x] f64_val_pos_iff [of x] by linarith

lemma f64_val_nonneg_mag: "0 \<le> f64_val x \<Longrightarrow> f64_val x = mag_val (f64_mag x)"
  using mag_val_nonneg [of "f64_mag x"] by (cases "f64_neg x") (simp_all add: f64_val_def)

section \<open>Rounding is exact on doubles, monotone, and stays finite below the largest double\<close>

lemma round_half_even_of_int [simp]: "round_half_even (of_int i) = i"
  by (simp add: round_half_even_def)

lemma round_half_even_of_nat [simp]: "round_half_even (of_nat n) = int n"
  using round_half_even_of_int [of "int n"] by simp

lemma round_half_even_bounds: "\<lfloor>q\<rfloor> \<le> round_half_even q" "round_half_even q \<le> \<lfloor>q\<rfloor> + 1"
  by (simp_all add: round_half_even_def Let_def)

lemma round_half_even_mono:
  assumes "p \<le> q"
  shows "round_half_even p \<le> round_half_even q"
proof (cases "\<lfloor>p\<rfloor> = \<lfloor>q\<rfloor>")
  case True
  then show ?thesis using assms by (auto simp: round_half_even_def Let_def)
next
  case False
  then have "\<lfloor>p\<rfloor> + 1 \<le> \<lfloor>q\<rfloor>" using floor_mono [OF assms] by linarith
  then show ?thesis using round_half_even_bounds [of p] round_half_even_bounds [of q] by linarith
qed

lemma round_half_even_le: "q \<le> of_int i \<Longrightarrow> round_half_even q \<le> i"
  using round_half_even_mono [of q "of_int i"] by simp

lemma round_half_even_ge: "of_int i \<le> q \<Longrightarrow> i \<le> round_half_even q"
  using round_half_even_mono [of "of_int i" q] by simp

lemma floor_less_pow: "0 \<le> s \<Longrightarrow> s < (2 :: rat) ^ floorlog 2 (nat \<lfloor>s\<rfloor>)"
proof -
  assume s: "0 \<le> s"
  have "nat \<lfloor>s\<rfloor> < 2 ^ floorlog 2 (nat \<lfloor>s\<rfloor>)"
    by (cases "nat \<lfloor>s\<rfloor> = 0") (use floorlog_bounds [of "nat \<lfloor>s\<rfloor>" 2] in \<open>auto simp: floorlog_def\<close>)
  then have "\<lfloor>s\<rfloor> < 2 ^ floorlog 2 (nat \<lfloor>s\<rfloor>)" using s by (simp add: nat_less_iff)
  then have "\<lfloor>s\<rfloor> < \<lfloor>(2 :: rat) ^ floorlog 2 (nat \<lfloor>s\<rfloor>)\<rfloor>"
    by (metis floor_of_int of_int_numeral of_int_power)
  then show ?thesis by (meson floor_mono linorder_not_less)
qed

lemma ulp_shift_upper: "0 \<le> s \<Longrightarrow> s / 2 ^ ulp_shift s < 2 ^ 53"
proof -
  assume s: "0 \<le> s"
  let ?l = "floorlog 2 (nat \<lfloor>s\<rfloor>)"
  have "s < 2 ^ ?l" by (rule floor_less_pow [OF s])
  also have "\<dots> \<le> 2 ^ (53 + (?l - 53))" by (rule power_increasing) auto
  also have "\<dots> = 2 ^ 53 * 2 ^ ulp_shift s" by (simp only: power_add ulp_shift_def)
  finally show ?thesis by (simp add: divide_less_eq)
qed

lemma ulp_shift_lower:
  assumes "0 < ulp_shift s"
  shows "2 ^ 52 \<le> s / 2 ^ ulp_shift s"
proof -
  let ?n = "nat \<lfloor>s\<rfloor>"
  have l: "floorlog 2 ?n = 53 + ulp_shift s" using assms by (simp add: ulp_shift_def)
  have "0 < ?n" using assms by (cases "?n = 0") (simp_all add: ulp_shift_def floorlog_def)
  then have "2 ^ (floorlog 2 ?n - 1) \<le> ?n" using floorlog_bounds [of ?n 2] by simp
  then have "2 ^ (52 + ulp_shift s) \<le> ?n" by (simp add: l)
  then have "2 ^ (52 + ulp_shift s) \<le> \<lfloor>s\<rfloor>" by (simp add: le_nat_iff)
  then have "of_int (2 ^ (52 + ulp_shift s)) \<le> s" by (simp only: le_floor_iff)
  then show ?thesis by (simp add: le_divide_eq power_add)
qed

lemma ulp_shift_mono: "s \<le> t \<Longrightarrow> ulp_shift s \<le> ulp_shift t"
  unfolding ulp_shift_def
  by (intro diff_le_mono floorlog_mono nat_mono floor_mono)

definition raw_mag :: "rat \<Rightarrow> nat" where
  "raw_mag s = ulp_shift s * 2 ^ 52 + nat (round_half_even (s / 2 ^ ulp_shift s))"

lemma round_mag_raw: "round_mag q = min f64_inf_mag (raw_mag (q * 2 ^ 1074))"
  by (simp add: round_mag_def raw_mag_def Let_def)

lemma nat_round_upper: "0 \<le> s \<Longrightarrow> nat (round_half_even (s / 2 ^ ulp_shift s)) \<le> 2 ^ 53"
  using round_half_even_le [of "s / 2 ^ ulp_shift s" "2 ^ 53"] ulp_shift_upper [of s]
  by (simp add: nat_le_iff)

lemma raw_mag_mono:
  assumes "0 \<le> s" and "s \<le> t"
  shows "raw_mag s \<le> raw_mag t"
proof (cases "ulp_shift s = ulp_shift t")
  case True
  then show ?thesis
    using round_half_even_mono [of "s / 2 ^ ulp_shift t" "t / 2 ^ ulp_shift t"] assms
    by (simp add: raw_mag_def divide_right_mono nat_mono)
next
  case False
  then have lt: "Suc (ulp_shift s) \<le> ulp_shift t" using ulp_shift_mono [OF assms(2)] by simp
  have "raw_mag s \<le> ulp_shift s * 2 ^ 52 + 2 ^ 53"
    using nat_round_upper [OF assms(1)] by (simp add: raw_mag_def)
  also have "\<dots> = Suc (ulp_shift s) * 2 ^ 52 + 2 ^ 52" by simp
  also have "\<dots> \<le> ulp_shift t * 2 ^ 52 + 2 ^ 52" using lt by (simp only: add_le_mono1 mult_le_mono1)
  also have "\<dots> \<le> raw_mag t"
    using round_half_even_ge [of "2 ^ 52" "t / 2 ^ ulp_shift t"] ulp_shift_lower [of t] lt
    by (simp add: raw_mag_def le_nat_iff)
  finally show ?thesis .
qed

lemma floorlog_scaled:
  assumes "2 ^ 52 \<le> m" and "m < 2 ^ 53"
  shows "floorlog 2 (m * 2 ^ k) = 53 + k"
proof -
  have "floorlog 2 m = 53"
  proof (rule antisym)
    show "floorlog 2 m \<le> 53" using assms by (intro floorlog_leI) auto
    show "53 \<le> floorlog 2 m" using assms by (intro floorlog_geI) auto
  qed
  then show ?thesis using assms by simp
qed

lemma raw_mag_exact: "raw_mag (of_nat (mag_scaled n)) = n"
proof -
  define e m where "e = n div 2 ^ 52" and "m = n mod 2 ^ 52"
  have n: "n = e * 2 ^ 52 + m" and m: "m < 2 ^ 52" by (simp_all add: e_def m_def)
  have sc: "mag_scaled n = (if e = 0 then m else (2 ^ 52 + m) * 2 ^ (e - 1))"
    by (simp only: mag_scaled_def Let_def e_def m_def)
  show ?thesis
  proof (cases e)
    case 0
    have "floorlog 2 m \<le> 53" using m by (intro floorlog_leI) auto
    then have "ulp_shift (of_nat m) = 0" by (simp add: ulp_shift_def)
    then show ?thesis using 0 n sc by (simp add: raw_mag_def)
  next
    case (Suc k)
    have "floorlog 2 ((2 ^ 52 + m) * 2 ^ k) = 53 + k" by (rule floorlog_scaled) (use m in auto)
    then have u: "ulp_shift (of_nat ((2 ^ 52 + m) * 2 ^ k)) = k"
      by (simp only: ulp_shift_def floor_of_nat nat_int add_diff_cancel_left')
    have "of_nat ((2 ^ 52 + m) * 2 ^ k) / (2 :: rat) ^ k = of_nat (2 ^ 52 + m)" by simp
    then have "raw_mag (of_nat ((2 ^ 52 + m) * 2 ^ k)) = k * 2 ^ 52 + (2 ^ 52 + m)"
      by (simp only: raw_mag_def u round_half_even_of_nat nat_int)
    with Suc sc show ?thesis by (subst n) (simp only: nat.distinct if_False diff_Suc_1, simp)
  qed
qed

lemma round_mag_exact: "n \<le> f64_inf_mag \<Longrightarrow> round_mag (mag_val n) = n"
  by (simp add: round_mag_raw mag_val_def raw_mag_exact)

lemma round_mag_mono: "0 \<le> p \<Longrightarrow> p \<le> q \<Longrightarrow> round_mag p \<le> round_mag q"
  unfolding round_mag_raw by (intro min.mono raw_mag_mono order_refl) auto

lemma round_mag_finite:
  "0 \<le> q \<Longrightarrow> q \<le> mag_val (f64_inf_mag - 1) \<Longrightarrow> round_mag q \<le> f64_inf_mag - 1"
  using round_mag_mono [of q "mag_val (f64_inf_mag - 1)"] by (simp add: round_mag_exact)

lemma is_finite_f64_round: "\<bar>q\<bar> \<le> mag_val (f64_inf_mag - 1) \<Longrightarrow> is_finite (f64_round neg q)"
  using round_mag_finite [of "\<bar>q\<bar>"]
  by (auto simp: is_finite_def f64_round_def f64_inf_mag_def)

lemma f64_val_finite_bound: "is_finite x \<Longrightarrow> \<bar>f64_val x\<bar> \<le> mag_val (f64_inf_mag - 1)"
  by (auto simp: f64_val_def is_finite_def mag_val_le_iff)

lemma round_mag_0 [simp]: "round_mag 0 = 0"
  using round_mag_exact [of 0] by simp

lemma f64_val_round: "0 \<le> q \<Longrightarrow> f64_val (f64_round neg q) = mag_val (round_mag q)"
  by (cases "q = 0") (simp_all add: f64_round_def f64_val_def round_mag_lt)

lemma f64_val_round_nonneg: "0 \<le> q \<Longrightarrow> 0 \<le> f64_val (f64_round neg q)"
  by (simp add: f64_val_round)

lemma f64_val_round_mono: "0 \<le> p \<Longrightarrow> p \<le> q \<Longrightarrow> f64_val (f64_round n p) \<le> f64_val (f64_round n q)"
  by (simp add: f64_val_round mag_val_le_iff round_mag_mono)

lemma f64_val_round_exact:
  assumes "0 \<le> f64_val x" and "is_finite x"
  shows "f64_val (f64_round neg (f64_val x)) = f64_val x"
  using assms round_mag_exact [of "f64_mag x"]
  by (simp add: f64_val_round f64_val_nonneg_mag [of x] is_finite_def)


section \<open>Order of values and conversion to integers\<close>

lemma f64_val_less_iff: "f64_val x < f64_val y \<longleftrightarrow> f64_ord x < f64_ord y"
proof -
  have nn: "0 \<le> mag_val (f64_mag x)" "0 \<le> mag_val (f64_mag y)" by simp_all
  have pos: "0 < mag_val (f64_mag x) \<longleftrightarrow> 0 < f64_mag x" "0 < mag_val (f64_mag y) \<longleftrightarrow> 0 < f64_mag y" by simp_all
  show ?thesis
  proof (cases "f64_neg x"; cases "f64_neg y")
    assume "f64_neg x" "\<not> f64_neg y"
    moreover have "- mag_val (f64_mag x) < mag_val (f64_mag y) \<longleftrightarrow> 0 < f64_mag x \<or> 0 < f64_mag y"
      using nn pos by linarith
    ultimately show ?thesis by (auto simp: f64_val_def f64_ord_def)
  next
    assume "\<not> f64_neg x" "f64_neg y"
    moreover have "\<not> mag_val (f64_mag x) < - mag_val (f64_mag y)" using nn by linarith
    ultimately show ?thesis by (simp add: f64_val_def f64_ord_def)
  qed (simp_all add: f64_val_def f64_ord_def mag_val_less_iff)
qed

lemma mag_val_pow: "e < 972 \<Longrightarrow> mag_val ((1075 + e) * 2 ^ 52) = 2 ^ (52 + e)"
proof -
  have "mag_scaled ((1075 + e) * 2 ^ 52) = 2 ^ 52 * 2 ^ (1074 + e)"
    by (simp add: mag_scaled_def Let_def del: power_numeral)
  then have "mag_scaled ((1075 + e) * 2 ^ 52) = 2 ^ (52 + e) * 2 ^ 1074"
    by (simp only: power_add ac_simps)
  then show ?thesis by (simp add: mag_val_def)
qed

lemma f64_val_pow: "e < 972 \<Longrightarrow> f64_val (f64_round False (2 ^ (52 + e))) = 2 ^ (52 + e)"
proof -
  assume e: "e < 972"
  have "round_mag (mag_val ((1075 + e) * 2 ^ 52)) = (1075 + e) * 2 ^ 52"
    by (rule round_mag_exact) (use e in \<open>simp add: f64_inf_mag_def\<close>)
  then have "mag_val (round_mag (2 ^ (52 + e))) = 2 ^ (52 + e)"
    by (simp only: mag_val_pow [OF e])
  then show ?thesis by (simp add: f64_val_round)
qed

text \<open>The limit the code compares with, \<^verbatim>\<open>u64::MAX as f64\<close>, lies between two powers of two.\<close>

lemma f64_of_u64_max_bounds: "2 ^ 63 \<le> f64_val (f64_of_int (2 ^ 64 - 1))" "f64_val (f64_of_int (2 ^ 64 - 1)) \<le> 2 ^ 64"
proof -
  have "f64_val (f64_round False (2 ^ (52 + 11))) \<le> f64_val (f64_round False (of_int (2 ^ 64 - 1)))"
    by (rule f64_val_round_mono) simp_all
  then show "2 ^ 63 \<le> f64_val (f64_of_int (2 ^ 64 - 1))"
    by (simp only: f64_val_pow f64_of_int_def) simp
  have "f64_val (f64_round False (of_int (2 ^ 64 - 1))) \<le> f64_val (f64_round False (2 ^ (52 + 12)))"
    by (rule f64_val_round_mono) simp_all
  then show "f64_val (f64_of_int (2 ^ 64 - 1)) \<le> 2 ^ 64"
    by (simp only: f64_val_pow f64_of_int_def) simp
qed

lemma f64_as_u64_in_range:
  assumes "is_finite v" "0 \<le> f64_val v" "f64_val v < 2 ^ 64"
  shows "unat (f64_as_u64 v) = nat \<lfloor>f64_val v\<rfloor>"
proof -
  have lt: "\<lfloor>f64_val v\<rfloor> < 2 ^ 64" using assms(3) by (simp add: floor_less_iff)
  then have "f64_as_u64 v = word_of_int \<lfloor>f64_val v\<rfloor>"
    using assms by (simp add: f64_as_u64_def f64_trunc_def is_finite_iff)
  moreover have "0 \<le> \<lfloor>f64_val v\<rfloor>" using assms(2) by simp
  ultimately show ?thesis using lt by (simp add: unat_eq_nat_uint uint_word_of_int)
qed

end
