(* ===== verification/Rust_Str.thy ===== *)
theory Rust_Str
  imports F64
begin

text \<open>
  The parts of \<^verbatim>\<open>str\<close> that the modelled code calls, on UTF-8 byte strings: slicing at
  ASCII delimiters, ASCII case folding, and the \<^verbatim>\<open>FromStr\<close> parsers of integers and
  floats with their grammar and range checks.
\<close>

section \<open>Slicing\<close>

text \<open>\<^verbatim>\<open>split_once(c)\<close>: at the first occurrence of an ASCII character.\<close>

fun split_once :: "char \<Rightarrow> str \<Rightarrow> (str \<times> str) option" where
  "split_once c [] = None"
| "split_once c (x # xs) =
     (if x = c then Some ([], xs)
      else map_option (\<lambda>(a, b). (x # a, b)) (split_once c xs))"

definition starts_with :: "str \<Rightarrow> str \<Rightarrow> bool" where
  "starts_with s p = (take (length p) s = p)"

definition strip_prefix :: "str \<Rightarrow> str \<Rightarrow> str option" where
  "strip_prefix p s = (if starts_with s p then Some (drop (length p) s) else None)"

definition strip_suffix :: "str \<Rightarrow> str \<Rightarrow> str option" where
  "strip_suffix p s = map_option rev (strip_prefix (rev p) (rev s))"

definition byte :: "char \<Rightarrow> nat" where
  "byte c = of_char c"

definition is_ascii_digit :: "char \<Rightarrow> bool" where
  "is_ascii_digit c = (48 \<le> byte c \<and> byte c \<le> 57)"

definition to_ascii_lowercase_char :: "char \<Rightarrow> char" where
  "to_ascii_lowercase_char c = (if 65 \<le> byte c \<and> byte c \<le> 90 then char_of (byte c + 32) else c)"

definition to_ascii_lowercase :: "str \<Rightarrow> str" where
  "to_ascii_lowercase s = map to_ascii_lowercase_char s"

definition eq_ignore_ascii_case :: "str \<Rightarrow> str \<Rightarrow> bool" where
  "eq_ignore_ascii_case a b = (to_ascii_lowercase a = to_ascii_lowercase b)"

section \<open>Number parsers\<close>

definition digit_val :: "char \<Rightarrow> nat" where
  "digit_val c = byte c - 48"

definition digits_val :: "str \<Rightarrow> nat" where
  "digits_val ds = foldl (\<lambda>n c. 10 * n + digit_val c) 0 ds"

definition all_digits :: "str \<Rightarrow> bool" where
  "all_digits ds = (ds \<noteq> [] \<and> list_all is_ascii_digit ds)"

text \<open>An optional leading sign: whether it is a minus, and the rest.\<close>

fun split_sign :: "str \<Rightarrow> bool \<times> str" where
  "split_sign [] = (False, [])"
| "split_sign (c # cs) = (if c = CHR ''-'' then (True, cs) else if c = CHR ''+'' then (False, cs) else (False, c # cs))"

text \<open>\<^verbatim>\<open><i64 as FromStr>::from_str\<close>.\<close>

definition parse_i64 :: "str \<Rightarrow> i64 option" where
  "parse_i64 s = (let (neg, ds) = split_sign s; n = int (digits_val ds); v = (if neg then - n else n) in
     if all_digits ds \<and> - (2 ^ 63) \<le> v \<and> v < 2 ^ 63 then Some (word_of_int v) else None)"

text \<open>\<^verbatim>\<open><u64 as FromStr>::from_str\<close> accepts a leading plus only.\<close>

definition parse_u64 :: "str \<Rightarrow> u64 option" where
  "parse_u64 s = (let ds = (case s of c # cs \<Rightarrow> if c = CHR ''+'' then cs else s | [] \<Rightarrow> []) in
     if all_digits ds \<and> digits_val ds < 2 ^ 64 then Some (word_of_nat (digits_val ds)) else None)"

text \<open>
  \<^verbatim>\<open><f64 as FromStr>::from_str\<close>: an optional sign, then one of the words
  \<^verbatim>\<open>inf\<close>, \<^verbatim>\<open>infinity\<close>, \<^verbatim>\<open>nan\<close> in any case, or a decimal number with at least one
  digit around an optional point and an optional exponent; correctly rounded.
\<close>

definition parse_exponent :: "str \<Rightarrow> int option" where
  "parse_exponent s = (let (neg, ds) = split_sign s; n = int (digits_val ds) in
     if all_digits ds then Some (if neg then - n else n) else None)"

definition pow10 :: "int \<Rightarrow> rat" where
  "pow10 e = (if 0 \<le> e then 10 ^ nat e else 1 / 10 ^ nat (- e))"

definition parse_decimal :: "bool \<Rightarrow> str \<Rightarrow> f64 option" where
  "parse_decimal neg s =
     (let int_part = takeWhile is_ascii_digit s; r1 = dropWhile is_ascii_digit s;
          (frac, r2) = (case r1 of
              c # cs \<Rightarrow> if c = CHR ''.'' then (takeWhile is_ascii_digit cs, dropWhile is_ascii_digit cs)
                        else ([], r1)
            | [] \<Rightarrow> ([], []));
          ex = (case r2 of
              c # cs \<Rightarrow> if c = CHR ''e'' \<or> c = CHR ''E'' then parse_exponent cs else None
            | [] \<Rightarrow> Some 0)
      in if int_part = [] \<and> frac = [] then None
         else case ex of
             None \<Rightarrow> None
           | Some e \<Rightarrow>
               let q = of_nat (digits_val (int_part @ frac)) * pow10 (e - int (length frac))
               in Some (f64_round neg (if neg then - q else q)))"

definition parse_f64 :: "str \<Rightarrow> f64 option" where
  "parse_f64 s = (let (neg, r) = split_sign s; w = to_ascii_lowercase r in
     if w = ''inf'' \<or> w = ''infinity'' then Some (f64_infinity neg)
     else if w = ''nan'' then Some f64_nan
     else parse_decimal neg r)"

section \<open>Facts\<close>

lemma starts_with_iff: "starts_with s p \<longleftrightarrow> (\<exists>r. s = p @ r)"
  by (auto simp: starts_with_def) (metis append_take_drop_id)

lemma strip_prefix_Some: "strip_prefix p s = Some r \<longleftrightarrow> s = p @ r"
  by (auto simp: strip_prefix_def starts_with_def) (metis append_take_drop_id)

lemma strip_suffix_Some: "strip_suffix p s = Some r \<longleftrightarrow> s = r @ p"
proof -
  have "strip_suffix p s = Some r \<longleftrightarrow> strip_prefix (rev p) (rev s) = Some (rev r)"
    by (auto simp: strip_suffix_def)
  also have "\<dots> \<longleftrightarrow> rev s = rev p @ rev r" by (simp add: strip_prefix_Some)
  also have "\<dots> \<longleftrightarrow> s = r @ p" by (metis rev_append rev_rev_ident)
  finally show ?thesis .
qed

lemma split_once_Some: "split_once c s = Some (a, b) \<longleftrightarrow> s = a @ c # b \<and> c \<notin> set a"
proof (induction s arbitrary: a)
  case Nil
  then show ?case by simp
next
  case (Cons x xs)
  then show ?case by (cases a) (auto split: prod.splits)
qed

lemma split_once_None: "split_once c s = None \<longleftrightarrow> c \<notin> set s"
  by (induction s) auto

text \<open>The bytes of a string.\<close>

definition text_bytes :: "str \<Rightarrow> u8 list" where
  "text_bytes s = map (word_of_nat \<circ> byte) s"

end
