(* ===== verification/Otlp.thy ===== *)
theory Otlp
  imports Rust_Str
begin

text \<open>
  The OTLP messages the program receives, with the fields its code reads. The message types are
  generated from the protobuf schema outside the repository; they are plain data here.
\<close>

section \<open>Attribute values\<close>

datatype any_value = AnyValue (av_value: "otlp_value option")
  and otlp_value =
    StringValue str
  | BoolValue bool
  | IntValue i64
  | DoubleValue f64
  | ArrayValue "any_value list"
  | KvlistValue "key_value list"
  | BytesValue "u8 list"
  | StringValueStrindex i32
  and key_value = KeyValue (kv_key: str) (kv_value: "any_value option")

type_synonym resource = "key_value list"   \<comment> \<open>the attributes of a \<^verbatim>\<open>Resource\<close>\<close>

section \<open>Logs\<close>

record log_record =
  lr_time_unix_nano :: u64
  lr_severity_number :: i32
  lr_severity_text :: str
  lr_body :: "any_value option"
  lr_attributes :: "key_value list"
  lr_event_name :: str

record scope_logs =
  sl_scope :: "str option"   \<comment> \<open>the name of the instrumentation scope\<close>
  sl_log_records :: "log_record list"

record resource_logs =
  rl_resource :: "resource option"
  rl_scope_logs :: "scope_logs list"

type_synonym logs_request = "resource_logs list"   \<comment> \<open>\<^verbatim>\<open>ExportLogsServiceRequest\<close>\<close>

section \<open>Traces\<close>

record span_event =
  ev_time_unix_nano :: u64
  ev_name :: str
  ev_attributes :: "key_value list"

record span =
  sp_trace_id :: "u8 list"
  sp_span_id :: "u8 list"
  sp_name :: str
  sp_start_time_unix_nano :: u64
  sp_end_time_unix_nano :: u64
  sp_attributes :: "key_value list"
  sp_events :: "span_event list"
  sp_status :: "i32 option"   \<comment> \<open>the code of the status message\<close>

record scope_spans =
  ss_scope :: "str option"
  ss_spans :: "span list"

record resource_spans =
  rs_resource :: "resource option"
  rs_scope_spans :: "scope_spans list"

type_synonym traces_request = "resource_spans list"   \<comment> \<open>\<^verbatim>\<open>ExportTraceServiceRequest\<close>\<close>

section \<open>Metrics\<close>

datatype number_value = AsDouble f64 | AsInt i64

record number_data_point =
  nd_attributes :: "key_value list"
  nd_value :: "number_value option"
  nd_flags :: u32

record histogram_data_point =
  hd_attributes :: "key_value list"
  hd_count :: u64
  hd_sum :: "f64 option"
  hd_flags :: u32

datatype metric_data =
    Gauge "number_data_point list"
  | Sum (sum_temporality: i32) (sum_points: "number_data_point list")
  | Histogram (hist_temporality: i32) (hist_points: "histogram_data_point list")
  | ExponentialHistogram nat   \<comment> \<open>only the number of data points is read\<close>
  | Summary nat

record metric =
  mt_name :: str
  mt_description :: str
  mt_unit :: str
  mt_data :: "metric_data option"

record scope_metrics =
  sm_scope :: "str option"
  sm_metrics :: "metric list"

record resource_metrics =
  rm_resource :: "resource option"
  rm_scope_metrics :: "scope_metrics list"

type_synonym metrics_request = "resource_metrics list"   \<comment> \<open>\<^verbatim>\<open>ExportMetricsServiceRequest\<close>\<close>

text \<open>
  \<^verbatim>\<open>AggregationTemporality::try_from\<close> on the wire value, and the bit of
  \<^verbatim>\<open>DataPointFlags\<close> that marks a point without a recorded value.
\<close>

datatype aggregation_temporality = Unspecified | Delta | Cumulative

definition temporality_of_i32 :: "i32 \<Rightarrow> aggregation_temporality option" where
  "temporality_of_i32 t =
     (if t = 0 then Some Unspecified else if t = 1 then Some Delta
      else if t = 2 then Some Cumulative else None)"

definition no_recorded_value_mask :: u32 where
  "no_recorded_value_mask = 1"

end
