(* ===== verification/Model_Stats.thy ===== *)
theory Model_Stats
  imports Otlp "HOL-Library.Product_Lexorder"
begin

text \<open>
  The value types of \<^verbatim>\<open>src/src/aggregator.rs\<close>: per-bucket totals (\<^verbatim>\<open>ModelStats\<close>),
  buckets and their serialized keys, per-agent statistics. The lemmas show that a counter is
  added and subtracted with saturation field by field, that costs stay finite and non-negative,
  and that distinct buckets never share a key.
\<close>

section \<open>Names\<close>

definition AGENT_CLAUDE :: str where "AGENT_CLAUDE = ''claude-code''"
definition AGENT_CODEX :: str where "AGENT_CODEX = ''codex''"
definition SERVICE_CLAUDE :: str where "SERVICE_CLAUDE = ''claude-code''"
definition PROVIDER_ANTHROPIC :: str where "PROVIDER_ANTHROPIC = ''anthropic''"
definition PROVIDER_OPENAI :: str where "PROVIDER_OPENAI = ''OpenAI''"
definition UNKNOWN :: str where "UNKNOWN = ''unknown''"

definition is_codex_service :: "str \<Rightarrow> bool" where
  "is_codex_service service = (service \<in> set
     [''codex_cli_rs'', ''codex_exec'', ''codex-app-server'', ''codex_mcp_server'',
      ''Codex Desktop'', ''codex-exec-server''])"

section \<open>Totals of a bucket\<close>

record model_stats =
  request_count :: u64
  input_tokens :: u64
  output_tokens :: u64
  cache_read_tokens :: u64
  cache_creation_tokens :: u64
  reasoning_output_tokens :: u64
  cost_usd :: f64
  duration_ms :: u64

definition default_stats :: model_stats where
  "default_stats = \<lparr>request_count = 0, input_tokens = 0, output_tokens = 0, cache_read_tokens = 0,
     cache_creation_tokens = 0, reasoning_output_tokens = 0, cost_usd = f64_zero, duration_ms = 0\<rparr>"

definition finite_saturating_add_f64 :: "f64 \<Rightarrow> f64 \<Rightarrow> f64" where
  "finite_saturating_add_f64 lhs rhs =
     (let l = (if is_finite lhs \<and> f64_lt f64_zero lhs then lhs else f64_zero);
          r = (if is_finite rhs \<and> f64_lt f64_zero rhs then rhs else f64_zero);
          sum = f64_add l r
      in if is_finite sum then sum else f64_max)"

definition stats_add :: "model_stats \<Rightarrow> model_stats \<Rightarrow> model_stats" where
  "stats_add s t = \<lparr>
     request_count = saturating_add (request_count s) (request_count t),
     input_tokens = saturating_add (input_tokens s) (input_tokens t),
     output_tokens = saturating_add (output_tokens s) (output_tokens t),
     cache_read_tokens = saturating_add (cache_read_tokens s) (cache_read_tokens t),
     cache_creation_tokens = saturating_add (cache_creation_tokens s) (cache_creation_tokens t),
     reasoning_output_tokens = saturating_add (reasoning_output_tokens s) (reasoning_output_tokens t),
     cost_usd = finite_saturating_add_f64 (cost_usd s) (cost_usd t),
     duration_ms = saturating_add (duration_ms s) (duration_ms t)\<rparr>"

text \<open>\<^verbatim>\<open>subtract\<close>, and with it \<^verbatim>\<open>saturating_sub_stats\<close>, which subtracts from a clone.\<close>

definition stats_subtract :: "model_stats \<Rightarrow> model_stats \<Rightarrow> model_stats" where
  "stats_subtract s t = \<lparr>
     request_count = saturating_sub (request_count s) (request_count t),
     input_tokens = saturating_sub (input_tokens s) (input_tokens t),
     output_tokens = saturating_sub (output_tokens s) (output_tokens t),
     cache_read_tokens = saturating_sub (cache_read_tokens s) (cache_read_tokens t),
     cache_creation_tokens = saturating_sub (cache_creation_tokens s) (cache_creation_tokens t),
     reasoning_output_tokens = saturating_sub (reasoning_output_tokens s) (reasoning_output_tokens t),
     cost_usd = f64_maximum (f64_sub (cost_usd s) (cost_usd t)) f64_zero,
     duration_ms = saturating_sub (duration_ms s) (duration_ms t)\<rparr>"

definition has_usage :: "model_stats \<Rightarrow> bool" where
  "has_usage s \<longleftrightarrow> input_tokens s \<noteq> 0 \<or> output_tokens s \<noteq> 0 \<or> cache_read_tokens s \<noteq> 0 \<or>
     cache_creation_tokens s \<noteq> 0 \<or> reasoning_output_tokens s \<noteq> 0 \<or> \<not> f64_eq (cost_usd s) f64_zero"

definition has_any_value :: "model_stats \<Rightarrow> bool" where
  "has_any_value s \<longleftrightarrow> has_usage s \<or> request_count s \<noteq> 0 \<or> duration_ms s \<noteq> 0"

definition saturating_sub_stats :: "model_stats \<Rightarrow> model_stats \<Rightarrow> model_stats" where
  "saturating_sub_stats s t = stats_subtract s t"

section \<open>Buckets\<close>

datatype bucket = Bucket (bk_provider: str) (bk_model: str) (bk_effort: str)

instantiation bucket :: linorder
begin

definition less_eq_bucket :: "bucket \<Rightarrow> bucket \<Rightarrow> bool" where
  "less_eq_bucket a b \<longleftrightarrow> (bk_provider a, bk_model a, bk_effort a) \<le> (bk_provider b, bk_model b, bk_effort b)"

definition less_bucket :: "bucket \<Rightarrow> bucket \<Rightarrow> bool" where
  "less_bucket a b \<longleftrightarrow> (bk_provider a, bk_model a, bk_effort a) < (bk_provider b, bk_model b, bk_effort b)"

instance
  by standard (auto simp: less_eq_bucket_def less_bucket_def bucket.expand)

end

definition non_empty :: "str \<Rightarrow> str" where
  "non_empty s = (if s = [] then UNKNOWN else s)"

definition from_parts :: "str \<Rightarrow> str \<Rightarrow> str \<Rightarrow> bucket" where
  "from_parts p m e = Bucket (non_empty p) (non_empty m) (non_empty e)"

fun escape_bucket_component :: "str \<Rightarrow> str" where
  "escape_bucket_component [] = []"
| "escape_bucket_component (c # cs) =
     (if c = CHR ''%'' then ''%25'' else if c = CHR ''/'' then ''%2F'' else [c])
     @ escape_bucket_component cs"

definition bucket_key :: "bucket \<Rightarrow> str" where
  "bucket_key b = escape_bucket_component (bk_provider b) @ ''/'' @ escape_bucket_component (bk_model b)
     @ ''/'' @ escape_bucket_component (bk_effort b)"

text \<open>\<^verbatim>\<open>BucketStats\<close> keeps the components beside the totals, \<^verbatim>\<open>AgentStats\<close> the map by key.\<close>

record bucket_stats =
  bs_provider :: str
  bs_model :: str
  bs_effort :: str
  bs_stats :: model_stats

definition from_bucket :: "bucket \<Rightarrow> bucket_stats" where
  "from_bucket b = \<lparr>bs_provider = bk_provider b, bs_model = bk_model b, bs_effort = bk_effort b,
     bs_stats = default_stats\<rparr>"

record agent_stats =
  as_total :: model_stats
  as_buckets :: "(str, bucket_stats) omap"

definition default_agent :: agent_stats where
  "default_agent = \<lparr>as_total = default_stats, as_buckets = []\<rparr>"

section \<open>The seven counters, uniformly\<close>

datatype counter = RequestCount | InputTokens | OutputTokens | CacheReadTokens
  | CacheCreationTokens | ReasoningOutputTokens | DurationMs

fun ctr :: "counter \<Rightarrow> model_stats \<Rightarrow> nat" where
  "ctr RequestCount s = unat (request_count s)"
| "ctr InputTokens s = unat (input_tokens s)"
| "ctr OutputTokens s = unat (output_tokens s)"
| "ctr CacheReadTokens s = unat (cache_read_tokens s)"
| "ctr CacheCreationTokens s = unat (cache_creation_tokens s)"
| "ctr ReasoningOutputTokens s = unat (reasoning_output_tokens s)"
| "ctr DurationMs s = unat (duration_ms s)"

abbreviation ctr_max :: nat where
  "ctr_max \<equiv> 2 ^ 64 - 1"

named_theorems ctr_simps "counters after each operation on totals"

lemma ctr_default [ctr_simps, simp]: "ctr c default_stats = 0"
  by (cases c) (simp_all add: default_stats_def)

lemma ctr_add [ctr_simps]: "ctr c (stats_add s t) = min ctr_max (ctr c s + ctr c t)"
  by (cases c) (simp_all add: stats_add_def unat_saturating_add)

lemma ctr_subtract [ctr_simps]: "ctr c (stats_subtract s t) = ctr c s - ctr c t"
  by (cases c) (simp_all add: stats_subtract_def unat_saturating_sub)

lemma ctr_le_max: "ctr c s \<le> ctr_max"
  by (cases c) (simp_all add: unat_le_2_64)

lemma ctr_no_value: "\<not> has_any_value s \<Longrightarrow> ctr c s = 0"
  by (cases c) (auto simp: has_any_value_def has_usage_def)

lemma ctr_usage_only: "request_count s = 0 \<Longrightarrow> duration_ms s = 0 \<Longrightarrow> \<not> has_usage s \<Longrightarrow> ctr c s = 0"
  by (rule ctr_no_value) (simp add: has_any_value_def)

section \<open>Bucket keys\<close>

lemma slash_notin_escape: "CHR ''/'' \<notin> set (escape_bucket_component s)"
  by (induction s) auto

lemma escape_inject: "escape_bucket_component s = escape_bucket_component t \<longleftrightarrow> s = t"
proof (induction s arbitrary: t)
  case Nil
  then show ?case by (cases t) auto
next
  case (Cons c cs)
  then show ?case by (cases t) (auto split: if_splits)
qed

text \<open>Two texts without the delimiter, each followed by it, are read back unambiguously.\<close>

lemma delimited_inject:
  "x \<notin> set a \<Longrightarrow> x \<notin> set b \<Longrightarrow> a @ x # r = b @ x # s \<longleftrightarrow> a = b \<and> r = s"
proof (induction a arbitrary: b)
  case Nil
  then show ?case by (cases b) auto
next
  case (Cons y ys)
  then show ?case by (cases b) auto
qed

lemma bucket_key_eq_iff [simp]: "bucket_key a = bucket_key b \<longleftrightarrow> a = b"
  by (auto simp: bucket_key_def delimited_inject slash_notin_escape escape_inject bucket.expand)

definition model_prefix :: "str \<Rightarrow> str \<Rightarrow> str" where
  "model_prefix p m = escape_bucket_component p @ ''/'' @ escape_bucket_component m @ ''/''"

lemma starts_with_model_prefix:
  "starts_with (bucket_key b) (model_prefix p m) \<longleftrightarrow> bk_provider b = p \<and> bk_model b = m"
  by (auto simp: starts_with_iff bucket_key_def model_prefix_def delimited_inject
      slash_notin_escape escape_inject)

section \<open>Costs\<close>

definition cost_ok :: "model_stats \<Rightarrow> bool" where
  "cost_ok s \<longleftrightarrow> is_finite (cost_usd s) \<and> 0 \<le> f64_val (cost_usd s)"

lemma f64_lt_zero_iff: "is_finite x \<Longrightarrow> f64_lt f64_zero x \<longleftrightarrow> 0 < f64_val x"
  by (auto simp: f64_lt_def f64_zero_def f64_val_pos_iff is_finite_iff)

lemma f64_zero_facts [simp]: "is_finite f64_zero" "f64_val f64_zero = 0"
  by (simp_all add: f64_zero_def)

lemma f64_add_finite:
  "is_finite x \<Longrightarrow> is_finite y \<Longrightarrow>
     f64_add x y = f64_round (f64_neg x \<and> f64_neg y) (f64_val x + f64_val y)"
  by (auto simp: f64_add_def is_finite_iff)

lemma is_finite_f64_max: "is_finite f64_max"
  by (simp add: is_finite_def f64_inf_mag_def)

lemma f64_val_f64_max: "f64_val f64_max = mag_val (f64_inf_mag - 1)"
  by (simp add: f64_val_def)

lemma finite_saturating_add_ok:
  "is_finite (finite_saturating_add_f64 x y) \<and> 0 \<le> f64_val (finite_saturating_add_f64 x y)"
proof -
  define l r where "l = (if is_finite x \<and> f64_lt f64_zero x then x else f64_zero)"
    and "r = (if is_finite y \<and> f64_lt f64_zero y then y else f64_zero)"
  have l: "is_finite l \<and> 0 \<le> f64_val l" and r: "is_finite r \<and> 0 \<le> f64_val r"
    by (auto simp: l_def r_def f64_lt_zero_iff)
  have "0 \<le> f64_val (f64_add l r)"
    using l r by (simp add: f64_add_finite f64_val_round_nonneg)
  then show ?thesis
    by (simp add: finite_saturating_add_f64_def Let_def is_finite_f64_max f64_val_f64_max
        flip: l_def r_def)
qed

lemma cost_ok_default [simp]: "cost_ok default_stats"
  by (simp add: cost_ok_def default_stats_def f64_zero_def)

lemma cost_ok_add [simp]: "cost_ok (stats_add s t)"
  using finite_saturating_add_ok by (simp add: cost_ok_def stats_add_def)

lemma f64_val_negate: "f64_val (f64_negate x) = - f64_val x" "is_finite (f64_negate x) = is_finite x"
  using f64_mag_lt [of x] by (simp_all add: f64_negate_def f64_val_def is_finite_def)

lemma is_finite_f64_sub:
  assumes "is_finite x" "0 \<le> f64_val x" "is_finite y" "0 \<le> f64_val y"
  shows "is_finite (f64_sub x y)"
proof -
  have "\<bar>f64_val x - f64_val y\<bar> \<le> mag_val (f64_inf_mag - 1)"
    using assms f64_val_finite_bound [of x] f64_val_finite_bound [of y] by (simp add: abs_le_iff)
  then show ?thesis
    using assms by (simp add: f64_sub_def f64_add_finite f64_val_negate is_finite_f64_round)
qed

lemma cost_ok_subtract: "cost_ok s \<Longrightarrow> cost_ok t \<Longrightarrow> cost_ok (stats_subtract s t)"
proof -
  assume ok: "cost_ok s" "cost_ok t"
  let ?d = "f64_sub (cost_usd s) (cost_usd t)"
  have fin: "is_finite ?d" using ok by (simp add: cost_ok_def is_finite_f64_sub)
  have "is_finite (f64_maximum ?d f64_zero) \<and> 0 \<le> f64_val (f64_maximum ?d f64_zero)"
    using fin f64_val_less_0_iff [of ?d]
    by (auto simp: f64_maximum_def f64_lt_def f64_zero_def is_finite_iff not_less)
  then show ?thesis by (simp add: cost_ok_def stats_subtract_def)
qed

text \<open>Adding a sample never lowers an accumulated cost.\<close>

lemma finite_saturating_add_mono:
  assumes "is_finite x" and "0 \<le> f64_val x"
  shows "f64_val x \<le> f64_val (finite_saturating_add_f64 x y)"
proof -
  define l r where "l = (if is_finite x \<and> f64_lt f64_zero x then x else f64_zero)"
    and "r = (if is_finite y \<and> f64_lt f64_zero y then y else f64_zero)"
  have l: "is_finite l \<and> f64_val l = f64_val x" and r: "is_finite r \<and> 0 \<le> f64_val r"
    using assms by (auto simp: l_def r_def f64_lt_zero_iff)
  have "f64_val x = f64_val (f64_round (f64_neg l \<and> f64_neg r) (f64_val x))"
    using assms by (simp add: f64_val_round_exact)
  also have "\<dots> \<le> f64_val (f64_add l r)"
    using l r assms by (simp add: f64_add_finite f64_val_round_mono)
  finally have le: "f64_val x \<le> f64_val (f64_add l r)" .
  have "f64_val x \<le> f64_val f64_max"
    using f64_val_finite_bound [OF assms(1)] by (simp add: f64_val_f64_max)
  with le show ?thesis by (simp add: finite_saturating_add_f64_def Let_def flip: l_def r_def)
qed

end
