(* ===== verification/Aggregator.thy ===== *)
theory Aggregator
  imports Model_Stats
begin

unbundle bit_operations_syntax

text \<open>
  \<^verbatim>\<open>src/src/aggregator.rs\<close>: the running usage totals of Claude Code and Codex. The state is
  \<^verbatim>\<open>AggregatorInner\<close>; every function of the file is one definition, from the attribute
  readers up to \<^verbatim>\<open>ingest_logs\<close>, \<^verbatim>\<open>ingest_traces\<close>, \<^verbatim>\<open>ingest_metrics\<close> and
  \<^verbatim>\<open>snapshot\<close>. Operations that the code applies under the write lock are functions from
  the state to the new state (and a result). The wall clock is read once per recorded sample; the
  readings are a field of the state.
\<close>

section \<open>State\<close>

type_synonym time = int   \<comment> \<open>nanoseconds since the Unix epoch\<close>

record codex_session =
  cs_conversation_id :: str
  cs_provider :: str
  cs_model :: str
  cs_effort :: str
  cs_provider_confirmed :: bool

datatype codex_token_source = CodexLogs | CodexMetrics

datatype claude_usage_key = ClaudeUsageKey (uk_model: str) (uk_effort: str)

datatype claude_usage_source = ClaudeLogs | ClaudeMetrics

record aggregator =
  started_at :: time
  last_updated :: "time option"
  agents :: "(str, agent_stats) omap"
  claude_canonical_models :: "str \<rightharpoonup> str"
  claude_metric_models :: "str set"
  claude_usage_sources :: "claude_usage_key \<rightharpoonup> claude_usage_source"
  claude_metric_usage :: "claude_usage_key \<rightharpoonup> (bucket, model_stats) omap"
  codex_last_sessions :: "str \<rightharpoonup> codex_session"
  codex_sessions :: "str \<rightharpoonup> codex_session"
  codex_token_sources :: "str \<rightharpoonup> codex_token_source"
  codex_pending_sse :: "(str, (bucket, model_stats) omap) omap"
  clock :: "nat \<Rightarrow> time"   \<comment> \<open>the successive readings of the wall clock\<close>
  clock_reads :: nat

definition aggregator_new :: "(nat \<Rightarrow> time) \<Rightarrow> aggregator" where
  "aggregator_new clk = \<lparr>started_at = clk 0, last_updated = None, agents = [],
     claude_canonical_models = Map.empty, claude_metric_models = {},
     claude_usage_sources = Map.empty, claude_metric_usage = Map.empty,
     codex_last_sessions = Map.empty, codex_sessions = Map.empty,
     codex_token_sources = Map.empty, codex_pending_sse = [], clock = clk, clock_reads = 1\<rparr>"

section \<open>Reading attributes and numbers\<close>

definition attr_value :: "key_value list \<Rightarrow> str \<Rightarrow> otlp_value option" where
  "attr_value attrs key = Option.bind (List.find (\<lambda>kv. kv_key kv = key) attrs)
     (\<lambda>kv. Option.bind (kv_value kv) av_value)"

definition service_name :: "resource option \<Rightarrow> str" where
  "service_name r = (case r of None \<Rightarrow> '''' | Some attrs \<Rightarrow>
     (case attr_value attrs ''service.name'' of Some (StringValue s) \<Rightarrow> s | _ \<Rightarrow> ''''))"

definition string_attr :: "key_value list \<Rightarrow> str \<Rightarrow> str option" where
  "string_attr attrs key = (case attr_value attrs key of Some (StringValue s) \<Rightarrow> Some s | _ \<Rightarrow> None)"

definition int_attr :: "key_value list \<Rightarrow> str \<Rightarrow> i64 option" where
  "int_attr attrs key = (case attr_value attrs key of
       Some (IntValue i) \<Rightarrow> Some i
     | Some (DoubleValue d) \<Rightarrow>
         if is_finite d \<and> f64_le (f64_of_int (- (2 ^ 63))) d \<and> f64_lt d (f64_of_int (2 ^ 63 - 1))
         then Some (f64_as_i64 d) else None
     | Some (StringValue s) \<Rightarrow> parse_i64 s
     | _ \<Rightarrow> None)"

definition f64_attr :: "key_value list \<Rightarrow> str \<Rightarrow> f64 option" where
  "f64_attr attrs key = (case attr_value attrs key of
       Some (DoubleValue d) \<Rightarrow> if is_finite d then Some d else None
     | Some (IntValue i) \<Rightarrow> Some (f64_of_int (sint i))
     | Some (StringValue s) \<Rightarrow> (case parse_f64 s of
           Some v \<Rightarrow> if is_finite v then Some v else None
         | None \<Rightarrow> None)
     | _ \<Rightarrow> None)"

text \<open>\<^verbatim>\<open>i.max(0) as u64\<close>.\<close>

definition i64_max_0 :: "i64 \<Rightarrow> u64" where
  "i64_max_0 i = (if sint i < 0 then 0 else i)"

definition u64_attr :: "key_value list \<Rightarrow> str \<Rightarrow> u64" where
  "u64_attr attrs key = i64_max_0 (case int_attr attrs key of None \<Rightarrow> 0 | Some i \<Rightarrow> i)"

definition finite_u64_from_f64 :: "f64 \<Rightarrow> u64" where
  "finite_u64_from_f64 v =
     (if is_finite v \<and> f64_le f64_zero v \<and> f64_lt v (f64_of_int (2 ^ 64 - 1))
      then f64_as_u64 v else 0)"

definition number_value_as_u64 :: "number_data_point \<Rightarrow> u64" where
  "number_value_as_u64 dp =
     (if nd_flags dp AND no_recorded_value_mask \<noteq> 0 then 0
      else case nd_value dp of
          Some (AsInt i) \<Rightarrow> i64_max_0 i
        | Some (AsDouble d) \<Rightarrow> finite_u64_from_f64 d
        | None \<Rightarrow> 0)"

definition number_value_as_f64 :: "number_data_point \<Rightarrow> f64" where
  "number_value_as_f64 dp =
     (if nd_flags dp AND no_recorded_value_mask \<noteq> 0 then f64_zero
      else case nd_value dp of
          Some (AsDouble d) \<Rightarrow> if is_finite d then f64_maximum d f64_zero else f64_zero
        | Some (AsInt i) \<Rightarrow> f64_of_int (max (sint i) 0)
        | None \<Rightarrow> f64_zero)"

definition histogram_sum_as_u64 :: "histogram_data_point \<Rightarrow> u64" where
  "histogram_sum_as_u64 dp =
     (if hd_flags dp AND no_recorded_value_mask \<noteq> 0 then 0
      else case hd_sum dp of Some s \<Rightarrow> finite_u64_from_f64 s | None \<Rightarrow> 0)"

text \<open>Only the delta temporality is accepted (the others are logged and dropped).\<close>

definition is_delta_temporality :: "i32 \<Rightarrow> bool" where
  "is_delta_temporality t = (case temporality_of_i32 t of
       None \<Rightarrow> False
     | Some Delta \<Rightarrow> True
     | Some Cumulative \<Rightarrow> False
     | Some Unspecified \<Rightarrow> False)"

definition otel_event_matches :: "str \<Rightarrow> key_value list \<Rightarrow> str \<Rightarrow> bool" where
  "otel_event_matches name attrs expected \<longleftrightarrow>
     name = expected \<or> string_attr attrs ''event.name'' = Some expected"

section \<open>Recording into buckets\<close>

definition touch :: "aggregator \<Rightarrow> aggregator" where
  "touch g = g\<lparr>last_updated := Some (clock g (clock_reads g)), clock_reads := Suc (clock_reads g)\<rparr>"

text \<open>\<^verbatim>\<open>buckets.entry(b.key()).or_insert_with(|| from_bucket(b)).stats.add(s)\<close>.\<close>

definition bucket_add ::
    "bucket \<Rightarrow> model_stats \<Rightarrow> (str, bucket_stats) omap \<Rightarrow> (str, bucket_stats) omap" where
  "bucket_add b s = om_entry (bucket_key b) (from_bucket b)
     (\<lambda>e. e\<lparr>bs_stats := stats_add (bs_stats e) s\<rparr>)"

definition agent_record :: "bucket \<Rightarrow> model_stats \<Rightarrow> agent_stats \<Rightarrow> agent_stats" where
  "agent_record b s a = a\<lparr>as_total := stats_add (as_total a) s,
     as_buckets := bucket_add b s (as_buckets a)\<rparr>"

definition record_into :: "aggregator \<Rightarrow> str \<Rightarrow> bucket \<Rightarrow> model_stats \<Rightarrow> aggregator" where
  "record_into g agent b s = (let g = touch g in
     g\<lparr>agents := om_entry agent default_agent (agent_record b s) (agents g)\<rparr>)"

text \<open>\<^verbatim>\<open>m.entry(b).or_default().add(s)\<close>, on the maps that hold plain totals.\<close>

definition stats_entry :: "bucket \<Rightarrow> model_stats \<Rightarrow> (bucket, model_stats) omap \<Rightarrow> (bucket, model_stats) omap" where
  "stats_entry b s = om_entry b default_stats (\<lambda>t. stats_add t s)"

text \<open>Subtract from the entry of a bucket, and drop an entry that holds no value any more.\<close>

definition bucket_subtract ::
    "str \<Rightarrow> model_stats \<Rightarrow> (str, bucket_stats) omap \<Rightarrow> (str, bucket_stats) omap" where
  "bucket_subtract key s bs = (case map_of bs key of
       None \<Rightarrow> bs
     | Some e \<Rightarrow> let e' = e\<lparr>bs_stats := stats_subtract (bs_stats e) s\<rparr> in
         if \<not> has_any_value (bs_stats e') then om_del key bs else om_put key e' bs)"

definition subtract_from :: "aggregator \<Rightarrow> str \<Rightarrow> bucket \<Rightarrow> model_stats \<Rightarrow> aggregator" where
  "subtract_from g agent b s = (case map_of (agents g) agent of
       None \<Rightarrow> g
     | Some a \<Rightarrow> g\<lparr>agents := om_put agent
         (a\<lparr>as_total := stats_subtract (as_total a) s,
            as_buckets := bucket_subtract (bucket_key b) s (as_buckets a)\<rparr>) (agents g)\<rparr>)"

section \<open>Claude: logs and metrics describe the same usage\<close>

definition bare_model :: "str \<Rightarrow> str" where
  "bare_model full = (case split_once (CHR ''['') full of Some (bare, _) \<Rightarrow> bare | None \<Rightarrow> full)"

definition claude_usage_source_key :: "str \<Rightarrow> str \<Rightarrow> claude_usage_key" where
  "claude_usage_source_key m e = ClaudeUsageKey (non_empty (bare_model m)) (non_empty e)"

definition bucket_source_key :: "bucket \<Rightarrow> claude_usage_key" where
  "bucket_source_key b = claude_usage_source_key (bk_model b) (bk_effort b)"

definition subtract_all :: "(bucket, model_stats) omap \<Rightarrow> aggregator \<Rightarrow> aggregator" where
  "subtract_all per_bucket g = fold (\<lambda>(b, s) g. subtract_from g AGENT_CLAUDE b s) per_bucket g"

definition record_claude_log_usage :: "aggregator \<Rightarrow> bucket \<Rightarrow> model_stats \<Rightarrow> aggregator" where
  "record_claude_log_usage g b s =
     (if \<not> has_usage s then g
      else let key = bucket_source_key b;
               g = (if claude_usage_sources g key = Some ClaudeMetrics then
                      (case claude_metric_usage g key of
                         None \<Rightarrow> g
                       | Some per_bucket \<Rightarrow> subtract_all per_bucket
                           (g\<lparr>claude_metric_usage := (claude_metric_usage g)(key := None)\<rparr>))
                    else g);
               g = record_into g AGENT_CLAUDE b s
           in g\<lparr>claude_usage_sources := (claude_usage_sources g)(key \<mapsto> ClaudeLogs)\<rparr>)"

definition record_claude_metric_usage :: "aggregator \<Rightarrow> bucket \<Rightarrow> model_stats \<Rightarrow> aggregator \<times> bool" where
  "record_claude_metric_usage g b s =
     (if \<not> has_usage s then (g, False)
      else let key = bucket_source_key b in
        if claude_usage_sources g key = Some ClaudeLogs then (g, False)
        else let g = record_into g AGENT_CLAUDE b s;
                 ledger = (case claude_metric_usage g key of None \<Rightarrow> [] | Some m \<Rightarrow> m)
             in (g\<lparr>claude_usage_sources := (claude_usage_sources g)(key \<mapsto> ClaudeMetrics),
                   claude_metric_usage := (claude_metric_usage g)
                     (key \<mapsto> stats_entry b s ledger)\<rparr>, True))"

text \<open>
  The buckets of a bare model name are the contiguous range of keys with its prefix; each is
  removed and added to the bucket of the full name.
\<close>

definition bare_keys :: "agent_stats \<Rightarrow> str \<Rightarrow> str list" where
  "bare_keys a bare = (let prefix = model_prefix PROVIDER_ANTHROPIC bare in
     map fst (takeWhile (\<lambda>e. starts_with (fst e) prefix) (om_range_from prefix (as_buckets a))))"

definition merge_bare_key :: "str \<Rightarrow> str \<Rightarrow> (str, bucket_stats) omap \<Rightarrow> (str, bucket_stats) omap" where
  "merge_bare_key full key bs = (case map_of bs key of
       None \<Rightarrow> bs
     | Some e \<Rightarrow> let fb = from_parts (bs_provider e) full (bs_effort e) in
         bucket_add fb (bs_stats e) (om_del key bs))"

definition merge_bare_into_full :: "str \<Rightarrow> str \<Rightarrow> agent_stats \<Rightarrow> agent_stats" where
  "merge_bare_into_full bare full a =
     a\<lparr>as_buckets := fold (merge_bare_key full) (bare_keys a bare) (as_buckets a)\<rparr>"

definition register_canonical_claude_model :: "aggregator \<Rightarrow> str \<Rightarrow> aggregator" where
  "register_canonical_claude_model g full =
     (let g = (if full \<noteq> [] then g\<lparr>claude_metric_models := insert full (claude_metric_models g)\<rparr> else g);
          bare = bare_model full
      in if bare = [] \<or> bare = full then
           (if full \<noteq> [] \<and> claude_canonical_models g full = None
            then g\<lparr>claude_canonical_models := (claude_canonical_models g)(full \<mapsto> full)\<rparr> else g)
         else if bare \<in> claude_metric_models g then g
         else if claude_canonical_models g bare = Some full then g
         else let g = g\<lparr>claude_canonical_models := (claude_canonical_models g)(bare \<mapsto> full)\<rparr>
              in (case map_of (agents g) AGENT_CLAUDE of
                    None \<Rightarrow> g
                  | Some a \<Rightarrow> g\<lparr>agents := om_put AGENT_CLAUDE (merge_bare_into_full bare full a) (agents g)\<rparr>))"

definition canonical_claude_model :: "aggregator \<Rightarrow> str \<Rightarrow> str" where
  "canonical_claude_model g raw =
     (if raw \<in> claude_metric_models g then raw
      else case claude_canonical_models g raw of Some full \<Rightarrow> full | None \<Rightarrow> raw)"

definition str_or_empty :: "str option \<Rightarrow> str" where
  "str_or_empty v = (case v of None \<Rightarrow> '''' | Some s \<Rightarrow> s)"

definition claude_request_stats :: "key_value list \<Rightarrow> model_stats" where
  "claude_request_stats attrs = default_stats\<lparr>request_count := 1,
     duration_ms := i64_max_0 (case int_attr attrs ''duration_ms'' of None \<Rightarrow> 0 | Some i \<Rightarrow> i)\<rparr>"

definition claude_usage_stats :: "key_value list \<Rightarrow> model_stats" where
  "claude_usage_stats attrs = default_stats\<lparr>
     input_tokens := u64_attr attrs ''input_tokens'',
     output_tokens := u64_attr attrs ''output_tokens'',
     cache_read_tokens := u64_attr attrs ''cache_read_tokens'',
     cache_creation_tokens := u64_attr attrs ''cache_creation_tokens'',
     cost_usd := f64_maximum (case f64_attr attrs ''cost_usd'' of None \<Rightarrow> f64_zero | Some c \<Rightarrow> c) f64_zero\<rparr>"

definition extract_claude_api_request_meta ::
    "aggregator \<Rightarrow> log_record \<Rightarrow> (bucket \<times> model_stats \<times> model_stats) option" where
  "extract_claude_api_request_meta g lr =
     (case Option.bind (lr_body lr) av_value of
        Some (StringValue body) \<Rightarrow>
          if body \<noteq> ''claude_code.api_request'' then None
          else let attrs = lr_attributes lr;
                   m = canonical_claude_model g (str_or_empty (string_attr attrs ''model''));
                   e = str_or_empty (string_attr attrs ''effort'')
               in Some (from_parts PROVIDER_ANTHROPIC m e,
                        claude_request_stats attrs, claude_usage_stats attrs)
      | _ \<Rightarrow> None)"

definition claude_metric_model :: "aggregator \<Rightarrow> key_value list \<Rightarrow> aggregator \<times> str" where
  "claude_metric_model g attrs = (let m = non_empty (str_or_empty (string_attr attrs ''model''))
     in (register_canonical_claude_model g m, m))"

text \<open>One data point of \<^verbatim>\<open>claude_code.token.usage\<close>; an unknown type is skipped.\<close>

definition claude_token_stats :: "str \<Rightarrow> u64 \<Rightarrow> model_stats option" where
  "claude_token_stats typ v =
     (if typ = ''input'' then Some (default_stats\<lparr>input_tokens := v\<rparr>)
      else if typ = ''output'' then Some (default_stats\<lparr>output_tokens := v\<rparr>)
      else if typ = ''cacheRead'' then Some (default_stats\<lparr>cache_read_tokens := v\<rparr>)
      else if typ = ''cacheCreation'' then Some (default_stats\<lparr>cache_creation_tokens := v\<rparr>)
      else None)"

definition claude_token_point :: "number_data_point \<Rightarrow> aggregator \<times> nat \<Rightarrow> aggregator \<times> nat" where
  "claude_token_point dp st = (let (g, hits) = st;
       (g, m) = claude_metric_model g (nd_attributes dp);
       e = str_or_empty (string_attr (nd_attributes dp) ''effort'');
       typ = str_or_empty (string_attr (nd_attributes dp) ''type'')
     in case claude_token_stats typ (number_value_as_u64 dp) of
          None \<Rightarrow> (g, hits)
        | Some s \<Rightarrow> let (g, recorded) = record_claude_metric_usage g (from_parts PROVIDER_ANTHROPIC m e) s
                    in (g, if recorded then Suc hits else hits))"

definition ingest_claude_token :: "aggregator \<Rightarrow> metric \<Rightarrow> aggregator \<times> nat" where
  "ingest_claude_token g mt = (case mt_data mt of
       Some (Sum t points) \<Rightarrow>
         if \<not> is_delta_temporality t then (g, 0) else fold claude_token_point points (g, 0)
     | _ \<Rightarrow> (g, 0))"

definition claude_cost_point :: "number_data_point \<Rightarrow> aggregator \<times> nat \<Rightarrow> aggregator \<times> nat" where
  "claude_cost_point dp st = (let (g, hits) = st;
       (g, m) = claude_metric_model g (nd_attributes dp);
       e = str_or_empty (string_attr (nd_attributes dp) ''effort'');
       s = default_stats\<lparr>cost_usd := number_value_as_f64 dp\<rparr>;
       (g, recorded) = record_claude_metric_usage g (from_parts PROVIDER_ANTHROPIC m e) s
     in (g, if recorded then Suc hits else hits))"

definition ingest_claude_cost :: "aggregator \<Rightarrow> metric \<Rightarrow> aggregator \<times> nat" where
  "ingest_claude_cost g mt = (case mt_data mt of
       Some (Sum t points) \<Rightarrow>
         if \<not> is_delta_temporality t then (g, 0) else fold claude_cost_point points (g, 0)
     | _ \<Rightarrow> (g, 0))"

section \<open>Codex: sessions\<close>

definition extract_session_from_attrs :: "key_value list \<Rightarrow> codex_session option" where
  "extract_session_from_attrs attrs =
     (let cid = str_or_empty (string_attr attrs ''conversation.id'');
          provider_attr = (case string_attr attrs ''provider_name'' of
              Some p \<Rightarrow> if p \<noteq> [] then Some p else None | None \<Rightarrow> None);
          p = (case provider_attr of Some p \<Rightarrow> p | None \<Rightarrow> PROVIDER_OPENAI);
          m = str_or_empty (string_attr attrs ''model'');
          e = str_or_empty (string_attr attrs ''reasoning_effort'')
      in if cid = [] \<and> m = [] \<and> e = [] then None
         else Some \<lparr>cs_conversation_id = cid, cs_provider = p, cs_model = m, cs_effort = e,
                    cs_provider_confirmed = (provider_attr \<noteq> None)\<rparr>)"

definition extract_codex_conversation_starts :: "log_record \<Rightarrow> codex_session option" where
  "extract_codex_conversation_starts lr =
     (let body_matches =
            (Option.bind (lr_body lr) av_value = Some (StringValue ''codex.conversation_starts''));
          event_name_matches =
            otel_event_matches (lr_event_name lr) (lr_attributes lr) ''codex.conversation_starts''
      in if \<not> body_matches \<and> \<not> event_name_matches then None
         else extract_session_from_attrs (lr_attributes lr))"

definition codex_last_session :: "aggregator \<Rightarrow> str \<Rightarrow> codex_session option" where
  "codex_last_session g service = codex_last_sessions g service"

definition codex_provider_from_session :: "codex_session option \<Rightarrow> str" where
  "codex_provider_from_session s = (case s of Some s \<Rightarrow> cs_provider s | None \<Rightarrow> PROVIDER_OPENAI)"

definition codex_effort_from_session :: "codex_session option \<Rightarrow> str" where
  "codex_effort_from_session s = (case s of Some s \<Rightarrow> cs_effort s | None \<Rightarrow> '''')"

definition codex_provider :: "aggregator \<Rightarrow> str \<Rightarrow> str" where
  "codex_provider g service = codex_provider_from_session (codex_last_session g service)"

definition codex_effort :: "aggregator \<Rightarrow> str \<Rightarrow> str" where
  "codex_effort g service = codex_effort_from_session (codex_last_session g service)"

definition codex_session_for_attrs :: "aggregator \<Rightarrow> key_value list \<Rightarrow> codex_session option" where
  "codex_session_for_attrs g attrs = (case string_attr attrs ''conversation.id'' of
       None \<Rightarrow> None
     | Some cid \<Rightarrow> if cid = [] then None else codex_sessions g cid)"

definition codex_token_source_key :: "str \<Rightarrow> str" where
  "codex_token_source_key m = non_empty m"

section \<open>Codex: completed responses\<close>

record codex_sse_extraction =
  se_bucket :: bucket
  se_stats :: model_stats
  se_pending_conversation_id :: "str option"

definition filter_non_empty :: "str option \<Rightarrow> str option" where
  "filter_non_empty v = (case v of Some s \<Rightarrow> if s \<noteq> [] then Some s else None | None \<Rightarrow> None)"

definition codex_sse_stats :: "key_value list \<Rightarrow> model_stats" where
  "codex_sse_stats attrs = default_stats\<lparr>
     input_tokens := u64_attr attrs ''input_token_count'',
     output_tokens := u64_attr attrs ''output_token_count'',
     cache_read_tokens := u64_attr attrs ''cached_token_count'',
     cache_creation_tokens := u64_attr attrs ''cache_write_token_count'',
     reasoning_output_tokens := u64_attr attrs ''reasoning_token_count''\<rparr>"

definition extract_codex_sse_response_completed ::
    "aggregator \<Rightarrow> str \<Rightarrow> log_record \<Rightarrow> codex_sse_extraction option" where
  "extract_codex_sse_response_completed g service lr =
     (let attrs = lr_attributes lr in
      if string_attr attrs ''event.name'' \<noteq> Some ''codex.sse_event'' \<or>
         string_attr attrs ''event.kind'' \<noteq> Some ''response.completed'' then None
      else
        let s = codex_sse_stats attrs;
            tool = u64_attr attrs ''tool_token_count'';
            rest_zero = (output_tokens s = 0 \<and> cache_read_tokens s = 0 \<and>
                         cache_creation_tokens s = 0 \<and> reasoning_output_tokens s = 0)
        in if input_tokens s \<noteq> 0 \<and> input_tokens s = tool \<and> rest_zero then None
           else if input_tokens s = 0 \<and> rest_zero then None
           else
             let cid = string_attr attrs ''conversation.id'';
                 has_cid = (case cid of Some c \<Rightarrow> c \<noteq> [] | None \<Rightarrow> False);
                 session = (if has_cid then codex_session_for_attrs g attrs
                            else codex_last_session g service);
                 m = (case filter_non_empty (string_attr attrs ''model'') of
                        Some m \<Rightarrow> m
                      | None \<Rightarrow> (case filter_non_empty (string_attr attrs ''slug'') of
                          Some m \<Rightarrow> m
                        | None \<Rightarrow> (case session of Some t \<Rightarrow> cs_model t | None \<Rightarrow> '''')));
                 e = (case filter_non_empty (string_attr attrs ''model_reasoning_effort'') of
                        Some e \<Rightarrow> e | None \<Rightarrow> codex_effort_from_session session);
                 b = from_parts (codex_provider_from_session session) m e;
                 unconfirmed = (case session of None \<Rightarrow> True | Some t \<Rightarrow> \<not> cs_provider_confirmed t)
             in Some \<lparr>se_bucket = b, se_stats = s,
                      se_pending_conversation_id =
                        (if has_cid \<and> (unconfirmed \<or> bk_effort b = UNKNOWN) then cid else None)\<rparr>)"

section \<open>Codex: moving provisional usage\<close>

definition move_codex_bucket_stats :: "aggregator \<Rightarrow> bucket \<Rightarrow> bucket \<Rightarrow> model_stats \<Rightarrow> aggregator" where
  "move_codex_bucket_stats g from to s = (case map_of (agents g) AGENT_CODEX of
       None \<Rightarrow> g
     | Some a \<Rightarrow> g\<lparr>agents := om_put AGENT_CODEX
         (a\<lparr>as_buckets := bucket_add to s
              (bucket_subtract (bucket_key from) s (as_buckets a))\<rparr>) (agents g)\<rparr>)"

definition sum_pending_for_bucket :: "aggregator \<Rightarrow> bucket \<Rightarrow> model_stats" where
  "sum_pending_for_bucket g b = fold (\<lambda>s total. stats_add total s)
     (List.map_filter (\<lambda>e. map_of (snd e) b) (codex_pending_sse g)) default_stats"

text \<open>One pending entry of a conversation whose session has arrived.\<close>

definition resolve_pending ::
    "str \<Rightarrow> str \<Rightarrow> bool \<Rightarrow> bucket \<times> model_stats \<Rightarrow>
     aggregator \<times> (bucket, model_stats) omap \<times> bool \<Rightarrow>
     aggregator \<times> (bucket, model_stats) omap \<times> bool" where
  "resolve_pending p e confirmed entry st =
     (let (g, kept, moved) = st;
          (from, pending) = entry;
          resolved = (if bk_effort from = UNKNOWN then non_empty e else bk_effort from);
          to = from_parts p (bk_model from) resolved;
          kept = (if \<not> confirmed \<or> bk_effort to = UNKNOWN
                  then stats_entry to pending kept else kept)
      in if from \<noteq> to then (move_codex_bucket_stats g from to pending, kept, True)
         else (g, kept, moved))"

definition merge_codex_pending_sse ::
    "aggregator \<Rightarrow> str \<Rightarrow> str \<Rightarrow> str \<Rightarrow> str \<Rightarrow> bool \<Rightarrow> aggregator \<times> bool" where
  "merge_codex_pending_sse g p m cid e confirmed =
     (if cid \<noteq> [] then
        (case map_of (codex_pending_sse g) cid of
           None \<Rightarrow> (g, False)
         | Some entries \<Rightarrow>
             let (g, kept, moved) = fold (resolve_pending p e confirmed) entries
                   (g\<lparr>codex_pending_sse := om_del cid (codex_pending_sse g)\<rparr>, [], False);
                 g = (if kept \<noteq> []
                      then g\<lparr>codex_pending_sse := om_put cid kept (codex_pending_sse g)\<rparr> else g)
             in (g, moved))
      else if m = [] \<or> e = [] \<or> e = UNKNOWN then (g, False)
      else
        let from = from_parts p m UNKNOWN; to = from_parts p m e in
        if from = to then (g, False)
        else (case map_of (agents g) AGENT_CODEX of
            None \<Rightarrow> (g, False)
          | Some a \<Rightarrow> (case map_of (as_buckets a) (bucket_key from) of
              None \<Rightarrow> (g, False)
            | Some fs \<Rightarrow>
                let movable = saturating_sub_stats (bs_stats fs) (sum_pending_for_bucket g from)
                in if \<not> has_any_value movable then (g, False)
                   else (move_codex_bucket_stats g from to movable, True))))"

definition inherit_session :: "aggregator \<Rightarrow> codex_session \<Rightarrow> codex_session" where
  "inherit_session g s =
     (if cs_conversation_id s = [] then s
      else case codex_sessions g (cs_conversation_id s) of
          None \<Rightarrow> s
        | Some prev \<Rightarrow>
            let s = (if cs_model s = [] then s\<lparr>cs_model := cs_model prev\<rparr> else s);
                s = (if cs_effort s = [] then s\<lparr>cs_effort := cs_effort prev\<rparr> else s)
            in if \<not> cs_provider_confirmed s \<and> cs_provider_confirmed prev
               then s\<lparr>cs_provider := cs_provider prev, cs_provider_confirmed := True\<rparr> else s)"

definition update_codex_session_with_last ::
    "aggregator \<Rightarrow> str \<Rightarrow> codex_session \<Rightarrow> bool \<Rightarrow> aggregator \<times> bool" where
  "update_codex_session_with_last g service session update_last =
     (let s = inherit_session g session;
          g = (if cs_conversation_id s \<noteq> []
               then g\<lparr>codex_sessions := (codex_sessions g)(cs_conversation_id s \<mapsto> s)\<rparr> else g);
          g = (if update_last
               then g\<lparr>codex_last_sessions := (codex_last_sessions g)(service \<mapsto> s)\<rparr> else g)
      in merge_codex_pending_sse g (cs_provider s) (cs_model s) (cs_conversation_id s)
           (cs_effort s) (cs_provider_confirmed s))"

definition update_codex_session :: "aggregator \<Rightarrow> str \<Rightarrow> codex_session \<Rightarrow> aggregator \<times> bool" where
  "update_codex_session g service session = update_codex_session_with_last g service session True"

definition update_codex_last_effort :: "aggregator \<Rightarrow> str \<Rightarrow> str \<Rightarrow> aggregator \<times> bool" where
  "update_codex_last_effort g service e =
     (let prev = (case codex_last_session g service of
            Some s \<Rightarrow> s
          | None \<Rightarrow> \<lparr>cs_conversation_id = '''', cs_provider = PROVIDER_OPENAI, cs_model = '''',
                      cs_effort = '''', cs_provider_confirmed = False\<rparr>)
      in if cs_effort prev = e then (g, False)
         else let prev = prev\<lparr>cs_effort := e\<rparr>;
                  g = g\<lparr>codex_last_sessions := (codex_last_sessions g)(service \<mapsto> prev)\<rparr>
              in if cs_conversation_id prev = []
                 then merge_codex_pending_sse g (cs_provider prev) (cs_model prev) '''' e
                        (cs_provider_confirmed prev)
                 else (g, False))"

definition update_codex_effort_from_request_attrs ::
    "aggregator \<Rightarrow> str \<Rightarrow> key_value list \<Rightarrow> aggregator \<times> bool" where
  "update_codex_effort_from_request_attrs g service attrs =
     (case string_attr attrs ''codex.request.reasoning_effort'' of
        None \<Rightarrow> (g, False)
      | Some e \<Rightarrow>
          if e = [] then (g, False)
          else (case filter_non_empty (string_attr attrs ''conversation.id'') of
              None \<Rightarrow> update_codex_last_effort g service e
            | Some cid \<Rightarrow>
                let session = (case codex_sessions g cid of
                       Some s \<Rightarrow> s\<lparr>cs_effort := e\<rparr>
                     | None \<Rightarrow> \<lparr>cs_conversation_id = cid, cs_provider = PROVIDER_OPENAI,
                                 cs_model = str_or_empty (string_attr attrs ''model''),
                                 cs_effort = e, cs_provider_confirmed = False\<rparr>);
                    update_last = (case codex_last_session g service of
                       None \<Rightarrow> True
                     | Some prev \<Rightarrow> cs_conversation_id prev = cs_conversation_id session)
                in update_codex_session_with_last g service session update_last))"

section \<open>Codex: metrics\<close>

definition codex_token_stats :: "str \<Rightarrow> u64 \<Rightarrow> model_stats option" where
  "codex_token_stats typ v =
     (if typ = ''input'' then Some (default_stats\<lparr>input_tokens := v\<rparr>)
      else if typ = ''output'' then Some (default_stats\<lparr>output_tokens := v\<rparr>)
      else if typ = ''cached_input'' then Some (default_stats\<lparr>cache_read_tokens := v\<rparr>)
      else if typ = ''cache_write_input'' then Some (default_stats\<lparr>cache_creation_tokens := v\<rparr>)
      else if typ = ''reasoning_output'' then Some (default_stats\<lparr>reasoning_output_tokens := v\<rparr>)
      else None)"

definition codex_token_point :: "str \<Rightarrow> histogram_data_point \<Rightarrow> aggregator \<times> nat \<Rightarrow> aggregator \<times> nat" where
  "codex_token_point service dp st = (let (g, hits) = st;
       m = str_or_empty (string_attr (hd_attributes dp) ''model'');
       key = codex_token_source_key m
     in if codex_token_sources g key = Some CodexLogs then (g, hits)
        else let typ = str_or_empty (string_attr (hd_attributes dp) ''token_type'');
                 p = codex_provider g service;
                 e = codex_effort g service;
                 v = histogram_sum_as_u64 dp
             in case codex_token_stats typ v of
                  None \<Rightarrow> (g, hits)
                | Some s \<Rightarrow>
                    if v = 0 then (g, hits)
                    else let g = record_into g AGENT_CODEX (from_parts p m e) s
                         in (g\<lparr>codex_token_sources := (codex_token_sources g)(key \<mapsto> CodexMetrics)\<rparr>,
                             Suc hits))"

definition ingest_codex_token :: "aggregator \<Rightarrow> str \<Rightarrow> metric \<Rightarrow> aggregator \<times> nat" where
  "ingest_codex_token g service mt = (case mt_data mt of
       Some (Histogram t points) \<Rightarrow>
         if \<not> is_delta_temporality t then (g, 0) else fold (codex_token_point service) points (g, 0)
     | _ \<Rightarrow> (g, 0))"

definition codex_turn_point :: "str \<Rightarrow> number_data_point \<Rightarrow> aggregator \<times> nat \<Rightarrow> aggregator \<times> nat" where
  "codex_turn_point service dp st = (let (g, hits) = st;
       m = str_or_empty (string_attr (nd_attributes dp) ''model'');
       p = codex_provider g service;
       e = codex_effort g service;
       n = number_value_as_u64 dp
     in if n = 0 then (g, hits)
        else (record_into g AGENT_CODEX (from_parts p m e) (default_stats\<lparr>request_count := n\<rparr>), Suc hits))"

definition ingest_codex_turn_count :: "aggregator \<Rightarrow> str \<Rightarrow> metric \<Rightarrow> aggregator \<times> nat" where
  "ingest_codex_turn_count g service mt = (case mt_data mt of
       Some (Sum t points) \<Rightarrow>
         if \<not> is_delta_temporality t then (g, 0) else fold (codex_turn_point service) points (g, 0)
     | _ \<Rightarrow> (g, 0))"

definition codex_duration_point :: "str \<Rightarrow> histogram_data_point \<Rightarrow> aggregator \<times> nat \<Rightarrow> aggregator \<times> nat" where
  "codex_duration_point service dp st = (let (g, hits) = st;
       m = str_or_empty (string_attr (hd_attributes dp) ''model'');
       p = codex_provider g service;
       e = codex_effort g service;
       n = histogram_sum_as_u64 dp
     in if n = 0 then (g, hits)
        else (record_into g AGENT_CODEX (from_parts p m e) (default_stats\<lparr>duration_ms := n\<rparr>), Suc hits))"

definition ingest_codex_duration :: "aggregator \<Rightarrow> str \<Rightarrow> metric \<Rightarrow> aggregator \<times> nat" where
  "ingest_codex_duration g service mt = (case mt_data mt of
       Some (Histogram t points) \<Rightarrow>
         if \<not> is_delta_temporality t then (g, 0) else fold (codex_duration_point service) points (g, 0)
     | _ \<Rightarrow> (g, 0))"

section \<open>Batches\<close>

text \<open>The last two parts of the loop body of \<^verbatim>\<open>ingest_logs\<close>: a Codex session, a Codex response.\<close>

definition ingest_codex_session_log :: "str \<Rightarrow> log_record \<Rightarrow> aggregator \<times> nat \<Rightarrow> aggregator \<times> nat" where
  "ingest_codex_session_log service lr st = (let (g, count) = st in
     if is_codex_service service then
       (case extract_codex_conversation_starts lr of
          None \<Rightarrow> (g, count)
        | Some session \<Rightarrow> let (g, moved) = update_codex_session g service session
                          in (g, if moved then Suc count else count))
     else (g, count))"

definition ingest_codex_sse_log :: "str \<Rightarrow> log_record \<Rightarrow> aggregator \<times> nat \<Rightarrow> aggregator \<times> nat" where
  "ingest_codex_sse_log service lr st = (let (g, count) = st in
     if is_codex_service service then
       (case extract_codex_sse_response_completed g service lr of
          None \<Rightarrow> (g, count)
        | Some x \<Rightarrow>
            let key = codex_token_source_key (bk_model (se_bucket x)) in
            if codex_token_sources g key = Some CodexMetrics then (g, count)
            else let g = record_into g AGENT_CODEX (se_bucket x) (se_stats x);
                     g = (case se_pending_conversation_id x of
                            None \<Rightarrow> g
                          | Some cid \<Rightarrow> g\<lparr>codex_pending_sse := om_entry cid []
                              (stats_entry (se_bucket x) (se_stats x)) (codex_pending_sse g)\<rparr>)
                 in (g\<lparr>codex_token_sources := (codex_token_sources g)(key \<mapsto> CodexLogs)\<rparr>, Suc count))
     else (g, count))"

definition ingest_log_record :: "str \<Rightarrow> log_record \<Rightarrow> aggregator \<times> nat \<Rightarrow> aggregator \<times> nat" where
  "ingest_log_record service lr st = (let (g, count) = st in
     case (if service = SERVICE_CLAUDE then extract_claude_api_request_meta g lr else None) of
       Some (b, request_stats, usage_stats) \<Rightarrow>
         (record_claude_log_usage (record_into g AGENT_CLAUDE b request_stats) b usage_stats, Suc count)
     | None \<Rightarrow> ingest_codex_sse_log service lr (ingest_codex_session_log service lr (g, count)))"

definition ingest_logs :: "aggregator \<Rightarrow> logs_request \<Rightarrow> aggregator \<times> nat" where
  "ingest_logs g req = fold (\<lambda>rl. fold (\<lambda>sl. fold (ingest_log_record (service_name (rl_resource rl)))
     (sl_log_records sl)) (rl_scope_logs rl)) req (g, 0)"

definition ingest_span_event :: "str \<Rightarrow> span_event \<Rightarrow> aggregator \<times> nat \<Rightarrow> aggregator \<times> nat" where
  "ingest_span_event service ev st = (let (g, n) = st in
     if otel_event_matches (ev_name ev) (ev_attributes ev) ''codex.conversation_starts'' then
       (case extract_session_from_attrs (ev_attributes ev) of
          None \<Rightarrow> (g, n)
        | Some session \<Rightarrow> let (g, moved) = update_codex_session g service session
                          in (g, if moved then Suc n else n))
     else (g, n))"

definition ingest_span :: "str \<Rightarrow> span \<Rightarrow> aggregator \<times> nat \<Rightarrow> aggregator \<times> nat" where
  "ingest_span service sp st = (let (g, n) = fold (ingest_span_event service) (sp_events sp) st in
     if sp_name sp = ''handle_responses'' then
       let (g, moved) = update_codex_effort_from_request_attrs g service (sp_attributes sp)
       in (g, if moved then Suc n else n)
     else (g, n))"

definition ingest_resource_spans :: "resource_spans \<Rightarrow> aggregator \<times> nat \<Rightarrow> aggregator \<times> nat" where
  "ingest_resource_spans rs st = (let service = service_name (rs_resource rs) in
     if \<not> is_codex_service service then st
     else fold (\<lambda>ss. fold (ingest_span service) (ss_spans ss)) (rs_scope_spans rs) st)"

definition ingest_traces :: "aggregator \<Rightarrow> traces_request \<Rightarrow> aggregator \<times> nat" where
  "ingest_traces g req =
     (if \<not> list_ex (\<lambda>rs. is_codex_service (service_name (rs_resource rs))) req then (g, 0)
      else fold ingest_resource_spans req (g, 0))"

definition ingest_metric :: "str \<Rightarrow> metric \<Rightarrow> aggregator \<times> nat \<Rightarrow> aggregator \<times> nat" where
  "ingest_metric service mt st = (let (g, count) = st;
       (g, hits) =
         (if service = SERVICE_CLAUDE then
            (if mt_name mt = ''claude_code.token.usage'' then ingest_claude_token g mt
             else if mt_name mt = ''claude_code.cost.usage'' then ingest_claude_cost g mt
             else (g, 0))
          else if is_codex_service service then
            (if mt_name mt = ''codex.turn.token_usage'' then ingest_codex_token g service mt
             else if mt_name mt = ''codex.conversation.turn.count'' then ingest_codex_turn_count g service mt
             else if mt_name mt = ''codex.turn.e2e_duration_ms'' then ingest_codex_duration g service mt
             else (g, 0))
          else (g, 0))
     in (g, count + hits))"

definition ingest_metrics :: "aggregator \<Rightarrow> metrics_request \<Rightarrow> aggregator \<times> nat" where
  "ingest_metrics g req = fold (\<lambda>rm. fold (\<lambda>sm. fold (ingest_metric (service_name (rm_resource rm)))
     (sm_metrics sm)) (rm_scope_metrics rm)) req (g, 0)"

text \<open>
  \<^verbatim>\<open>snapshot\<close>; how a time is printed (\<^verbatim>\<open>format_rfc3339\<close>, from a time library) is a
  parameter.
\<close>

record usage_snapshot =
  us_started_at :: str
  us_last_updated :: "str option"
  us_agents :: "(str, agent_stats) omap"

definition aggregator_snapshot :: "(time \<Rightarrow> str) \<Rightarrow> aggregator \<Rightarrow> usage_snapshot" where
  "aggregator_snapshot format_rfc3339 g = \<lparr>us_started_at = format_rfc3339 (started_at g),
     us_last_updated = map_option format_rfc3339 (last_updated g), us_agents = agents g\<rparr>"

text \<open>A received batch of any signal, and a sequence of batches.\<close>

datatype telemetry_record = Traces traces_request | Metrics metrics_request | Logs logs_request

definition ingest :: "telemetry_record \<Rightarrow> aggregator \<Rightarrow> aggregator \<times> nat" where
  "ingest r g = (case r of
       Logs req \<Rightarrow> ingest_logs g req
     | Traces req \<Rightarrow> ingest_traces g req
     | Metrics req \<Rightarrow> ingest_metrics g req)"

definition ingest_run :: "telemetry_record list \<Rightarrow> aggregator \<Rightarrow> aggregator" where
  "ingest_run rs g = fold (\<lambda>r g. fst (ingest r g)) rs g"

end
