(* ===== verification/Ingest_Loops.thy ===== *)
theory Ingest_Loops
  imports Aggregator
begin

text \<open>
  The three ingest functions are nested loops (resources, scopes, records) around one step per
  log record, span or metric, and a run of the program is a loop over batches. The locales state
  what a property needs of the three steps so that it holds after any sequence of batches: an
  invariant of the state (\<open>ingest_invariant\<close>), or a relation between the state and the samples
  received so far (\<open>ingest_trace\<close>).
\<close>

section \<open>The samples of a batch\<close>

definition logs_samples :: "(str \<Rightarrow> log_record \<Rightarrow> 'h list) \<Rightarrow> logs_request \<Rightarrow> 'h list" where
  "logs_samples f req = concat (map (\<lambda>rl. concat (map (\<lambda>sl.
     concat (map (f (service_name (rl_resource rl))) (sl_log_records sl))) (rl_scope_logs rl))) req)"

definition metrics_samples :: "(str \<Rightarrow> metric \<Rightarrow> 'h list) \<Rightarrow> metrics_request \<Rightarrow> 'h list" where
  "metrics_samples f req = concat (map (\<lambda>rm. concat (map (\<lambda>sm.
     concat (map (f (service_name (rm_resource rm))) (sm_metrics sm))) (rm_scope_metrics rm))) req)"

definition batch_samples ::
    "(str \<Rightarrow> log_record \<Rightarrow> 'h list) \<Rightarrow> (str \<Rightarrow> metric \<Rightarrow> 'h list) \<Rightarrow> telemetry_record \<Rightarrow> 'h list" where
  "batch_samples logf metricf r = (case r of
       Logs req \<Rightarrow> logs_samples logf req
     | Traces _ \<Rightarrow> []
     | Metrics req \<Rightarrow> metrics_samples metricf req)"

text \<open>An invariant of the data points of each metric is an invariant of the metric.\<close>

lemma metric_points_inv:
  assumes st: "I (fst st)"
    and points: "\<And>np st. I (fst st) \<Longrightarrow> I (fst (claude_token_point np st))"
      "\<And>np st. I (fst st) \<Longrightarrow> I (fst (claude_cost_point np st))"
      "\<And>hp st. I (fst st) \<Longrightarrow> I (fst (codex_token_point service hp st))"
      "\<And>np st. I (fst st) \<Longrightarrow> I (fst (codex_turn_point service np st))"
      "\<And>hp st. I (fst st) \<Longrightarrow> I (fst (codex_duration_point service hp st))"
  shows "I (fst (ingest_metric service mt st))"
proof -
  obtain g n where gn: "st = (g, n)" by (cases st)
  have lift: "I (fst (fold f ps (g, 0 :: nat)))"
    if "\<And>p st. I (fst st) \<Longrightarrow> I (fst (f p st))" for f and ps :: "'p list"
    using step_invariant.fold_inv [of f "\<lambda>st. I (fst st)" "(g, 0)" ps] that st
    by (simp add: step_invariant_def gn)
  show ?thesis
    using st points
    by (auto simp: ingest_metric_def gn Let_def split_beta ingest_claude_token_def ingest_claude_cost_def
        ingest_codex_token_def ingest_codex_turn_count_def ingest_codex_duration_def
        intro!: lift split: option.splits metric_data.splits)
qed

section \<open>Relating the state to the samples received\<close>

locale ingest_trace =
  fixes inv :: "'h list \<Rightarrow> aggregator \<Rightarrow> bool" and good :: "'h list \<Rightarrow> bool"
    and logf :: "str \<Rightarrow> log_record \<Rightarrow> 'h list" and metricf :: "str \<Rightarrow> metric \<Rightarrow> 'h list"
  assumes good_append: "good (h @ h') \<Longrightarrow> good h"
    and log_step: "inv h (fst st) \<Longrightarrow> good (h @ logf service lr) \<Longrightarrow>
      inv (h @ logf service lr) (fst (ingest_log_record service lr st))"
    and span_step: "inv h (fst st) \<Longrightarrow> inv h (fst (ingest_span service sp st))"
    and metric_step: "inv h (fst st) \<Longrightarrow> good (h @ metricf service mt) \<Longrightarrow>
      inv (h @ metricf service mt) (fst (ingest_metric service mt st))"
begin

lemma log_records: "trace_step (ingest_log_record service) (logf service) (\<lambda>h st. inv h (fst st)) good"
  by unfold_locales (erule good_append, rule log_step)

lemma metrics: "trace_step (ingest_metric service) (metricf service) (\<lambda>h st. inv h (fst st)) good"
  by unfold_locales (erule good_append, rule metric_step)

lemma ingest_logs_trace:
  assumes "inv h g" and "good (h @ logs_samples logf req)"
  shows "inv (h @ logs_samples logf req) (fst (ingest_logs g req))"
proof -
  have "trace_step (\<lambda>rl. fold (\<lambda>sl. fold (ingest_log_record (service_name (rl_resource rl))) (sl_log_records sl))
        (rl_scope_logs rl))
      (\<lambda>rl. concat (map (\<lambda>sl. concat (map (logf (service_name (rl_resource rl))) (sl_log_records sl)))
        (rl_scope_logs rl))) (\<lambda>h st. inv h (fst st)) good"
    by unfold_locales (erule good_append, rule trace_step.fold_trace [OF trace_step.nested [OF log_records]])
  from trace_step.fold_trace [OF this, of h "(g, 0)" req] assms show ?thesis
    by (simp add: ingest_logs_def logs_samples_def)
qed

lemma ingest_metrics_trace:
  assumes "inv h g" and "good (h @ metrics_samples metricf req)"
  shows "inv (h @ metrics_samples metricf req) (fst (ingest_metrics g req))"
proof -
  have "trace_step (\<lambda>rm. fold (\<lambda>sm. fold (ingest_metric (service_name (rm_resource rm))) (sm_metrics sm))
        (rm_scope_metrics rm))
      (\<lambda>rm. concat (map (\<lambda>sm. concat (map (metricf (service_name (rm_resource rm))) (sm_metrics sm)))
        (rm_scope_metrics rm))) (\<lambda>h st. inv h (fst st)) good"
    by unfold_locales (erule good_append, rule trace_step.fold_trace [OF trace_step.nested [OF metrics]])
  from trace_step.fold_trace [OF this, of h "(g, 0)" req] assms show ?thesis
    by (simp add: ingest_metrics_def metrics_samples_def)
qed

lemma ingest_traces_trace: "inv h g \<Longrightarrow> inv h (fst (ingest_traces g req))"
proof -
  assume "inv h g"
  have span: "step_invariant (ingest_span service) (\<lambda>st. inv h (fst st))" for service
    by unfold_locales (rule span_step)
  have "step_invariant ingest_resource_spans (\<lambda>st. inv h (fst st))"
    by unfold_locales
      (simp add: ingest_resource_spans_def Let_def step_invariant.fold_inv [OF step_invariant.nested [OF span]])
  from step_invariant.fold_inv [OF this, of "(g, 0)" req] \<open>inv h g\<close> show ?thesis
    by (simp add: ingest_traces_def)
qed

lemma ingest_trace_step: "trace_step (\<lambda>r g. fst (ingest r g)) (batch_samples logf metricf) inv good"
proof
  fix h s x
  assume "inv h s" "good (h @ batch_samples logf metricf x)"
  then show "inv (h @ batch_samples logf metricf x) (fst (ingest x s))"
    by (cases x) (simp_all add: batch_samples_def ingest_def ingest_logs_trace ingest_metrics_trace ingest_traces_trace)
qed (rule good_append)

lemma run_trace:
  "inv [] g \<Longrightarrow> good (concat (map (batch_samples logf metricf) rs)) \<Longrightarrow>
     inv (concat (map (batch_samples logf metricf) rs)) (ingest_run rs g)"
  using trace_step.fold_trace [OF ingest_trace_step, of "[]" g rs] by (simp add: ingest_run_def)

end

section \<open>Invariants of the state alone\<close>

locale ingest_invariant =
  fixes inv :: "aggregator \<Rightarrow> bool"
  assumes log_inv: "inv (fst st) \<Longrightarrow> inv (fst (ingest_log_record service lr st))"
    and span_inv: "inv (fst st) \<Longrightarrow> inv (fst (ingest_span service sp st))"
    and metric_inv: "inv (fst st) \<Longrightarrow> inv (fst (ingest_metric service mt st))"

sublocale ingest_invariant \<subseteq> as_trace: ingest_trace "\<lambda>h. inv" "\<lambda>h. True" "\<lambda>_ _. []" "\<lambda>_ _. []"
  by unfold_locales (simp_all add: log_inv span_inv metric_inv)

context ingest_invariant
begin

lemma run_inv: "inv g \<Longrightarrow> inv (ingest_run rs g)"
  using as_trace.run_trace [of g rs] by simp

lemma ingest_inv: "inv g \<Longrightarrow> inv (fst (ingest r g))"
  using run_inv [of g "[r]"] by (simp add: ingest_run_def)

end

end
