(* ===== verification/Buckets.thy ===== *)
theory Buckets
  imports Ingest_Loops
begin

text \<open>
  What the bucket map of an agent looks like after the three operations that change it (add to a
  bucket, subtract from a bucket, fold a bare model name into the full one): the order of the map
  is kept, every key is the key of the components stored beside it, and each counter, summed
  over all buckets or over any class of buckets, changes by exactly the amount that was added or
  subtracted. The class is a predicate on buckets, so the same lemmas give the grand total, the
  value of one bucket and the total of one usage key.
\<close>

section \<open>Well-formed bucket maps\<close>

definition entry_bucket :: "bucket_stats \<Rightarrow> bucket" where
  "entry_bucket e = Bucket (bs_provider e) (bs_model e) (bs_effort e)"

definition buckets_wf :: "(str, bucket_stats) omap \<Rightarrow> bool" where
  "buckets_wf bs \<longleftrightarrow> om_ok bs \<and> (\<forall>x \<in> set bs. fst x = bucket_key (entry_bucket (snd x)))"

definition class_sum :: "counter \<Rightarrow> (bucket \<Rightarrow> bool) \<Rightarrow> (str, bucket_stats) omap \<Rightarrow> nat" where
  "class_sum c Q bs = om_sum (\<lambda>e. if Q (entry_bucket e) then ctr c (bs_stats e) else 0) bs"

abbreviation all_sum :: "counter \<Rightarrow> (str, bucket_stats) omap \<Rightarrow> nat" where
  "all_sum c \<equiv> class_sum c (\<lambda>_. True)"

definition bucket_val :: "counter \<Rightarrow> (str, bucket_stats) omap \<Rightarrow> bucket \<Rightarrow> nat" where
  "bucket_val c bs b = om_val (\<lambda>e. ctr c (bs_stats e)) bs (bucket_key b)"

named_theorems bucket_simps "effects of bucket operations on well-formed maps"

lemma buckets_wf_Nil [simp]: "buckets_wf []"
  by (simp add: buckets_wf_def)

lemma class_sum_Nil [simp]: "class_sum c Q [] = 0"
  by (simp add: class_sum_def)

lemma bucket_val_Nil [simp]: "bucket_val c [] b = 0"
  by (simp add: bucket_val_def om_val_def)

lemma entry_from_bucket [simp]: "entry_bucket (from_bucket b) = b" "bs_stats (from_bucket b) = default_stats"
  by (simp_all add: entry_bucket_def from_bucket_def)

lemma entry_bucket_update [simp]: "entry_bucket (bs_stats_update f e) = entry_bucket e"
  by (simp add: entry_bucket_def)

lemma buckets_wf_lookup:
  "buckets_wf bs \<Longrightarrow> map_of bs (bucket_key b) = Some e \<Longrightarrow> entry_bucket e = b"
  by (auto simp: buckets_wf_def dest!: map_of_SomeD)

lemma buckets_wf_lookup_key:
  "buckets_wf bs \<Longrightarrow> map_of bs k = Some e \<Longrightarrow> bucket_key (entry_bucket e) = k"
  by (auto simp: buckets_wf_def dest!: map_of_SomeD)

lemma buckets_wf_put [bucket_simps]:
  "buckets_wf bs \<Longrightarrow> k = bucket_key (entry_bucket e) \<Longrightarrow> buckets_wf (om_put k e bs)"
  using set_om_put [of k e bs] by (auto simp: buckets_wf_def om_ok_put)

lemma buckets_wf_del [bucket_simps]: "buckets_wf bs \<Longrightarrow> buckets_wf (om_del k bs)"
  by (auto simp: buckets_wf_def om_ok_del) (auto simp: om_del_def)

lemma buckets_wf_add [bucket_simps]: "buckets_wf bs \<Longrightarrow> buckets_wf (bucket_add b s bs)"
  unfolding bucket_add_def om_entry_def
  by (rule buckets_wf_put) (auto split: option.splits dest: buckets_wf_lookup)

lemma buckets_wf_subtract [bucket_simps]: "buckets_wf bs \<Longrightarrow> buckets_wf (bucket_subtract k s bs)"
  by (auto simp: bucket_subtract_def Let_def buckets_wf_del buckets_wf_lookup_key
      intro!: buckets_wf_put split: option.splits)

section \<open>Counters of a class of buckets\<close>

lemma bucket_val_le_class: "buckets_wf bs \<Longrightarrow> Q b \<Longrightarrow> bucket_val c bs b \<le> class_sum c Q bs"
proof -
  assume wf: "buckets_wf bs" and "Q b"
  then have "bucket_val c bs b = om_val (\<lambda>e. if Q (entry_bucket e) then ctr c (bs_stats e) else 0) bs (bucket_key b)"
    by (auto simp: bucket_val_def om_val_def dest: buckets_wf_lookup split: option.splits)
  with wf show ?thesis
    by (simp add: class_sum_def buckets_wf_def om_val_le_sum)
qed

lemma class_sum_mono: "class_sum c Q bs \<le> all_sum c bs"
  by (simp add: class_sum_def om_sum_def sum_list_mono)

lemma bucket_val_le_all: "buckets_wf bs \<Longrightarrow> bucket_val c bs b \<le> all_sum c bs"
  by (rule bucket_val_le_class) simp_all

lemma class_sum_put [bucket_simps]:
  assumes wf: "buckets_wf bs" and e: "k = bucket_key (entry_bucket e)"
  shows "class_sum c Q (om_put k e bs) + (if Q (entry_bucket e) then bucket_val c bs (entry_bucket e) else 0)
     = class_sum c Q bs + (if Q (entry_bucket e) then ctr c (bs_stats e) else 0)"
proof -
  let ?w = "\<lambda>e. if Q (entry_bucket e) then ctr c (bs_stats e) else 0"
  have "om_val ?w bs k = (if Q (entry_bucket e) then bucket_val c bs (entry_bucket e) else 0)"
    using wf by (auto simp: e bucket_val_def om_val_def dest: buckets_wf_lookup split: option.splits)
  with om_sum_put [of bs ?w k e] wf show ?thesis
    by (simp add: class_sum_def buckets_wf_def)
qed

lemma class_sum_del [bucket_simps]:
  assumes wf: "buckets_wf bs"
  shows "class_sum c Q (om_del (bucket_key b) bs) + (if Q b then bucket_val c bs b else 0) = class_sum c Q bs"
proof -
  let ?w = "\<lambda>e. if Q (entry_bucket e) then ctr c (bs_stats e) else 0"
  have "om_val ?w bs (bucket_key b) = (if Q b then bucket_val c bs b else 0)"
    using wf by (auto simp: bucket_val_def om_val_def dest: buckets_wf_lookup split: option.splits)
  with om_sum_del [of bs ?w "bucket_key b"] wf show ?thesis
    by (simp add: class_sum_def buckets_wf_def)
qed

lemma bucket_add_entry:
  assumes wf: "buckets_wf bs"
  obtains e where "bucket_add b s bs = om_put (bucket_key b) e bs" and "entry_bucket e = b"
    and "\<And>c. ctr c (bs_stats e) = min ctr_max (bucket_val c bs b + ctr c s)"
proof (cases "map_of bs (bucket_key b)")
  case None
  then show ?thesis
    by (intro that [of "(from_bucket b)\<lparr>bs_stats := stats_add default_stats s\<rparr>"])
      (auto simp: bucket_add_def om_entry_def bucket_val_def om_val_def ctr_simps)
next
  case (Some e)
  with wf show ?thesis
    by (intro that [of "e\<lparr>bs_stats := stats_add (bs_stats e) s\<rparr>"])
      (auto simp: bucket_add_def om_entry_def bucket_val_def om_val_def ctr_simps dest: buckets_wf_lookup)
qed

lemma bucket_val_add_sat:
  "buckets_wf bs \<Longrightarrow>
     bucket_val c (bucket_add b s bs) b' = (if b' = b then min ctr_max (bucket_val c bs b + ctr c s) else bucket_val c bs b')"
  by (rule bucket_add_entry [of bs b s]) (auto simp: bucket_val_def om_val_put)

lemma bucket_val_add [bucket_simps]:
  "buckets_wf bs \<Longrightarrow> all_sum c bs + ctr c s \<le> ctr_max \<Longrightarrow>
     bucket_val c (bucket_add b s bs) b' = bucket_val c bs b' + (if b' = b then ctr c s else 0)"
  using bucket_val_le_all [of bs c b] by (auto simp: bucket_val_add_sat)

lemma class_sum_add [bucket_simps]:
  assumes wf: "buckets_wf bs" and room: "all_sum c bs + ctr c s \<le> ctr_max"
  shows "class_sum c Q (bucket_add b s bs) = class_sum c Q bs + (if Q b then ctr c s else 0)"
proof -
  obtain e where e: "bucket_add b s bs = om_put (bucket_key b) e bs" "entry_bucket e = b"
    "ctr c (bs_stats e) = min ctr_max (bucket_val c bs b + ctr c s)"
    using bucket_add_entry [OF wf] by metis
  moreover have "bucket_val c bs b + ctr c s \<le> ctr_max"
    using bucket_val_le_all [OF wf, of c b] room by linarith
  ultimately show ?thesis
    using class_sum_put [OF wf, of "bucket_key b" e c Q] by (auto split: if_splits)
qed

lemma bucket_val_subtract [bucket_simps]:
  assumes wf: "buckets_wf bs" and le: "ctr c s \<le> bucket_val c bs b"
  shows "bucket_val c (bucket_subtract (bucket_key b) s bs) b' = bucket_val c bs b' - (if b' = b then ctr c s else 0)"
  using le ctr_no_value [of "stats_subtract (bs_stats _) s" c]
  by (auto simp: bucket_subtract_def bucket_val_def Let_def om_val_put om_val_del om_val_Some
      om_val_None ctr_simps split: option.splits)

lemma class_sum_subtract [bucket_simps]:
  assumes wf: "buckets_wf bs" and le: "ctr c s \<le> bucket_val c bs b"
  shows "class_sum c Q (bucket_subtract (bucket_key b) s bs) + (if Q b then ctr c s else 0) = class_sum c Q bs"
proof (cases "map_of bs (bucket_key b)")
  case None
  with le show ?thesis by (simp add: bucket_subtract_def bucket_val_def om_val_def)
next
  case (Some e)
  define e' where "e' = e\<lparr>bs_stats := stats_subtract (bs_stats e) s\<rparr>"
  have b: "entry_bucket e' = b" using wf Some by (simp add: e'_def buckets_wf_lookup)
  have v: "bucket_val c bs b = ctr c (bs_stats e)" using Some by (simp add: bucket_val_def om_val_Some)
  have v': "ctr c (bs_stats e') = ctr c (bs_stats e) - ctr c s" by (simp add: e'_def ctr_simps)
  show ?thesis
    using Some class_sum_put [OF wf, of "bucket_key b" e' c Q] class_sum_del [OF wf, of c Q b]
      ctr_no_value [of "bs_stats e'" c] b v v' le
    by (auto simp: bucket_subtract_def Let_def simp flip: e'_def split: if_splits)
qed

section \<open>Moving between buckets\<close>

definition bucket_move :: "bucket \<Rightarrow> bucket \<Rightarrow> model_stats \<Rightarrow> (str, bucket_stats) omap \<Rightarrow> (str, bucket_stats) omap" where
  "bucket_move from to s bs = bucket_add to s (bucket_subtract (bucket_key from) s bs)"

lemma buckets_wf_move [bucket_simps]: "buckets_wf bs \<Longrightarrow> buckets_wf (bucket_move from to s bs)"
  by (simp add: bucket_move_def bucket_simps)

lemma bucket_move_room:
  "buckets_wf bs \<Longrightarrow> ctr c s \<le> bucket_val c bs from \<Longrightarrow> all_sum c bs \<le> ctr_max \<Longrightarrow>
     all_sum c (bucket_subtract (bucket_key from) s bs) + ctr c s \<le> ctr_max"
  using class_sum_subtract [of bs c s "from" "\<lambda>_. True"] by simp

lemma class_sum_move [bucket_simps]:
  assumes "buckets_wf bs" "ctr c s \<le> bucket_val c bs from" "all_sum c bs \<le> ctr_max"
  shows "class_sum c Q (bucket_move from to s bs) + (if Q from then ctr c s else 0)
     = class_sum c Q bs + (if Q to then ctr c s else 0)"
  using assms bucket_move_room [OF assms] class_sum_subtract [of bs c s "from" Q]
  by (simp add: bucket_move_def class_sum_add buckets_wf_subtract)

lemma bucket_val_move [bucket_simps]:
  assumes "buckets_wf bs" "ctr c s \<le> bucket_val c bs from" "all_sum c bs \<le> ctr_max"
  shows "bucket_val c (bucket_move from to s bs) b =
     bucket_val c bs b - (if b = from then ctr c s else 0) + (if b = to then ctr c s else 0)"
  using assms bucket_move_room [OF assms]
  by (simp add: bucket_move_def bucket_val_add buckets_wf_subtract bucket_val_subtract)

section \<open>Maps from buckets to totals\<close>

lemma om_ok_stats_entry [simp]: "om_ok m \<Longrightarrow> om_ok (stats_entry b s m)"
  by (simp add: stats_entry_def om_ok_entry)

lemma om_val_stats_entry:
  "om_val (ctr c) (stats_entry b s m) b' =
     (if b' = b then min ctr_max (om_val (ctr c) m b + ctr c s) else om_val (ctr c) m b')"
  by (cases "map_of m b") (simp_all add: stats_entry_def om_val_entry om_val_Some om_val_None ctr_simps)

lemma dom_stats_entry: "fst ` set (stats_entry b s m) = insert b (fst ` set m)"
proof -
  have "dom (map_of (stats_entry b s m)) = insert b (dom (map_of m))"
    by (simp add: stats_entry_def map_of_om_entry)
  then show ?thesis by (simp add: dom_map_of_conv_image_fst)
qed

lemma om_sum_stats_entry:
  assumes "om_ok m" and "om_sum (ctr c) m + ctr c s \<le> ctr_max"
  shows "om_sum (ctr c) (stats_entry b s m) = om_sum (ctr c) m + ctr c s"
proof -
  have "om_val (ctr c) m b + ctr c s \<le> ctr_max"
    using om_val_le_sum [OF assms(1), of "ctr c" b] assms(2) by linarith
  then show ?thesis
    unfolding stats_entry_def
    by (intro om_sum_entry_add [OF assms(1)])
      (cases "map_of m b"; simp add: om_val_Some om_val_None ctr_simps)+
qed

section \<open>Agents after each state change\<close>

definition agent_of :: "aggregator \<Rightarrow> str \<Rightarrow> agent_stats" where
  "agent_of g n = (case map_of (agents g) n of None \<Rightarrow> default_agent | Some a \<Rightarrow> a)"

lemma agent_of_put: "agent_of (g\<lparr>agents := om_put n a (agents g)\<rparr>) n' = (if n' = n then a else agent_of g n')"
  by (simp add: agent_of_def map_of_om_put)

lemma agent_of_record_into [simp]:
  "agent_of (record_into g n b s) n' = (if n' = n then agent_record b s (agent_of g n) else agent_of g n')"
  by (simp add: agent_of_def record_into_def touch_def map_of_om_entry)

lemma agent_of_other_field [simp]:
  "agent_of (g\<lparr>claude_canonical_models := x1\<rparr>) n = agent_of g n"
  "agent_of (g\<lparr>claude_metric_models := x2\<rparr>) n = agent_of g n"
  "agent_of (g\<lparr>claude_usage_sources := x3\<rparr>) n = agent_of g n"
  "agent_of (g\<lparr>claude_metric_usage := x4\<rparr>) n = agent_of g n"
  "agent_of (g\<lparr>codex_last_sessions := x5\<rparr>) n = agent_of g n"
  "agent_of (g\<lparr>codex_sessions := x6\<rparr>) n = agent_of g n"
  "agent_of (g\<lparr>codex_token_sources := x7\<rparr>) n = agent_of g n"
  "agent_of (g\<lparr>codex_pending_sse := x8\<rparr>) n = agent_of g n"
  by (simp_all add: agent_of_def)

lemma record_into_fields [simp]:
  "codex_pending_sse (record_into g n b s) = codex_pending_sse g"
  "claude_canonical_models (record_into g n b s) = claude_canonical_models g"
  "claude_metric_models (record_into g n b s) = claude_metric_models g"
  "claude_usage_sources (record_into g n b s) = claude_usage_sources g"
  "claude_metric_usage (record_into g n b s) = claude_metric_usage g"
  "codex_token_sources (record_into g n b s) = codex_token_sources g"
  "codex_sessions (record_into g n b s) = codex_sessions g"
  "codex_last_sessions (record_into g n b s) = codex_last_sessions g"
  by (simp_all add: record_into_def touch_def Let_def)

lemma agent_record_fields [simp]:
  "as_total (agent_record b s a) = stats_add (as_total a) s"
  "as_buckets (agent_record b s a) = bucket_add b s (as_buckets a)"
  by (simp_all add: agent_record_def)

lemma default_agent_fields [simp]: "as_total default_agent = default_stats" "as_buckets default_agent = []"
  by (simp_all add: default_agent_def)

lemma agents_distinct [simp]: "AGENT_CLAUDE \<noteq> AGENT_CODEX" "AGENT_CODEX \<noteq> AGENT_CLAUDE"
  by (simp_all add: AGENT_CLAUDE_def AGENT_CODEX_def)

lemma no_agent [simp]: "map_of (agents g) n = None \<Longrightarrow> agent_of g n = default_agent"
  by (simp add: agent_of_def)

end
