(* ===== verification/Codex_Usage.thy ===== *)
theory Codex_Usage
  imports Buckets
begin

text \<open>
  Codex reports usage before the session that names its provider and effort, so the aggregator
  books it provisionally, remembers it per conversation, and moves it when the session arrives.
  The lemmas show that no order of logs, traces and metrics makes the breakdown by bucket differ
  from the total, and that what is remembered as provisional is always really booked in the
  bucket it is remembered under, so a move never takes usage of another conversation.
\<close>

section \<open>The part of the state that Codex usage depends on\<close>

abbreviation codex_agent :: "aggregator \<Rightarrow> agent_stats" where
  "codex_agent g \<equiv> agent_of g AGENT_CODEX"

definition pending_at :: "counter \<Rightarrow> (str, (bucket, model_stats) omap) omap \<Rightarrow> bucket \<Rightarrow> nat" where
  "pending_at c P b = om_sum (\<lambda>m. om_val (ctr c) m b) P"

definition entries_at :: "counter \<Rightarrow> (bucket \<times> model_stats) list \<Rightarrow> bucket \<Rightarrow> nat" where
  "entries_at c es b = (\<Sum>e\<leftarrow>es. if fst e = b then ctr c (snd e) else 0)"

definition codex_wf :: "aggregator \<Rightarrow> bool" where
  "codex_wf g \<longleftrightarrow> buckets_wf (as_buckets (codex_agent g)) \<and> om_ok (codex_pending_sse g) \<and>
     (\<forall>x \<in> set (codex_pending_sse g). om_ok (snd x))"

text \<open>
  \<open>extra\<close> is provisional usage that is held outside the map while a conversation is resolved.
\<close>

definition codex_exact :: "counter \<Rightarrow> (bucket \<Rightarrow> nat) \<Rightarrow> aggregator \<Rightarrow> bool" where
  "codex_exact c extra g \<longleftrightarrow> (ctr c (as_total (codex_agent g)) < ctr_max \<longrightarrow>
     ctr c (as_total (codex_agent g)) = all_sum c (as_buckets (codex_agent g)) \<and>
     (\<forall>b. pending_at c (codex_pending_sse g) b + extra b \<le> bucket_val c (as_buckets (codex_agent g)) b))"

definition codex_inv :: "counter \<Rightarrow> aggregator \<Rightarrow> bool" where
  "codex_inv c g \<longleftrightarrow> codex_wf g \<and> codex_exact c (\<lambda>_. 0) g"

text \<open>Two states with the same Codex agent and the same provisional usage.\<close>

definition same_codex :: "aggregator \<Rightarrow> aggregator \<Rightarrow> bool" where
  "same_codex g g' \<longleftrightarrow> codex_agent g = codex_agent g' \<and> codex_pending_sse g = codex_pending_sse g'"

lemma same_codex_refl [simp]: "same_codex g g"
  by (simp add: same_codex_def)

lemma same_codex_trans: "same_codex g g' \<Longrightarrow> same_codex g' g'' \<Longrightarrow> same_codex g g''"
  by (simp add: same_codex_def)

lemma same_codex_inv: "same_codex g g' \<Longrightarrow> codex_inv c g \<Longrightarrow> codex_inv c g'"
  by (simp add: same_codex_def codex_inv_def codex_wf_def codex_exact_def)

section \<open>Recording keeps the breakdown exact\<close>

lemma codex_exact_record:
  assumes "codex_wf g" and "codex_exact c extra g"
  shows "codex_wf (record_into g AGENT_CODEX b s)"
    and "codex_exact c (\<lambda>b'. extra b' + (if b' = b then ctr c s else 0)) (record_into g AGENT_CODEX b s)"
proof -
  let ?a = "codex_agent g"
  show "codex_wf (record_into g AGENT_CODEX b s)"
    using assms by (simp add: codex_wf_def buckets_wf_add)
  have wf: "buckets_wf (as_buckets ?a)" using assms by (simp add: codex_wf_def)
  show "codex_exact c (\<lambda>b'. extra b' + (if b' = b then ctr c s else 0)) (record_into g AGENT_CODEX b s)"
    unfolding codex_exact_def
  proof (intro impI)
    assume "ctr c (as_total (codex_agent (record_into g AGENT_CODEX b s))) < ctr_max"
    then have lt: "ctr c (as_total ?a) + ctr c s < ctr_max" by (simp add: ctr_simps)
    with assms(2) have eq: "ctr c (as_total ?a) = all_sum c (as_buckets ?a)"
      and le: "\<And>b'. pending_at c (codex_pending_sse g) b' + extra b' \<le> bucket_val c (as_buckets ?a) b'"
      by (auto simp: codex_exact_def)
    have room: "all_sum c (as_buckets ?a) + ctr c s \<le> ctr_max" using lt eq by simp
    show "ctr c (as_total (codex_agent (record_into g AGENT_CODEX b s))) =
        all_sum c (as_buckets (codex_agent (record_into g AGENT_CODEX b s))) \<and>
      (\<forall>b'. pending_at c (codex_pending_sse (record_into g AGENT_CODEX b s)) b' +
         (extra b' + (if b' = b then ctr c s else 0))
         \<le> bucket_val c (as_buckets (codex_agent (record_into g AGENT_CODEX b s))) b')"
      using wf room lt eq le by (auto simp: ctr_simps class_sum_add bucket_val_add simp flip: add.assoc)
  qed
qed

lemma codex_exact_weaken:
  assumes "codex_exact c extra g" and "\<And>b. extra' b \<le> extra b"
  shows "codex_exact c extra' g"
proof -
  have "\<And>b. p b + extra b \<le> v b \<Longrightarrow> p b + extra' b \<le> v b" for p v :: "bucket \<Rightarrow> nat"
    using assms(2) by (meson add_left_mono order_trans)
  with assms(1) show ?thesis by (simp add: codex_exact_def)
qed

lemma codex_inv_record: "codex_inv c g \<Longrightarrow> codex_inv c (record_into g AGENT_CODEX b s)"
  using codex_exact_record [of g c "\<lambda>_. 0" b s]
  by (auto simp: codex_inv_def elim: codex_exact_weaken)

text \<open>Remembering recorded usage as provisional.\<close>

lemma pending_at_entry:
  assumes "om_ok P"
  shows "pending_at c (om_entry cid [] (stats_entry b s) P) b' \<le>
     pending_at c P b' + (if b' = b then ctr c s else 0)"
proof -
  define m where "m = (case map_of P cid of None \<Rightarrow> [] | Some m \<Rightarrow> m)"
  have "om_val (ctr c) (stats_entry b s m) b' \<le> om_val (ctr c) m b' + (if b' = b then ctr c s else 0)"
    by (simp add: om_val_stats_entry)
  moreover have "om_val (\<lambda>m. om_val (ctr c) m b') P cid = om_val (ctr c) m b'"
    by (cases "map_of P cid") (simp_all add: m_def om_val_Some om_val_None)
  ultimately show ?thesis
    using om_sum_put [OF assms, of "\<lambda>m. om_val (ctr c) m b'" cid "stats_entry b s m"]
    by (simp add: pending_at_def om_entry_def flip: m_def)
qed

lemma om_ok_values_put:
  "\<forall>x \<in> set P. om_ok (snd x) \<Longrightarrow> om_ok m \<Longrightarrow> \<forall>x \<in> set (om_put k m P). om_ok (snd x)"
  using set_om_put [of k m P] by auto

lemma om_ok_values_del:
  "\<forall>x \<in> set P. om_ok (snd x) \<Longrightarrow> \<forall>x \<in> set (om_del k P). om_ok (snd x)"
  by (simp add: om_del_def)

lemma om_ok_values_lookup:
  "\<forall>x \<in> set P. om_ok (snd x) \<Longrightarrow> om_ok (case map_of P k of None \<Rightarrow> [] | Some m \<Rightarrow> m)"
  by (cases "map_of P k") (force dest: map_of_SomeD)+

lemma codex_inv_pending:
  assumes "codex_wf g" and "codex_exact c (\<lambda>b'. if b' = b then ctr c s else 0) g"
  shows "codex_inv c (g\<lparr>codex_pending_sse := om_entry cid [] (stats_entry b s) (codex_pending_sse g)\<rparr>)"
proof -
  define P where "P = om_entry cid [] (stats_entry b s) (codex_pending_sse g)"
  have ok: "om_ok (codex_pending_sse g)" "\<forall>x \<in> set (codex_pending_sse g). om_ok (snd x)"
    using assms by (simp_all add: codex_wf_def)
  then have "om_ok P" "\<forall>x \<in> set P. om_ok (snd x)"
    unfolding P_def om_entry_def
    by (simp add: om_ok_put, intro om_ok_values_put om_ok_stats_entry om_ok_values_lookup)
  with assms(1) have "codex_wf (g\<lparr>codex_pending_sse := P\<rparr>)" by (simp add: codex_wf_def)
  moreover have "codex_exact c (\<lambda>_. 0) (g\<lparr>codex_pending_sse := P\<rparr>)"
    using assms(2) pending_at_entry [OF ok(1), of c cid b s]
    unfolding codex_exact_def P_def by (simp del: add_is_0) (meson order_trans)
  ultimately show ?thesis by (simp add: codex_inv_def P_def)
qed


section \<open>Moving provisional usage\<close>

lemma agent_of_move:
  "codex_agent (move_codex_bucket_stats g from to s) =
     (if map_of (agents g) AGENT_CODEX = None then codex_agent g
      else (codex_agent g)\<lparr>as_buckets := bucket_move from to s (as_buckets (codex_agent g))\<rparr>)"
  by (auto simp: move_codex_bucket_stats_def agent_of_def bucket_move_def map_of_om_put split: option.splits)

lemma move_fields [simp]:
  "codex_pending_sse (move_codex_bucket_stats g from to s) = codex_pending_sse g"
  by (simp add: move_codex_bucket_stats_def split: option.splits)

lemma codex_wf_move: "codex_wf g \<Longrightarrow> codex_wf (move_codex_bucket_stats g from to s)"
  by (auto simp: codex_wf_def agent_of_move buckets_wf_move)

text \<open>
  A move takes what is held outside the map under \<open>from\<close> and leaves it under \<open>to\<close>.
\<close>

lemma codex_exact_move:
  assumes wf: "codex_wf g" and ex: "codex_exact c (\<lambda>b. extra b + (if b = from then ctr c s else 0)) g"
  shows "codex_exact c (\<lambda>b. extra b + (if b = to then ctr c s else 0)) (move_codex_bucket_stats g from to s)"
proof (cases "map_of (agents g) AGENT_CODEX")
  case None
  with ex have "extra b = 0" "ctr c s = 0" for b
    by (auto simp: codex_exact_def split: if_splits)
  with None ex show ?thesis by (simp add: codex_exact_def agent_of_move)
next
  case (Some a)
  define bs where "bs = as_buckets (codex_agent g)"
  have bwf: "buckets_wf bs" using wf by (simp add: codex_wf_def bs_def)
  have as: "as_buckets (codex_agent (move_codex_bucket_stats g from to s)) = bucket_move from to s bs"
    "as_total (codex_agent (move_codex_bucket_stats g from to s)) = as_total (codex_agent g)"
    using Some by (simp_all add: agent_of_move bs_def)
  show ?thesis
    unfolding codex_exact_def as move_fields
  proof (intro impI conjI allI)
    assume lt: "ctr c (as_total (codex_agent g)) < ctr_max"
    with ex have eq: "ctr c (as_total (codex_agent g)) = all_sum c bs"
      and le: "\<And>b. pending_at c (codex_pending_sse g) b + (extra b + (if b = from then ctr c s else 0)) \<le> bucket_val c bs b"
      by (auto simp: codex_exact_def bs_def)
    have s: "ctr c s \<le> bucket_val c bs from" using le [of "from"] by simp
    have room: "all_sum c bs \<le> ctr_max" using eq lt by simp
    show "ctr c (as_total (codex_agent g)) = all_sum c (bucket_move from to s bs)"
      using class_sum_move [OF bwf s room, of "\<lambda>_. True"] eq by simp
    show "pending_at c (codex_pending_sse g) b + (extra b + (if b = to then ctr c s else 0))
        \<le> bucket_val c (bucket_move from to s bs) b" for b
      using le [of b] s by (auto simp: bucket_val_move [OF bwf s room])
  qed
qed

lemma resolve_pending_step:
  assumes "codex_wf g" and "om_ok kept"
    and "codex_exact c (\<lambda>b. entries_at c (x # es) b + om_val (ctr c) kept b) g"
    and "resolve_pending p e confirmed x (g, kept, moved) = (g', kept', moved')"
  shows "codex_wf g' \<and> om_ok kept' \<and> codex_pending_sse g' = codex_pending_sse g \<and>
    codex_exact c (\<lambda>b. entries_at c es b + om_val (ctr c) kept' b) g'"
proof -
  obtain "from" s where x: "x = (from, s)" by (cases x)
  define to where "to = from_parts p (bk_model from) (if bk_effort from = UNKNOWN then non_empty e else bk_effort from)"
  define mid where "mid = (if from \<noteq> to then move_codex_bucket_stats g from to s else g)"
  have kept': "kept' = (if \<not> confirmed \<or> bk_effort to = UNKNOWN then stats_entry to s kept else kept)"
    and g': "g' = mid"
    using assms(4) by (auto simp: resolve_pending_def x Let_def to_def mid_def split: if_splits)
  have "codex_exact c (\<lambda>b. (entries_at c es b + om_val (ctr c) kept b) + (if b = from then ctr c s else 0)) g"
    using assms(3) by (rule codex_exact_weaken) (simp add: x entries_at_def)
  then have "codex_exact c (\<lambda>b. (entries_at c es b + om_val (ctr c) kept b) + (if b = to then ctr c s else 0)) mid"
    using codex_exact_move [OF assms(1)] by (auto simp: mid_def)
  moreover have "om_val (ctr c) kept' b \<le> om_val (ctr c) kept b + (if b = to then ctr c s else 0)" for b
    by (simp add: kept' om_val_stats_entry)
  ultimately have "codex_exact c (\<lambda>b. entries_at c es b + om_val (ctr c) kept' b) mid"
    by (elim codex_exact_weaken) (simp add: add.assoc)
  then show ?thesis
    using assms(1,2) by (simp add: g' kept' mid_def codex_wf_move)
qed

lemma resolve_pending_fold:
  assumes "codex_wf g" and "om_ok kept"
    and "codex_exact c (\<lambda>b. entries_at c es b + om_val (ctr c) kept b) g"
    and "fold (resolve_pending p e confirmed) es (g, kept, moved) = (g', kept', moved')"
  shows "codex_wf g' \<and> om_ok kept' \<and> codex_pending_sse g' = codex_pending_sse g \<and>
    codex_exact c (om_val (ctr c) kept') g'"
  using assms
proof (induction es arbitrary: g kept moved)
  case Nil
  then show ?case by (simp add: entries_at_def)
next
  case (Cons x es)
  obtain g1 kept1 moved1 where step: "resolve_pending p e confirmed x (g, kept, moved) = (g1, kept1, moved1)"
    by (cases "resolve_pending p e confirmed x (g, kept, moved)")
  note * = resolve_pending_step [OF Cons.prems(1-3) step]
  show ?case
    using Cons.IH [of g1 kept1 moved1] * Cons.prems(4) by (simp add: step)
qed

lemma entries_at_om_val: "om_ok es \<Longrightarrow> entries_at c es b = om_val (ctr c) es b"
proof (induction es)
  case Nil
  then show ?case by (simp add: entries_at_def om_val_def)
next
  case (Cons x es)
  then have "fst x = b \<Longrightarrow> map_of es b = None"
    by (auto simp: om_ok_Cons map_of_eq_None_iff)
  with Cons show ?case
    by (cases x) (auto simp: entries_at_def om_val_def om_ok_Cons)
qed

lemma pending_at_del:
  "om_ok P \<Longrightarrow> map_of P cid = Some m \<Longrightarrow>
     pending_at c (om_del cid P) b + om_val (ctr c) m b = pending_at c P b"
  using om_sum_del [of P "\<lambda>m. om_val (ctr c) m b" cid] by (simp add: pending_at_def om_val_Some)

lemma pending_at_put:
  "om_ok P \<Longrightarrow> pending_at c (om_put cid m P) b \<le> pending_at c P b + om_val (ctr c) m b"
  using om_sum_put [of P "\<lambda>m. om_val (ctr c) m b" cid m] by (simp add: pending_at_def)

lemma codex_wf_pending_update:
  "codex_wf g \<Longrightarrow> om_ok P \<Longrightarrow> \<forall>x \<in> set P. om_ok (snd x) \<Longrightarrow> codex_wf (g\<lparr>codex_pending_sse := P\<rparr>)"
  by (simp add: codex_wf_def)


lemma merge_conversation:
  assumes inv: "codex_inv c g" and "cid \<noteq> []"
  shows "codex_inv c (fst (merge_codex_pending_sse g p m cid e confirmed))"
proof (cases "map_of (codex_pending_sse g) cid")
  case None
  with assms show ?thesis by (simp add: merge_codex_pending_sse_def)
next
  case (Some es)
  define g0 where "g0 = g\<lparr>codex_pending_sse := om_del cid (codex_pending_sse g)\<rparr>"
  obtain g1 kept moved where loop: "fold (resolve_pending p e confirmed) es (g0, [], False) = (g1, kept, moved)"
    by (cases "fold (resolve_pending p e confirmed) es (g0, [], False)")
  have P: "om_ok (codex_pending_sse g)" "\<forall>x \<in> set (codex_pending_sse g). om_ok (snd x)"
    using inv by (simp_all add: codex_inv_def codex_wf_def)
  then have es: "om_ok es" using om_ok_values_lookup [of "codex_pending_sse g" cid] Some by simp
  have wf0: "codex_wf g0"
    unfolding g0_def using inv P
    by (intro codex_wf_pending_update om_ok_del om_ok_values_del) (simp_all add: codex_inv_def)
  have ex0: "codex_exact c (\<lambda>b. entries_at c es b + om_val (ctr c) [] b) g0"
    using inv pending_at_del [OF P(1) Some, of c] es
    by (simp add: codex_inv_def codex_exact_def g0_def entries_at_om_val om_val_None)
  have 1: "codex_wf g1" "om_ok kept" "codex_pending_sse g1 = om_del cid (codex_pending_sse g)"
    "codex_exact c (om_val (ctr c) kept) g1"
    using resolve_pending_fold [OF wf0 _ ex0 loop] by (simp_all add: g0_def)
  have P1: "om_ok (codex_pending_sse g1)" "\<forall>x \<in> set (codex_pending_sse g1). om_ok (snd x)"
    using 1(1) by (simp_all add: codex_wf_def)
  have "codex_inv c (g1\<lparr>codex_pending_sse := om_put cid kept (codex_pending_sse g1)\<rparr>)"
    unfolding codex_inv_def
  proof
    show "codex_wf (g1\<lparr>codex_pending_sse := om_put cid kept (codex_pending_sse g1)\<rparr>)"
      using 1 P1 by (intro codex_wf_pending_update om_ok_put om_ok_values_put)
    show "codex_exact c (\<lambda>_. 0) (g1\<lparr>codex_pending_sse := om_put cid kept (codex_pending_sse g1)\<rparr>)"
      using 1(4) pending_at_put [OF P1(1), of c cid kept]
      unfolding codex_exact_def by (simp del: add_is_0) (meson order_trans)
  qed
  moreover have "codex_inv c g1"
    using 1(1) codex_exact_weaken [OF 1(4), of "\<lambda>_. 0"] by (simp add: codex_inv_def)
  ultimately show ?thesis
    using Some loop assms(2) by (simp add: merge_codex_pending_sse_def flip: g0_def)
qed

text \<open>The pending sum of a bucket, whatever the order of the conversations.\<close>

lemma fold_stats_add_min:
  "ctr c (fold (\<lambda>s total. stats_add total s) ss t) = min ctr_max (ctr c t + (\<Sum>s\<leftarrow>ss. ctr c s))"
proof (induction ss arbitrary: t)
  case Nil
  then show ?case using ctr_le_max [of c t] by simp
next
  case (Cons s ss)
  then show ?case by (simp add: ctr_simps)
qed

lemma sum_pending_for_bucket_ctr:
  "ctr c (sum_pending_for_bucket g b) = min ctr_max (pending_at c (codex_pending_sse g) b)"
proof -
  have "(\<Sum>s\<leftarrow>List.map_filter (\<lambda>e. map_of (snd e) b) P. ctr c s) = pending_at c P b" for P
    by (induction P) (auto simp: pending_at_def om_val_def map_filter_simps split: option.splits)
  then show ?thesis by (simp add: sum_pending_for_bucket_def fold_stats_add_min)
qed

lemma merge_legacy:
  assumes inv: "codex_inv c g"
  shows "codex_inv c (fst (merge_codex_pending_sse g p m [] e confirmed))"
proof -
  define "from" to where "from = from_parts p m UNKNOWN" and "to = from_parts p m e"
  define bs where "bs = as_buckets (codex_agent g)"
  have "codex_inv c (move_codex_bucket_stats g from to (saturating_sub_stats (bs_stats fs) (sum_pending_for_bucket g from)))"
    (is "codex_inv c (move_codex_bucket_stats g from to ?s)")
    if fs: "map_of bs (bucket_key from) = Some fs" for fs
  proof -
    have fs': "bucket_val c bs from = ctr c (bs_stats fs)"
      using fs by (simp add: bucket_val_def om_val_Some)
    have s: "ctr c ?s = bucket_val c bs from - min ctr_max (pending_at c (codex_pending_sse g) from)"
      by (simp add: saturating_sub_stats_def ctr_simps sum_pending_for_bucket_ctr fs')
    have max: "bucket_val c bs from \<le> ctr_max"
      using ctr_le_max [of c] by (simp add: fs')
    define v q where "v = bucket_val c bs from" and "q = pending_at c (codex_pending_sse g) from"
    have part: "q \<le> v \<Longrightarrow> q + ctr c ?s \<le> v" using max s by (simp add: v_def q_def)
    have "codex_exact c (\<lambda>b. 0 + (if b = from then ctr c ?s else 0)) g"
      using inv part by (auto simp: codex_inv_def codex_exact_def v_def q_def simp flip: bs_def)
    from codex_exact_move [OF _ this, of to] inv show ?thesis
      using codex_exact_weaken by (fastforce simp: codex_inv_def codex_wf_move)
  qed
  then show ?thesis
    using inv by (auto simp: merge_codex_pending_sse_def Let_def bs_def from_def to_def agent_of_def
        split: option.splits)
qed

lemma codex_inv_merge: "codex_inv c g \<Longrightarrow> codex_inv c (fst (merge_codex_pending_sse g p m cid e confirmed))"
  by (cases "cid = []") (simp_all add: merge_legacy merge_conversation)


section \<open>Every ingest keeps the invariant\<close>

lemma codex_inv_session_fields [simp]:
  "codex_inv c (g\<lparr>codex_sessions := x\<rparr>) = codex_inv c g"
  "codex_inv c (g\<lparr>codex_last_sessions := y\<rparr>) = codex_inv c g"
  "codex_inv c (g\<lparr>codex_token_sources := z\<rparr>) = codex_inv c g"
  by (simp_all add: codex_inv_def codex_wf_def codex_exact_def)

lemma codex_inv_update_session:
  "codex_inv c g \<Longrightarrow> codex_inv c (fst (update_codex_session_with_last g service session update_last))"
  by (simp add: update_codex_session_with_last_def Let_def codex_inv_merge)

lemma codex_inv_update_effort:
  "codex_inv c g \<Longrightarrow> codex_inv c (fst (update_codex_effort_from_request_attrs g service attrs))"
  by (auto simp: update_codex_effort_from_request_attrs_def update_codex_last_effort_def Let_def
      codex_inv_merge codex_inv_update_session split: option.splits)

lemma codex_inv_sse_log:
  assumes "codex_inv c (fst st)"
  shows "codex_inv c (fst (ingest_codex_sse_log service lr st))"
proof -
  obtain g n where st: "st = (g, n)" by (cases st)
  have wf: "codex_wf g" and ex: "codex_exact c (\<lambda>_. 0) g" using assms by (simp_all add: st codex_inv_def)
  have "codex_inv c ((record_into g AGENT_CODEX b s)\<lparr>codex_pending_sse :=
      om_entry cid [] (stats_entry b s) (codex_pending_sse g)\<rparr>)" for b s cid
    using codex_inv_pending [of "record_into g AGENT_CODEX b s" c b s cid] codex_exact_record [OF wf ex, of b s] by simp
  moreover have "codex_inv c (record_into g AGENT_CODEX b s)" for b s
    using assms by (simp add: st codex_inv_record)
  ultimately show ?thesis
    using assms by (simp add: ingest_codex_sse_log_def st Let_def split: option.splits)
qed

lemma codex_inv_session_log:
  "codex_inv c (fst st) \<Longrightarrow> codex_inv c (fst (ingest_codex_session_log service lr st))"
  by (cases st) (auto simp: ingest_codex_session_log_def update_codex_session_def Let_def split_beta
      codex_inv_update_session split: option.splits)

text \<open>Claude's operations do not touch the Codex part.\<close>

lemma same_codex_record_claude: "same_codex g (record_into g AGENT_CLAUDE b s)"
  by (simp add: same_codex_def)

lemma same_codex_subtract: "same_codex g (subtract_from g AGENT_CLAUDE b s)"
  by (auto simp: same_codex_def subtract_from_def agent_of_put split: option.splits)

lemma same_codex_subtract_all: "same_codex g (subtract_all m g)"
proof (induction m arbitrary: g)
  case Nil
  then show ?case by (simp add: subtract_all_def)
next
  case (Cons x m)
  have "subtract_all (x # m) g = subtract_all m (subtract_from g AGENT_CLAUDE (fst x) (snd x))"
    by (simp add: subtract_all_def split_beta)
  then show ?case using same_codex_subtract Cons.IH same_codex_trans by metis
qed

lemma same_codex_log_usage: "same_codex g (record_claude_log_usage g b s)"
proof -
  have "same_codex g (subtract_all m (g\<lparr>claude_metric_usage := x\<rparr>))" for m x
    using same_codex_subtract_all [of "g\<lparr>claude_metric_usage := x\<rparr>" m] by (simp add: same_codex_def)
  then show ?thesis
    by (auto simp: record_claude_log_usage_def Let_def same_codex_def split: option.splits)
qed

lemma same_codex_metric_usage: "same_codex g (fst (record_claude_metric_usage g b s))"
  by (simp add: record_claude_metric_usage_def Let_def same_codex_def)

lemma same_codex_register: "same_codex g (register_canonical_claude_model g full)"
  by (auto simp: register_canonical_claude_model_def Let_def same_codex_def agent_of_def map_of_om_put
      split: option.splits)

lemma same_codex_token_point: "same_codex (fst st) (fst (claude_token_point dp st))"
  using same_codex_trans [OF same_codex_register same_codex_metric_usage]
  by (cases st) (auto simp: claude_token_point_def claude_metric_model_def Let_def split_beta
      same_codex_register split: option.splits)

lemma same_codex_cost_point: "same_codex (fst st) (fst (claude_cost_point dp st))"
  using same_codex_trans [OF same_codex_register same_codex_metric_usage]
  by (cases st) (simp add: claude_cost_point_def claude_metric_model_def Let_def split_beta)

text \<open>The steps of the three ingest loops.\<close>

lemma codex_inv_log_record:
  "codex_inv c (fst st) \<Longrightarrow> codex_inv c (fst (ingest_log_record service lr st))"
  using same_codex_inv [OF same_codex_trans [OF same_codex_record_claude same_codex_log_usage]]
  by (cases st) (auto simp: ingest_log_record_def codex_inv_sse_log codex_inv_session_log split: option.splits)

interpretation span_events: step_invariant "ingest_span_event service" "\<lambda>st. codex_inv c (fst st)" for service c
  by unfold_locales (auto simp: ingest_span_event_def update_codex_session_def Let_def split_beta
      codex_inv_update_session split: option.splits)

lemma codex_inv_span: "codex_inv c (fst st) \<Longrightarrow> codex_inv c (fst (ingest_span service sp st))"
  using span_events.fold_inv [of c st service "sp_events sp"]
  by (simp add: ingest_span_def Let_def split_beta codex_inv_update_effort)

lemma codex_inv_codex_points:
  "codex_inv c (fst st) \<Longrightarrow> codex_inv c (fst (codex_token_point service hp st))"
  "codex_inv c (fst st) \<Longrightarrow> codex_inv c (fst (codex_turn_point service np st))"
  "codex_inv c (fst st) \<Longrightarrow> codex_inv c (fst (codex_duration_point service hp st))"
  by (cases st; auto simp: codex_token_point_def codex_turn_point_def codex_duration_point_def Let_def
      codex_inv_record split: option.splits)+

lemma codex_inv_metric: "codex_inv c (fst st) \<Longrightarrow> codex_inv c (fst (ingest_metric service mt st))"
  using same_codex_inv [OF same_codex_token_point] same_codex_inv [OF same_codex_cost_point]
  by (intro metric_points_inv [where I = "codex_inv c"] codex_inv_codex_points) auto

interpretation codex: ingest_invariant "codex_inv c" for c
  by unfold_locales (rule codex_inv_log_record codex_inv_span codex_inv_metric; assumption)+

lemma codex_inv_new: "codex_inv c (aggregator_new clk)"
  by (simp add: codex_inv_def codex_wf_def codex_exact_def aggregator_new_def pending_at_def agent_of_def)

lemma codex_inv_run: "codex_inv c (ingest_run rs (aggregator_new clk))"
  by (rule codex.run_inv [OF codex_inv_new])

end
