(* ===== verification/Claude_Usage.thy ===== *)
theory Claude_Usage
  imports Buckets
begin

text \<open>
  Claude Code reports the same usage twice: as \<^verbatim>\<open>api_request\<close> logs and as metrics. The
  aggregator keeps one of the two per (model, effort): metrics count until a log arrives for the
  same key, then they are taken back and only logs count. The specification below says this of
  the samples alone, without the state; the lemmas show that the aggregator implements it for
  every order of arrival, as long as the samples fit into the counters.
\<close>

section \<open>Specification: the samples and what they amount to\<close>

datatype claude_sample =
    LogSample claude_usage_key model_stats model_stats   \<comment> \<open>request and usage totals\<close>
  | MetricSample claude_usage_key model_stats

definition claude_log_samples :: "str \<Rightarrow> log_record \<Rightarrow> claude_sample list" where
  "claude_log_samples service lr =
     (if service = SERVICE_CLAUDE \<and>
         Option.bind (lr_body lr) av_value = Some (StringValue ''claude_code.api_request'')
      then [LogSample (claude_usage_source_key (str_or_empty (string_attr (lr_attributes lr) ''model''))
                         (str_or_empty (string_attr (lr_attributes lr) ''effort'')))
              (claude_request_stats (lr_attributes lr)) (claude_usage_stats (lr_attributes lr))]
      else [])"

definition claude_point_key :: "number_data_point \<Rightarrow> claude_usage_key" where
  "claude_point_key dp = claude_usage_source_key (str_or_empty (string_attr (nd_attributes dp) ''model''))
     (str_or_empty (string_attr (nd_attributes dp) ''effort''))"

definition token_point_samples :: "number_data_point \<Rightarrow> claude_sample list" where
  "token_point_samples dp = (case claude_token_stats
       (str_or_empty (string_attr (nd_attributes dp) ''type'')) (number_value_as_u64 dp) of
     None \<Rightarrow> [] | Some s \<Rightarrow> [MetricSample (claude_point_key dp) s])"

definition cost_point_samples :: "number_data_point \<Rightarrow> claude_sample list" where
  "cost_point_samples dp =
     [MetricSample (claude_point_key dp) (default_stats\<lparr>cost_usd := number_value_as_f64 dp\<rparr>)]"

definition claude_metric_samples :: "str \<Rightarrow> metric \<Rightarrow> claude_sample list" where
  "claude_metric_samples service mt = (case mt_data mt of
     Some (Sum t points) \<Rightarrow>
       if service \<noteq> SERVICE_CLAUDE \<or> \<not> is_delta_temporality t then []
       else if mt_name mt = ''claude_code.token.usage'' then concat (map token_point_samples points)
       else if mt_name mt = ''claude_code.cost.usage'' then concat (map cost_point_samples points)
       else []
   | _ \<Rightarrow> [])"

definition claude_samples :: "telemetry_record list \<Rightarrow> claude_sample list" where
  "claude_samples rs = concat (map (batch_samples claude_log_samples claude_metric_samples) rs)"

fun request_at :: "counter \<Rightarrow> claude_usage_key \<Rightarrow> claude_sample \<Rightarrow> nat" where
  "request_at c k (LogSample k' r u) = (if k' = k then ctr c r else 0)"
| "request_at c k (MetricSample k' u) = 0"

fun log_usage_at :: "counter \<Rightarrow> claude_usage_key \<Rightarrow> claude_sample \<Rightarrow> nat" where
  "log_usage_at c k (LogSample k' r u) = (if k' = k then ctr c u else 0)"
| "log_usage_at c k (MetricSample k' u) = 0"

fun metric_usage_at :: "counter \<Rightarrow> claude_usage_key \<Rightarrow> claude_sample \<Rightarrow> nat" where
  "metric_usage_at c k (LogSample k' r u) = 0"
| "metric_usage_at c k (MetricSample k' u) = (if k' = k then ctr c u else 0)"

fun sample_weight :: "counter \<Rightarrow> claude_sample \<Rightarrow> nat" where
  "sample_weight c (LogSample k r u) = ctr c r + ctr c u"
| "sample_weight c (MetricSample k u) = ctr c u"

fun log_seen :: "claude_usage_key \<Rightarrow> claude_sample \<Rightarrow> bool" where
  "log_seen k (LogSample k' r u) = (k' = k \<and> has_usage u)"
| "log_seen k (MetricSample k' u) = False"

fun metric_seen :: "claude_usage_key \<Rightarrow> claude_sample \<Rightarrow> bool" where
  "metric_seen k (LogSample k' r u) = False"
| "metric_seen k (MetricSample k' u) = (k' = k \<and> has_usage u)"

text \<open>
  What a key amounts to: the requests, plus the usage of the logs if any log reported usage for
  the key, and the usage of the metrics otherwise.
\<close>

definition sample_sum :: "(claude_sample \<Rightarrow> nat) \<Rightarrow> claude_sample list \<Rightarrow> nat" where
  "sample_sum f H = (\<Sum>x\<leftarrow>H. f x)"

definition spec_total :: "claude_sample list \<Rightarrow> counter \<Rightarrow> claude_usage_key \<Rightarrow> nat" where
  "spec_total H c k = sample_sum (request_at c k) H +
     (if list_ex (log_seen k) H then sample_sum (log_usage_at c k) H
      else sample_sum (metric_usage_at c k) H)"

definition spec_source :: "claude_sample list \<Rightarrow> claude_usage_key \<Rightarrow> claude_usage_source option" where
  "spec_source H k = (if list_ex (log_seen k) H then Some ClaudeLogs
     else if list_ex (metric_seen k) H then Some ClaudeMetrics else None)"

definition samples_fit :: "claude_sample list \<Rightarrow> bool" where
  "samples_fit H \<longleftrightarrow> (\<forall>c. sample_sum (sample_weight c) H \<le> ctr_max)"

lemma sample_sum_simps [simp]:
  "sample_sum f [] = 0" "sample_sum f (x # H) = f x + sample_sum f H"
  "sample_sum f (H @ H') = sample_sum f H + sample_sum f H'"
  by (simp_all add: sample_sum_def)

section \<open>Model names and usage keys\<close>

lemma bare_model_idem: "bare_model (bare_model m) = bare_model m"
proof (cases "split_once (CHR ''['') m")
  case None
  then show ?thesis by (simp add: bare_model_def)
next
  case (Some x)
  then obtain a r where x: "split_once (CHR ''['') m = Some (a, r)" by (cases x) auto
  then have "CHR ''['' \<notin> set a" by (simp add: split_once_Some)
  then have "split_once (CHR ''['') a = None" by (simp add: split_once_None)
  then show ?thesis by (simp add: bare_model_def x)
qed

lemma non_empty_idem [simp]: "non_empty (non_empty s) = non_empty s" "non_empty s \<noteq> []"
  by (simp_all add: non_empty_def UNKNOWN_def)

lemma bare_model_unknown [simp]: "bare_model UNKNOWN = UNKNOWN"
  by (simp add: bare_model_def UNKNOWN_def)

lemma bare_model_Nil [simp]: "bare_model [] = []"
  by (simp add: bare_model_def)

lemma source_key_non_empty [simp]:
  "claude_usage_source_key (non_empty m) e = claude_usage_source_key m e"
  "claude_usage_source_key m (non_empty e) = claude_usage_source_key m e"
proof -
  have "non_empty (bare_model (non_empty m)) = non_empty (bare_model m)"
    by (cases "m = []") (simp_all add: non_empty_def)
  then show "claude_usage_source_key (non_empty m) e = claude_usage_source_key m e"
    by (simp add: claude_usage_source_key_def)
qed (simp add: claude_usage_source_key_def)

lemma source_key_bare [simp]: "claude_usage_source_key (bare_model m) e = claude_usage_source_key m e"
  by (simp add: claude_usage_source_key_def bare_model_idem)

lemma bucket_source_key_from_parts [simp]:
  "bucket_source_key (from_parts p m e) = claude_usage_source_key m e"
  by (simp add: bucket_source_key_def from_parts_def)

lemma bk_from_parts [simp]:
  "bk_provider (from_parts p m e) = non_empty p" "bk_model (from_parts p m e) = non_empty m"
  "bk_effort (from_parts p m e) = non_empty e"
  by (simp_all add: from_parts_def)

text \<open>A registered short name stands for a full name with the same key.\<close>

definition canonical_ok :: "aggregator \<Rightarrow> bool" where
  "canonical_ok g \<longleftrightarrow> (\<forall>r f. claude_canonical_models g r = Some f \<longrightarrow> f = r \<or> bare_model f = r)"

lemma canonical_source_key:
  assumes "canonical_ok g"
  shows "claude_usage_source_key (canonical_claude_model g m) e = claude_usage_source_key m e"
proof (cases "claude_canonical_models g m")
  case None
  then show ?thesis by (simp add: canonical_claude_model_def)
next
  case (Some f)
  then have "f = m \<or> bare_model f = m" using assms by (simp add: canonical_ok_def)
  then have "claude_usage_source_key f e = claude_usage_source_key m e"
    using source_key_bare [of f e] by auto
  with Some show ?thesis by (simp add: canonical_claude_model_def)
qed

section \<open>The relation between the state and the amounts\<close>

abbreviation claude_agent :: "aggregator \<Rightarrow> agent_stats" where
  "claude_agent g \<equiv> agent_of g AGENT_CLAUDE"

abbreviation claude_buckets :: "aggregator \<Rightarrow> (str, bucket_stats) omap" where
  "claude_buckets g \<equiv> as_buckets (claude_agent g)"

abbreviation key_sum :: "counter \<Rightarrow> claude_usage_key \<Rightarrow> (str, bucket_stats) omap \<Rightarrow> nat" where
  "key_sum c k \<equiv> class_sum c (\<lambda>b. bucket_source_key b = k)"

text \<open>
  The ledger of a key: what its metrics have added, by bucket, all of it still booked there, in
  buckets of models that metrics have named.
\<close>

definition ledger_ok ::
    "aggregator \<Rightarrow> (counter \<Rightarrow> claude_usage_key \<Rightarrow> nat) \<Rightarrow> claude_usage_key \<Rightarrow> (bucket, model_stats) omap \<Rightarrow> bool" where
  "ledger_ok g met k m \<longleftrightarrow> om_ok m \<and> (\<forall>c. om_sum (ctr c) m = met c k) \<and>
     (\<forall>b \<in> fst ` set m. bucket_source_key b = k \<and> bk_model b \<in> claude_metric_models g) \<and>
     (\<forall>c b. om_val (ctr c) m b \<le> bucket_val c (claude_buckets g) b)"

definition buckets_rel ::
    "(counter \<Rightarrow> nat) \<Rightarrow> (counter \<Rightarrow> claude_usage_key \<Rightarrow> nat) \<Rightarrow> aggregator \<Rightarrow> bool" where
  "buckets_rel w ks g \<longleftrightarrow> buckets_wf (claude_buckets g) \<and>
     (\<forall>c. ctr c (as_total (claude_agent g)) = all_sum c (claude_buckets g)) \<and>
     (\<forall>c. all_sum c (claude_buckets g) \<le> w c) \<and> (\<forall>c. w c \<le> ctr_max) \<and>
     (\<forall>c k. key_sum c k (claude_buckets g) = ks c k)"

definition ledgers_rel ::
    "(claude_usage_key \<rightharpoonup> claude_usage_source) \<Rightarrow> (counter \<Rightarrow> claude_usage_key \<Rightarrow> nat) \<Rightarrow> aggregator \<Rightarrow> bool" where
  "ledgers_rel src met g \<longleftrightarrow> canonical_ok g \<and> claude_usage_sources g = src \<and>
     (\<forall>k. claude_metric_usage g k = None \<longleftrightarrow> src k \<noteq> Some ClaudeMetrics) \<and>
     (\<forall>k m. claude_metric_usage g k = Some m \<longrightarrow> ledger_ok g met k m)"

lemma ledger_ok_keep:
  assumes "ledger_ok g met k m"
    and "claude_metric_models g \<subseteq> claude_metric_models g'"
    and "\<And>c. met' c k = met c k"
    and "\<And>c b. bucket_source_key b = k \<Longrightarrow> bk_model b \<in> claude_metric_models g \<Longrightarrow>
           bucket_val c (claude_buckets g) b \<le> bucket_val c (claude_buckets g') b"
  shows "ledger_ok g' met' k m"
proof -
  have "om_val (ctr c) m b \<le> bucket_val c (claude_buckets g') b" for c b
  proof (cases "b \<in> fst ` set m")
    case True
    with assms(1) have "om_val (ctr c) m b \<le> bucket_val c (claude_buckets g) b"
      and "bucket_source_key b = k" "bk_model b \<in> claude_metric_models g"
      by (auto simp: ledger_ok_def)
    with assms(4) show ?thesis using order_trans by blast
  next
    case False
    then have "map_of m b = None" by (simp add: map_of_eq_None_iff)
    then show ?thesis by (simp add: om_val_None)
  qed
  with assms show ?thesis unfolding ledger_ok_def by (simp add: subset_iff)
qed

section \<open>Recording\<close>

lemma buckets_rel_record:
  assumes rel: "buckets_rel w ks g" and fit: "\<And>c. w c + ctr c s \<le> ctr_max"
  shows "buckets_rel (\<lambda>c. w c + ctr c s)
     (\<lambda>c k. ks c k + (if k = bucket_source_key b then ctr c s else 0)) (record_into g AGENT_CLAUDE b s)"
proof -
  have "all_sum c (claude_buckets g) + ctr c s \<le> ctr_max" for c
    using rel fit [of c] add_right_mono order_trans unfolding buckets_rel_def by blast
  with rel fit show ?thesis
    by (auto simp: buckets_rel_def buckets_wf_add class_sum_add ctr_simps)
qed

lemma bucket_val_record_mono:
  assumes rel: "buckets_rel w ks g" and fit: "\<And>c. w c + ctr c s \<le> ctr_max"
  shows "bucket_val c (claude_buckets (record_into g AGENT_CLAUDE b s)) b' =
     bucket_val c (claude_buckets g) b' + (if b' = b then ctr c s else 0)"
proof -
  have "all_sum c (claude_buckets g) + ctr c s \<le> ctr_max"
    using rel fit [of c] add_right_mono order_trans unfolding buckets_rel_def by blast
  with rel show ?thesis by (simp add: buckets_rel_def bucket_val_add)
qed

lemma ledgers_rel_record:
  assumes rel: "buckets_rel w ks g" and fit: "\<And>c. w c + ctr c s \<le> ctr_max"
    and led: "ledgers_rel src met g"
  shows "ledgers_rel src met (record_into g AGENT_CLAUDE b s)"
proof -
  have "ledger_ok (record_into g AGENT_CLAUDE b s) met k m" if "ledger_ok g met k m" for k m
    using that by (rule ledger_ok_keep) (simp_all add: bucket_val_record_mono [OF rel fit] del: agent_of_record_into)
  with led show ?thesis by (simp add: ledgers_rel_def canonical_ok_def)
qed


section \<open>Taking metric usage back\<close>

definition entries_sum :: "counter \<Rightarrow> (bucket \<Rightarrow> bool) \<Rightarrow> (bucket \<times> model_stats) list \<Rightarrow> nat" where
  "entries_sum c Q es = (\<Sum>e\<leftarrow>es. if Q (fst e) then ctr c (snd e) else 0)"

lemma entries_sum_simps [simp]:
  "entries_sum c Q [] = 0"
  "entries_sum c Q (e # es) = (if Q (fst e) then ctr c (snd e) else 0) + entries_sum c Q es"
  by (simp_all add: entries_sum_def)

lemma entries_sum_single: "om_ok es \<Longrightarrow> entries_sum c (\<lambda>b'. b' = b) es = om_val (ctr c) es b"
proof (induction es)
  case Nil
  then show ?case by (simp add: om_val_None)
next
  case (Cons x es)
  then have "fst x = b \<Longrightarrow> map_of es b = None"
    by (auto simp: om_ok_Cons map_of_eq_None_iff)
  with Cons show ?case by (cases x) (auto simp: om_val_def om_ok_Cons)
qed

lemma entries_sum_all: "\<forall>b \<in> fst ` set es. Q b \<Longrightarrow> entries_sum c Q es = om_sum (ctr c) es"
  by (induction es) auto

lemma entries_sum_none: "\<forall>b \<in> fst ` set es. \<not> Q b \<Longrightarrow> entries_sum c Q es = 0"
  by (induction es) auto

lemma claude_agent_subtract:
  "claude_agent (subtract_from g AGENT_CLAUDE b s) = (if map_of (agents g) AGENT_CLAUDE = None then default_agent
     else (claude_agent g)\<lparr>as_total := stats_subtract (as_total (claude_agent g)) s,
       as_buckets := bucket_subtract (bucket_key b) s (claude_buckets g)\<rparr>)"
  by (auto simp: subtract_from_def agent_of_def map_of_om_put split: option.splits)

lemma subtract_one:
  assumes "buckets_wf (claude_buckets g)" and "ctr c s \<le> bucket_val c (claude_buckets g) b"
  shows "buckets_wf (claude_buckets (subtract_from g AGENT_CLAUDE b s))"
    and "ctr c (as_total (claude_agent (subtract_from g AGENT_CLAUDE b s))) = ctr c (as_total (claude_agent g)) - ctr c s"
    and "class_sum c Q (claude_buckets (subtract_from g AGENT_CLAUDE b s)) + (if Q b then ctr c s else 0)
       = class_sum c Q (claude_buckets g)"
    and "bucket_val c (claude_buckets (subtract_from g AGENT_CLAUDE b s)) b' =
       bucket_val c (claude_buckets g) b' - (if b' = b then ctr c s else 0)"
  using assms class_sum_subtract [OF assms, of Q]
  by (auto simp: claude_agent_subtract ctr_simps buckets_wf_subtract bucket_val_subtract)

lemma subtract_all_Cons [simp]:
  "subtract_all [] g = g" "subtract_all (x # m) g = subtract_all m (subtract_from g AGENT_CLAUDE (fst x) (snd x))"
  by (simp_all add: subtract_all_def split_beta)

lemma subtract_all_effect:
  assumes "buckets_wf (claude_buckets g)"
    and "\<And>b. entries_sum c (\<lambda>b'. b' = b) es \<le> bucket_val c (claude_buckets g) b"
  shows "buckets_wf (claude_buckets (subtract_all es g)) \<and>
    ctr c (as_total (claude_agent (subtract_all es g))) = ctr c (as_total (claude_agent g)) - entries_sum c (\<lambda>_. True) es \<and>
    (\<forall>Q. class_sum c Q (claude_buckets (subtract_all es g)) + entries_sum c Q es = class_sum c Q (claude_buckets g)) \<and>
    (\<forall>b. bucket_val c (claude_buckets (subtract_all es g)) b =
       bucket_val c (claude_buckets g) b - entries_sum c (\<lambda>b'. b' = b) es)"
  using assms
proof (induction es arbitrary: g)
  case Nil
  then show ?case by simp
next
  case (Cons x es)
  let ?g = "subtract_from g AGENT_CLAUDE (fst x) (snd x)"
  have le: "ctr c (snd x) \<le> bucket_val c (claude_buckets g) (fst x)"
    using Cons.prems(2) [of "fst x"] by simp
  note one = subtract_one [OF Cons.prems(1) le]
  have "entries_sum c (\<lambda>b'. b' = b) es \<le> bucket_val c (claude_buckets ?g) b" for b
    using Cons.prems(2) [of b] by (auto simp: one(4))
  note IH = Cons.IH [OF one(1) this]
  have "class_sum c Q (claude_buckets (subtract_all es ?g)) + entries_sum c Q (x # es) = class_sum c Q (claude_buckets g)" for Q
  proof -
    have "class_sum c Q (claude_buckets (subtract_all es ?g)) + entries_sum c Q es = class_sum c Q (claude_buckets ?g)"
      using IH by blast
    with one(3) [of Q] show ?thesis by simp
  qed
  then show ?case using IH by (simp add: one(2,4))
qed

lemma subtract_fields [simp]:
  "claude_canonical_models (subtract_from g n b s) = claude_canonical_models g"
  "claude_metric_models (subtract_from g n b s) = claude_metric_models g"
  "claude_usage_sources (subtract_from g n b s) = claude_usage_sources g"
  "claude_metric_usage (subtract_from g n b s) = claude_metric_usage g"
  by (simp_all add: subtract_from_def split: option.splits)

lemma subtract_all_fields [simp]:
  "claude_canonical_models (subtract_all es g) = claude_canonical_models g"
  "claude_metric_models (subtract_all es g) = claude_metric_models g"
  "claude_usage_sources (subtract_all es g) = claude_usage_sources g"
  "claude_metric_usage (subtract_all es g) = claude_metric_usage g"
  by (induction es arbitrary: g) simp_all


lemma ledger_entries_le:
  "ledger_ok g met k m \<Longrightarrow> entries_sum c (\<lambda>b'. b' = b) m \<le> bucket_val c (claude_buckets g) b"
  by (simp add: ledger_ok_def entries_sum_single)

lemma ledger_sum_at_key:
  "ledger_ok g met k m \<Longrightarrow> entries_sum c (\<lambda>b. bucket_source_key b = k') m = (if k' = k then met c k else 0)"
  "ledger_ok g met k m \<Longrightarrow> entries_sum c (\<lambda>_. True) m = met c k"
  by (auto simp: ledger_ok_def entries_sum_all entries_sum_none)

lemma ledger_sum_le:
  assumes "ledger_ok g met k m" and "buckets_wf (claude_buckets g)"
  shows "met c k \<le> key_sum c k (claude_buckets g)"
proof -
  from subtract_all_effect [OF assms(2) ledger_entries_le [OF assms(1)], of c]
  have "key_sum c k (claude_buckets (subtract_all m g)) + entries_sum c (\<lambda>b. bucket_source_key b = k) m
      = key_sum c k (claude_buckets g)" by blast
  then show ?thesis by (simp add: ledger_sum_at_key [OF assms(1)])
qed

text \<open>Removing a ledger: exactly the metric usage of its key leaves the buckets and the total.\<close>

definition drop_ledger :: "aggregator \<Rightarrow> claude_usage_key \<Rightarrow> aggregator" where
  "drop_ledger g k = (case claude_metric_usage g k of None \<Rightarrow> g
     | Some m \<Rightarrow> subtract_all m (g\<lparr>claude_metric_usage := (claude_metric_usage g)(k := None)\<rparr>))"

lemma claude_metric_usage_update [simp]:
  "agent_of (g\<lparr>claude_metric_usage := x, claude_usage_sources := y\<rparr>) n = agent_of g n"
  by (simp add: agent_of_def)

lemma buckets_rel_drop:
  assumes rel: "buckets_rel w ks g" and m: "claude_metric_usage g k = Some m" "ledger_ok g met k m"
  shows "buckets_rel w (\<lambda>c k'. if k' = k then ks c k - met c k else ks c k') (drop_ledger g k)"
proof -
  let ?g = "g\<lparr>claude_metric_usage := (claude_metric_usage g)(k := None)\<rparr>"
  have wf: "buckets_wf (claude_buckets ?g)" using rel by (simp add: buckets_rel_def)
  have eff: "buckets_wf (claude_buckets (subtract_all m ?g))"
    "ctr c (as_total (claude_agent (subtract_all m ?g))) = ctr c (as_total (claude_agent g)) - met c k"
    "\<And>Q. class_sum c Q (claude_buckets (subtract_all m ?g)) + entries_sum c Q m = class_sum c Q (claude_buckets g)" for c
    using subtract_all_effect [OF wf, of c m] ledger_entries_le [OF m(2), of c]
    by (simp_all add: ledger_sum_at_key [OF m(2)])
  have all: "all_sum c (claude_buckets (subtract_all m ?g)) = all_sum c (claude_buckets g) - met c k" for c
    using eff(3) [of c "\<lambda>_. True"] by (simp add: ledger_sum_at_key [OF m(2)])
  have key: "key_sum c k' (claude_buckets (subtract_all m ?g)) = ks c k' - (if k' = k then met c k else 0)" for c k'
    using eff(3) [of c "\<lambda>b. bucket_source_key b = k'"] rel
    by (simp add: buckets_rel_def ledger_sum_at_key [OF m(2)])
  show ?thesis
    using rel eff(1,2) by (auto simp: buckets_rel_def drop_ledger_def m(1) all key intro: order_trans [OF diff_le_self])
qed

lemma ledgers_rel_drop:
  assumes rel: "buckets_rel w ks g" and led: "ledgers_rel src met g" and m: "claude_metric_usage g k = Some m"
  shows "ledgers_rel (src(k \<mapsto> ClaudeLogs)) met
    ((drop_ledger g k)\<lparr>claude_usage_sources := src(k \<mapsto> ClaudeLogs)\<rparr>)"
proof -
  let ?g = "g\<lparr>claude_metric_usage := (claude_metric_usage g)(k := None)\<rparr>"
  have mok: "ledger_ok g met k m" using led m by (simp add: ledgers_rel_def)
  have wf: "buckets_wf (claude_buckets ?g)" using rel by (simp add: buckets_rel_def)
  have keep: "bucket_val c (claude_buckets (subtract_all m ?g)) b = bucket_val c (claude_buckets g) b"
    if "bucket_source_key b \<noteq> k" for c b
  proof -
    have "entries_sum c (\<lambda>b'. b' = b) m = 0"
      using mok that by (intro entries_sum_none) (auto simp: ledger_ok_def)
    then show ?thesis
      using subtract_all_effect [OF wf, of c m] ledger_entries_le [OF mok, of c] by simp
  qed
  have "ledger_ok ((drop_ledger g k)\<lparr>claude_usage_sources := src(k \<mapsto> ClaudeLogs)\<rparr>) met k' m'"
    if "claude_metric_usage g k' = Some m'" "k' \<noteq> k" for k' m'
  proof (rule ledger_ok_keep)
    show "ledger_ok g met k' m'" using led that(1) by (simp add: ledgers_rel_def)
  qed (use that(2) in \<open>simp_all add: drop_ledger_def m keep\<close>)
  with led show ?thesis
    by (auto simp: ledgers_rel_def canonical_ok_def drop_ledger_def m)
qed


section \<open>A log, a metric\<close>

lemma rel_other_fields [simp]:
  "buckets_rel w ks (g\<lparr>claude_usage_sources := y\<rparr>) = buckets_rel w ks g"
  "buckets_rel w ks (g\<lparr>claude_metric_usage := x\<rparr>) = buckets_rel w ks g"
  "buckets_rel w ks (g\<lparr>claude_metric_models := z\<rparr>) = buckets_rel w ks g"
  "buckets_rel w ks (g\<lparr>claude_canonical_models := v\<rparr>) = buckets_rel w ks g"
  by (simp_all add: buckets_rel_def)

lemma record_into_sources:
  "(record_into g n b s)\<lparr>claude_usage_sources := x\<rparr> = record_into (g\<lparr>claude_usage_sources := x\<rparr>) n b s"
  by (simp add: record_into_def touch_def Let_def)

definition log_base :: "(claude_usage_key \<rightharpoonup> claude_usage_source) \<Rightarrow> (counter \<Rightarrow> claude_usage_key \<Rightarrow> nat) \<Rightarrow>
    (counter \<Rightarrow> claude_usage_key \<Rightarrow> nat) \<Rightarrow> claude_usage_key \<Rightarrow> counter \<Rightarrow> claude_usage_key \<Rightarrow> nat" where
  "log_base src met ks k c k' = (if k' = k \<and> src k = Some ClaudeMetrics then ks c k - met c k else ks c k')"

lemma record_log_usage_rel:
  assumes rel: "buckets_rel w ks g" and led: "ledgers_rel src met g"
    and fit: "\<And>c. w c + ctr c s \<le> ctr_max" and "has_usage s" and k: "k = bucket_source_key b"
  shows "buckets_rel (\<lambda>c. w c + ctr c s)
      (\<lambda>c k'. log_base src met ks k c k' + (if k' = k then ctr c s else 0)) (record_claude_log_usage g b s)"
    and "ledgers_rel (src(k \<mapsto> ClaudeLogs)) met (record_claude_log_usage g b s)"
proof -
  define g' where "g' = (if src k = Some ClaudeMetrics then drop_ledger g k else g)\<lparr>claude_usage_sources := src(k \<mapsto> ClaudeLogs)\<rparr>"
  have src: "claude_usage_sources g = src" using led by (simp add: ledgers_rel_def)
  have step: "record_claude_log_usage g b s = record_into g' AGENT_CLAUDE b s"
    using \<open>has_usage s\<close> src
    by (simp add: record_claude_log_usage_def Let_def g'_def k drop_ledger_def flip: record_into_sources split: option.splits)
  have rel': "buckets_rel w (log_base src met ks k) g'" and led': "ledgers_rel (src(k \<mapsto> ClaudeLogs)) met g'"
  proof -
    show "buckets_rel w (log_base src met ks k) g'"
    proof (cases "src k = Some ClaudeMetrics")
      case True
      with led obtain m where m: "claude_metric_usage g k = Some m" "ledger_ok g met k m"
        by (fastforce simp: ledgers_rel_def)
      moreover have "log_base src met ks k = (\<lambda>c k'. if k' = k then ks c k - met c k else ks c k')"
        using True by (auto simp: log_base_def fun_eq_iff)
      ultimately show ?thesis using buckets_rel_drop [OF rel] True by (simp add: g'_def)
    next
      case False
      then have "log_base src met ks k = ks" by (simp add: log_base_def fun_eq_iff)
      with rel False show ?thesis by (simp add: g'_def)
    qed
    show "ledgers_rel (src(k \<mapsto> ClaudeLogs)) met g'"
    proof (cases "src k = Some ClaudeMetrics")
      case True
      with led obtain m where m: "claude_metric_usage g k = Some m"
        by (fastforce simp: ledgers_rel_def)
      from ledgers_rel_drop [OF rel led m] True show ?thesis by (simp add: g'_def)
    next
      case False
      moreover have "ledger_ok (g\<lparr>claude_usage_sources := x\<rparr>) met k' m' = ledger_ok g met k' m'" for x k' m'
        by (simp add: ledger_ok_def)
      ultimately show ?thesis using led by (simp add: g'_def ledgers_rel_def canonical_ok_def)
    qed
  qed
  show "buckets_rel (\<lambda>c. w c + ctr c s)
      (\<lambda>c k'. log_base src met ks k c k' + (if k' = k then ctr c s else 0)) (record_claude_log_usage g b s)"
    using buckets_rel_record [OF rel' fit, of b] by (simp add: step k)
  show "ledgers_rel (src(k \<mapsto> ClaudeLogs)) met (record_claude_log_usage g b s)"
    using ledgers_rel_record [OF rel' fit led'] by (simp add: step)
qed

lemma record_metric_usage_rel:
  assumes rel: "buckets_rel w ks g" and led: "ledgers_rel src met g"
    and fit: "\<And>c. w c + ctr c s \<le> ctr_max" and "has_usage s" and k: "k = bucket_source_key b"
    and "src k \<noteq> Some ClaudeLogs" and met0: "\<And>c. src k = None \<Longrightarrow> met c k = 0"
    and model: "bk_model b \<in> claude_metric_models g"
  shows "buckets_rel (\<lambda>c. w c + ctr c s) (\<lambda>c k'. ks c k' + (if k' = k then ctr c s else 0))
      (fst (record_claude_metric_usage g b s))"
    and "ledgers_rel (src(k \<mapsto> ClaudeMetrics)) (\<lambda>c k'. met c k' + (if k' = k then ctr c s else 0))
      (fst (record_claude_metric_usage g b s))"
proof -
  define m where "m = (case claude_metric_usage g k of None \<Rightarrow> [] | Some m \<Rightarrow> m)"
  define g1 where "g1 = record_into g AGENT_CLAUDE b s"
  define g2 where "g2 = g1\<lparr>claude_usage_sources := src(k \<mapsto> ClaudeMetrics),
    claude_metric_usage := (claude_metric_usage g)(k \<mapsto> stats_entry b s m)\<rparr>"
  have src: "claude_usage_sources g = src" using led by (simp add: ledgers_rel_def)
  have step: "fst (record_claude_metric_usage g b s) = g2"
    using assms(4,6) src by (simp add: record_claude_metric_usage_def Let_def g2_def g1_def k m_def)
  show "buckets_rel (\<lambda>c. w c + ctr c s) (\<lambda>c k'. ks c k' + (if k' = k then ctr c s else 0))
      (fst (record_claude_metric_usage g b s))"
    using buckets_rel_record [OF rel fit, of b] unfolding step by (simp add: g2_def g1_def k)
  have wf: "buckets_wf (claude_buckets g)" using rel by (simp add: buckets_rel_def)
  have old: "ledger_ok g met k m"
  proof (cases "claude_metric_usage g k")
    case None
    with led have "src k \<noteq> Some ClaudeMetrics" by (simp add: ledgers_rel_def)
    with assms(6) have "src k = None" by (metis claude_usage_source.exhaust option.exhaust)
    with None met0 show ?thesis by (simp add: ledger_ok_def m_def om_val_None)
  next
    case (Some m')
    with led show ?thesis by (simp add: ledgers_rel_def m_def)
  qed
  have bv: "bucket_val c (claude_buckets g2) b' = bucket_val c (claude_buckets g) b' + (if b' = b then ctr c s else 0)" for c b'
    using bucket_val_record_mono [OF rel fit, of c b b'] by (simp add: g2_def g1_def)
  have room: "om_sum (ctr c) m + ctr c s \<le> ctr_max" for c
  proof -
    have "om_sum (ctr c) m \<le> w c"
      using old ledger_sum_le [OF old wf, of c] class_sum_mono [of c _ "claude_buckets g"] rel
      unfolding ledger_ok_def buckets_rel_def by (metis order_trans)
    then show ?thesis using fit [of c] by linarith
  qed
  have models: "claude_metric_models g2 = claude_metric_models g"
    by (simp add: g2_def g1_def)
  have new: "ledger_ok g2 (\<lambda>c k'. met c k' + (if k' = k then ctr c s else 0)) k (stats_entry b s m)"
    using old room model
    by (auto simp: ledger_ok_def bv om_sum_stats_entry om_val_stats_entry dom_stats_entry k models min.coboundedI2)
  have keep: "ledger_ok g2 (\<lambda>c k'. met c k' + (if k' = k then ctr c s else 0)) k' m'"
    if "ledger_ok g met k' m'" "k' \<noteq> k" for k' m'
    using that(1) by (rule ledger_ok_keep) (use that(2) in \<open>simp_all add: bv models\<close>)
  have usage: "claude_metric_usage g2 = (claude_metric_usage g)(k \<mapsto> stats_entry b s m)"
    "claude_usage_sources g2 = src(k \<mapsto> ClaudeMetrics)" "claude_canonical_models g2 = claude_canonical_models g"
    by (simp_all add: g2_def g1_def)
  show "ledgers_rel (src(k \<mapsto> ClaudeMetrics)) (\<lambda>c k'. met c k' + (if k' = k then ctr c s else 0))
      (fst (record_claude_metric_usage g b s))"
    unfolding step using led new keep by (auto simp: ledgers_rel_def canonical_ok_def usage)
qed


section \<open>Folding a short model name into the full one\<close>

lemma bare_keys_model:
  "key \<in> set (bare_keys a bare) \<Longrightarrow> starts_with key (model_prefix PROVIDER_ANTHROPIC bare)"
  by (auto simp: bare_keys_def Let_def dest: set_takeWhileD)

lemma merge_bare_key_effect:
  assumes wf: "buckets_wf bs" and key: "starts_with key (model_prefix PROVIDER_ANTHROPIC (bare_model full))"
    and room: "all_sum c bs \<le> ctr_max"
  shows "buckets_wf (merge_bare_key full key bs)"
    and "all_sum c (merge_bare_key full key bs) = all_sum c bs"
    and "key_sum c k (merge_bare_key full key bs) = key_sum c k bs"
    and "bk_model b \<noteq> bare_model full \<Longrightarrow> bucket_val c bs b \<le> bucket_val c (merge_bare_key full key bs) b"
proof -
  have *: "buckets_wf (merge_bare_key full key bs) \<and>
    all_sum c (merge_bare_key full key bs) = all_sum c bs \<and>
    key_sum c k (merge_bare_key full key bs) = key_sum c k bs \<and>
    (bk_model b \<noteq> bare_model full \<longrightarrow> bucket_val c bs b \<le> bucket_val c (merge_bare_key full key bs) b)"
  proof (cases "map_of bs key")
    case None
    then show ?thesis using wf by (simp add: merge_bare_key_def)
  next
    case (Some e)
    define eb where "eb = entry_bucket e"
    define fb where "fb = from_parts (bs_provider e) full (bs_effort e)"
    have keq: "key = bucket_key eb" using wf Some by (simp add: eb_def buckets_wf_lookup_key)
    with key have m: "bk_model eb = bare_model full" by (simp add: starts_with_model_prefix)
    have bsk: "bucket_source_key fb = bucket_source_key eb"
      using m by (simp add: fb_def eb_def bucket_source_key_def entry_bucket_def)
    have v: "bucket_val c bs eb = ctr c (bs_stats e)" using Some by (simp add: bucket_val_def keq om_val_Some)
    have del: "class_sum c Q (om_del key bs) + (if Q eb then ctr c (bs_stats e) else 0) = class_sum c Q bs" for Q
      using class_sum_del [OF wf, of c Q eb] unfolding keq v .
    have wf': "buckets_wf (om_del key bs)" using wf by (rule buckets_wf_del)
    have room': "all_sum c (om_del key bs) + ctr c (bs_stats e) \<le> ctr_max"
      using del [of "\<lambda>_. True"] room by simp
    have eq: "merge_bare_key full key bs = bucket_add fb (bs_stats e) (om_del key bs)"
      using Some by (simp add: merge_bare_key_def fb_def)
    have cs: "class_sum c Q (merge_bare_key full key bs) = class_sum c Q bs" if "Q fb = Q eb" for Q
      using class_sum_add [OF wf' room', of Q fb] del [of Q] that by (simp add: eq)
    have "bucket_val c bs b \<le> bucket_val c (merge_bare_key full key bs) b" if "bk_model b \<noteq> bare_model full"
    proof -
      have "bucket_key b \<noteq> key" using that m by (auto simp: keq)
      then have "bucket_val c (om_del key bs) b = bucket_val c bs b" by (simp add: bucket_val_def om_val_del)
      then show ?thesis by (simp add: eq bucket_val_add [OF wf' room'])
    qed
    then show ?thesis using cs bsk wf' by (simp add: eq buckets_wf_add)
  qed
  show "buckets_wf (merge_bare_key full key bs)"
    and "all_sum c (merge_bare_key full key bs) = all_sum c bs"
    and "key_sum c k (merge_bare_key full key bs) = key_sum c k bs"
    and "bk_model b \<noteq> bare_model full \<Longrightarrow> bucket_val c bs b \<le> bucket_val c (merge_bare_key full key bs) b"
    using * by blast+
qed

lemma merge_bare_keys_effect:
  assumes "buckets_wf bs" and "\<forall>key \<in> set keys. starts_with key (model_prefix PROVIDER_ANTHROPIC (bare_model full))"
    and "all_sum c bs \<le> ctr_max"
  shows "buckets_wf (fold (merge_bare_key full) keys bs) \<and>
    all_sum c (fold (merge_bare_key full) keys bs) = all_sum c bs \<and>
    key_sum c k (fold (merge_bare_key full) keys bs) = key_sum c k bs \<and>
    (bk_model b \<noteq> bare_model full \<longrightarrow> bucket_val c bs b \<le> bucket_val c (fold (merge_bare_key full) keys bs) b)"
  using assms
proof (induction keys arbitrary: bs)
  case Nil
  then show ?case by simp
next
  case (Cons key keys)
  then have one: "buckets_wf (merge_bare_key full key bs)"
    "all_sum c (merge_bare_key full key bs) = all_sum c bs"
    "key_sum c k (merge_bare_key full key bs) = key_sum c k bs"
    "bk_model b \<noteq> bare_model full \<Longrightarrow> bucket_val c bs b \<le> bucket_val c (merge_bare_key full key bs) b"
    using merge_bare_key_effect by auto
  then show ?case
    using Cons.IH [of "merge_bare_key full key bs"] Cons.prems by (auto intro: order_trans)
qed

lemma merge_bare_into_full_effect:
  assumes "buckets_wf (as_buckets a)" and "all_sum c (as_buckets a) \<le> ctr_max"
  shows "buckets_wf (as_buckets (merge_bare_into_full (bare_model full) full a))"
    and "all_sum c (as_buckets (merge_bare_into_full (bare_model full) full a)) = all_sum c (as_buckets a)"
    and "key_sum c k (as_buckets (merge_bare_into_full (bare_model full) full a)) = key_sum c k (as_buckets a)"
    and "bk_model b \<noteq> bare_model full \<Longrightarrow>
      bucket_val c (as_buckets a) b \<le> bucket_val c (as_buckets (merge_bare_into_full (bare_model full) full a)) b"
  using merge_bare_keys_effect [OF assms(1) _ assms(2), of "bare_keys a (bare_model full)" full] bare_keys_model
  by (simp_all add: merge_bare_into_full_def)

lemma merge_bare_total [simp]: "as_total (merge_bare_into_full bare full a) = as_total a"
  by (simp add: merge_bare_into_full_def)

text \<open>Registering a model: either the agents stay as they are, or a merge for a name no metric used.\<close>

lemma register_cases:
  "claude_agent (register_canonical_claude_model g full) = claude_agent g \<or>
   claude_agent (register_canonical_claude_model g full) = merge_bare_into_full (bare_model full) full (claude_agent g) \<and>
     bare_model full \<notin> claude_metric_models g"
  by (cases "map_of (agents g) AGENT_CLAUDE")
    (simp_all add: register_canonical_claude_model_def Let_def agent_of_def map_of_om_put)

lemma register_fields:
  "claude_usage_sources (register_canonical_claude_model g full) = claude_usage_sources g"
  "claude_metric_usage (register_canonical_claude_model g full) = claude_metric_usage g"
  "claude_metric_models g \<subseteq> claude_metric_models (register_canonical_claude_model g full)"
  "full \<noteq> [] \<Longrightarrow> full \<in> claude_metric_models (register_canonical_claude_model g full)"
  "canonical_ok g \<Longrightarrow> canonical_ok (register_canonical_claude_model g full)"
  by (auto simp: register_canonical_claude_model_def Let_def canonical_ok_def split: option.splits)

lemma register_rel:
  assumes rel: "buckets_rel w ks g" and led: "ledgers_rel src met g"
  shows "buckets_rel w ks (register_canonical_claude_model g full)"
    and "ledgers_rel src met (register_canonical_claude_model g full)"
proof -
  let ?g = "register_canonical_claude_model g full"
  have wf: "buckets_wf (claude_buckets g)" and room: "all_sum c (claude_buckets g) \<le> ctr_max" for c
    using rel order_trans unfolding buckets_rel_def by blast+
  note merge = merge_bare_into_full_effect [OF wf room, where full = full]
  show "buckets_rel w ks ?g"
    using register_cases [of g full] rel by (auto simp: buckets_rel_def merge)
  have "bucket_val c (claude_buckets g) b \<le> bucket_val c (claude_buckets ?g) b"
    if "bk_model b \<in> claude_metric_models g" for c b
    using register_cases [of g full] that merge(4) [of b c] by fastforce
  then have "ledger_ok ?g met k m" if "ledger_ok g met k m" for k m
    using that by (intro ledger_ok_keep [OF that] register_fields) simp_all
  with led show "ledgers_rel src met ?g"
    by (simp add: ledgers_rel_def register_fields)
qed


section \<open>The aggregator implements the specification\<close>

fun plain_sample :: "claude_sample \<Rightarrow> bool" where
  "plain_sample (LogSample k r u) = (request_count u = 0 \<and> duration_ms u = 0)"
| "plain_sample (MetricSample k u) = (request_count u = 0 \<and> duration_ms u = 0)"

definition claude_inv :: "claude_sample list \<Rightarrow> aggregator \<Rightarrow> bool" where
  "claude_inv H g \<longleftrightarrow> list_all plain_sample H \<and>
     buckets_rel (\<lambda>c. sample_sum (sample_weight c) H) (spec_total H) g \<and>
     ledgers_rel (spec_source H) (\<lambda>c k. sample_sum (metric_usage_at c k) H) g"

lemma no_metric_seen:
  "list_all plain_sample H \<Longrightarrow> \<not> list_ex (metric_seen k) H \<Longrightarrow> sample_sum (metric_usage_at c k) H = 0"
proof (induction H)
  case (Cons x H)
  then show ?case by (cases x) (auto intro: ctr_usage_only)
qed simp

lemma no_log_seen:
  "list_all plain_sample H \<Longrightarrow> \<not> list_ex (log_seen k) H \<Longrightarrow> sample_sum (log_usage_at c k) H = 0"
proof (induction H)
  case (Cons x H)
  then show ?case by (cases x) (auto intro: ctr_usage_only)
qed simp

lemma spec_source_log:
  "spec_source (H @ [LogSample k r u]) = (if has_usage u then (spec_source H)(k \<mapsto> ClaudeLogs) else spec_source H)"
  by (auto simp: spec_source_def fun_eq_iff)

lemma spec_source_metric:
  "spec_source (H @ [MetricSample k u]) = (if has_usage u \<and> spec_source H k \<noteq> Some ClaudeLogs
     then (spec_source H)(k \<mapsto> ClaudeMetrics) else spec_source H)"
  by (auto simp: spec_source_def fun_eq_iff)

lemma spec_total_log:
  assumes "list_all plain_sample H" and "request_count u = 0" "duration_ms u = 0"
  shows "spec_total (H @ [LogSample k r u]) =
     (let ks = (\<lambda>c k'. spec_total H c k' + (if k' = k then ctr c r else 0)) in
      if has_usage u then
        (\<lambda>c k'. log_base (spec_source H) (\<lambda>c k. sample_sum (metric_usage_at c k) H) ks k c k' + (if k' = k then ctr c u else 0))
      else ks)"
proof -
  have "\<not> has_usage u \<Longrightarrow> ctr c u = 0" for c using assms(2,3) by (intro ctr_usage_only)
  with no_log_seen [OF assms(1)] no_metric_seen [OF assms(1)] show ?thesis
    by (auto simp: spec_total_def log_base_def spec_source_def fun_eq_iff Let_def)
qed

lemma spec_total_metric:
  assumes "request_count u = 0" "duration_ms u = 0"
  shows "spec_total (H @ [MetricSample k u]) = (if has_usage u \<and> spec_source H k \<noteq> Some ClaudeLogs
     then (\<lambda>c k'. spec_total H c k' + (if k' = k then ctr c u else 0)) else spec_total H)"
proof -
  have "\<not> has_usage u \<Longrightarrow> ctr c u = 0" for c using assms by (intro ctr_usage_only)
  then show ?thesis by (auto simp: spec_total_def spec_source_def fun_eq_iff)
qed

lemma buckets_rel_mono:
  assumes "buckets_rel w ks g" "\<And>c. w c \<le> w' c" "\<And>c. w' c \<le> ctr_max"
  shows "buckets_rel w' ks g"
  using assms unfolding buckets_rel_def by (meson order_trans)

lemma ledgers_rel_cong:
  assumes "ledgers_rel src met g" and met: "\<And>c k. src k = Some ClaudeMetrics \<Longrightarrow> met' c k = met c k"
  shows "ledgers_rel src met' g"
proof -
  have "ledger_ok g met' k m" if "claude_metric_usage g k = Some m" for k m
  proof (rule ledger_ok_keep)
    show "ledger_ok g met k m" using assms(1) that by (simp add: ledgers_rel_def)
    have "src k = Some ClaudeMetrics" using assms(1) that unfolding ledgers_rel_def by (metis option.distinct(1))
    then show "met' c k = met c k" for c by (rule met)
  qed simp_all
  with assms(1) show ?thesis by (simp add: ledgers_rel_def)
qed

lemma samples_fit_append: "samples_fit (h @ h') \<Longrightarrow> samples_fit h"
  unfolding samples_fit_def by (metis le_add1 order_trans sample_sum_simps(3))

lemma claude_log_step:
  assumes inv: "claude_inv H g" and fit: "samples_fit (H @ [LogSample k r u])"
    and plain: "request_count u = 0" "duration_ms u = 0" and k: "bucket_source_key b = k"
  shows "claude_inv (H @ [LogSample k r u]) (record_claude_log_usage (record_into g AGENT_CLAUDE b r) b u)"
proof -
  let ?w = "\<lambda>c. sample_sum (sample_weight c) H" and ?g = "record_into g AGENT_CLAUDE b r"
  let ?met = "\<lambda>c k. sample_sum (metric_usage_at c k) H"
  from inv have pl: "list_all plain_sample H" and rel: "buckets_rel ?w (spec_total H) g"
    and led: "ledgers_rel (spec_source H) ?met g" by (simp_all add: claude_inv_def)
  have fit_ru: "?w c + ctr c r + ctr c u \<le> ctr_max" for c
    using fit unfolding samples_fit_def by (simp add: add.assoc)
  then have fit_r: "?w c + ctr c r \<le> ctr_max" for c using add_leD1 by blast
  have rel1: "buckets_rel (\<lambda>c. ?w c + ctr c r) (\<lambda>c k'. spec_total H c k' + (if k' = k then ctr c r else 0)) ?g"
    using buckets_rel_record [OF rel fit_r, of b] by (simp add: k)
  have led1: "ledgers_rel (spec_source H) ?met ?g" by (rule ledgers_rel_record [OF rel fit_r led])
  show ?thesis
  proof (cases "has_usage u")
    case False
    then have "ctr c u = 0" for c using plain by (intro ctr_usage_only)
    with False rel1 led1 pl plain show ?thesis
      by (simp add: claude_inv_def record_claude_log_usage_def spec_total_log spec_source_log)
  next
    case True
    note step = record_log_usage_rel [OF rel1 led1 fit_ru True k [symmetric]]
    then show ?thesis
      using True pl plain by (simp add: claude_inv_def spec_total_log spec_source_log Let_def add.assoc)
  qed
qed

lemma claude_metric_step:
  assumes inv: "claude_inv H g" and fit: "samples_fit (H @ [MetricSample k u])"
    and plain: "request_count u = 0" "duration_ms u = 0" and k: "bucket_source_key b = k"
    and model: "bk_model b \<in> claude_metric_models g"
  shows "claude_inv (H @ [MetricSample k u]) (fst (record_claude_metric_usage g b u))"
proof -
  let ?w = "\<lambda>c. sample_sum (sample_weight c) H"
  let ?met = "\<lambda>c k. sample_sum (metric_usage_at c k) H"
  from inv have pl: "list_all plain_sample H" and rel: "buckets_rel ?w (spec_total H) g"
    and led: "ledgers_rel (spec_source H) ?met g" by (simp_all add: claude_inv_def)
  have fit_u: "?w c + ctr c u \<le> ctr_max" for c using fit unfolding samples_fit_def by simp
  show ?thesis
  proof (cases "has_usage u \<and> spec_source H k \<noteq> Some ClaudeLogs")
    case True
    then have usage: "has_usage u" and src: "spec_source H k \<noteq> Some ClaudeLogs" by auto
    have "?met c k = 0" if "spec_source H k = None" for c
      using that no_metric_seen [OF pl] by (auto simp: spec_source_def split: if_splits)
    from record_metric_usage_rel [OF rel led fit_u usage k [symmetric] src this model] True pl plain show ?thesis
      by (simp add: claude_inv_def spec_total_metric spec_source_metric eq_commute [of k])
  next
    case False
    have same: "fst (record_claude_metric_usage g b u) = g"
      using False k led by (auto simp: record_claude_metric_usage_def ledgers_rel_def Let_def)
    have "\<not> has_usage u \<Longrightarrow> ctr c u = 0" for c using plain by (intro ctr_usage_only)
    then have "ledgers_rel (spec_source H) (\<lambda>c k'. sample_sum (metric_usage_at c k') (H @ [MetricSample k u])) g"
      using False by (intro ledgers_rel_cong [OF led]) auto
    moreover have "buckets_rel (\<lambda>c. ?w c + ctr c u) (spec_total H) g"
      by (rule buckets_rel_mono [OF rel _ fit_u]) simp
    ultimately show ?thesis
      using False pl plain by (auto simp: claude_inv_def same spec_total_metric spec_source_metric)
  qed
qed


section \<open>Codex leaves the Claude part alone\<close>

definition same_claude :: "aggregator \<Rightarrow> aggregator \<Rightarrow> bool" where
  "same_claude g g' \<longleftrightarrow> claude_agent g' = claude_agent g \<and>
     claude_canonical_models g' = claude_canonical_models g \<and>
     claude_metric_models g' = claude_metric_models g \<and>
     claude_usage_sources g' = claude_usage_sources g \<and> claude_metric_usage g' = claude_metric_usage g"

lemma same_claude_refl [simp]: "same_claude g g"
  by (simp add: same_claude_def)

lemma same_claude_trans [trans]: "same_claude g g' \<Longrightarrow> same_claude g' g'' \<Longrightarrow> same_claude g g''"
  by (simp add: same_claude_def)

lemma same_claude_inv: "same_claude g g' \<Longrightarrow> claude_inv H g \<Longrightarrow> claude_inv H g'"
  by (simp add: same_claude_def claude_inv_def buckets_rel_def ledgers_rel_def ledger_ok_def canonical_ok_def)

lemma same_claude_fields [simp]:
  "same_claude g (g'\<lparr>codex_sessions := x1\<rparr>) = same_claude g g'"
  "same_claude g (g'\<lparr>codex_last_sessions := x2\<rparr>) = same_claude g g'"
  "same_claude g (g'\<lparr>codex_token_sources := x3\<rparr>) = same_claude g g'"
  "same_claude g (g'\<lparr>codex_pending_sse := x4\<rparr>) = same_claude g g'"
  "same_claude g (record_into g' AGENT_CODEX b s) = same_claude g g'"
  by (simp_all add: same_claude_def)

lemma same_claude_move [simp]: "same_claude g (move_codex_bucket_stats g' from to s) = same_claude g g'"
  by (auto simp: same_claude_def move_codex_bucket_stats_def agent_of_def map_of_om_put split: option.splits)

lemma same_claude_resolve:
  "same_claude g (fst (fold (resolve_pending p e confirmed) es st)) = same_claude g (fst st)"
proof (induction es arbitrary: st)
  case (Cons x es)
  have "same_claude g (fst (resolve_pending p e confirmed x st)) = same_claude g (fst st)"
    by (cases st) (auto simp: resolve_pending_def Let_def split_beta)
  with Cons show ?case by simp
qed simp

lemma same_claude_merge: "same_claude g (fst (merge_codex_pending_sse g' p m cid e confirmed)) = same_claude g g'"
  by (auto simp: merge_codex_pending_sse_def Let_def split_beta same_claude_resolve split: option.splits)

lemma same_claude_update:
  "same_claude g (fst (update_codex_session_with_last g' service session upd)) = same_claude g g'"
  by (simp add: update_codex_session_with_last_def Let_def same_claude_merge)

lemma same_claude_effort:
  "same_claude g (fst (update_codex_effort_from_request_attrs g' service attrs)) = same_claude g g'"
  by (auto simp: update_codex_effort_from_request_attrs_def update_codex_last_effort_def Let_def
      same_claude_merge same_claude_update split: option.splits)

lemma same_claude_session_log:
  "same_claude g (fst (ingest_codex_session_log service lr st)) = same_claude g (fst st)"
  by (cases st) (auto simp: ingest_codex_session_log_def update_codex_session_def Let_def split_beta
      same_claude_update split: option.splits)

lemma same_claude_sse_log:
  "same_claude g (fst (ingest_codex_sse_log service lr st)) = same_claude g (fst st)"
  by (cases st) (auto simp: ingest_codex_sse_log_def Let_def split: option.splits)

lemma same_claude_span: "same_claude g (fst (ingest_span service sp st)) = same_claude g (fst st)"
proof -
  have "same_claude g (fst (ingest_span_event service ev st)) = same_claude g (fst st)" for ev st
    by (cases st) (auto simp: ingest_span_event_def update_codex_session_def Let_def split_beta
        same_claude_update split: option.splits)
  then have "same_claude g (fst (fold (ingest_span_event service) evs st)) = same_claude g (fst st)" for evs
    by (induction evs arbitrary: st) simp_all
  then show ?thesis by (simp add: ingest_span_def Let_def split_beta same_claude_effort)
qed

lemma same_claude_codex_points:
  "same_claude g (fst (fold (codex_token_point service) hps st)) = same_claude g (fst st)"
  "same_claude g (fst (fold (codex_turn_point service) nps st)) = same_claude g (fst st)"
  "same_claude g (fst (fold (codex_duration_point service) hps st)) = same_claude g (fst st)"
proof -
  have 1: "same_claude g (fst (codex_token_point service hp st)) = same_claude g (fst st)" for hp st
    by (cases st) (auto simp: codex_token_point_def Let_def split: option.splits)
  show "same_claude g (fst (fold (codex_token_point service) hps st)) = same_claude g (fst st)"
    by (induction hps arbitrary: st) (simp_all add: 1)
  have 2: "same_claude g (fst (codex_turn_point service np st)) = same_claude g (fst st)" for np st
    by (cases st) (auto simp: codex_turn_point_def Let_def)
  show "same_claude g (fst (fold (codex_turn_point service) nps st)) = same_claude g (fst st)"
    by (induction nps arbitrary: st) (simp_all add: 2)
  have 3: "same_claude g (fst (codex_duration_point service hp st)) = same_claude g (fst st)" for hp st
    by (cases st) (auto simp: codex_duration_point_def Let_def)
  show "same_claude g (fst (fold (codex_duration_point service) hps st)) = same_claude g (fst st)"
    by (induction hps arbitrary: st) (simp_all add: 3)
qed

section \<open>The three ingest steps\<close>

lemma claude_stats_plain:
  "request_count (claude_usage_stats attrs) = 0" "duration_ms (claude_usage_stats attrs) = 0"
  "claude_token_stats typ v = Some s \<Longrightarrow> request_count s = 0 \<and> duration_ms s = 0"
  "request_count (default_stats\<lparr>cost_usd := x\<rparr>) = 0" "duration_ms (default_stats\<lparr>cost_usd := x\<rparr>) = 0"
  by (auto simp: claude_usage_stats_def default_stats_def claude_token_stats_def split: if_splits)

lemma claude_log_record_step:
  assumes inv: "claude_inv H (fst st)" and fit: "samples_fit (H @ claude_log_samples service lr)"
  shows "claude_inv (H @ claude_log_samples service lr) (fst (ingest_log_record service lr st))"
proof -
  obtain g n where st: "st = (g, n)" by (cases st)
  have "canonical_ok g" using inv by (simp add: st claude_inv_def ledgers_rel_def)
  note key = canonical_source_key [OF this]
  show ?thesis
  proof (cases "service = SERVICE_CLAUDE \<and>
      Option.bind (lr_body lr) av_value = Some (StringValue ''claude_code.api_request'')")
    case True
    then show ?thesis
      using inv fit
      by (auto simp: st ingest_log_record_def claude_log_samples_def extract_claude_api_request_meta_def Let_def
          key claude_stats_plain intro!: claude_log_step)
  next
    case False
    then have "(if service = SERVICE_CLAUDE then extract_claude_api_request_meta g lr else None) = None"
      by (auto simp: extract_claude_api_request_meta_def split: option.splits otlp_value.splits)
    then have "same_claude g (fst (ingest_log_record service lr st))"
      by (simp add: ingest_log_record_def st same_claude_session_log same_claude_sse_log)
    moreover have "claude_log_samples service lr = []" using False by (auto simp: claude_log_samples_def)
    ultimately show ?thesis using inv same_claude_inv by (simp add: st)
  qed
qed

lemma claude_register_inv:
  "claude_inv H g \<Longrightarrow> claude_inv H (register_canonical_claude_model g full)"
  unfolding claude_inv_def using register_rel by blast

lemma claude_point_step:
  assumes "claude_inv H g" and "samples_fit (H @ [MetricSample (claude_point_key dp) s])"
    and "request_count s = 0" "duration_ms s = 0" and "claude_metric_model g (nd_attributes dp) = (g', m)"
  shows "claude_inv (H @ [MetricSample (claude_point_key dp) s]) (fst (record_claude_metric_usage g'
    (from_parts PROVIDER_ANTHROPIC m (str_or_empty (string_attr (nd_attributes dp) ''effort''))) s))"
proof -
  define m0 where "m0 = str_or_empty (string_attr (nd_attributes dp) ''model'')"
  have m: "m = non_empty m0" and g': "g' = register_canonical_claude_model g m"
    using assms(5) by (auto simp: claude_metric_model_def Let_def m0_def)
  have "m \<in> claude_metric_models g'" unfolding g' by (rule register_fields) (simp add: m)
  then show ?thesis
    using assms by (intro claude_metric_step) (auto simp: claude_register_inv g' m m0_def claude_point_key_def)
qed

interpretation token_points: trace_step claude_token_point token_point_samples
    "\<lambda>H st. claude_inv H (fst st)" samples_fit
proof
  fix H st dp
  assume inv: "claude_inv H (fst (st :: aggregator \<times> nat))" and fit: "samples_fit (H @ token_point_samples dp)"
  obtain g n where st: "st = (g, n)" by (cases st)
  obtain g' m where gm: "claude_metric_model g (nd_attributes dp) = (g', m)"
    by (cases "claude_metric_model g (nd_attributes dp)")
  have "claude_inv H g'"
    using inv gm by (auto simp: st claude_metric_model_def Let_def claude_register_inv)
  then show "claude_inv (H @ token_point_samples dp) (fst (claude_token_point dp st))"
    using claude_point_step [OF _ _ _ _ gm] inv fit claude_stats_plain(3)
    by (auto simp: st gm claude_token_point_def token_point_samples_def Let_def split_beta split: option.splits)
qed (rule samples_fit_append)

interpretation cost_points: trace_step claude_cost_point cost_point_samples
    "\<lambda>H st. claude_inv H (fst st)" samples_fit
proof
  fix H st dp
  assume inv: "claude_inv H (fst (st :: aggregator \<times> nat))" and fit: "samples_fit (H @ cost_point_samples dp)"
  obtain g n where st: "st = (g, n)" by (cases st)
  obtain g' m where gm: "claude_metric_model g (nd_attributes dp) = (g', m)"
    by (cases "claude_metric_model g (nd_attributes dp)")
  show "claude_inv (H @ cost_point_samples dp) (fst (claude_cost_point dp st))"
    using claude_point_step [OF _ _ claude_stats_plain(4,5) gm] inv fit
    by (simp add: st gm claude_cost_point_def cost_point_samples_def Let_def split_beta)
qed (rule samples_fit_append)

lemma claude_not_codex: "\<not> is_codex_service SERVICE_CLAUDE"
  by (simp add: is_codex_service_def SERVICE_CLAUDE_def)

lemma claude_metric_record_step:
  assumes inv: "claude_inv H (fst st)" and fit: "samples_fit (H @ claude_metric_samples service mt)"
  shows "claude_inv (H @ claude_metric_samples service mt) (fst (ingest_metric service mt st))"
proof (cases "service = SERVICE_CLAUDE")
  case True
  obtain g n where st: "st = (g, n)" by (cases st)
  show ?thesis
    using inv fit token_points.fold_trace [of H "(g, 0)"] cost_points.fold_trace [of H "(g, 0)"]
    by (auto simp: True st ingest_metric_def claude_metric_samples_def ingest_claude_token_def
        ingest_claude_cost_def split_beta split: option.splits metric_data.splits)
next
  case False
  obtain g n where st: "st = (g, n)" by (cases st)
  have "same_claude g (fst (ingest_metric service mt st))"
    using False
    by (auto simp: st ingest_metric_def ingest_codex_token_def ingest_codex_turn_count_def ingest_codex_duration_def
        same_claude_codex_points split_beta split: option.splits metric_data.splits)
  moreover have "claude_metric_samples service mt = []"
    using False by (simp add: claude_metric_samples_def split: option.splits metric_data.splits)
  ultimately show ?thesis using inv same_claude_inv by (simp add: st)
qed

interpretation claude: ingest_trace claude_inv samples_fit claude_log_samples claude_metric_samples
proof
  show "claude_inv h (fst (ingest_span service sp st))" if "claude_inv h (fst st)" for h service sp st
    using that same_claude_span [of "fst st" service sp st] same_claude_inv by simp
qed (rule samples_fit_append claude_log_record_step claude_metric_record_step; assumption)+

lemma claude_inv_new: "claude_inv [] (aggregator_new clk)"
  by (simp add: claude_inv_def buckets_rel_def ledgers_rel_def canonical_ok_def aggregator_new_def
      agent_of_def spec_total_def spec_source_def fun_eq_iff)

lemma claude_inv_run:
  "samples_fit (claude_samples rs) \<Longrightarrow> claude_inv (claude_samples rs) (ingest_run rs (aggregator_new clk))"
  unfolding claude_samples_def by (rule claude.run_trace [OF claude_inv_new])


section \<open>The specification does not depend on the order\<close>

lemma sample_sum_perm: "mset H = mset H' \<Longrightarrow> sample_sum f H = sample_sum f H'"
  unfolding sample_sum_def by (metis mset_map sum_mset_sum_list)

lemma list_ex_perm: "mset H = mset H' \<Longrightarrow> list_ex P H = list_ex P H'"
  by (metis list_ex_iff set_mset_mset)

lemma spec_total_perm: "mset H = mset H' \<Longrightarrow> spec_total H c k = spec_total H' c k"
  unfolding spec_total_def by (simp add: list_ex_perm [of H H'] sample_sum_perm [of H H'])

lemma samples_fit_perm: "mset H = mset H' \<Longrightarrow> samples_fit H = samples_fit H'"
  unfolding samples_fit_def by (simp add: sample_sum_perm [of H H'])


lemma claude_samples_perm: "mset rs = mset rs' \<Longrightarrow> mset (claude_samples rs) = mset (claude_samples rs')"
proof -
  assume perm: "mset rs = mset rs'"
  have "mset (claude_samples rs) =
      (\<Sum>r\<in>#mset rs. mset (batch_samples claude_log_samples claude_metric_samples r))" for rs
    by (induction rs) (simp_all add: claude_samples_def)
  with perm show ?thesis by simp
qed

end
