(* ===== verification/Aggregator_Laws.thy ===== *)
theory Aggregator_Laws
  imports Codex_Usage Claude_Usage
begin

text \<open>
  Further laws of the aggregator: accumulated costs are always finite and non-negative, a Codex
  model keeps the token source that reported first, the two shortcuts of the code (the early
  return of \<^verbatim>\<open>ingest_traces\<close> and the key range scan of \<^verbatim>\<open>merge_bare_into_full\<close>)
  compute what the plain loops would, and the returned counts announce every change of the totals
  by logs and traces.
\<close>

section \<open>Costs\<close>

definition buckets_cost :: "(str, bucket_stats) omap \<Rightarrow> bool" where
  "buckets_cost bs = om_all (\<lambda>e. cost_ok (bs_stats e)) bs"

definition agent_cost :: "agent_stats \<Rightarrow> bool" where
  "agent_cost a \<longleftrightarrow> cost_ok (as_total a) \<and> buckets_cost (as_buckets a)"

definition cost_inv :: "aggregator \<Rightarrow> bool" where
  "cost_inv g \<longleftrightarrow> om_all agent_cost (agents g) \<and>
     (\<forall>k m. claude_metric_usage g k = Some m \<longrightarrow> om_all cost_ok m) \<and>
     om_all (om_all cost_ok) (codex_pending_sse g)"

lemma buckets_cost_add: "buckets_cost bs \<Longrightarrow> buckets_cost (bucket_add b s bs)"
  unfolding buckets_cost_def bucket_add_def by (rule om_all_entry) simp_all

lemma buckets_cost_subtract: "buckets_cost bs \<Longrightarrow> cost_ok s \<Longrightarrow> buckets_cost (bucket_subtract k s bs)"
  unfolding buckets_cost_def bucket_subtract_def
  by (auto simp: Let_def cost_ok_subtract om_all_del intro!: om_all_put dest: om_all_lookup split: option.splits)

lemma entries_cost_entry: "om_all cost_ok m \<Longrightarrow> om_all cost_ok (stats_entry b s m)"
  unfolding stats_entry_def by (rule om_all_entry) simp_all

lemma agent_cost_default [simp]: "agent_cost default_agent"
  by (simp add: agent_cost_def buckets_cost_def)

lemma agent_cost_record: "agent_cost a \<Longrightarrow> agent_cost (agent_record b s a)"
  by (simp add: agent_cost_def buckets_cost_add)

lemma cost_inv_record: "cost_inv g \<Longrightarrow> cost_inv (record_into g n b s)"
  unfolding cost_inv_def record_into_def touch_def
  by (auto simp: Let_def intro!: om_all_entry agent_cost_record)

lemma cost_inv_agent_put: "cost_inv g \<Longrightarrow> agent_cost a \<Longrightarrow> cost_inv (g\<lparr>agents := om_put n a (agents g)\<rparr>)"
  by (simp add: cost_inv_def om_all_put)

lemma cost_inv_agent: "cost_inv g \<Longrightarrow> map_of (agents g) n = Some a \<Longrightarrow> agent_cost a"
  unfolding cost_inv_def using om_all_lookup by metis

lemma cost_inv_subtract: "cost_inv g \<Longrightarrow> cost_ok s \<Longrightarrow> cost_inv (subtract_from g n b s)"
  by (auto simp: subtract_from_def agent_cost_def cost_ok_subtract buckets_cost_subtract
      intro!: cost_inv_agent_put dest: cost_inv_agent split: option.splits)

lemma cost_inv_subtract_all: "cost_inv g \<Longrightarrow> om_all cost_ok m \<Longrightarrow> cost_inv (subtract_all m g)"
  by (induction m arbitrary: g) (auto simp: om_all_def cost_inv_subtract)

lemma cost_inv_fields [simp]:
  "cost_inv (g\<lparr>claude_canonical_models := x1\<rparr>) = cost_inv g"
  "cost_inv (g\<lparr>claude_metric_models := x2\<rparr>) = cost_inv g"
  "cost_inv (g\<lparr>claude_usage_sources := x3\<rparr>) = cost_inv g"
  "cost_inv (g\<lparr>codex_sessions := x4\<rparr>) = cost_inv g"
  "cost_inv (g\<lparr>codex_last_sessions := x5\<rparr>) = cost_inv g"
  "cost_inv (g\<lparr>codex_token_sources := x6\<rparr>) = cost_inv g"
  by (simp_all add: cost_inv_def)

lemma cost_inv_ledger:
  "cost_inv g \<Longrightarrow> cost_inv (g\<lparr>claude_metric_usage := (claude_metric_usage g)(k := None)\<rparr>)"
  "cost_inv g \<Longrightarrow> om_all cost_ok m \<Longrightarrow> cost_inv (g\<lparr>claude_metric_usage := (claude_metric_usage g)(k \<mapsto> m)\<rparr>)"
  by (auto simp: cost_inv_def)

lemma cost_inv_lookup: "cost_inv g \<Longrightarrow> claude_metric_usage g k = Some m \<Longrightarrow> om_all cost_ok m"
  by (simp add: cost_inv_def)

lemma cost_inv_log_usage:
  assumes "cost_inv g"
  shows "cost_inv (record_claude_log_usage g b s)"
proof (cases "claude_metric_usage g (bucket_source_key b)")
  case None
  with assms show ?thesis by (simp add: record_claude_log_usage_def Let_def cost_inv_record)
next
  case (Some m)
  with assms have "om_all cost_ok m" by (rule cost_inv_lookup)
  with Some assms show ?thesis
    by (simp add: record_claude_log_usage_def Let_def cost_inv_record cost_inv_subtract_all cost_inv_ledger)
qed

lemma cost_inv_metric_usage:
  assumes "cost_inv g"
  shows "cost_inv (fst (record_claude_metric_usage g b s))"
proof -
  let ?k = "bucket_source_key b" and ?g = "record_into g AGENT_CLAUDE b s"
  have "om_all cost_ok (stats_entry b s (case claude_metric_usage g ?k of None \<Rightarrow> [] | Some m \<Rightarrow> m))"
    using assms by (auto simp: entries_cost_entry dest: cost_inv_lookup split: option.splits)
  with cost_inv_record [OF assms, of AGENT_CLAUDE b s]
  have "cost_inv (?g\<lparr>claude_usage_sources := x, claude_metric_usage := (claude_metric_usage g)
      (?k \<mapsto> stats_entry b s (case claude_metric_usage g ?k of None \<Rightarrow> [] | Some m \<Rightarrow> m))\<rparr>)" for x
    using cost_inv_ledger(2) [of "?g\<lparr>claude_usage_sources := x\<rparr>" _ ?k] by simp
  with assms show ?thesis by (simp add: record_claude_metric_usage_def Let_def)
qed

lemma cost_inv_register: "cost_inv g \<Longrightarrow> cost_inv (register_canonical_claude_model g full)"
proof -
  assume inv: "cost_inv g"
  have "buckets_cost (merge_bare_key full key bs)" if "buckets_cost bs" for key bs
    using that by (auto simp: merge_bare_key_def Let_def buckets_cost_def om_all_del
        intro!: buckets_cost_add [unfolded buckets_cost_def] split: option.splits)
  then have "buckets_cost (fold (merge_bare_key full) keys bs)" if "buckets_cost bs" for keys bs
    using that by (induction keys arbitrary: bs) simp_all
  then have "agent_cost (merge_bare_into_full bare full a)" if "agent_cost a" for bare a
    using that by (simp add: merge_bare_into_full_def agent_cost_def)
  then have "agent_cost (merge_bare_into_full bare full a)" if "map_of (agents g) AGENT_CLAUDE = Some a" for bare a
    using inv that by (simp add: cost_inv_agent)
  then show ?thesis
    using inv by (auto simp: register_canonical_claude_model_def Let_def cost_inv_def om_all_put split: option.splits)
qed

lemma cost_inv_claude_points:
  "cost_inv (fst st) \<Longrightarrow> cost_inv (fst (claude_token_point dp st))"
  "cost_inv (fst st) \<Longrightarrow> cost_inv (fst (claude_cost_point dp st))"
  by (cases st; auto simp: claude_token_point_def claude_cost_point_def claude_metric_model_def Let_def split_beta
      cost_inv_register cost_inv_metric_usage split: option.splits)+

lemma cost_inv_codex_points:
  "cost_inv (fst st) \<Longrightarrow> cost_inv (fst (codex_token_point service hp st))"
  "cost_inv (fst st) \<Longrightarrow> cost_inv (fst (codex_turn_point service np st))"
  "cost_inv (fst st) \<Longrightarrow> cost_inv (fst (codex_duration_point service hp st))"
  by (cases st; auto simp: codex_token_point_def codex_turn_point_def codex_duration_point_def Let_def
      cost_inv_record split: option.splits)+

lemma cost_inv_move: "cost_inv g \<Longrightarrow> cost_ok s \<Longrightarrow> cost_inv (move_codex_bucket_stats g from to s)"
  by (auto simp: move_codex_bucket_stats_def agent_cost_def buckets_cost_add buckets_cost_subtract
      intro!: cost_inv_agent_put dest: cost_inv_agent split: option.splits)

lemma cost_inv_pending:
  "cost_inv g \<Longrightarrow> om_all (om_all cost_ok) P \<Longrightarrow> cost_inv (g\<lparr>codex_pending_sse := P\<rparr>)"
  "cost_inv g \<Longrightarrow> om_all (om_all cost_ok) (codex_pending_sse g)"
  by (simp_all add: cost_inv_def)

lemma cost_inv_resolve:
  assumes "om_all cost_ok es" and "cost_inv (fst st)" and "om_all cost_ok (fst (snd st))"
  shows "cost_inv (fst (fold (resolve_pending p e confirmed) es st)) \<and>
    om_all cost_ok (fst (snd (fold (resolve_pending p e confirmed) es st)))"
  using assms
proof (induction es arbitrary: st)
  case (Cons x es)
  obtain g kept moved where st: "st = (g, kept, moved)" by (cases st) auto
  have "cost_inv (fst (resolve_pending p e confirmed x st)) \<and>
      om_all cost_ok (fst (snd (resolve_pending p e confirmed x st)))"
    using Cons.prems by (cases x) (auto simp: st resolve_pending_def Let_def om_all_def [of cost_ok "_ # _"]
        cost_inv_move entries_cost_entry)
  with Cons show ?case by (simp add: om_all_def [of cost_ok "_ # _"] om_all_def [of cost_ok es])
qed simp

lemma cost_ok_sum_pending: "cost_ok (sum_pending_for_bucket g b)"
proof -
  have "cost_ok t \<Longrightarrow> cost_ok (fold (\<lambda>s total. stats_add total s) ss t)" for ss t
    by (induction ss arbitrary: t) simp_all
  then show ?thesis by (simp add: sum_pending_for_bucket_def)
qed

lemma cost_inv_merge: "cost_inv g \<Longrightarrow> cost_inv (fst (merge_codex_pending_sse g p m cid e confirmed))"
proof (cases "cid = []")
  case True
  assume inv: "cost_inv g"
  have "cost_ok (saturating_sub_stats (bs_stats fs) (sum_pending_for_bucket g from))"
    if "map_of (agents g) AGENT_CODEX = Some a" "map_of (as_buckets a) key = Some fs" for a key fs "from"
    using cost_inv_agent [OF inv that(1)] that(2) om_all_lookup
    by (fastforce simp: agent_cost_def buckets_cost_def saturating_sub_stats_def cost_ok_sum_pending intro!: cost_ok_subtract)
  with inv True show ?thesis
    by (auto simp: merge_codex_pending_sse_def Let_def cost_inv_move split: option.splits)
next
  case False
  assume inv: "cost_inv g"
  show ?thesis
  proof (cases "map_of (codex_pending_sse g) cid")
    case (Some es)
    let ?st = "fold (resolve_pending p e confirmed) es (g\<lparr>codex_pending_sse := om_del cid (codex_pending_sse g)\<rparr>, [], False)"
    have "om_all cost_ok es" using cost_inv_pending(2) [OF inv] Some by (rule om_all_lookup)
    then have "cost_inv (fst ?st) \<and> om_all cost_ok (fst (snd ?st))"
      using inv by (intro cost_inv_resolve) (simp_all add: cost_inv_pending om_all_del)
    then show ?thesis
      using False Some by (auto simp: merge_codex_pending_sse_def Let_def split_beta
          intro!: cost_inv_pending(1) om_all_put cost_inv_pending(2))
  qed (use False inv in \<open>simp add: merge_codex_pending_sse_def\<close>)
qed

lemma cost_inv_update: "cost_inv g \<Longrightarrow> cost_inv (fst (update_codex_session_with_last g service session upd))"
  by (simp add: update_codex_session_with_last_def Let_def cost_inv_merge)

lemma cost_inv_effort: "cost_inv g \<Longrightarrow> cost_inv (fst (update_codex_effort_from_request_attrs g service attrs))"
  by (auto simp: update_codex_effort_from_request_attrs_def update_codex_last_effort_def Let_def
      cost_inv_merge cost_inv_update split: option.splits)

lemma cost_inv_sse_log:
  assumes "cost_inv (fst st)"
  shows "cost_inv (fst (ingest_codex_sse_log service lr st))"
proof -
  obtain g n where st: "st = (g, n)" by (cases st)
  have "cost_inv ((record_into g AGENT_CODEX b s)\<lparr>codex_pending_sse :=
      om_entry cid [] (stats_entry b s) (codex_pending_sse g)\<rparr>)" for b s cid
    using assms by (auto simp: st entries_cost_entry intro!: cost_inv_pending(1) cost_inv_record om_all_entry
        cost_inv_pending(2))
  with assms show ?thesis
    by (auto simp: ingest_codex_sse_log_def st Let_def cost_inv_record split: option.splits)
qed

lemma cost_inv_session_log: "cost_inv (fst st) \<Longrightarrow> cost_inv (fst (ingest_codex_session_log service lr st))"
  by (cases st) (auto simp: ingest_codex_session_log_def update_codex_session_def Let_def split_beta
      cost_inv_update split: option.splits)

lemma cost_inv_span: "cost_inv (fst st) \<Longrightarrow> cost_inv (fst (ingest_span service sp st))"
proof -
  assume inv: "cost_inv (fst st)"
  have "cost_inv (fst (ingest_span_event service ev st))" if "cost_inv (fst st)" for ev st
    using that by (cases st) (auto simp: ingest_span_event_def update_codex_session_def Let_def split_beta
        cost_inv_update split: option.splits)
  then have "cost_inv (fst (fold (ingest_span_event service) evs st))" for evs
    using inv by (induction evs arbitrary: st) simp_all
  then show ?thesis by (simp add: ingest_span_def Let_def split_beta cost_inv_effort)
qed

interpretation cost: ingest_invariant cost_inv
proof
  show "cost_inv (fst (ingest_log_record service lr st))" if "cost_inv (fst st)" for service lr st
    using that by (cases st) (auto simp: ingest_log_record_def cost_inv_record cost_inv_log_usage
        cost_inv_session_log cost_inv_sse_log split: option.splits)
  show "cost_inv (fst (ingest_metric service mt st))" if "cost_inv (fst st)" for service mt st
    using that by (intro metric_points_inv [where I = cost_inv] cost_inv_claude_points cost_inv_codex_points)
qed (rule cost_inv_span)

lemma cost_inv_run: "cost_inv (ingest_run rs (aggregator_new clk))"
  by (rule cost.run_inv) (simp add: cost_inv_def aggregator_new_def)


section \<open>A Codex model keeps its token source\<close>

definition source_is :: "str \<Rightarrow> codex_token_source \<Rightarrow> aggregator \<Rightarrow> bool" where
  "source_is k s g \<longleftrightarrow> codex_token_sources g k = Some s"

lemma source_is_fields [simp]:
  "source_is k s (record_into g n b t) = source_is k s g"
  "source_is k s (g\<lparr>claude_canonical_models := x1\<rparr>) = source_is k s g"
  "source_is k s (g\<lparr>claude_metric_models := x2\<rparr>) = source_is k s g"
  "source_is k s (g\<lparr>claude_usage_sources := x3\<rparr>) = source_is k s g"
  "source_is k s (g\<lparr>claude_metric_usage := x4\<rparr>) = source_is k s g"
  "source_is k s (g\<lparr>codex_sessions := x5\<rparr>) = source_is k s g"
  "source_is k s (g\<lparr>codex_last_sessions := x6\<rparr>) = source_is k s g"
  "source_is k s (g\<lparr>codex_pending_sse := x7\<rparr>) = source_is k s g"
  "source_is k s (g\<lparr>agents := x8\<rparr>) = source_is k s g"
  by (simp_all add: source_is_def)

lemma source_is_set:
  "source_is k s g \<Longrightarrow> k' \<noteq> k \<or> t = s \<Longrightarrow> source_is k s (g\<lparr>codex_token_sources := (codex_token_sources g)(k' \<mapsto> t)\<rparr>)"
  by (auto simp: source_is_def)

lemma source_is_subtract [simp]: "source_is k s (subtract_from g n b t) = source_is k s g"
  by (simp add: subtract_from_def split: option.splits)

lemma source_is_subtract_all [simp]: "source_is k s (subtract_all m g) = source_is k s g"
  by (induction m arbitrary: g) simp_all

lemma source_is_claude [simp]:
  "source_is k s (record_claude_log_usage g b t) = source_is k s g"
  "source_is k s (fst (record_claude_metric_usage g b t)) = source_is k s g"
  "source_is k s (register_canonical_claude_model g full) = source_is k s g"
  by (auto simp: record_claude_log_usage_def record_claude_metric_usage_def register_canonical_claude_model_def
      Let_def split: option.splits)

lemma source_is_move [simp]: "source_is k s (move_codex_bucket_stats g from to t) = source_is k s g"
  by (simp add: move_codex_bucket_stats_def split: option.splits)

lemma source_is_resolve:
  "source_is k s (fst (fold (resolve_pending p e confirmed) es st)) = source_is k s (fst st)"
proof (induction es arbitrary: st)
  case (Cons x es)
  have "source_is k s (fst (resolve_pending p e confirmed x st)) = source_is k s (fst st)"
    by (cases st) (auto simp: resolve_pending_def Let_def split_beta)
  with Cons show ?case by simp
qed simp

lemma source_is_merge [simp]:
  "source_is k s (fst (merge_codex_pending_sse g p m cid e confirmed)) = source_is k s g"
  by (auto simp: merge_codex_pending_sse_def Let_def split_beta source_is_resolve split: option.splits)

lemma source_is_update [simp]:
  "source_is k s (fst (update_codex_session_with_last g service session upd)) = source_is k s g"
  "source_is k s (fst (update_codex_effort_from_request_attrs g service attrs)) = source_is k s g"
proof -
  show *: "source_is k s (fst (update_codex_session_with_last g service session upd)) = source_is k s g" for session upd
    by (simp add: update_codex_session_with_last_def Let_def)
  show "source_is k s (fst (update_codex_effort_from_request_attrs g service attrs)) = source_is k s g"
    by (auto simp: update_codex_effort_from_request_attrs_def update_codex_last_effort_def Let_def * split: option.splits)
qed

lemma source_is_span: "source_is k s (fst (ingest_span service sp st)) = source_is k s (fst st)"
proof -
  have "source_is k s (fst (ingest_span_event service ev st)) = source_is k s (fst st)" for ev st
    by (cases st) (auto simp: ingest_span_event_def update_codex_session_def Let_def split_beta split: option.splits)
  then have "source_is k s (fst (fold (ingest_span_event service) evs st)) = source_is k s (fst st)" for evs
    by (induction evs arbitrary: st) simp_all
  then show ?thesis by (simp add: ingest_span_def Let_def split_beta)
qed

lemma source_is_session_log: "source_is k s (fst (ingest_codex_session_log service lr st)) = source_is k s (fst st)"
  by (cases st) (auto simp: ingest_codex_session_log_def update_codex_session_def Let_def split_beta split: option.splits)

lemma source_is_sse_log: "source_is k s (fst st) \<Longrightarrow> source_is k s (fst (ingest_codex_sse_log service lr st))"
  by (cases st, cases s) (auto simp: ingest_codex_sse_log_def Let_def source_is_def split: option.splits)

interpretation source: ingest_invariant "source_is k s" for k s
proof
  show "source_is k s (fst (ingest_log_record service lr st))" if "source_is k s (fst st)" for service lr st
    using that by (cases st) (auto simp: ingest_log_record_def source_is_sse_log source_is_session_log split: option.splits)
  show "source_is k s (fst (ingest_span service sp st))" if "source_is k s (fst st)" for service sp st
    using that by (simp add: source_is_span)
  show "source_is k s (fst (ingest_metric service mt st))" if "source_is k s (fst st)" for service mt st
    using that
  proof (rule metric_points_inv)
    show "source_is k s (fst (codex_token_point service hp st))" if "source_is k s (fst st)" for hp st
      using that by (cases st, cases s) (auto simp: codex_token_point_def Let_def source_is_def split: option.splits)
  qed (auto simp: claude_token_point_def claude_cost_point_def claude_metric_model_def codex_turn_point_def
      codex_duration_point_def Let_def split_beta split: option.splits)
qed

section \<open>The shortcuts compute what the plain loops compute\<close>

lemma ingest_traces_no_codex:
  "\<not> list_ex (\<lambda>rs. is_codex_service (service_name (rs_resource rs))) req \<Longrightarrow> fold ingest_resource_spans req st = st"
  by (induction req arbitrary: st) (simp_all add: ingest_resource_spans_def Let_def)

text \<open>Strings with a given prefix form an interval of the byte order that starts at the prefix.\<close>

lemma append_ge: "p \<le> p @ (r :: str)"
  by (induction p) simp_all

lemma prefix_le: "starts_with k p \<Longrightarrow> p \<le> (k :: str)"
  by (auto simp: starts_with_iff append_ge)

lemma prefix_interval:
  "p \<le> k \<Longrightarrow> k \<le> k' \<Longrightarrow> starts_with k' p \<Longrightarrow> starts_with (k :: str) p"
proof (induction p arbitrary: k k')
  case Nil
  then show ?case by (simp add: starts_with_iff)
next
  case (Cons c p)
  then show ?case by (cases k; cases k') (auto simp: starts_with_iff)
qed

lemma takeWhile_range:
  assumes "om_ok m"
  shows "takeWhile (\<lambda>e. starts_with (fst e) p) (om_range_from (p :: str) m) = filter (\<lambda>e. starts_with (fst e) p) m"
  using assms
proof (induction m)
  case (Cons e m)
  have rest: "p \<le> fst e \<Longrightarrow> \<not> starts_with (fst e) p \<Longrightarrow> filter (\<lambda>e. starts_with (fst e) p) m = []"
    using Cons.prems prefix_interval [of p "fst e"] by (force simp: om_ok_Cons filter_empty_conv)
  from Cons show ?case
    using rest prefix_le [of "fst e" p] by (auto simp: om_range_from_def om_ok_Cons)
qed (simp add: om_range_from_def)

lemma bare_keys_filter:
  assumes "buckets_wf (as_buckets a)"
  shows "bare_keys a bare = map fst (filter (\<lambda>e. bs_provider (snd e) = PROVIDER_ANTHROPIC \<and> bs_model (snd e) = bare) (as_buckets a))"
proof -
  have "starts_with (fst e) (model_prefix PROVIDER_ANTHROPIC bare) =
      (bs_provider (snd e) = PROVIDER_ANTHROPIC \<and> bs_model (snd e) = bare)" if "e \<in> set (as_buckets a)" for e
    using assms that by (simp add: buckets_wf_def starts_with_model_prefix entry_bucket_def)
  with assms show ?thesis
    by (simp add: bare_keys_def Let_def takeWhile_range buckets_wf_def cong: filter_cong)
qed


section \<open>Counts announce changes\<close>

text \<open>The count never goes down, and the agents' totals are the same as long as it stays.\<close>

definition announced :: "aggregator \<times> nat \<Rightarrow> aggregator \<times> nat \<Rightarrow> bool" where
  "announced st st' \<longleftrightarrow> snd st \<le> snd st' \<and> (snd st' = snd st \<longrightarrow> agents (fst st') = agents (fst st))"

lemma announced_refl [simp]: "announced st st"
  by (simp add: announced_def)

lemma announced_trans: "announced st st' \<Longrightarrow> announced st' st'' \<Longrightarrow> announced st st''"
  by (auto simp: announced_def)

lemma announced_Suc [simp]: "announced (g, n) (g', Suc n)"
  by (simp add: announced_def)

lemma announced_fold:
  assumes "\<And>x st. announced st (f x st)"
  shows "announced st (fold f xs st)"
proof (induction xs arbitrary: st)
  case (Cons x xs)
  show ?case using announced_trans [OF assms Cons] by simp
qed simp

text \<open>An operation that reports whether it moved usage.\<close>

definition reports_move :: "aggregator \<Rightarrow> aggregator \<times> bool \<Rightarrow> bool" where
  "reports_move g r \<longleftrightarrow> (snd r \<or> agents (fst r) = agents g)"

lemma reports_announced: "reports_move g r \<Longrightarrow> announced (g, n) (fst r, if snd r then Suc n else n)"
  by (auto simp: reports_move_def announced_def)

lemma resolve_reports:
  "snd (snd (fold (resolve_pending p e confirmed) es st)) \<or>
     (\<not> snd (snd st) \<and> agents (fst (fold (resolve_pending p e confirmed) es st)) = agents (fst st))"
proof (induction es arbitrary: st)
  case (Cons x es)
  obtain g kept moved where st: "st = (g, kept, moved)" by (cases st) auto
  have "snd (snd (resolve_pending p e confirmed x st)) \<or>
      (\<not> snd (snd st) \<and> agents (fst (resolve_pending p e confirmed x st)) = agents (fst st))"
    by (auto simp: st resolve_pending_def Let_def split_beta)
  with Cons [of "resolve_pending p e confirmed x st"] show ?case by auto
qed (auto)


lemma merge_reports: "reports_move g (merge_codex_pending_sse g p m cid e confirmed)"
proof (cases "cid = []")
  case True
  then show ?thesis by (auto simp: merge_codex_pending_sse_def Let_def reports_move_def split: option.splits)
next
  case False
  show ?thesis
  proof (cases "map_of (codex_pending_sse g) cid")
    case (Some es)
    with False show ?thesis
      using resolve_reports [of p e confirmed es "(g\<lparr>codex_pending_sse := om_del cid (codex_pending_sse g)\<rparr>, [], False)"]
      by (auto simp: merge_codex_pending_sse_def Let_def split_beta reports_move_def)
  qed (use False in \<open>simp add: merge_codex_pending_sse_def reports_move_def\<close>)
qed

lemma reports_same_agents: "agents g' = agents g \<Longrightarrow> reports_move g' r \<Longrightarrow> reports_move g r"
  by (simp add: reports_move_def)

lemma update_reports:
  "reports_move g (update_codex_session_with_last g service session upd)"
  "reports_move g (update_codex_effort_from_request_attrs g service attrs)"
proof -
  show *: "reports_move g (update_codex_session_with_last g service session upd)" for session upd
    by (simp add: update_codex_session_with_last_def Let_def reports_same_agents [OF _ merge_reports])
  show "reports_move g (update_codex_effort_from_request_attrs g service attrs)"
    by (auto simp: update_codex_effort_from_request_attrs_def update_codex_last_effort_def Let_def *
        reports_same_agents [OF _ merge_reports] reports_move_def [of g "(_, False)"] split: option.splits)
qed

lemma announced_session_log: "announced st (ingest_codex_session_log service lr st)"
  using reports_announced [OF update_reports(1)]
  by (cases st) (auto simp: ingest_codex_session_log_def update_codex_session_def Let_def split_beta split: option.splits)

lemma announced_sse_log: "announced st (ingest_codex_sse_log service lr st)"
  by (cases st) (auto simp: ingest_codex_sse_log_def Let_def split: option.splits)

lemma announced_log_record: "announced st (ingest_log_record service lr st)"
  using announced_trans [OF announced_session_log announced_sse_log]
  by (cases st) (auto simp: ingest_log_record_def split: option.splits)

lemma announced_span: "announced st (ingest_span service sp st)"
proof -
  have "announced st (ingest_span_event service ev st)" for ev st
    using reports_announced [OF update_reports(1)]
    by (cases st) (auto simp: ingest_span_event_def update_codex_session_def Let_def split_beta split: option.splits)
  then have ev: "announced st (fold (ingest_span_event service) (sp_events sp) st)"
    by (rule announced_fold)
  obtain g n where gn: "fold (ingest_span_event service) (sp_events sp) st = (g, n)"
    by (cases "fold (ingest_span_event service) (sp_events sp) st")
  have "announced (g, n) (ingest_span service sp st)"
    using reports_announced [OF update_reports(2)] by (simp add: ingest_span_def gn Let_def split_beta)
  with ev gn show ?thesis using announced_trans by metis
qed

lemma announced_logs: "announced (g, 0) (ingest_logs g req)"
  unfolding ingest_logs_def by (intro announced_fold announced_log_record)

lemma announced_traces: "announced (g, 0) (ingest_traces g req)"
proof -
  have "announced st (ingest_resource_spans rs st)" for rs st
    by (simp add: ingest_resource_spans_def Let_def announced_fold announced_span)
  then show ?thesis by (simp add: ingest_traces_def announced_fold)
qed

end
