(* ===== verification/Sample_Batches.thy ===== *)
theory Sample_Batches
  imports Aggregator_Laws
begin

text \<open>
  Concrete batches, of the shape Claude Code and Codex send them, on which the hypotheses of the
  usage theorems are checked.
\<close>

definition text_attr :: "str \<Rightarrow> str \<Rightarrow> key_value" where
  "text_attr k v = KeyValue k (Some (AnyValue (Some (StringValue v))))"

definition num_attr :: "str \<Rightarrow> i64 \<Rightarrow> key_value" where
  "num_attr k v = KeyValue k (Some (AnyValue (Some (IntValue v))))"

definition service_resource :: "str \<Rightarrow> resource option" where
  "service_resource s = Some [text_attr ''service.name'' s]"

definition log_batch :: "str \<Rightarrow> str \<Rightarrow> key_value list \<Rightarrow> telemetry_record" where
  "log_batch service body attrs = Logs [\<lparr>rl_resource = service_resource service, rl_scope_logs =
     [\<lparr>sl_scope = None, sl_log_records = [\<lparr>lr_time_unix_nano = 0, lr_severity_number = 9,
        lr_severity_text = ''INFO'', lr_body = Some (AnyValue (Some (StringValue body))),
        lr_attributes = attrs, lr_event_name = []\<rparr>]\<rparr>]\<rparr>]"

definition sum_batch :: "str \<Rightarrow> str \<Rightarrow> (key_value list \<times> i64) list \<Rightarrow> telemetry_record" where
  "sum_batch service name points = Metrics [\<lparr>rm_resource = service_resource service, rm_scope_metrics =
     [\<lparr>sm_scope = None, sm_metrics = [\<lparr>mt_name = name, mt_description = [], mt_unit = [],
        mt_data = Some (Sum 1 (map (\<lambda>(attrs, v). \<lparr>nd_attributes = attrs, nd_value = Some (AsInt v), nd_flags = 0\<rparr>)
          points))\<rparr>]\<rparr>]\<rparr>]"

definition claude_request_log :: "str \<Rightarrow> i64 \<Rightarrow> telemetry_record" where
  "claude_request_log model n = log_batch ''claude-code'' ''claude_code.api_request''
     [text_attr ''model'' model, num_attr ''input_tokens'' n, num_attr ''duration_ms'' 40]"

definition claude_input_metric :: "str \<Rightarrow> i64 \<Rightarrow> telemetry_record" where
  "claude_input_metric model n = sum_batch ''claude-code'' ''claude_code.token.usage''
     [([text_attr ''model'' model, text_attr ''type'' ''input''], n)]"

text \<open>The usage of 7 tokens, once as a metric and once as a log, and 5 tokens of another model.\<close>

definition claude_batches :: "telemetry_record list" where
  "claude_batches = [claude_input_metric ''opus[1m]'' 7, claude_request_log ''opus'' 7,
     claude_input_metric ''haiku'' 5]"

lemma samples_fit_code:
  "samples_fit H \<longleftrightarrow> list_all (\<lambda>c. sample_sum (sample_weight c) H \<le> ctr_max)
     [RequestCount, InputTokens, OutputTokens, CacheReadTokens, CacheCreationTokens, ReasoningOutputTokens, DurationMs]"
  (is "_ = list_all ?P _")
proof -
  have "(\<forall>c. Q c) \<longleftrightarrow> Q RequestCount \<and> Q InputTokens \<and> Q OutputTokens \<and> Q CacheReadTokens \<and>
      Q CacheCreationTokens \<and> Q ReasoningOutputTokens \<and> Q DurationMs" for Q :: "counter \<Rightarrow> bool"
    by (metis counter.exhaust)
  then show ?thesis by (simp add: samples_fit_def)
qed

lemmas batch_defs = claude_samples_def batch_samples_def logs_samples_def metrics_samples_def
  claude_request_log_def claude_input_metric_def log_batch_def sum_batch_def service_resource_def
  text_attr_def num_attr_def service_name_def attr_value_def string_attr_def int_attr_def u64_attr_def i64_max_0_def
  is_delta_temporality_def temporality_of_i32_def number_value_as_u64_def no_recorded_value_mask_def
  str_or_empty_def SERVICE_CLAUDE_def default_stats_def claude_usage_source_key_def bare_model_def non_empty_def
  UNKNOWN_def

lemma claude_samples_batches:
  "claude_samples claude_batches =
    [MetricSample (ClaudeUsageKey ''opus'' ''unknown'') (default_stats\<lparr>input_tokens := 7\<rparr>),
     LogSample (ClaudeUsageKey ''opus'' ''unknown'') (default_stats\<lparr>request_count := 1, duration_ms := 40\<rparr>)
       (claude_usage_stats [text_attr ''model'' ''opus'', num_attr ''input_tokens'' 7, num_attr ''duration_ms'' 40]),
     MetricSample (ClaudeUsageKey ''haiku'' ''unknown'') (default_stats\<lparr>input_tokens := 5\<rparr>)]"
  by (simp add: claude_batches_def batch_defs claude_log_samples_def claude_metric_samples_def
      token_point_samples_def claude_point_key_def claude_token_stats_def claude_request_stats_def)


lemma claude_batches_fit: "samples_fit (claude_samples claude_batches)"
  unfolding samples_fit_code claude_samples_batches
  by (simp add: claude_usage_stats_def batch_defs)

lemma claude_batches_opus:
  "spec_total (claude_samples claude_batches) InputTokens (ClaudeUsageKey ''opus'' ''unknown'') = 7"
  unfolding claude_samples_batches
  by (simp add: spec_total_def claude_usage_stats_def has_usage_def batch_defs)

end
