(* ===== verification/Storage.thy ===== *)
theory Storage
  imports Prelude
begin

text \<open>
  \<^verbatim>\<open>src/src/storage.rs\<close>: appending a batch to a file so that a failed write leaves no
  half-written line, repairing what a crash left, and switching files with the calendar day. The
  trait \<^verbatim>\<open>AppendStorage\<close> is a record of operations with its laws as a locale; its
  implementation for \<^verbatim>\<open>File\<close> acts on a modelled disk on which every system call may
  fail, a write after any number of bytes. Times and dates come from a library: the printed form
  of a date is a parameter.
\<close>

section \<open>Results of I/O\<close>

datatype io_error = IoError nat   \<comment> \<open>an operating system error code\<close>

type_synonym 'a io_result = "io_error + 'a"

section \<open>Transactional append\<close>

record 'f append_ops =
  ops_write_all :: "u8 list \<Rightarrow> 'f \<Rightarrow> unit io_result \<times> 'f"
  ops_flush :: "'f \<Rightarrow> unit io_result \<times> 'f"
  ops_append_start :: "'f \<Rightarrow> nat io_result \<times> 'f"
  ops_truncate :: "nat \<Rightarrow> 'f \<Rightarrow> unit io_result \<times> 'f"

record 'f transactional_append =
  ta_file :: 'f
  ta_rollback :: "nat option"

definition ta_repair ::
    "'f append_ops \<Rightarrow> 'f transactional_append \<Rightarrow> unit io_result \<times> 'f transactional_append" where
  "ta_repair ops ta = (case ta_rollback ta of
       None \<Rightarrow> (Inr (), ta)
     | Some start \<Rightarrow> (case ops_truncate ops start (ta_file ta) of
           (Inl e, f) \<Rightarrow> (Inl e, ta\<lparr>ta_file := f\<rparr>)
         | (Inr _, f) \<Rightarrow> (Inr (), ta\<lparr>ta_file := f, ta_rollback := None\<rparr>)))"

text \<open>\<^verbatim>\<open>write_all(bytes).and_then(|()| flush())\<close>.\<close>

definition write_and_flush :: "'f append_ops \<Rightarrow> u8 list \<Rightarrow> 'f \<Rightarrow> unit io_result \<times> 'f" where
  "write_and_flush ops bytes f = (case ops_write_all ops bytes f of
       (Inl e, f) \<Rightarrow> (Inl e, f)
     | (Inr _, f) \<Rightarrow> ops_flush ops f)"

definition ta_append ::
    "'f append_ops \<Rightarrow> u8 list \<Rightarrow> 'f transactional_append \<Rightarrow> unit io_result \<times> 'f transactional_append" where
  "ta_append ops bytes ta = (case ta_repair ops ta of
       (Inl e, ta) \<Rightarrow> (Inl e, ta)
     | (Inr _, ta) \<Rightarrow> (case ops_append_start ops (ta_file ta) of
           (Inl e, f) \<Rightarrow> (Inl e, ta\<lparr>ta_file := f\<rparr>)
         | (Inr start, f) \<Rightarrow> (case write_and_flush ops bytes f of
               (Inr _, f) \<Rightarrow> (Inr (), ta\<lparr>ta_file := f\<rparr>)
             | (Inl e, f) \<Rightarrow> (case ops_truncate ops start f of
                   (Inr _, f) \<Rightarrow> (Inl e, ta\<lparr>ta_file := f, ta_rollback := None\<rparr>)
                 | (Inl _, f) \<Rightarrow> (Inl e, ta\<lparr>ta_file := f, ta_rollback := Some start\<rparr>)))))"

text \<open>
  What the provider of the trait promises about the bytes in the file. A failed write may have
  written any prefix; a failed truncation may or may not have taken effect.
\<close>

locale append_storage =
  fixes ops :: "'f append_ops" and bytes_of :: "'f \<Rightarrow> u8 list"
  assumes write_ok: "ops_write_all ops bs f = (Inr u, f') \<Longrightarrow> bytes_of f' = bytes_of f @ bs"
    and write_err: "ops_write_all ops bs f = (Inl e, f') \<Longrightarrow> \<exists>k. bytes_of f' = bytes_of f @ take k bs"
    and flush_keeps: "ops_flush ops f = (r, f') \<Longrightarrow> bytes_of f' = bytes_of f"
    and start_ok: "ops_append_start ops f = (Inr n, f') \<Longrightarrow> n = length (bytes_of f)"
    and start_keeps: "ops_append_start ops f = (q, f') \<Longrightarrow> bytes_of f' = bytes_of f"
    and truncate_ok: "ops_truncate ops n f = (Inr u, f') \<Longrightarrow> n \<le> length (bytes_of f) \<Longrightarrow>
      bytes_of f' = take n (bytes_of f)"
    and truncate_err: "ops_truncate ops n f = (Inl e, f') \<Longrightarrow> n \<le> length (bytes_of f) \<Longrightarrow>
      bytes_of f' = bytes_of f \<or> bytes_of f' = take n (bytes_of f)"
begin

text \<open>The bytes that count as stored: a pending rollback hides everything behind its mark.\<close>

definition stored :: "'f transactional_append \<Rightarrow> u8 list" where
  "stored ta = (case ta_rollback ta of None \<Rightarrow> bytes_of (ta_file ta) | Some n \<Rightarrow> take n (bytes_of (ta_file ta)))"

definition valid :: "'f transactional_append \<Rightarrow> bool" where
  "valid ta \<longleftrightarrow> (case ta_rollback ta of None \<Rightarrow> True | Some n \<Rightarrow> n \<le> length (bytes_of (ta_file ta)))"

lemma repair_spec:
  assumes "valid ta" and "ta_repair ops ta = (r, ta')"
  shows "valid ta' \<and> stored ta' = stored ta \<and> (r = Inr () \<longrightarrow> ta_rollback ta' = None)"
proof (cases "ta_rollback ta")
  case None
  with assms show ?thesis by (simp add: ta_repair_def)
next
  case (Some n)
  obtain q f where t: "ops_truncate ops n (ta_file ta) = (q, f)" by (cases "ops_truncate ops n (ta_file ta)")
  have n: "n \<le> length (bytes_of (ta_file ta))" using assms(1) Some by (simp add: valid_def)
  show ?thesis
  proof (cases q)
    case (Inl e)
    with t truncate_err [of n "ta_file ta" e f] n
    have "bytes_of f = bytes_of (ta_file ta) \<or> bytes_of f = take n (bytes_of (ta_file ta))" by simp
    with assms(2) Some Inl t n show ?thesis by (auto simp: ta_repair_def valid_def stored_def)
  next
    case (Inr u)
    with t truncate_ok [of n "ta_file ta" u f] n have "bytes_of f = take n (bytes_of (ta_file ta))" by simp
    with assms(2) Some Inr t show ?thesis by (auto simp: ta_repair_def valid_def stored_def)
  qed
qed

lemma write_and_flush_spec:
  assumes "write_and_flush ops bs f = (r, f')"
  shows "(r = Inr u \<longrightarrow> bytes_of f' = bytes_of f @ bs) \<and> (\<exists>k. bytes_of f' = bytes_of f @ take k bs)"
proof (cases "ops_write_all ops bs f")
  case (Pair q g)
  show ?thesis
  proof (cases q)
    case (Inl e)
    with Pair assms write_err [of bs f e g] show ?thesis by (auto simp: write_and_flush_def)
  next
    case (Inr v)
    with Pair assms have "ops_flush ops g = (r, f')" by (simp add: write_and_flush_def)
    then have "bytes_of f' = bytes_of f @ bs" using flush_keeps write_ok Pair Inr by metis
    then show ?thesis by (metis order_refl take_all)
  qed
qed

text \<open>
  A successful append stores exactly its bytes, a failed one stores nothing, whatever fails.
\<close>

lemma append_spec:
  assumes valid: "valid ta" and app: "ta_append ops bs ta = (r, ta')"
  shows "valid ta' \<and> stored ta' = stored ta @ (case r of Inl _ \<Rightarrow> [] | Inr _ \<Rightarrow> bs)"
proof -
  obtain r1 ta1 where rep: "ta_repair ops ta = (r1, ta1)" by (cases "ta_repair ops ta")
  note R = repair_spec [OF valid rep]
  show ?thesis
  proof (cases r1)
    case (Inl e)
    with app rep R show ?thesis by (auto simp: ta_append_def)
  next
    case (Inr u)
    with R have ta1: "ta_rollback ta1 = None" "stored ta = bytes_of (ta_file ta1)" by (auto simp: stored_def)
    obtain q f where st: "ops_append_start ops (ta_file ta1) = (q, f)" by (cases "ops_append_start ops (ta_file ta1)")
    have f: "bytes_of f = bytes_of (ta_file ta1)" using start_keeps [OF st] .
    show ?thesis
    proof (cases q)
      case (Inl e)
      with app rep Inr st ta1 f show ?thesis by (auto simp: ta_append_def stored_def valid_def)
    next
      fix start assume q: "q = Inr start"
      with st have start: "start = length (bytes_of (ta_file ta1))" using start_ok by blast
      obtain w f1 where wf: "write_and_flush ops bs f = (w, f1)" by (cases "write_and_flush ops bs f")
      note W = write_and_flush_spec [OF wf, of "()"]
      show ?thesis
      proof (cases w)
        case (Inr v)
        with app rep \<open>r1 = Inr u\<close> st q wf W ta1 f show ?thesis
          by (auto simp: ta_append_def stored_def valid_def)
      next
        case (Inl e)
        obtain k where k: "bytes_of f1 = bytes_of (ta_file ta1) @ take k bs" using W f by auto
        obtain t f2 where tr: "ops_truncate ops start f1 = (t, f2)" by (cases "ops_truncate ops start f1")
        have le: "start \<le> length (bytes_of f1)" using k start by simp
        have t_ok: "bytes_of f2 = take start (bytes_of f1)" if "t = Inr ()"
          using truncate_ok [of start f1 "()" f2] tr that le by simp
        have t_err: "bytes_of f2 = bytes_of f1 \<or> bytes_of f2 = take start (bytes_of f1)" if "t = Inl e'" for e'
          using truncate_err [of start f1 e' f2] tr that le by simp
        show ?thesis
        proof (cases t)
          case (Inl e')
          with t_err app rep \<open>r1 = Inr u\<close> st q wf \<open>w = Inl e\<close> tr ta1 k start show ?thesis
            by (auto simp: ta_append_def stored_def valid_def)
        next
          case (Inr v)
          with t_ok app rep \<open>r1 = Inr u\<close> st q wf \<open>w = Inl e\<close> tr ta1 k start show ?thesis
            by (auto simp: ta_append_def stored_def valid_def)
        qed
      qed
    qed
  qed
qed

end


section \<open>A file on a disk whose system calls may fail\<close>

text \<open>
  Each system call takes the next entry of the fault plan: it succeeds, or it fails with an error
  after having done a part of its work. A handle names its file and carries the disk.
\<close>

datatype fault = NoFault | Fault io_error nat

record disk =
  disk_files :: "str \<rightharpoonup> u8 list"
  disk_faults :: "fault list"

record file_handle =
  fh_path :: str
  fh_disk :: disk

definition disk_bytes :: "disk \<Rightarrow> str \<Rightarrow> u8 list" where
  "disk_bytes d p = (case disk_files d p of None \<Rightarrow> [] | Some bs \<Rightarrow> bs)"

definition file_bytes :: "file_handle \<Rightarrow> u8 list" where
  "file_bytes f = disk_bytes (fh_disk f) (fh_path f)"

definition set_bytes :: "u8 list \<Rightarrow> file_handle \<Rightarrow> file_handle" where
  "set_bytes bs f = f\<lparr>fh_disk := (fh_disk f)\<lparr>disk_files := (disk_files (fh_disk f))(fh_path f \<mapsto> bs)\<rparr>\<rparr>"

definition disk_syscall :: "disk \<Rightarrow> fault \<times> disk" where
  "disk_syscall d = (case disk_faults d of [] \<Rightarrow> (NoFault, d) | x # xs \<Rightarrow> (x, d\<lparr>disk_faults := xs\<rparr>))"

definition syscall :: "file_handle \<Rightarrow> fault \<times> file_handle" where
  "syscall f = (let (x, d) = disk_syscall (fh_disk f) in (x, f\<lparr>fh_disk := d\<rparr>))"

definition file_write_all :: "u8 list \<Rightarrow> file_handle \<Rightarrow> unit io_result \<times> file_handle" where
  "file_write_all bs f = (case syscall f of
       (NoFault, f) \<Rightarrow> (Inr (), set_bytes (file_bytes f @ bs) f)
     | (Fault e k, f) \<Rightarrow> (Inl e, set_bytes (file_bytes f @ take k bs) f))"

definition file_flush :: "file_handle \<Rightarrow> unit io_result \<times> file_handle" where
  "file_flush f = (case syscall f of (NoFault, f) \<Rightarrow> (Inr (), f) | (Fault e _, f) \<Rightarrow> (Inl e, f))"

definition file_sync_all :: "file_handle \<Rightarrow> unit io_result \<times> file_handle" where
  "file_sync_all f = (case syscall f of (NoFault, f) \<Rightarrow> (Inr (), f) | (Fault e _, f) \<Rightarrow> (Inl e, f))"

text \<open>\<^verbatim>\<open>metadata()?.len()\<close>, the start of an append outside Windows.\<close>

definition file_len :: "file_handle \<Rightarrow> nat io_result \<times> file_handle" where
  "file_len f = (case syscall f of (NoFault, f) \<Rightarrow> (Inr (length (file_bytes f)), f) | (Fault e _, f) \<Rightarrow> (Inl e, f))"

text \<open>\<^verbatim>\<open>set_len(len)?\<close> (which also extends with zeros), then \<^verbatim>\<open>seek(Start(len))?\<close>.\<close>

definition file_truncate :: "nat \<Rightarrow> file_handle \<Rightarrow> unit io_result \<times> file_handle" where
  "file_truncate n f = (case syscall f of
       (Fault e _, f) \<Rightarrow> (Inl e, f)
     | (NoFault, f) \<Rightarrow>
         (case syscall (set_bytes (take n (file_bytes f) @ replicate (n - length (file_bytes f)) 0) f) of
            (Fault e _, f) \<Rightarrow> (Inl e, f)
          | (NoFault, f) \<Rightarrow> (Inr (), f)))"

definition file_ops :: "file_handle append_ops" where
  "file_ops = \<lparr>ops_write_all = file_write_all, ops_flush = file_flush, ops_append_start = file_len,
     ops_truncate = file_truncate\<rparr>"

lemma syscall_keeps:
  "syscall f = (x, f') \<Longrightarrow> fh_path f' = fh_path f \<and> disk_files (fh_disk f') = disk_files (fh_disk f)"
  by (auto simp: syscall_def disk_syscall_def split: list.splits prod.splits)

lemma syscall_bytes: "syscall f = (x, f') \<Longrightarrow> file_bytes f' = file_bytes f"
  using syscall_keeps [of f x f'] by (simp add: file_bytes_def disk_bytes_def)

lemma file_bytes_set [simp]: "file_bytes (set_bytes bs f) = bs"
  by (simp add: file_bytes_def set_bytes_def disk_bytes_def)

lemma set_bytes_fields [simp]: "fh_path (set_bytes bs f) = fh_path f"
  by (simp add: set_bytes_def)

interpretation os_file: append_storage file_ops file_bytes
proof
  show "n = length (file_bytes f)" if "ops_append_start file_ops f = (Inr n, f')" for f n f'
    using that by (auto simp: file_ops_def file_len_def dest: syscall_bytes split: prod.splits fault.splits)
  show "file_bytes f' = file_bytes f" if "ops_append_start file_ops f = (q, f')" for f q f'
    using that by (auto simp: file_ops_def file_len_def dest: syscall_bytes split: prod.splits fault.splits)
  show "file_bytes f' = file_bytes f" if "ops_flush file_ops f = (r, f')" for f r f'
    using that by (auto simp: file_ops_def file_flush_def dest: syscall_bytes split: prod.splits fault.splits)
  show "file_bytes f' = file_bytes f @ bs" if "ops_write_all file_ops bs f = (Inr u, f')" for bs f u f'
    using that by (auto simp: file_ops_def file_write_all_def dest: syscall_bytes split: prod.splits fault.splits)
  show "\<exists>k. file_bytes f' = file_bytes f @ take k bs" if "ops_write_all file_ops bs f = (Inl e, f')" for bs f e f'
    using that by (auto simp: file_ops_def file_write_all_def dest!: syscall_bytes split: prod.splits fault.splits)
  show "file_bytes f' = take n (file_bytes f)"
    if "ops_truncate file_ops n f = (Inr u, f')" "n \<le> length (file_bytes f)" for n f u f'
    using that by (auto simp: file_ops_def file_truncate_def dest!: syscall_bytes split: prod.splits fault.splits)
  show "file_bytes f' = file_bytes f \<or> file_bytes f' = take n (file_bytes f)"
    if "ops_truncate file_ops n f = (Inl e, f')" "n \<le> length (file_bytes f)" for n f e f'
    using that by (auto simp: file_ops_def file_truncate_def dest!: syscall_bytes split: prod.splits fault.splits)
qed

section \<open>Removing an incomplete tail\<close>

definition newline :: u8 where
  "newline = 10"

definition rposition :: "('a \<Rightarrow> bool) \<Rightarrow> 'a list \<Rightarrow> nat option" where
  "rposition P xs = (case dropWhile (\<lambda>x. \<not> P x) (rev xs) of [] \<Rightarrow> None | _ # ys \<Rightarrow> Some (length ys))"

text \<open>The backward search for the last newline, in blocks of 8192 bytes.\<close>

function find_valid_len :: "nat \<Rightarrow> file_handle \<Rightarrow> nat io_result \<times> file_handle" where
  "find_valid_len until f =
     (if until = 0 then (Inr 0, f)
      else let start = until - 8192; size = until - start in
        case syscall f of
          (Fault e _, f) \<Rightarrow> (Inl e, f)
        | (NoFault, f) \<Rightarrow> (case syscall f of
              (Fault e _, f) \<Rightarrow> (Inl e, f)
            | (NoFault, f) \<Rightarrow>
                (case rposition (\<lambda>b. b = newline) (take size (drop start (file_bytes f))) of
                   Some pos \<Rightarrow> (Inr (start + pos + 1), f)
                 | None \<Rightarrow> find_valid_len start f)))"
  by pat_completeness auto
termination
  by (relation "measure fst") auto

declare find_valid_len.simps [simp del]

definition recover_tail :: "file_handle \<Rightarrow> unit io_result \<times> file_handle" where
  "recover_tail f = (case file_len f of
       (Inl e, f) \<Rightarrow> (Inl e, f)
     | (Inr original_len, f) \<Rightarrow> (case find_valid_len original_len f of
           (Inl e, f) \<Rightarrow> (Inl e, f)
         | (Inr valid_len, f) \<Rightarrow>
             if valid_len \<noteq> original_len then file_truncate valid_len f else (Inr (), f)))"

text \<open>What should be left: everything up to the last newline.\<close>

definition complete_lines :: "u8 list \<Rightarrow> u8 list" where
  "complete_lines bs = rev (dropWhile (\<lambda>b. b \<noteq> newline) (rev bs))"

lemma complete_lines_append_none:
  "newline \<notin> set ys \<Longrightarrow> complete_lines (xs @ ys) = complete_lines xs"
  unfolding complete_lines_def rev_append by (subst dropWhile_append2) auto

lemma complete_lines_newline [simp]:
  "complete_lines (xs @ [newline]) = xs @ [newline]" "complete_lines [] = []"
  by (simp_all add: complete_lines_def)

lemma complete_lines_prefix: "\<exists>n \<le> length bs. complete_lines bs = take n bs"
proof -
  let ?t = "takeWhile (\<lambda>b. b \<noteq> newline) (rev bs)"
  have "bs = rev (dropWhile (\<lambda>b. b \<noteq> newline) (rev bs)) @ rev ?t"
    by (metis rev_append rev_rev_ident takeWhile_dropWhile_id)
  then have "bs = complete_lines bs @ rev ?t" by (simp add: complete_lines_def)
  then show ?thesis by (metis append_eq_conv_conj length_append le_add1)
qed

lemma complete_lines_idem [simp]: "complete_lines (complete_lines bs) = complete_lines bs"
  by (simp add: complete_lines_def)

lemma rposition_None: "rposition P xs = None \<longleftrightarrow> (\<forall>x \<in> set xs. \<not> P x)"
  by (auto simp: rposition_def dropWhile_eq_Nil_conv split: list.splits)
    (metis dropWhile_eq_Nil_conv list.distinct(1) set_rev)

lemma rposition_Some:
  assumes "rposition (\<lambda>b. b = newline) xs = Some n"
  shows "complete_lines xs = take (n + 1) xs" and "n < length xs"
proof -
  obtain y ys where d: "dropWhile (\<lambda>b. b \<noteq> newline) (rev xs) = y # ys" and n: "n = length ys"
    using assms by (auto simp: rposition_def split: list.splits)
  obtain m where m: "m \<le> length xs" "complete_lines xs = take m xs" using complete_lines_prefix by blast
  have len: "length (complete_lines xs) = n + 1" by (simp add: complete_lines_def d n)
  with m show "complete_lines xs = take (n + 1) xs" by (metis length_take min_absorb2)
  show "n < length xs" using len m by (metis length_take less_add_one min.commute min.strict_order_iff min_def order_less_le_trans)
qed


lemma complete_lines_append_some:
  "newline \<in> set ys \<Longrightarrow> complete_lines (xs @ ys) = xs @ complete_lines ys"
  unfolding complete_lines_def rev_append by (subst dropWhile_append1) auto

text \<open>The same handle on a disk with the same files.\<close>

definition same_files :: "file_handle \<Rightarrow> file_handle \<Rightarrow> bool" where
  "same_files f f' \<longleftrightarrow> fh_path f' = fh_path f \<and> disk_files (fh_disk f') = disk_files (fh_disk f)"

lemma same_files_refl [simp]: "same_files f f"
  by (simp add: same_files_def)

lemma same_files_trans: "same_files f f' \<Longrightarrow> same_files f' f'' \<Longrightarrow> same_files f f''"
  by (simp add: same_files_def)

lemma same_files_bytes: "same_files f f' \<Longrightarrow> file_bytes f' = file_bytes f"
  by (simp add: same_files_def file_bytes_def disk_bytes_def)

lemma syscall_same: "syscall f = (x, f') \<Longrightarrow> same_files f f'"
  using syscall_keeps by (simp add: same_files_def)

lemma find_valid_len_spec:
  assumes "until \<le> length (file_bytes f)" and "find_valid_len until f = (r, f')"
  shows "same_files f f' \<and>
    (\<forall>n. r = Inr n \<longrightarrow> n \<le> until \<and> complete_lines (take until (file_bytes f)) = take n (file_bytes f))"
  using assms
proof (induction until arbitrary: f r f' rule: less_induct)
  case (less until)
  define start where "start = until - 8192"
  define bs where "bs = file_bytes f"
  define block where "block = take (until - start) (drop start bs)"
  have split: "take until bs = take start bs @ block"
    by (metis block_def diff_le_self start_def take_add le_add_diff_inverse)
  show ?case
  proof (cases "until = 0")
    case True
    with less.prems show ?thesis by (auto simp: find_valid_len.simps)
  next
    case False
    obtain x1 f1 where s1: "syscall f = (x1, f1)" by (cases "syscall f")
    obtain x2 f2 where s2: "syscall f1 = (x2, f2)" by (cases "syscall f1")
    have same: "same_files f f1" "same_files f f2"
      using syscall_same [OF s1] syscall_same [OF s2] same_files_trans by blast+
    have bs2: "file_bytes f2 = bs" using same_files_bytes [OF same(2)] by (simp add: bs_def)
    show ?thesis
    proof (cases "x1 = NoFault \<and> x2 = NoFault")
      case False
      with less.prems(2) \<open>until \<noteq> 0\<close> s1 s2 same show ?thesis
        by (cases x1; cases x2) (auto simp: find_valid_len.simps [of until f] Let_def)
    next
      case ok: True
      show ?thesis
      proof (cases "rposition (\<lambda>b. b = newline) block")
        case None
        then have none: "newline \<notin> set block" by (auto simp: rposition_None)
        have "find_valid_len start f2 = (r, f')"
          using less.prems(2) \<open>until \<noteq> 0\<close> s1 s2 ok None
          by (simp add: find_valid_len.simps [of until f] Let_def bs2 block_def flip: start_def)
        moreover have "start \<le> length (file_bytes f2)"
          using less.prems(1) bs2 by (simp add: start_def bs_def)
        ultimately have IH: "same_files f2 f' \<and>
            (\<forall>n. r = Inr n \<longrightarrow> n \<le> start \<and> complete_lines (take start bs) = take n bs)"
          using less.IH [of start f2 r f'] False by (simp add: bs2 start_def)
        have lines: "complete_lines (take until bs) = complete_lines (take start bs)"
          unfolding split by (rule complete_lines_append_none [OF none])
        show ?thesis
        proof (intro conjI allI impI)
          show "same_files f f'" using same(2) IH same_files_trans by blast
        next
          fix n assume "r = Inr n"
          then have n: "n \<le> start" "complete_lines (take start bs) = take n bs" using IH by auto
          then show "n \<le> until" by (simp add: start_def)
          show "complete_lines (take until (file_bytes f)) = take n (file_bytes f)"
            using n lines by (simp add: bs_def)
        qed
      next
        case (Some pos)
        have pos: "pos < length block" "complete_lines block = take (pos + 1) block"
          using rposition_Some [OF Some] by auto
        have "newline \<in> set block" using rposition_None [of "\<lambda>b. b = newline" block] Some by auto
        then have "complete_lines (take until bs) = take start bs @ take (pos + 1) block"
          using split pos by (simp add: complete_lines_append_some)
        also have "take (pos + 1) block = take (pos + 1) (drop start bs)"
          using pos(1) by (auto simp: block_def min_absorb1)
        also have "take start bs @ take (pos + 1) (drop start bs) = take (start + (pos + 1)) bs"
          by (rule take_add [symmetric])
        finally have lines: "complete_lines (take until bs) = take (start + pos + 1) bs" by simp
        have "r = Inr (start + pos + 1) \<and> f' = f2"
          using less.prems(2) \<open>until \<noteq> 0\<close> s1 s2 ok Some
          by (auto simp: find_valid_len.simps [of until f] Let_def bs2 block_def simp flip: start_def)
        then show ?thesis
          using same(2) lines pos(1) by (auto simp: bs_def block_def)
      qed
    qed
  qed
qed


text \<open>
  Only the handle's own file may differ, and what it held up to the last newline stays.
\<close>

definition keeps_lines :: "file_handle \<Rightarrow> file_handle \<Rightarrow> bool" where
  "keeps_lines f f' \<longleftrightarrow> fh_path f' = fh_path f \<and>
     (\<forall>p. p \<noteq> fh_path f \<longrightarrow> disk_files (fh_disk f') p = disk_files (fh_disk f) p) \<and>
     (file_bytes f' = file_bytes f \<or> file_bytes f' = complete_lines (file_bytes f))"

lemma keeps_lines_same: "same_files f f' \<Longrightarrow> keeps_lines f f'"
  by (auto simp: keeps_lines_def same_files_bytes) (simp_all add: same_files_def)

lemma file_truncate_keeps:
  assumes t: "file_truncate n f = (r, f')" and n: "n \<le> length (file_bytes f)"
    and lines: "complete_lines (file_bytes f) = take n (file_bytes f)"
  shows "keeps_lines f f' \<and> (r = Inr () \<longrightarrow> file_bytes f' = complete_lines (file_bytes f))"
proof -
  obtain x1 f1 where s1: "syscall f = (x1, f1)" by (cases "syscall f")
  let ?g = "set_bytes (take n (file_bytes f1) @ replicate (n - length (file_bytes f1)) 0) f1"
  obtain x2 f2 where s2: "syscall ?g = (x2, f2)" by (cases "syscall ?g")
  have b1: "file_bytes f1 = file_bytes f" and k1: "same_files f f1"
    using syscall_bytes [OF s1] syscall_same [OF s1] by auto
  have b2: "file_bytes f2 = take n (file_bytes f)" using syscall_bytes [OF s2] n by (simp add: b1)
  have "keeps_lines f f2"
    using syscall_keeps [OF s2] k1 b2 lines by (auto simp: keeps_lines_def same_files_def set_bytes_def)
  then show ?thesis
    using t s1 s2 b2 lines keeps_lines_same [OF k1] by (cases x1; cases x2) (auto simp: file_truncate_def)
qed

lemma keeps_lines_after_same: "same_files f f1 \<Longrightarrow> keeps_lines f1 f' \<Longrightarrow> keeps_lines f f'"
  using same_files_bytes [of f f1] by (auto simp: keeps_lines_def same_files_def)

lemma file_len_spec: "file_len f = (r, f') \<Longrightarrow> same_files f f' \<and> (\<forall>n. r = Inr n \<longrightarrow> n = length (file_bytes f'))"
  by (auto simp: file_len_def dest: syscall_same split: prod.splits fault.splits)

lemma recover_tail_spec:
  assumes "recover_tail f = (r, f')"
  shows "keeps_lines f f' \<and> (r = Inr () \<longrightarrow> file_bytes f' = complete_lines (file_bytes f))"
proof -
  obtain q f1 where len: "file_len f = (q, f1)" by (cases "file_len f")
  note L = file_len_spec [OF len]
  show ?thesis
  proof (cases q)
    case (Inl e)
    with assms len L show ?thesis by (auto simp: recover_tail_def keeps_lines_same)
  next
    case (Inr m)
    then have m: "m = length (file_bytes f1)" and b1: "file_bytes f1 = file_bytes f"
      using L same_files_bytes by auto
    obtain v f2 where find: "find_valid_len m f1 = (v, f2)" by (cases "find_valid_len m f1")
    note F = find_valid_len_spec [OF _ find, unfolded m, OF order_refl]
    have same: "same_files f f2" using L F same_files_trans by blast
    show ?thesis
    proof (cases v)
      case (Inl e)
      with assms len Inr find same show ?thesis by (auto simp: recover_tail_def keeps_lines_same)
    next
      fix n assume v: "v = Inr n"
      with F m b1 have n: "n \<le> length (file_bytes f2)" "complete_lines (file_bytes f2) = take n (file_bytes f2)"
        using same_files_bytes [OF same] by auto
      show ?thesis
      proof (cases "n = m")
        case True
        with assms len Inr find v have "r = Inr () \<and> f' = f2" by (simp add: recover_tail_def)
        moreover have "complete_lines (file_bytes f) = file_bytes f2"
          using n True m b1 same_files_bytes [OF same] by simp
        ultimately show ?thesis using same by (simp add: keeps_lines_same)
      next
        case False
        with assms len Inr find v have t: "file_truncate n f2 = (r, f')" by (simp add: recover_tail_def)
        show ?thesis
          using file_truncate_keeps [OF t n] same_files_bytes [OF same] keeps_lines_after_same [OF same] by auto
      qed
    qed
  qed
qed


section \<open>Opening for append, and the daily file\<close>

text \<open>Opening creates a missing file; a fault is a refused open.\<close>

definition open_file :: "str \<Rightarrow> disk \<Rightarrow> file_handle io_result \<times> disk" where
  "open_file path d = (case disk_syscall d of
       (Fault e _, d) \<Rightarrow> (Inl e, d)
     | (NoFault, d) \<Rightarrow>
         let d = d\<lparr>disk_files := (disk_files d)(path \<mapsto> disk_bytes d path)\<rparr>
         in (Inr \<lparr>fh_path = path, fh_disk = d\<rparr>, d))"

definition append_file_open :: "str \<Rightarrow> disk \<Rightarrow> file_handle transactional_append io_result \<times> disk" where
  "append_file_open path d = (case open_file path d of
       (Inl e, d) \<Rightarrow> (Inl e, d)
     | (Inr f, _) \<Rightarrow> (case recover_tail f of
           (Inl e, f) \<Rightarrow> (Inl e, fh_disk f)
         | (Inr _, f) \<Rightarrow> (Inr \<lparr>ta_file = f, ta_rollback = None\<rparr>, fh_disk f)))"

text \<open>\<^verbatim>\<open>probe\<close> opens and closes, without repairing the tail.\<close>

definition append_file_probe :: "str \<Rightarrow> disk \<Rightarrow> unit io_result \<times> disk" where
  "append_file_probe path d = (case open_file path d of (Inl e, d) \<Rightarrow> (Inl e, d) | (Inr _, d) \<Rightarrow> (Inr (), d))"

definition path_join :: "str \<Rightarrow> str \<Rightarrow> str" where
  "path_join dir name =
     (if name \<noteq> [] \<and> hd name = CHR ''/'' then name
      else if dir = [] \<or> last dir = CHR ''/'' then dir @ name
      else dir @ ''/'' @ name)"

definition daily_path :: "('d \<Rightarrow> str) \<Rightarrow> str \<Rightarrow> str \<Rightarrow> str option \<Rightarrow> 'd \<Rightarrow> str" where
  "daily_path show_date dir stem ext date = (let name = stem @ ''.'' @ show_date date in
     path_join dir (case ext of Some s \<Rightarrow> name @ ''.'' @ s | None \<Rightarrow> name))"

record 'd daily_writer =
  dw_dir :: str
  dw_prefix :: str
  dw_suffix :: "str option"
  dw_date :: 'd
  dw_file :: "file_handle transactional_append"
  dw_sync_on_rotate :: bool

definition daily_at_date ::
    "('d \<Rightarrow> str) \<Rightarrow> str \<Rightarrow> str \<Rightarrow> str option \<Rightarrow> 'd \<Rightarrow> disk \<Rightarrow> 'd daily_writer io_result \<times> disk" where
  "daily_at_date show_date dir stem ext date d =
     (case append_file_open (daily_path show_date dir stem ext date) d of
        (Inl e, d) \<Rightarrow> (Inl e, d)
      | (Inr ta, d) \<Rightarrow> (Inr \<lparr>dw_dir = dir, dw_prefix = stem, dw_suffix = ext, dw_date = date,
          dw_file = ta, dw_sync_on_rotate = False\<rparr>, d))"

definition with_sync_on_rotate :: "'d daily_writer \<Rightarrow> 'd daily_writer" where
  "with_sync_on_rotate w = w\<lparr>dw_sync_on_rotate := True\<rparr>"

abbreviation dw_disk :: "'d daily_writer \<Rightarrow> disk" where
  "dw_disk w \<equiv> fh_disk (ta_file (dw_file w))"

text \<open>The old handle stays in use when rotation fails, on the disk as it is then.\<close>

definition with_disk :: "disk \<Rightarrow> 'd daily_writer \<Rightarrow> 'd daily_writer" where
  "with_disk d w = w\<lparr>dw_file := (dw_file w)\<lparr>ta_file := (ta_file (dw_file w))\<lparr>fh_disk := d\<rparr>\<rparr>\<rparr>"

definition daily_sync_all :: "'d daily_writer \<Rightarrow> unit io_result \<times> 'd daily_writer" where
  "daily_sync_all w = (let (r, f) = file_sync_all (ta_file (dw_file w))
     in (r, w\<lparr>dw_file := (dw_file w)\<lparr>ta_file := f\<rparr>\<rparr>))"

definition daily_rotate :: "('d \<Rightarrow> str) \<Rightarrow> 'd \<Rightarrow> 'd daily_writer \<Rightarrow> unit io_result \<times> 'd daily_writer" where
  "daily_rotate show_date date w =
     (case ta_repair file_ops (dw_file w) of
        (Inl e, ta) \<Rightarrow> (Inl e, w\<lparr>dw_file := ta\<rparr>)
      | (Inr _, ta) \<Rightarrow> let w = w\<lparr>dw_file := ta\<rparr> in
          (case (if dw_sync_on_rotate w then daily_sync_all w else (Inr (), w)) of
             (Inl e, w) \<Rightarrow> (Inl e, w)
           | (Inr _, w) \<Rightarrow>
               (case append_file_open (daily_path show_date (dw_dir w) (dw_prefix w) (dw_suffix w) date) (dw_disk w) of
                  (Inl e, d) \<Rightarrow> (Inl e, with_disk d w)
                | (Inr ta, _) \<Rightarrow> (Inr (), w\<lparr>dw_file := ta, dw_date := date\<rparr>))))"

definition append_at :: "('d \<Rightarrow> str) \<Rightarrow> u8 list \<Rightarrow> 'd \<Rightarrow> 'd daily_writer \<Rightarrow> unit io_result \<times> 'd daily_writer" where
  "append_at show_date bytes date w =
     (case (if dw_date w \<noteq> date then daily_rotate show_date date w else (Inr (), w)) of
        (Inl e, w) \<Rightarrow> (Inl e, w)
      | (Inr _, w) \<Rightarrow> (case ta_append file_ops bytes (dw_file w) of
            (r, ta) \<Rightarrow> (r, w\<lparr>dw_file := ta\<rparr>)))"


section \<open>What the daily files hold\<close>

text \<open>An operation on a handle leaves every other file alone.\<close>

definition own_path :: "file_handle \<Rightarrow> file_handle \<Rightarrow> bool" where
  "own_path f f' \<longleftrightarrow> fh_path f' = fh_path f \<and>
     (\<forall>p. p \<noteq> fh_path f \<longrightarrow> disk_files (fh_disk f') p = disk_files (fh_disk f) p)"

lemma own_path_refl [simp]: "own_path f f"
  by (simp add: own_path_def)

lemma own_path_trans: "own_path f f' \<Longrightarrow> own_path f' f'' \<Longrightarrow> own_path f f''"
  by (simp add: own_path_def)

lemma own_path_keeps: "keeps_lines f f' \<Longrightarrow> own_path f f'" "same_files f f' \<Longrightarrow> own_path f f'"
  by (simp_all add: own_path_def keeps_lines_def same_files_def)

lemma own_path_set [simp]:
  "own_path f (set_bytes bs f') = own_path f f'" "own_path (set_bytes bs f) f' = own_path f f'"
  by (auto simp: own_path_def set_bytes_def)

lemma own_path_syscall: "syscall f = (x, f') \<Longrightarrow> own_path f f'"
  by (rule own_path_keeps(2)) (rule syscall_same)

lemma own_path_ops:
  "ops_write_all file_ops bs f = (r, f') \<Longrightarrow> own_path f f'"
  "ops_flush file_ops f = (r, f') \<Longrightarrow> own_path f f'"
  "ops_append_start file_ops f = (q, f') \<Longrightarrow> own_path f f'"
  "ops_truncate file_ops n f = (r, f') \<Longrightarrow> own_path f f'"
  by (auto simp: file_ops_def file_write_all_def file_flush_def file_len_def file_truncate_def
      dest!: own_path_syscall intro: own_path_trans split: prod.splits fault.splits)

lemma own_path_repair: "ta_repair file_ops ta = (r, ta') \<Longrightarrow> own_path (ta_file ta) (ta_file ta')"
  by (auto simp: ta_repair_def dest: own_path_ops split: option.splits prod.splits sum.splits)

lemma own_path_append: "ta_append file_ops bs ta = (r, ta') \<Longrightarrow> own_path (ta_file ta) (ta_file ta')"
proof -
  assume a: "ta_append file_ops bs ta = (r, ta')"
  obtain r1 ta1 where rep: "ta_repair file_ops ta = (r1, ta1)" by (cases "ta_repair file_ops ta")
  obtain q f where st: "ops_append_start file_ops (ta_file ta1) = (q, f)"
    by (cases "ops_append_start file_ops (ta_file ta1)")
  obtain w f1 where wf: "write_and_flush file_ops bs f = (w, f1)" by (cases "write_and_flush file_ops bs f")
  have 1: "own_path (ta_file ta) (ta_file ta1)" using own_path_repair [OF rep] .
  have 2: "own_path (ta_file ta) f" using own_path_trans [OF 1 own_path_ops(3) [OF st]] .
  have "own_path f f1"
    using wf by (auto simp: write_and_flush_def dest: own_path_ops intro: own_path_trans split: prod.splits sum.splits)
  with 2 have 3: "own_path (ta_file ta) f1" by (rule own_path_trans)
  have 4: "own_path (ta_file ta) f2" if "ops_truncate file_ops n f1 = (t, f2)" for n t f2
    using own_path_trans [OF 3 own_path_ops(4) [OF that]] .
  from a rep st wf 1 2 3 4 show ?thesis
    by (auto simp: ta_append_def split: sum.splits prod.splits)
qed

text \<open>
  The stored bytes of every path: of the open file what is not marked for rollback, of any other
  file its complete lines.
\<close>

definition dw_stored :: "'d daily_writer \<Rightarrow> str \<Rightarrow> u8 list" where
  "dw_stored w p = (if p = fh_path (ta_file (dw_file w)) then os_file.stored (dw_file w)
     else complete_lines (disk_bytes (dw_disk w) p))"

definition dw_wf :: "('d \<Rightarrow> str) \<Rightarrow> 'd daily_writer \<Rightarrow> bool" where
  "dw_wf show_date w \<longleftrightarrow> os_file.valid (dw_file w) \<and>
     complete_lines (os_file.stored (dw_file w)) = os_file.stored (dw_file w) \<and>
     fh_path (ta_file (dw_file w)) = daily_path show_date (dw_dir w) (dw_prefix w) (dw_suffix w) (dw_date w)"

lemma open_lines:
  assumes "append_file_open path d = (r, d')"
  shows "(\<forall>p. disk_bytes d' p = disk_bytes d p \<or> disk_bytes d' p = complete_lines (disk_bytes d p)) \<and>
    (\<forall>p. p \<noteq> path \<longrightarrow> disk_files d' p = disk_files d p) \<and>
    (\<forall>ta. r = Inr ta \<longrightarrow> fh_path (ta_file ta) = path \<and> fh_disk (ta_file ta) = d' \<and> ta_rollback ta = None \<and>
       file_bytes (ta_file ta) = complete_lines (disk_bytes d path))"
proof -
  obtain x d1 where sys: "disk_syscall d = (x, d1)" by (cases "disk_syscall d")
  have d1: "disk_files d1 = disk_files d"
    using sys by (auto simp: disk_syscall_def split: list.splits)
  show ?thesis
  proof (cases x)
    case (Fault e k)
    with assms sys d1 show ?thesis by (auto simp: append_file_open_def open_file_def disk_bytes_def)
  next
    case NoFault
    define d2 where "d2 = d1\<lparr>disk_files := (disk_files d1)(path \<mapsto> disk_bytes d1 path)\<rparr>"
    define f where "f = \<lparr>fh_path = path, fh_disk = d2\<rparr>"
    have fb: "file_bytes f = disk_bytes d path"
      by (simp add: f_def d2_def file_bytes_def disk_bytes_def d1)
    obtain q f' where rec: "recover_tail f = (q, f')" by (cases "recover_tail f")
    have other: "disk_files (fh_disk f') p = disk_files d p" if "p \<noteq> path" for p
      using recover_tail_spec [OF rec] that by (simp add: keeps_lines_def f_def d2_def d1)
    have own: "disk_bytes (fh_disk f') path = file_bytes f'" "fh_path f' = path"
      using recover_tail_spec [OF rec] by (simp_all add: file_bytes_def keeps_lines_def f_def)
    have lines: "file_bytes f' = disk_bytes d path \<or> file_bytes f' = complete_lines (disk_bytes d path)"
      using recover_tail_spec [OF rec] fb by (auto simp: keeps_lines_def)
    have all: "disk_bytes (fh_disk f') p = disk_bytes d p \<or> disk_bytes (fh_disk f') p = complete_lines (disk_bytes d p)" for p
      using other [of p] own lines by (cases "p = path") (simp_all add: disk_bytes_def)
    have "append_file_open path d = (case q of Inl e \<Rightarrow> (Inl e, fh_disk f')
        | Inr _ \<Rightarrow> (Inr \<lparr>ta_file = f', ta_rollback = None\<rparr>, fh_disk f'))"
      using NoFault sys rec by (simp add: append_file_open_def open_file_def Let_def flip: d2_def f_def split: sum.splits)
    with assms all other own recover_tail_spec [OF rec] fb show ?thesis
      by (auto split: sum.splits)
  qed
qed


lemma dw_stored_other:
  "own_path (ta_file ta) (ta_file ta') \<Longrightarrow> p \<noteq> fh_path (ta_file ta) \<Longrightarrow>
     disk_bytes (fh_disk (ta_file ta')) p = disk_bytes (fh_disk (ta_file ta)) p"
  by (simp add: own_path_def disk_bytes_def)

lemma dw_step:
  assumes "own_path (ta_file (dw_file w)) (ta_file ta)" and "os_file.stored ta = os_file.stored (dw_file w) @ bs"
  shows "dw_stored (w\<lparr>dw_file := ta\<rparr>) p = dw_stored w p @ (if p = fh_path (ta_file (dw_file w)) then bs else [])"
proof -
  have "fh_path (ta_file ta) = fh_path (ta_file (dw_file w))" using assms(1) by (simp add: own_path_def)
  with assms show ?thesis by (auto simp: dw_stored_def dw_stored_other)
qed

lemma dw_rotate_spec:
  assumes wf: "dw_wf show_date w" and rot: "daily_rotate show_date date w = (r, w')"
  shows "dw_wf show_date w' \<and> dw_stored w' = dw_stored w \<and> (r = Inr () \<longrightarrow> dw_date w' = date) \<and>
    dw_dir w' = dw_dir w \<and> dw_prefix w' = dw_prefix w \<and> dw_suffix w' = dw_suffix w"
proof -
  define path where "path = daily_path show_date (dw_dir w) (dw_prefix w) (dw_suffix w) date"
  define cur where "cur = fh_path (ta_file (dw_file w))"
  obtain r1 ta1 where rep: "ta_repair file_ops (dw_file w) = (r1, ta1)" by (cases "ta_repair file_ops (dw_file w)")
  define w1 where "w1 = w\<lparr>dw_file := ta1\<rparr>"
  have R: "os_file.valid ta1" "os_file.stored ta1 = os_file.stored (dw_file w)"
    "r1 = Inr () \<Longrightarrow> ta_rollback ta1 = None"
    using os_file.repair_spec [OF _ rep] wf by (simp_all add: dw_wf_def)
  have own1: "own_path (ta_file (dw_file w)) (ta_file ta1)" by (rule own_path_repair [OF rep])
  have wf1: "dw_wf show_date w1 \<and> dw_stored w1 = dw_stored w"
    using wf R own1 dw_step [of w ta1 "[]"] by (auto simp: dw_wf_def w1_def own_path_def)
  show ?thesis
  proof (cases r1)
    case (Inl e)
    with rot rep wf1 show ?thesis by (auto simp: daily_rotate_def w1_def)
  next
    case (Inr u)
    obtain s w2 where sync: "(if dw_sync_on_rotate w then daily_sync_all w1 else (Inr (), w1)) = (s, w2)"
      by (cases "if dw_sync_on_rotate w then daily_sync_all w1 else (Inr (), w1)")
    obtain f2 where w2: "w2 = w1\<lparr>dw_file := (dw_file w1)\<lparr>ta_file := f2\<rparr>\<rparr>" and f2: "same_files (ta_file (dw_file w1)) f2"
    proof (cases "dw_sync_on_rotate w")
      case True
      obtain q f where q: "file_sync_all (ta_file (dw_file w1)) = (q, f)" by (cases "file_sync_all (ta_file (dw_file w1))")
      then have "same_files (ta_file (dw_file w1)) f"
        by (auto simp: file_sync_all_def dest: syscall_same split: prod.splits fault.splits)
      with True sync q show ?thesis by (intro that [of f]) (auto simp: daily_sync_all_def)
    next
      case False
      with sync show ?thesis by (intro that [of "ta_file (dw_file w1)"]) auto
    qed
    have fb: "file_bytes f2 = file_bytes (ta_file ta1)" using same_files_bytes [OF f2] by (simp add: w1_def)
    have st2: "os_file.stored (dw_file w2) = os_file.stored ta1" "os_file.valid (dw_file w2) = os_file.valid ta1"
      using fb by (simp_all add: w2 w1_def os_file.stored_def os_file.valid_def split: option.splits)
    have wf2: "dw_wf show_date w2 \<and> dw_stored w2 = dw_stored w"
      using wf1 st2 f2 dw_step [of w1 "(dw_file w1)\<lparr>ta_file := f2\<rparr>" "[]"] own_path_keeps(2) [OF f2]
      by (auto simp: dw_wf_def w2 w1_def same_files_def)
    have keep: "dw_dir w2 = dw_dir w \<and> dw_prefix w2 = dw_prefix w \<and> dw_suffix w2 = dw_suffix w"
      by (simp add: w2 w1_def)
    show ?thesis
    proof (cases s)
      case (Inl e)
      with rot rep Inr sync wf2 keep show ?thesis by (auto simp: daily_rotate_def simp flip: w1_def)
    next
      fix v assume s: "s = Inr v"
      obtain q d where op: "append_file_open path (dw_disk w2) = (q, d)" by (cases "append_file_open path (dw_disk w2)")
      note O = open_lines [OF op]
      have cur2: "fh_path (ta_file (dw_file w2)) = cur" using f2 own1 by (simp add: w2 w1_def cur_def same_files_def own_path_def)
      have none: "ta_rollback (dw_file w2) = None" using R(3) Inr by (simp add: w2 w1_def)
      then have curb: "os_file.stored (dw_file w2) = disk_bytes (dw_disk w2) cur"
        by (simp add: os_file.stored_def file_bytes_def cur2)
      have curl: "complete_lines (disk_bytes (dw_disk w2) cur) = disk_bytes (dw_disk w2) cur"
        using wf2 curb by (simp add: dw_wf_def)
      have str2: "dw_stored w2 p = complete_lines (disk_bytes (dw_disk w2) p)" for p
        using curb curl by (simp add: dw_stored_def cur2)
      have lines: "complete_lines (disk_bytes d p) = complete_lines (disk_bytes (dw_disk w2) p)" for p
        using O by (metis complete_lines_idem)
      show ?thesis
      proof (cases q)
        case (Inl e)
        define w3 where "w3 = with_disk d w2"
        have res: "r = Inl e \<and> w' = w3"
          using rot rep Inr sync s op Inl keep by (auto simp: daily_rotate_def w3_def path_def simp flip: w1_def)
        have cur3: "disk_bytes d cur = disk_bytes (dw_disk w2) cur" using O curl by metis
        then have st3: "os_file.stored (dw_file w3) = os_file.stored (dw_file w2)"
          using none curb by (simp add: os_file.stored_def w3_def with_disk_def file_bytes_def cur2)
        moreover have "dw_stored w3 p = dw_stored w2 p" for p
          using st3 lines [of p] by (simp add: dw_stored_def w3_def with_disk_def)
        ultimately show ?thesis
          using res wf2 keep none
          by (auto simp: dw_wf_def w3_def with_disk_def os_file.valid_def fun_eq_iff)
      next
        case (Inr ta)
        define w3 where "w3 = w2\<lparr>dw_file := ta, dw_date := date\<rparr>"
        have res: "r = Inr () \<and> w' = w3"
          using rot rep \<open>r1 = Inr u\<close> sync s op Inr keep by (auto simp: daily_rotate_def w3_def path_def simp flip: w1_def)
        have ta: "fh_path (ta_file ta) = path" "fh_disk (ta_file ta) = d" "ta_rollback ta = None"
          "file_bytes (ta_file ta) = complete_lines (disk_bytes (dw_disk w2) path)"
          using O Inr by auto
        have "dw_stored w3 p = complete_lines (disk_bytes (dw_disk w2) p)" for p
          unfolding dw_stored_def using ta lines [of p] by (simp add: w3_def os_file.stored_def)
        then have "dw_stored w3 p = dw_stored w2 p" for p by (simp only: str2)
        then show ?thesis
          using res ta keep by (simp add: dw_wf_def w3_def os_file.valid_def os_file.stored_def path_def
            fun_eq_iff wf2)
      qed
    qed
  qed
qed


lemma append_at_spec:
  assumes wf: "dw_wf show_date w" and bs: "complete_lines bs = bs" and app: "append_at show_date bs date w = (r, w')"
  shows "dw_wf show_date w' \<and> (r = Inr () \<longrightarrow> dw_date w' = date) \<and>
    dw_dir w' = dw_dir w \<and> dw_prefix w' = dw_prefix w \<and> dw_suffix w' = dw_suffix w \<and>
    (\<forall>p. dw_stored w' p = dw_stored w p @ (if r = Inr () \<and>
       p = daily_path show_date (dw_dir w) (dw_prefix w) (dw_suffix w) date then bs else []))"
proof -
  obtain q w1 where rot: "(if dw_date w \<noteq> date then daily_rotate show_date date w else (Inr (), w)) = (q, w1)"
    by (cases "if dw_date w \<noteq> date then daily_rotate show_date date w else (Inr (), w)")
  have R: "dw_wf show_date w1 \<and> dw_stored w1 = dw_stored w \<and> (q = Inr () \<longrightarrow> dw_date w1 = date) \<and>
      dw_dir w1 = dw_dir w \<and> dw_prefix w1 = dw_prefix w \<and> dw_suffix w1 = dw_suffix w"
    using rot dw_rotate_spec [OF wf, of date q w1] wf by (auto split: if_splits)
  show ?thesis
  proof (cases q)
    case (Inl e)
    with app rot R show ?thesis by (auto simp: append_at_def)
  next
    case (Inr u)
    obtain t ta where a: "ta_append file_ops bs (dw_file w1) = (t, ta)" by (cases "ta_append file_ops bs (dw_file w1)")
    have res: "r = t \<and> w' = w1\<lparr>dw_file := ta\<rparr>" using app rot Inr a by (auto simp: append_at_def)
    define added where "added = (case t of Inl _ \<Rightarrow> [] | Inr _ \<Rightarrow> bs)"
    have A: "os_file.valid ta" "os_file.stored ta = os_file.stored (dw_file w1) @ added"
      using os_file.append_spec [OF _ a] R by (auto simp: dw_wf_def added_def)
    have own: "own_path (ta_file (dw_file w1)) (ta_file ta)" by (rule own_path_append [OF a])
    have path: "fh_path (ta_file (dw_file w1)) = daily_path show_date (dw_dir w) (dw_prefix w) (dw_suffix w) date"
      using R Inr by (simp add: dw_wf_def)
    have lines: "complete_lines (os_file.stored ta) = os_file.stored ta"
    proof (cases "newline \<in> set added")
      case True
      with bs have "complete_lines added = added" by (auto simp: added_def split: sum.splits)
      with True A(2) show ?thesis by (simp add: complete_lines_append_some)
    next
      case False
      have "added = [] \<or> newline \<in> set added"
      proof (cases "complete_lines bs")
        case (Cons x xs)
        then have "newline \<in> set bs"
          using complete_lines_append_none [of bs "[]"] by auto
        then show ?thesis by (auto simp: added_def split: sum.splits)
      qed (use bs in \<open>auto simp: added_def split: sum.splits\<close>)
      with False A(2) R show ?thesis by (simp add: dw_wf_def)
    qed
    have "dw_stored w' p = dw_stored w p @ (if r = Inr () \<and>
       p = daily_path show_date (dw_dir w) (dw_prefix w) (dw_suffix w) date then bs else [])" for p
      using dw_step [OF own A(2), of p] res R path by (cases t) (auto simp: added_def)
    moreover have "dw_wf show_date w'"
      using res R A(1) lines own by (simp add: dw_wf_def own_path_def)
    ultimately show ?thesis using res R Inr by simp
  qed
qed

section \<open>A run of appends\<close>

text \<open>Each item is a batch with the date of its write; the acknowledged ones are collected.\<close>

definition append_run ::
    "('d \<Rightarrow> str) \<Rightarrow> (u8 list \<times> 'd) list \<Rightarrow> 'd daily_writer \<Rightarrow> 'd daily_writer \<times> (u8 list \<times> 'd) list" where
  "append_run show_date items w = fold (\<lambda>(bs, date) (w, acked).
     (case append_at show_date bs date w of
        (Inl _, w) \<Rightarrow> (w, acked) | (Inr _, w) \<Rightarrow> (w, acked @ [(bs, date)]))) items (w, [])"

text \<open>The bytes of the items that belong to a path, in order.\<close>

definition bytes_for :: "('d \<Rightarrow> str) \<Rightarrow> str \<Rightarrow> (u8 list \<times> 'd) list \<Rightarrow> u8 list" where
  "bytes_for path_of p items = concat (map fst (filter (\<lambda>x. path_of (snd x) = p) items))"

lemma append_run_spec:
  fixes w :: "'d daily_writer"
  assumes "dw_wf show_date w" and "\<forall>x \<in> set items. complete_lines (fst x) = fst x"
    and "append_run show_date items w = (w', acked)"
  shows "dw_wf show_date w' \<and> dw_dir w' = dw_dir w \<and> dw_prefix w' = dw_prefix w \<and> dw_suffix w' = dw_suffix w \<and>
    (\<forall>p. dw_stored w' p = dw_stored w p @
    bytes_for (daily_path show_date (dw_dir w) (dw_prefix w) (dw_suffix w)) p acked)"
proof -
  define path_of where "path_of = daily_path show_date (dw_dir w) (dw_prefix w) (dw_suffix w)"
  define step where "step = (\<lambda>(bs, date) (w, acked).
     (case append_at show_date bs date w of
        (Inl _, w) \<Rightarrow> (w, acked) | (Inr _, w) \<Rightarrow> (w, acked @ [(bs, date :: 'd)])))"
  define rel where "rel = (\<lambda>(w1, acked). dw_wf show_date w1 \<and> dw_dir w1 = dw_dir w \<and> dw_prefix w1 = dw_prefix w \<and>
     dw_suffix w1 = dw_suffix w \<and> (\<forall>p. dw_stored w1 p = dw_stored w p @ bytes_for path_of p acked))"
  have "rel (step x (w1, acks))" if r: "rel (w1, acks)" and x: "complete_lines (fst x) = fst x" for x w1 acks
  proof -
    obtain bs date where bd: "x = (bs, date)" by (cases x)
    obtain q w2 where a: "append_at show_date bs date w1 = (q, w2)" by (cases "append_at show_date bs date w1")
    have "dw_wf show_date w1" and "complete_lines bs = bs" using r x by (simp_all add: rel_def bd)
    from append_at_spec [OF this a] r show ?thesis
      by (cases q) (auto simp: rel_def step_def bd a bytes_for_def path_of_def)
  qed
  then have "rel (fold step items (w1, acks))"
    if "rel (w1, acks)" "\<forall>x \<in> set items. complete_lines (fst x) = fst x" for w1 acks
    using that
  proof (induction items arbitrary: w1 acks)
    case (Cons x xs)
    then show ?case by (cases "step x (w1, acks)") (metis fold_simps(2) list.set_intros)
  qed simp
  from this [of w "[]"] assms show ?thesis
    by (simp add: append_run_def rel_def bytes_for_def path_of_def flip: step_def)
qed


section \<open>A crash at any moment\<close>

text \<open>
  A batch is one line: its only newline is its last byte. What a pending rollback hides is then
  at most one line, complete or not.
\<close>

definition one_line :: "u8 list \<Rightarrow> bool" where
  "one_line bs \<longleftrightarrow> newline \<notin> set (butlast bs) \<and> complete_lines bs = bs"

lemma one_line_take:
  assumes "one_line bs"
  shows "complete_lines (take k bs) = (if newline \<in> set (take k bs) then bs else [])"
proof (cases "length bs \<le> k")
  case True
  with assms complete_lines_append_none [of bs "[]"] show ?thesis by (auto simp: one_line_def)
next
  case False
  then have "take k bs = take k (butlast bs)" by (simp add: take_butlast)
  with assms have "newline \<notin> set (take k bs)" by (auto simp: one_line_def dest: in_set_takeD)
  with complete_lines_append_none [of "take k bs" "[]"] show ?thesis by simp
qed

context append_storage
begin

definition tail_of :: "u8 list set \<Rightarrow> 'f transactional_append \<Rightarrow> bool" where
  "tail_of batches ta \<longleftrightarrow> (case ta_rollback ta of None \<Rightarrow> True
     | Some n \<Rightarrow> \<exists>bs \<in> batches. \<exists>k. drop n (bytes_of (ta_file ta)) = take k bs)"

lemma tail_of_mono: "tail_of B ta \<Longrightarrow> B \<subseteq> B' \<Longrightarrow> tail_of B' ta"
  by (auto simp: tail_of_def split: option.splits)

lemma repair_tail:
  assumes "valid ta" "tail_of B ta" and "ta_repair ops ta = (r, ta')"
  shows "tail_of B ta'"
proof (cases "ta_rollback ta")
  case None
  with assms show ?thesis by (simp add: ta_repair_def)
next
  case (Some n)
  obtain q f where t: "ops_truncate ops n (ta_file ta) = (q, f)" by (cases "ops_truncate ops n (ta_file ta)")
  have n: "n \<le> length (bytes_of (ta_file ta))" using assms(1) Some by (simp add: valid_def)
  obtain bs k where bs: "bs \<in> B" "drop n (bytes_of (ta_file ta)) = take k bs"
    using assms(2) Some by (auto simp: tail_of_def)
  show ?thesis
  proof (cases q)
    case (Inl e)
    with t truncate_err [of n "ta_file ta" e f] n
    have "bytes_of f = bytes_of (ta_file ta) \<or> bytes_of f = take n (bytes_of (ta_file ta))" by simp
    then have "\<exists>bs \<in> B. \<exists>k. drop n (bytes_of f) = take k bs" using bs by (metis drop_eq_Nil2 length_take min.cobounded2 take_0)
    moreover have "ta' = ta\<lparr>ta_file := f\<rparr>" using assms(3) Some Inl t by (simp add: ta_repair_def)
    ultimately show ?thesis by (simp add: tail_of_def Some)
  next
    case (Inr u)
    with assms Some t show ?thesis by (auto simp: ta_repair_def tail_of_def)
  qed
qed

lemma append_tail:
  assumes valid: "valid ta" and tail: "tail_of B ta" and app: "ta_append ops bs ta = (r, ta')"
  shows "tail_of (insert bs B) ta'"
proof -
  obtain r1 ta1 where rep: "ta_repair ops ta = (r1, ta1)" by (cases "ta_repair ops ta")
  have T: "tail_of (insert bs B) ta1" using repair_tail [OF valid tail rep] tail_of_mono by blast
  have N: "r1 = Inr () \<Longrightarrow> ta_rollback ta1 = None" using repair_spec [OF valid rep] by simp
  obtain q f where st: "ops_append_start ops (ta_file ta1) = (q, f)" by (cases "ops_append_start ops (ta_file ta1)")
  obtain w f1 where wf: "write_and_flush ops bs f = (w, f1)" by (cases "write_and_flush ops bs f")
  have hidden: "\<exists>k. drop start (bytes_of f2) = take k bs"
    if "q = Inr start" and tr: "ops_truncate ops start f1 = (t, f2)" for start t f2
  proof -
    have start: "start = length (bytes_of f)" using st that(1) start_ok start_keeps by metis
    obtain k where k: "bytes_of f1 = bytes_of f @ take k bs" using write_and_flush_spec [OF wf, of "()"] by auto
    then have "start \<le> length (bytes_of f1)" by (simp add: start)
    then have "bytes_of f2 = bytes_of f1 \<or> bytes_of f2 = take start (bytes_of f1)"
      using tr truncate_ok [of start f1] truncate_err [of start f1] by (cases t) blast+
    then have "drop start (bytes_of f2) = take k bs \<or> drop start (bytes_of f2) = take 0 bs"
      by (auto simp: k start)
    then show ?thesis by blast
  qed
  from app rep st wf T N hidden show ?thesis
    by (auto simp: ta_append_def tail_of_def split: sum.splits prod.splits)
qed

text \<open>
  Whenever the process stops, the complete lines of the file are what was stored, plus at most
  the one batch whose write was reported as failed although all of it had reached the file.
\<close>

lemma after_crash:
  assumes "valid ta" "tail_of B ta" and lines: "complete_lines (stored ta) = stored ta"
    and B: "\<forall>bs \<in> B. one_line bs"
  shows "\<exists>extra. (extra = [] \<or> extra \<in> B \<and> ta_rollback ta \<noteq> None) \<and>
    complete_lines (bytes_of (ta_file ta)) = stored ta @ extra"
proof (cases "ta_rollback ta")
  case None
  with lines show ?thesis by (intro exI [of _ "[]"]) (simp add: stored_def)
next
  case (Some n)
  obtain bs k where bs: "bs \<in> B" "drop n (bytes_of (ta_file ta)) = take k bs"
    using assms(2) Some by (auto simp: tail_of_def)
  have bytes: "bytes_of (ta_file ta) = stored ta @ take k bs"
    using Some by (simp add: stored_def flip: bs(2))
  have line: "complete_lines (take k bs) = (if newline \<in> set (take k bs) then bs else [])"
    using one_line_take B bs(1) by blast
  show ?thesis
  proof (cases "newline \<in> set (take k bs)")
    case True
    with line bs(1) Some show ?thesis by (intro exI [of _ bs]) (simp add: bytes complete_lines_append_some)
  next
    case False
    with lines show ?thesis by (intro exI [of _ "[]"]) (simp add: bytes complete_lines_append_none)
  qed
qed

end


definition ta_append_run ::
    "u8 list list \<Rightarrow> file_handle transactional_append \<Rightarrow> file_handle transactional_append \<times> u8 list list" where
  "ta_append_run batches ta = fold (\<lambda>bs (ta, acked). (case ta_append file_ops bs ta of
      (Inl _, ta) \<Rightarrow> (ta, acked) | (Inr _, ta) \<Rightarrow> (ta, acked @ [bs]))) batches (ta, [])"

lemma ta_append_run_spec:
  assumes run: "ta_append_run batches ta = (ta', acked)"
    and start: "ta_rollback ta = None" "complete_lines (file_bytes (ta_file ta)) = file_bytes (ta_file ta)"
    and lines: "\<forall>bs \<in> set batches. one_line bs"
  shows "os_file.valid ta' \<and> os_file.tail_of (set batches) ta' \<and> complete_lines (os_file.stored ta') = os_file.stored ta' \<and>
    os_file.stored ta' = file_bytes (ta_file ta) @ concat acked"
proof -
  define step where "step = (\<lambda>bs (ta, acked). (case ta_append file_ops bs ta of
      (Inl _, ta) \<Rightarrow> (ta, acked) | (Inr _, ta) \<Rightarrow> (ta, acked @ [bs])))"
  define rel where "rel = (\<lambda>(t, acked). os_file.valid t \<and> os_file.tail_of (set batches) t \<and>
     complete_lines (os_file.stored t) = os_file.stored t \<and>
     os_file.stored t = file_bytes (ta_file ta) @ concat acked)"
  have keep: "complete_lines (xs @ ys) = xs @ ys" if "complete_lines xs = xs" "complete_lines ys = ys" for xs ys
  proof (cases "newline \<in> set ys")
    case True
    with that show ?thesis by (simp add: complete_lines_append_some)
  next
    case False
    with that(2) have "ys = []" using complete_lines_append_none [of ys "[]"] by simp
    with that show ?thesis by simp
  qed
  have one: "rel (step bs (t, acks))" if "rel (t, acks)" "bs \<in> set batches" for bs t acks
  proof -
    obtain q t' where a: "ta_append file_ops bs t = (q, t')" by (cases "ta_append file_ops bs t")
    show ?thesis
      using that lines os_file.append_spec [OF _ a] os_file.append_tail [OF _ _ a, of "set batches"]
        keep [of "file_bytes (ta_file ta) @ concat acks" bs]
      by (cases q) (auto simp: rel_def step_def a one_line_def insert_absorb)
  qed
  have "rel (fold step xs (t, acks))" if "rel (t, acks)" "set xs \<subseteq> set batches" for xs t acks
    using that
  proof (induction xs arbitrary: t acks)
    case (Cons x xs)
    then have "rel (step x (t, acks))" using one by simp
    with Cons show ?case by (cases "step x (t, acks)") simp
  qed simp
  moreover have "rel (ta, [])"
    using start by (simp add: rel_def os_file.valid_def os_file.tail_of_def os_file.stored_def)
  ultimately have "rel (fold step batches (ta, []))" by blast
  moreover have "fold step batches (ta, []) = (ta', acked)" using run by (simp add: ta_append_run_def step_def)
  ultimately show ?thesis unfolding rel_def by auto
qed

lemma ta_run_recovered:
  assumes "ta_append_run batches ta = (ta', acked)"
    and "ta_rollback ta = None" "complete_lines (file_bytes (ta_file ta)) = file_bytes (ta_file ta)"
    and "\<forall>bs \<in> set batches. one_line bs"
    and "recover_tail (ta_file ta') = (Inr (), f)"
  shows "\<exists>extra. (extra = [] \<or> extra \<in> set batches \<and> ta_rollback ta' \<noteq> None) \<and>
    file_bytes f = file_bytes (ta_file ta) @ concat acked @ extra"
proof -
  note S = ta_append_run_spec [OF assms(1-4)]
  have "file_bytes f = complete_lines (file_bytes (ta_file ta'))"
    using recover_tail_spec [OF assms(5)] by simp
  moreover have "\<exists>extra. (extra = [] \<or> extra \<in> set batches \<and> ta_rollback ta' \<noteq> None) \<and>
    complete_lines (file_bytes (ta_file ta')) = os_file.stored ta' @ extra"
    by (rule os_file.after_crash [OF _ _ _ assms(4)]) (use S in blast)+
  ultimately show ?thesis using S by auto
qed

lemma daily_at_date_wf:
  assumes "daily_at_date show_date dir stem ext date d = (Inr w, d')"
  shows "dw_wf show_date w \<and> dw_dir w = dir \<and> dw_prefix w = stem \<and> dw_suffix w = ext \<and> dw_date w = date \<and>
    (\<forall>p. dw_stored w p = complete_lines (disk_bytes d p))"
proof -
  define path where "path = daily_path show_date dir stem ext date"
  obtain r d1 where op: "append_file_open path d = (r, d1)" by (cases "append_file_open path d")
  note O = open_lines [OF op]
  obtain ta where ta: "r = Inr ta"
    using assms op by (cases r) (simp_all add: daily_at_date_def path_def)
  have w: "w = \<lparr>dw_dir = dir, dw_prefix = stem, dw_suffix = ext, dw_date = date, dw_file = ta, dw_sync_on_rotate = False\<rparr>"
    using assms op by (simp add: daily_at_date_def ta flip: path_def)
  have t: "fh_path (ta_file ta) = path" "fh_disk (ta_file ta) = d1" "ta_rollback ta = None"
    "file_bytes (ta_file ta) = complete_lines (disk_bytes d path)" using O ta by auto
  have "dw_stored w p = complete_lines (disk_bytes d p)" for p
    using t O by (cases "p = path") (auto simp: dw_stored_def w os_file.stored_def disk_bytes_def)
  with t show ?thesis by (simp add: dw_wf_def w os_file.valid_def os_file.stored_def path_def)
qed

section \<open>Without faults everything succeeds\<close>

lemma no_fault_ops:
  assumes "disk_faults (fh_disk f) = []"
  shows "\<exists>f'. file_write_all bs f = (Inr (), f') \<and> disk_faults (fh_disk f') = []"
    and "\<exists>f'. file_flush f = (Inr (), f') \<and> disk_faults (fh_disk f') = []"
    and "\<exists>f'. file_sync_all f = (Inr (), f') \<and> disk_faults (fh_disk f') = []"
    and "\<exists>n f'. file_len f = (Inr n, f') \<and> disk_faults (fh_disk f') = []"
    and "\<exists>f'. file_truncate n f = (Inr (), f') \<and> disk_faults (fh_disk f') = []"
  using assms
  by (simp_all add: file_write_all_def file_flush_def file_sync_all_def file_len_def file_truncate_def
      syscall_def disk_syscall_def set_bytes_def)

lemma no_fault_find:
  "disk_faults (fh_disk f) = [] \<Longrightarrow> \<exists>n f'. find_valid_len until f = (Inr n, f') \<and> disk_faults (fh_disk f') = []"
proof (induction until arbitrary: f rule: less_induct)
  case (less until)
  have s: "syscall f = (NoFault, f)" using less.prems by (simp add: syscall_def disk_syscall_def)
  show ?case
    using less.IH [of "until - 8192" f] less.prems
    by (cases "until = 0"; cases "rposition (\<lambda>b. b = newline) (take (until - (until - 8192)) (drop (until - 8192) (file_bytes f)))")
      (simp_all add: find_valid_len.simps [of until f] find_valid_len.simps [of 0 f] Let_def s)
qed

lemma no_fault_open:
  assumes "disk_faults d = []"
  shows "\<exists>ta d'. append_file_open path d = (Inr ta, d') \<and> disk_faults (fh_disk (ta_file ta)) = []"
proof -
  define f where "f = \<lparr>fh_path = path, fh_disk = d\<lparr>disk_files := (disk_files d)(path \<mapsto> disk_bytes d path)\<rparr>\<rparr>"
  have f: "disk_faults (fh_disk f) = []" using assms by (simp add: f_def)
  obtain n f1 where len: "file_len f = (Inr n, f1)" "disk_faults (fh_disk f1) = []" using no_fault_ops(4) [OF f] by blast
  obtain m f2 where find: "find_valid_len n f1 = (Inr m, f2)" "disk_faults (fh_disk f2) = []"
    using no_fault_find [OF len(2)] by blast
  obtain f3 where trunc: "file_truncate m f2 = (Inr (), f3)" "disk_faults (fh_disk f3) = []"
    using no_fault_ops(5) [OF find(2)] by blast
  have "\<exists>f'. recover_tail f = (Inr (), f') \<and> disk_faults (fh_disk f') = []"
    using len find trunc by (cases "m = n") (simp_all add: recover_tail_def)
  then obtain f4 where r: "recover_tail f = (Inr (), f4)" "disk_faults (fh_disk f4) = []" by blast
  have o: "open_file path d = (Inr f, fh_disk f)"
    using assms by (simp add: open_file_def disk_syscall_def Let_def f_def)
  show ?thesis by (simp add: append_file_open_def o r)
qed

lemma no_fault_repair:
  assumes "disk_faults (fh_disk (ta_file ta)) = []"
  shows "\<exists>ta'. ta_repair file_ops ta = (Inr (), ta') \<and> disk_faults (fh_disk (ta_file ta')) = []"
proof (cases "ta_rollback ta")
  case (Some n)
  obtain f where "file_truncate n (ta_file ta) = (Inr (), f)" "disk_faults (fh_disk f) = []"
    using no_fault_ops(5) [OF assms] by blast
  with Some show ?thesis by (simp add: ta_repair_def file_ops_def)
qed (simp add: ta_repair_def assms)

lemma no_fault_append:
  assumes "disk_faults (fh_disk (ta_file ta)) = []"
  shows "\<exists>ta'. ta_append file_ops bs ta = (Inr (), ta')"
proof -
  obtain ta1 where rep: "ta_repair file_ops ta = (Inr (), ta1)" "disk_faults (fh_disk (ta_file ta1)) = []"
    using no_fault_repair [OF assms] by blast
  obtain n f1 where len: "file_len (ta_file ta1) = (Inr n, f1)" "disk_faults (fh_disk f1) = []"
    using no_fault_ops(4) [OF rep(2)] by blast
  obtain f2 where wr: "file_write_all bs f1 = (Inr (), f2)" "disk_faults (fh_disk f2) = []"
    using no_fault_ops(1) [OF len(2)] by blast
  obtain f3 where fl: "file_flush f2 = (Inr (), f3)" using no_fault_ops(2) [OF wr(2)] by blast
  show ?thesis using rep len wr fl by (simp add: ta_append_def write_and_flush_def file_ops_def)
qed

lemma no_fault_append_at:
  assumes "disk_faults (dw_disk w) = []"
  shows "\<exists>w'. append_at show_date bs date w = (Inr (), w')"
proof -
  obtain ta1 where rep: "ta_repair file_ops (dw_file w) = (Inr (), ta1)" "disk_faults (fh_disk (ta_file ta1)) = []"
    using no_fault_repair [OF assms] by blast
  define w1 where "w1 = w\<lparr>dw_file := ta1\<rparr>"
  have same: "dw_sync_on_rotate w1 = dw_sync_on_rotate w" "dw_dir w1 = dw_dir w" "dw_prefix w1 = dw_prefix w"
    "dw_suffix w1 = dw_suffix w" "dw_file w1 = ta1" by (simp_all add: w1_def)
  obtain f where sy: "file_sync_all (ta_file ta1) = (Inr (), f)" "disk_faults (fh_disk f) = []"
    using no_fault_ops(3) [OF rep(2)] by blast
  obtain w2 where w2: "(if dw_sync_on_rotate w1 then daily_sync_all w1 else (Inr (), w1)) = (Inr (), w2)"
    "disk_faults (dw_disk w2) = []"
    using sy rep(2) by (cases "dw_sync_on_rotate w") (simp_all add: w1_def daily_sync_all_def)
  obtain ta d where op: "append_file_open (daily_path show_date (dw_dir w2) (dw_prefix w2) (dw_suffix w2) date) (dw_disk w2) = (Inr ta, d)"
    "disk_faults (fh_disk (ta_file ta)) = []"
    using no_fault_open [OF w2(2)] by blast
  have "\<exists>w'. daily_rotate show_date date w = (Inr (), w') \<and> disk_faults (dw_disk w') = []"
    using rep w2 op same by (cases "dw_sync_on_rotate w") (auto simp: daily_rotate_def simp flip: w1_def)
  then obtain w3 where "(if dw_date w \<noteq> date then daily_rotate show_date date w else (Inr (), w)) = (Inr (), w3)"
    "disk_faults (dw_disk w3) = []"
    using assms by (cases "dw_date w = date") auto
  with no_fault_append [OF this(2), of bs] show ?thesis by (auto simp: append_at_def)
qed

end
