(* ===== verification/Sample_Disk.thy ===== *)
theory Sample_Disk
  imports Storage
begin

text \<open>
  A concrete run of the daily file. The file of the first day ends in a torn line. The disk is
  full during the first append, after two bytes, and taking those back fails as well; the second
  and the third append, on two days, succeed.
\<close>

definition full_disk :: disk where
  "full_disk = \<lparr>disk_files = [''logs/a.2026-01-01.jsonl'' \<mapsto> [65, 10, 66]],
     disk_faults = [NoFault, NoFault, NoFault, NoFault, NoFault, NoFault, NoFault,
       Fault (IoError 28) 2, Fault (IoError 5) 0]\<rparr>"

definition sample_items :: "(u8 list \<times> str) list" where
  "sample_items = [([67, 68, 69, 10], ''2026-01-01''), ([70, 10], ''2026-01-01''), ([71, 10], ''2026-01-02'')]"

definition sample_writer :: "str daily_writer" where
  "sample_writer = \<lparr>dw_dir = ''logs'', dw_prefix = ''a'', dw_suffix = Some ''jsonl'', dw_date = ''2026-01-01'',
     dw_file = \<lparr>ta_file = \<lparr>fh_path = ''logs/a.2026-01-01.jsonl'', fh_disk = \<lparr>disk_files = [''logs/a.2026-01-01.jsonl'' \<mapsto> [65, 10]], disk_faults = [NoFault, Fault (IoError 28) 2, Fault (IoError 5) 0]\<rparr>\<rparr>,
     ta_rollback = None\<rparr>, dw_sync_on_rotate = False\<rparr>"

definition sample_writer_failed :: "str daily_writer" where
  "sample_writer_failed = \<lparr>dw_dir = ''logs'', dw_prefix = ''a'', dw_suffix = Some ''jsonl'', dw_date = ''2026-01-01'',
     dw_file = \<lparr>ta_file = \<lparr>fh_path = ''logs/a.2026-01-01.jsonl'', fh_disk = \<lparr>disk_files = [''logs/a.2026-01-01.jsonl'' \<mapsto> [65, 10, 67, 68]], disk_faults = []\<rparr>\<rparr>,
     ta_rollback = Some 2\<rparr>, dw_sync_on_rotate = False\<rparr>"

definition sample_writer_end :: "str daily_writer" where
  "sample_writer_end = \<lparr>dw_dir = ''logs'', dw_prefix = ''a'', dw_suffix = Some ''jsonl'', dw_date = ''2026-01-02'',
     dw_file = \<lparr>ta_file = \<lparr>fh_path = ''logs/a.2026-01-02.jsonl'', fh_disk = \<lparr>disk_files = [''logs/a.2026-01-01.jsonl'' \<mapsto> [65, 10, 70, 10], ''logs/a.2026-01-02.jsonl'' \<mapsto> [71, 10]], disk_faults = []\<rparr>\<rparr>,
     ta_rollback = None\<rparr>, dw_sync_on_rotate = False\<rparr>"

lemmas storage_eval = daily_at_date_def append_file_open_def open_file_def disk_syscall_def disk_bytes_def
  daily_path_def path_join_def recover_tail_def file_len_def syscall_def find_valid_len.simps file_bytes_def
  newline_def file_truncate_def set_bytes_def Let_def rposition_def append_at_def ta_append_def ta_repair_def
  file_ops_def write_and_flush_def file_write_all_def file_flush_def daily_rotate_def sample_writer_def
  sample_writer_failed_def sample_writer_end_def

lemma sample_open:
  "daily_at_date id ''logs'' ''a'' (Some ''jsonl'') ''2026-01-01'' full_disk = (Inr sample_writer, dw_disk sample_writer)"
  by (simp add: storage_eval full_disk_def)

lemma sample_append_1: "append_at id [67, 68, 69, 10] ''2026-01-01'' sample_writer = (Inl (IoError 28), sample_writer_failed)"
  by (simp add: storage_eval)

lemma sample_append_2_3:
  "\<exists>w. append_at id [70, 10] ''2026-01-01'' sample_writer_failed = (Inr (), w) \<and>
     append_at id [71, 10] ''2026-01-02'' w = (Inr (), sample_writer_end)"
  by (simp add: storage_eval fun_upd_twist)

lemma sample_run:
  "append_run id sample_items sample_writer = (sample_writer_end, [([70, 10], ''2026-01-01''), ([71, 10], ''2026-01-02'')])"
  using sample_append_1 sample_append_2_3 by (auto simp: append_run_def sample_items_def)

lemma sample_items_lines: "\<forall>x \<in> set sample_items. complete_lines (fst x) = fst x"
  by (simp add: sample_items_def complete_lines_def newline_def)

text \<open>A crash after the failed append: the file is opened again with the two bytes in it.\<close>

definition sample_reopened :: file_handle where
  "sample_reopened = \<lparr>fh_path = ''logs/a.2026-01-01.jsonl'',
     fh_disk = \<lparr>disk_files = [''logs/a.2026-01-01.jsonl'' \<mapsto> [65, 10]], disk_faults = []\<rparr>\<rparr>"

lemma sample_crash: "ta_append_run [[67, 68, 69, 10]] (dw_file sample_writer) = (dw_file sample_writer_failed, [])"
  using sample_append_1
  by (auto simp: append_at_def ta_append_run_def sample_writer_def sample_writer_failed_def split: prod.splits sum.splits)

lemma sample_crash_start:
  "ta_rollback (dw_file sample_writer) = None"
  "complete_lines (file_bytes (ta_file (dw_file sample_writer))) = file_bytes (ta_file (dw_file sample_writer))"
  "file_bytes (ta_file (dw_file sample_writer)) = [65, 10]"
  by (simp_all add: storage_eval complete_lines_def)

lemma sample_crash_line: "\<forall>bs \<in> set [[67, 68, 69, 10]]. one_line bs"
  by (simp add: one_line_def complete_lines_def newline_def)

lemma sample_reopen: "recover_tail (ta_file (dw_file sample_writer_failed)) = (Inr (), sample_reopened)"
  by (simp add: storage_eval sample_reopened_def)

lemma sample_recover:
  "recover_tail (ta_file (dw_file sample_writer_failed)) =
     (Inr (), snd (recover_tail (ta_file (dw_file sample_writer_failed))))"
  by (simp add: sample_reopen)

lemma sample_tail: "complete_lines (file_bytes (ta_file (dw_file sample_writer_failed))) = [65, 10]"
  by (simp add: storage_eval complete_lines_def)

end
