(* ===== verification/Results.thy ===== *)
theory Results
  imports Prelude
begin

text \<open>
  Sequencing of operations that return a value or an error, as the operator \<^verbatim>\<open>?\<close> and
  early returns in loops do it, and the invariants of such loops.
\<close>

section \<open>Sequencing\<close>

definition and_then :: "'e + 'a \<Rightarrow> ('a \<Rightarrow> 'e + 'b) \<Rightarrow> 'e + 'b" where
  "and_then r f = (case r of Inl e \<Rightarrow> Inl e | Inr a \<Rightarrow> f a)"

definition ensure :: "bool \<Rightarrow> 'e \<Rightarrow> 'e + unit" where
  "ensure b e = (if b then Inr () else Inl e)"

definition ok_or :: "'e \<Rightarrow> 'a option \<Rightarrow> 'e + 'a" where
  "ok_or e x = (case x of None \<Rightarrow> Inl e | Some a \<Rightarrow> Inr a)"

lemma and_then_simps [simp]: "and_then (Inl e) f = Inl e" "and_then (Inr a) f = f a"
  by (simp_all add: and_then_def)

lemma and_then_Inr: "and_then r f = Inr b \<longleftrightarrow> (\<exists>a. r = Inr a \<and> f a = Inr b)"
  by (cases r) simp_all

lemma and_then_Inl: "and_then r f = Inl e \<longleftrightarrow> r = Inl e \<or> (\<exists>a. r = Inr a \<and> f a = Inl e)"
  by (cases r) simp_all

lemma ensure_iff [simp]: "ensure b e = Inr u \<longleftrightarrow> b" "ensure b e = Inl e' \<longleftrightarrow> \<not> b \<and> e' = e"
  by (auto simp: ensure_def)

lemma ok_or_iff [simp]: "ok_or e x = Inr a \<longleftrightarrow> x = Some a" "ok_or e x = Inl e' \<longleftrightarrow> x = None \<and> e' = e"
  by (auto simp: ok_or_def split: option.splits)

section \<open>Loops with early return\<close>

primrec try_fold :: "('x \<Rightarrow> 's \<Rightarrow> 'e + 's) \<Rightarrow> 'x list \<Rightarrow> 's \<Rightarrow> 'e + 's" where
  "try_fold step [] s = Inr s"
| "try_fold step (x # xs) s = and_then (step x s) (try_fold step xs)"

lemma try_fold_append: "try_fold step (xs @ ys) s = and_then (try_fold step xs s) (try_fold step ys)"
  by (induction xs arbitrary: s) (auto simp: and_then_def split: sum.splits)

lemma try_fold_cong [fundef_cong]:
  "xs = ys \<Longrightarrow> s = s' \<Longrightarrow> (\<And>x s. x \<in> set ys \<Longrightarrow> f x s = g x s) \<Longrightarrow> try_fold f xs s = try_fold g ys s'"
  by (induction xs arbitrary: ys s s') (auto simp: and_then_def split: sum.splits)

text \<open>A loop whose step either fails or keeps a relation between the inputs consumed and the state.\<close>

locale fallible_step =
  fixes step :: "'x \<Rightarrow> 's \<Rightarrow> 'e + 's" and inv :: "'x list \<Rightarrow> 's \<Rightarrow> bool"
  assumes step_inv: "inv done s \<Longrightarrow> step x s = Inr s' \<Longrightarrow> inv (done @ [x]) s'"
begin

lemma try_fold_inv: "inv done s \<Longrightarrow> try_fold step xs s = Inr s' \<Longrightarrow> inv (done @ xs) s'"
proof (induction xs arbitrary: "done" s)
  case (Cons x xs)
  then obtain s1 where "step x s = Inr s1" "try_fold step xs s1 = Inr s'" by (auto simp: and_then_Inr)
  with Cons.IH [of "done @ [x]" s1] step_inv [OF Cons.prems(1)] show ?case by simp
qed simp

lemma run_inv: "inv [] s \<Longrightarrow> try_fold step xs s = Inr s' \<Longrightarrow> inv xs s'"
  using try_fold_inv [of "[]"] by simp

end

text \<open>\<^verbatim>\<open>collect::<Result<Vec<_>, _>>\<close> and loops that push one value per input.\<close>

primrec try_map :: "('x \<Rightarrow> 'e + 'y) \<Rightarrow> 'x list \<Rightarrow> 'e + 'y list" where
  "try_map f [] = Inr []"
| "try_map f (x # xs) = and_then (f x) (\<lambda>y. and_then (try_map f xs) (\<lambda>ys. Inr (y # ys)))"

lemma try_map_Inr: "try_map f xs = Inr ys \<longleftrightarrow> list_all2 (\<lambda>x y. f x = Inr y) xs ys"
  by (induction xs arbitrary: ys) (auto simp: and_then_Inr list_all2_Cons1)

end
