(* ===== verification/Paths.thy ===== *)
theory Paths
  imports Storage Rust_Str
begin

text \<open>
  \<^verbatim>\<open>src/src/path.rs\<close> and the operations of \<^verbatim>\<open>std::path\<close> that the settings
  use, on Unix paths as byte strings. \<^const>\<open>path_join\<close> is in Storage.
\<close>

section \<open>Components of a path\<close>

text \<open>
  The components iterator skips empty components and \<^verbatim>\<open>.\<close>, except a leading \<^verbatim>\<open>.\<close> of
  a relative path. The root or that dot stands before the body of the path.
\<close>

definition body_start :: "str \<Rightarrow> nat" where
  "body_start p = (if starts_with p ''/'' then 1 else if p = ''.'' \<or> starts_with p ''./'' then 1 else 0)"

text \<open>The last component of a non-empty body and what is before its separator.\<close>

definition pop_back :: "str \<Rightarrow> str \<times> str" where
  "pop_back b = (rev (drop 1 (dropWhile (\<lambda>c. c \<noteq> CHR ''/'') (rev b))), rev (takeWhile (\<lambda>c. c \<noteq> CHR ''/'') (rev b)))"

definition pop_front :: "str \<Rightarrow> str \<times> str" where
  "pop_front b = (takeWhile (\<lambda>c. c \<noteq> CHR ''/'') b, drop 1 (dropWhile (\<lambda>c. c \<noteq> CHR ''/'') b))"

definition skipped :: "str \<Rightarrow> bool" where
  "skipped c \<longleftrightarrow> c = '''' \<or> c = ''.''"

lemma drop_sep_shorter: "b \<noteq> [] \<Longrightarrow> length (drop 1 (dropWhile P b)) < length b"
  using length_dropWhile_le [of P b] by (cases b) auto

lemma pop_back_shorter: "b \<noteq> [] \<Longrightarrow> length (fst (pop_back b)) < length b"
  using drop_sep_shorter [of "rev b"] by (simp add: pop_back_def)

lemma pop_front_shorter: "b \<noteq> [] \<Longrightarrow> length (snd (pop_front b)) < length b"
  using drop_sep_shorter [of b] by (simp add: pop_front_def)

function trim_right :: "str \<Rightarrow> str" where
  "trim_right b = (if b = [] then [] else if skipped (snd (pop_back b)) then trim_right (fst (pop_back b)) else b)"
  by pat_completeness auto
termination by (relation "measure length") (auto simp: pop_back_shorter)

function trim_left :: "str \<Rightarrow> str" where
  "trim_left b = (if b = [] then [] else if skipped (fst (pop_front b)) then trim_left (snd (pop_front b)) else b)"
  by pat_completeness auto
termination by (relation "measure length") (auto simp: pop_front_shorter)

declare trim_right.simps [simp del] trim_left.simps [simp del]

definition path_parent :: "str \<Rightarrow> str option" where
  "path_parent p = (let start = take (body_start p) p; body = trim_right (drop (body_start p) p) in
     if body \<noteq> [] then Some (start @ trim_right (fst (pop_back body)))
     else if start = ''.'' then Some '''' else None)"

section \<open>Expansion of the home directory\<close>

definition expand_user_path :: "str \<Rightarrow> str option \<Rightarrow> str" where
  "expand_user_path path home = (case home of
       None \<Rightarrow> path
     | Some home \<Rightarrow>
         if home = [] then path
         else if path = ''~'' then home
         else (case strip_prefix ''~/'' path of
             Some rest \<Rightarrow> path_join home (trim_left (trim_right rest))
           | None \<Rightarrow> path))"

text \<open>Directories are not modelled: creating one, and its parents, succeeds or fails.\<close>

definition create_private_dir :: "str \<Rightarrow> disk \<Rightarrow> unit io_result \<times> disk" where
  "create_private_dir dir d = (case disk_syscall d of (NoFault, d) \<Rightarrow> (Inr (), d) | (Fault e _, d) \<Rightarrow> (Inl e, d))"

definition create_parent :: "str \<Rightarrow> disk \<Rightarrow> unit io_result \<times> disk" where
  "create_parent path d = (case path_parent path of
       Some parent \<Rightarrow> if parent \<noteq> '''' then create_private_dir parent d else (Inr (), d)
     | None \<Rightarrow> (Inr (), d))"

text \<open>The default configuration path from the environment.\<close>

definition default_config_path :: "str option \<Rightarrow> str option \<Rightarrow> str option" where
  "default_config_path xdg home =
     (if xdg \<noteq> None \<and> xdg \<noteq> Some '''' then Some (path_join (path_join (the xdg) ''otel-logger'') ''config.toml'')
      else if home \<noteq> None \<and> home \<noteq> Some '''' then
        Some (path_join (path_join (path_join (the home) ''.config'') ''otel-logger'') ''config.toml'')
      else None)"

lemma expand_absolute: "starts_with path ''/'' \<Longrightarrow> expand_user_path path home = path"
  by (auto simp: expand_user_path_def strip_prefix_def starts_with_iff split: option.splits)

text \<open>A trimmed relative rest never starts with a slash, so joining it never leaves the home directory's prefix.\<close>

lemma trim_left_relative: "trim_left b = [] \<or> \<not> starts_with (trim_left b) ''/''"
proof (induction b rule: trim_left.induct)
  case (1 b)
  show ?case
  proof (cases "b = [] \<or> skipped (fst (pop_front b))")
    case True
    with 1 show ?thesis by (subst trim_left.simps, subst (2) trim_left.simps) auto
  next
    case False
    then have "fst (pop_front b) \<noteq> ''''" and eq: "trim_left b = b"
      by (simp_all add: skipped_def trim_left.simps [of b])
    then show ?thesis unfolding eq by (cases b) (auto simp: pop_front_def starts_with_def split: if_splits)
  qed
qed

lemma expand_below_home:
  assumes "home \<noteq> []" and "strip_prefix ''~/'' path = Some rest"
  shows "\<exists>r. expand_user_path path (Some home) = home @ r"
proof -
  have "path \<noteq> ''~''" using assms(2) by (auto simp: strip_prefix_Some)
  moreover have "hd (trim_left (trim_right rest)) \<noteq> CHR ''/''" if "trim_left (trim_right rest) \<noteq> []"
    using trim_left_relative [of "trim_right rest"] that
    by (cases "trim_left (trim_right rest)") (auto simp: starts_with_def)
  ultimately show ?thesis
    using assms by (auto simp: expand_user_path_def path_join_def)
qed

end
