(* ===== verification/Proxy_Settings.thy ===== *)
theory Proxy_Settings
  imports Results Paths
begin

text \<open>
  The forwarding part of the settings: the configuration types of \<^verbatim>\<open>src/src/config.rs\<close>
  and the resolution of routes, service names and headers of \<^verbatim>\<open>src/src/cli.rs\<close>. The
  process environment is a parameter. A configuration error is a value that carries what its
  message shows.
\<close>

section \<open>Signals, transports, routes\<close>

datatype proxy_signal = SignalLogs | SignalTraces | SignalMetrics

instantiation proxy_signal :: linorder
begin

fun signal_rank :: "proxy_signal \<Rightarrow> nat" where
  "signal_rank SignalLogs = 0"
| "signal_rank SignalTraces = 1"
| "signal_rank SignalMetrics = 2"

definition less_eq_proxy_signal :: "proxy_signal \<Rightarrow> proxy_signal \<Rightarrow> bool" where
  "less_eq_proxy_signal a b \<longleftrightarrow> signal_rank a \<le> signal_rank b"

definition less_proxy_signal :: "proxy_signal \<Rightarrow> proxy_signal \<Rightarrow> bool" where
  "less_proxy_signal a b \<longleftrightarrow> signal_rank a < signal_rank b"

lemma signal_rank_inj: "signal_rank a = signal_rank b \<longleftrightarrow> a = b"
  by (cases a; cases b) simp_all

instance
  by intro_classes (auto simp: less_eq_proxy_signal_def less_proxy_signal_def signal_rank_inj [symmetric])

end

definition ALL_SIGNALS :: "proxy_signal list" where
  "ALL_SIGNALS = [SignalLogs, SignalTraces, SignalMetrics]"

datatype proxy_transport = Grpc | HttpProtobuf

datatype proxy_transport_arg = ArgGrpc | ArgHttpProtobuf

fun transport_of_arg :: "proxy_transport_arg \<Rightarrow> proxy_transport" where
  "transport_of_arg ArgGrpc = Grpc"
| "transport_of_arg ArgHttpProtobuf = HttpProtobuf"

record proxy_route =
  pr_name :: str
  pr_service_names :: "str list"
  pr_signals :: "proxy_signal list"
  pr_transport :: proxy_transport
  pr_endpoint :: str
  pr_headers :: "(str \<times> str) list"

definition accepts_signal :: "proxy_route \<Rightarrow> proxy_signal \<Rightarrow> bool" where
  "accepts_signal r s = List.member (pr_signals r) s"

record proxy_route_config =
  rc_name :: str
  rc_service_names :: "str list"
  rc_signal_types :: "proxy_signal list"
  rc_transport :: "proxy_transport option"
  rc_endpoint :: str
  rc_headers :: "(str, str) omap"

record proxy_config =
  pc_queue_capacity :: "u64 option"
  pc_timeout_ms :: "u64 option"
  pc_retry_max :: "u32 option"
  pc_checkpoint_dir :: "str option"
  pc_routes :: "proxy_route_config list"

definition default_proxy_config :: proxy_config where
  "default_proxy_config = \<lparr>pc_queue_capacity = None, pc_timeout_ms = None, pc_retry_max = None,
     pc_checkpoint_dir = None, pc_routes = []\<rparr>"

record proxy_settings =
  ps_queue_capacity :: u64
  ps_timeout_ms :: u64
  ps_retry_max :: u32
  ps_checkpoint_dir :: str
  ps_routes :: "proxy_route list"

datatype log_sink = LogFile str | LogDirectory (ls_dir: str) (ls_keep_days: u32)

record proxy_cli_inputs =
  anthropic_endpoint :: "str option"
  anthropic_transport :: "proxy_transport_arg option"
  anthropic_headers :: "str list"
  openai_endpoint :: "str option"
  openai_transport :: "proxy_transport_arg option"
  openai_headers :: "str list"
  cli_checkpoint_dir :: "str option"

definition DEFAULT_PROXY_QUEUE_CAPACITY :: u64 where
  "DEFAULT_PROXY_QUEUE_CAPACITY = 1024"

definition DEFAULT_PROXY_TIMEOUT_MS :: u64 where
  "DEFAULT_PROXY_TIMEOUT_MS = 5000"

definition DEFAULT_PROXY_RETRY_MAX :: u32 where
  "DEFAULT_PROXY_RETRY_MAX = 8"

definition DEFAULT_ANTHROPIC_SERVICES :: "str list" where
  "DEFAULT_ANTHROPIC_SERVICES = [''claude-code'']"

definition DEFAULT_OPENAI_SERVICES :: "str list" where
  "DEFAULT_OPENAI_SERVICES = [''codex_cli_rs'', ''codex_exec'', ''codex-app-server'',
     ''codex_mcp_server'', ''Codex Desktop'', ''codex-exec-server'']"

definition ROUTE_ANTHROPIC :: str where
  "ROUTE_ANTHROPIC = ''anthropic''"

definition ROUTE_OPENAI :: str where
  "ROUTE_OPENAI = ''openai''"

section \<open>Errors\<close>

datatype settings_error =
    CliSinksExclusive
  | ConfigSinksExclusive
  | EmptyConfigPath str
  | PrettyLogWithFile
  | PrettyLogWithoutDir
  | InflightOutOfRange
  | ZeroReceiveTimeout
  | DuplicateRouteName str
  | EmptyServiceName str
  | ServiceNameClaimedTwice str str str
  | ProxyNeedsOutbox
  | FlagsRequireEndpoint str
  | EmptyEndpoint str
  | NoServiceNames str
  | HeaderFormat nat
  | HeaderEmptyKey nat
  | HeaderKeyEmpty str
  | HeaderKeyCharacter str nat
  | HeaderReserved str str
  | DuplicateHeader str str
  | EnvVarNotSet str str str
  | EnvVarNotUnicode str str str
  | HeaderValueCrLf str str nat
  | HeaderValueControl str str nat

type_synonym 'a setting = "settings_error + 'a"

section \<open>Characters\<close>

text \<open>The characters of a string: a lead byte with its continuation bytes.\<close>

definition continuation :: "char \<Rightarrow> bool" where
  "continuation c \<longleftrightarrow> 128 \<le> byte c \<and> byte c < 192"

function utf8_chars :: "str \<Rightarrow> str list" where
  "utf8_chars [] = []"
| "utf8_chars (c # cs) = (c # takeWhile continuation cs) # utf8_chars (dropWhile continuation cs)"
  by pat_completeness auto
termination
  by (relation "measure length") (auto simp: length_dropWhile_le less_Suc_eq_le)

text \<open>\<^verbatim>\<open>char::is_control\<close>: the category Cc, that is U+0000 to U+001F and U+007F to U+009F.\<close>

fun is_control :: "str \<Rightarrow> bool" where
  "is_control [c] = (byte c < 32 \<or> byte c = 127)"
| "is_control [c, d] = (byte c = 194 \<and> 128 \<le> byte d \<and> byte d < 160)"
| "is_control _ = False"

definition is_ascii_graphic :: "char \<Rightarrow> bool" where
  "is_ascii_graphic c \<longleftrightarrow> 33 \<le> byte c \<and> byte c \<le> 126"

text \<open>\<^verbatim>\<open>str::trim\<close>: the encodings of the characters with the property White_Space.\<close>

definition whitespace :: "str list" where
  "whitespace = [
    [CHR 0x09], [CHR 0x0A], [CHR 0x0B], [CHR 0x0C], [CHR 0x0D], [CHR 0x20], [CHR 0xC2, CHR 0x85],
    [CHR 0xC2, CHR 0xA0], [CHR 0xE1, CHR 0x9A, CHR 0x80], [CHR 0xE2, CHR 0x80, CHR 0x80],
    [CHR 0xE2, CHR 0x80, CHR 0x81], [CHR 0xE2, CHR 0x80, CHR 0x82], [CHR 0xE2, CHR 0x80, CHR 0x83],
    [CHR 0xE2, CHR 0x80, CHR 0x84], [CHR 0xE2, CHR 0x80, CHR 0x85], [CHR 0xE2, CHR 0x80, CHR 0x86],
    [CHR 0xE2, CHR 0x80, CHR 0x87], [CHR 0xE2, CHR 0x80, CHR 0x88], [CHR 0xE2, CHR 0x80, CHR 0x89],
    [CHR 0xE2, CHR 0x80, CHR 0x8A], [CHR 0xE2, CHR 0x80, CHR 0xA8], [CHR 0xE2, CHR 0x80, CHR 0xA9],
    [CHR 0xE2, CHR 0x80, CHR 0xAF], [CHR 0xE2, CHR 0x81, CHR 0x9F], [CHR 0xE3, CHR 0x80, CHR 0x80]]"

function trim_front :: "str list \<Rightarrow> str \<Rightarrow> str" where
  "trim_front ws s = (case find (\<lambda>w. w \<noteq> [] \<and> starts_with s w) ws of
       None \<Rightarrow> s | Some w \<Rightarrow> trim_front ws (drop (length w) s))"
  by pat_completeness auto
termination
  by (relation "measure (length \<circ> snd)") (auto simp: find_Some_iff starts_with_iff)

declare trim_front.simps [simp del]

definition trim :: "str \<Rightarrow> str" where
  "trim s = rev (trim_front (map rev whitespace) (rev (trim_front whitespace s)))"

section \<open>Headers\<close>

definition header_separators :: str where
  "header_separators = ''(),/:;<=>?@[]{}'' @ [CHR 92, CHR 34]"

definition token_char :: "char \<Rightarrow> bool" where
  "token_char c \<longleftrightarrow> is_ascii_graphic c \<and> c \<notin> set header_separators"

definition DISALLOWED_KEYS :: "str list" where
  "DISALLOWED_KEYS = [''host'', ''content-length'', ''transfer-encoding'']"

text \<open>Every byte before the first invalid character is one character, so the position is a byte index.\<close>

definition validate_header_key :: "str \<Rightarrow> str \<Rightarrow> unit setting" where
  "validate_header_key key route =
     (if key = '''' then Inl (HeaderKeyEmpty route)
      else if \<not> list_all token_char key
        then Inl (HeaderKeyCharacter route (length (takeWhile token_char key)))
      else if List.member DISALLOWED_KEYS (to_ascii_lowercase key) then Inl (HeaderReserved route key)
      else Inr ())"

fun validate_value_chars :: "str \<Rightarrow> str \<Rightarrow> nat \<Rightarrow> str list \<Rightarrow> unit setting" where
  "validate_value_chars key route idx [] = Inr ()"
| "validate_value_chars key route idx (ch # chs) =
     (if ch = [CHR 0x0A] \<or> ch = [CHR 0x0D] then Inl (HeaderValueCrLf route key idx)
      else if (is_control ch \<and> ch \<noteq> [CHR 0x09]) \<or> ch = [CHR 0x00]
        then Inl (HeaderValueControl route key idx)
      else validate_value_chars key route (Suc idx) chs)"

definition validate_header_value :: "str \<Rightarrow> str \<Rightarrow> str \<Rightarrow> unit setting" where
  "validate_header_value key value route = validate_value_chars key route 0 (utf8_chars value)"

definition merge_cli_header :: "nat \<times> str \<Rightarrow> (str, str) omap \<Rightarrow> (str, str) omap setting" where
  "merge_cli_header entry dest =
     (case split_once (CHR ''='') (snd entry) of
        None \<Rightarrow> Inl (HeaderFormat (fst entry + 1))
      | Some (key, value) \<Rightarrow> let key = trim key in
          if key = '''' then Inl (HeaderEmptyKey (fst entry + 1))
          else Inr (om_put (to_ascii_lowercase key) value
                 (filter (\<lambda>e. \<not> eq_ignore_ascii_case (fst e) key) dest)))"

definition merge_cli_headers :: "(str, str) omap \<Rightarrow> str list \<Rightarrow> (str, str) omap setting" where
  "merge_cli_headers dest entries = try_fold merge_cli_header (enumerate 0 entries) dest"

datatype env_lookup = EnvNotPresent | EnvNotUnicode | EnvValue str

definition header_value :: "(str \<Rightarrow> env_lookup) \<Rightarrow> str \<Rightarrow> str \<Rightarrow> str \<Rightarrow> str setting" where
  "header_value env route key value = (case strip_prefix ''env:'' value of
       None \<Rightarrow> Inr value
     | Some var \<Rightarrow> (case env var of
           EnvNotPresent \<Rightarrow> Inl (EnvVarNotSet route var key)
         | EnvNotUnicode \<Rightarrow> Inl (EnvVarNotUnicode route var key)
         | EnvValue v \<Rightarrow> Inr v))"

definition resolve_header ::
    "(str \<Rightarrow> env_lookup) \<Rightarrow> str \<Rightarrow> str \<times> str \<Rightarrow> (str \<times> str) list \<Rightarrow> (str \<times> str) list setting" where
  "resolve_header env route entry resolved =
     and_then (validate_header_key (fst entry) route) (\<lambda>_.
     let key = to_ascii_lowercase (fst entry) in
     and_then (ensure (\<not> list_ex (\<lambda>e. fst e = key) resolved) (DuplicateHeader route key)) (\<lambda>_.
     and_then (header_value env route key (snd entry)) (\<lambda>v.
     and_then (validate_header_value key v route) (\<lambda>_. Inr (resolved @ [(key, v)])))))"

definition resolve_headers ::
    "(str \<Rightarrow> env_lookup) \<Rightarrow> (str, str) omap \<Rightarrow> str \<Rightarrow> (str \<times> str) list setting" where
  "resolve_headers env raw route = try_fold (resolve_header env route) raw []"

section \<open>Routes\<close>

definition normalize_signals :: "proxy_signal list \<Rightarrow> proxy_signal list" where
  "normalize_signals signals = (if signals = [] then ALL_SIGNALS else remdups_adj (sort signals))"

definition normalize_service_names :: "str list \<Rightarrow> str list \<Rightarrow> str list" where
  "normalize_service_names explicit defaults = (if explicit = [] then defaults else explicit)"

definition or_else :: "'a option \<Rightarrow> 'a option \<Rightarrow> 'a option" where
  "or_else a b = (case a of None \<Rightarrow> b | Some _ \<Rightarrow> a)"

definition unwrap_or :: "'a \<Rightarrow> 'a option \<Rightarrow> 'a" where
  "unwrap_or d x = (case x of None \<Rightarrow> d | Some a \<Rightarrow> a)"

definition build_vendor_route ::
    "(str \<Rightarrow> env_lookup) \<Rightarrow> str \<Rightarrow> str list \<Rightarrow> str option \<Rightarrow> proxy_transport_arg option \<Rightarrow> str list \<Rightarrow>
     proxy_route_config option \<Rightarrow> proxy_route option setting" where
  "build_vendor_route env name default_services cli_endpoint cli_transport cli_headers config =
     (let transport = (\<lambda>cfg. unwrap_or Grpc (or_else (map_option transport_of_arg cli_transport) cfg));
          finish = (\<lambda>endpoint transport headers signals service_names.
            and_then (resolve_headers env headers name) (\<lambda>headers.
              Inr (Some \<lparr>pr_name = name, pr_service_names = service_names, pr_signals = signals,
                pr_transport = transport, pr_endpoint = endpoint, pr_headers = headers\<rparr>)))
      in case (cli_endpoint, config) of
        (Some endpoint, Some cfg) \<Rightarrow>
          and_then (merge_cli_headers (rc_headers cfg) cli_headers) (\<lambda>headers.
            finish endpoint (transport (rc_transport cfg)) headers (normalize_signals (rc_signal_types cfg))
              (normalize_service_names (rc_service_names cfg) default_services))
      | (Some endpoint, None) \<Rightarrow>
          and_then (merge_cli_headers [] cli_headers) (\<lambda>headers.
            finish endpoint (transport None) headers ALL_SIGNALS default_services)
      | (None, Some cfg) \<Rightarrow>
          and_then (merge_cli_headers (rc_headers cfg) cli_headers) (\<lambda>headers.
            finish (rc_endpoint cfg) (transport (rc_transport cfg)) headers (normalize_signals (rc_signal_types cfg))
              (normalize_service_names (rc_service_names cfg) default_services))
      | (None, None) \<Rightarrow>
          if cli_transport \<noteq> None \<or> cli_headers \<noteq> [] then Inl (FlagsRequireEndpoint name) else Inr None)"

definition build_custom_route :: "(str \<Rightarrow> env_lookup) \<Rightarrow> proxy_route_config \<Rightarrow> proxy_route setting" where
  "build_custom_route env cfg =
     (if rc_endpoint cfg = '''' then Inl (EmptyEndpoint (rc_name cfg))
      else if rc_service_names cfg = [] then Inl (NoServiceNames (rc_name cfg))
      else and_then (resolve_headers env (rc_headers cfg) (rc_name cfg)) (\<lambda>headers.
        Inr \<lparr>pr_name = rc_name cfg, pr_service_names = rc_service_names cfg,
          pr_signals = normalize_signals (rc_signal_types cfg), pr_transport = unwrap_or Grpc (rc_transport cfg),
          pr_endpoint = rc_endpoint cfg, pr_headers = headers\<rparr>))"

text \<open>The configured routes by name, and the check that no service name is claimed twice.\<close>

definition collect_route ::
    "proxy_route_config \<Rightarrow> (str, proxy_route_config) omap \<Rightarrow> (str, proxy_route_config) omap setting" where
  "collect_route route m = (if map_of m (rc_name route) \<noteq> None then Inl (DuplicateRouteName (rc_name route))
     else Inr (om_put (rc_name route) route m))"

definition claim_service :: "str \<times> str \<Rightarrow> (str, str) omap \<Rightarrow> (str, str) omap setting" where
  "claim_service claim seen = (let (svc, route) = claim in
     if svc = '''' then Inl (EmptyServiceName route)
     else case map_of seen svc of
         Some prev \<Rightarrow> Inl (ServiceNameClaimedTwice svc prev route)
       | None \<Rightarrow> Inr (om_put svc route seen))"

definition claims :: "proxy_route list \<Rightarrow> (str \<times> str) list" where
  "claims routes = concat (map (\<lambda>r. map (\<lambda>s. (s, pr_name r)) (pr_service_names r)) routes)"

definition default_checkpoint_dir :: "log_sink \<Rightarrow> str" where
  "default_checkpoint_dir sink = path_join
     (case sink of LogFile path \<Rightarrow> unwrap_or ''.'' (path_parent path) | LogDirectory dir _ \<Rightarrow> dir)
     ''.otel-logger-proxy''"

definition non_empty_config_path :: "str \<Rightarrow> str \<Rightarrow> str setting" where
  "non_empty_config_path key path = (if path = '''' then Inl (EmptyConfigPath key) else Inr path)"

definition collect_vendor :: "proxy_route option \<Rightarrow> proxy_route list" where
  "collect_vendor r = (case r of None \<Rightarrow> [] | Some r \<Rightarrow> [r])"

definition resolve_routes ::
    "(str \<Rightarrow> env_lookup) \<Rightarrow> proxy_cli_inputs \<Rightarrow> proxy_route_config list \<Rightarrow> proxy_route list setting" where
  "resolve_routes env cli configured =
     and_then (try_fold collect_route configured []) (\<lambda>m.
     and_then (build_vendor_route env ROUTE_ANTHROPIC DEFAULT_ANTHROPIC_SERVICES (anthropic_endpoint cli)
       (anthropic_transport cli) (anthropic_headers cli) (map_of m ROUTE_ANTHROPIC)) (\<lambda>anthropic.
     let m = om_del ROUTE_ANTHROPIC m in
     and_then (build_vendor_route env ROUTE_OPENAI DEFAULT_OPENAI_SERVICES (openai_endpoint cli)
       (openai_transport cli) (openai_headers cli) (map_of m ROUTE_OPENAI)) (\<lambda>openai.
     let m = om_del ROUTE_OPENAI m in
     and_then (try_map (build_custom_route env) (map snd m)) (\<lambda>custom.
     Inr (collect_vendor anthropic @ collect_vendor openai @ custom)))))"

definition positive_or :: "u64 \<Rightarrow> u64 option \<Rightarrow> u64" where
  "positive_or d x = (case x of Some v \<Rightarrow> if 0 < v then v else d | None \<Rightarrow> d)"

definition resolve_checkpoint_dir ::
    "proxy_cli_inputs \<Rightarrow> proxy_config \<Rightarrow> log_sink \<Rightarrow> str option \<Rightarrow> str setting" where
  "resolve_checkpoint_dir cli config sink home = (case (cli_checkpoint_dir cli, pc_checkpoint_dir config) of
       (Some dir, _) \<Rightarrow> Inr (expand_user_path dir home)
     | (None, Some dir) \<Rightarrow>
         and_then (non_empty_config_path ''proxy.checkpoint-dir'' dir) (\<lambda>dir. Inr (expand_user_path dir home))
     | (None, None) \<Rightarrow> Inr (default_checkpoint_dir sink))"

definition resolve_proxy_settings ::
    "(str \<Rightarrow> env_lookup) \<Rightarrow> proxy_cli_inputs \<Rightarrow> proxy_config option \<Rightarrow> log_sink option \<Rightarrow> str option \<Rightarrow>
     proxy_settings option setting" where
  "resolve_proxy_settings env cli config log_sink home =
     (let config = unwrap_or default_proxy_config config in
      and_then (resolve_routes env cli (pc_routes config)) (\<lambda>routes.
      if routes = [] then Inr None
      else
        and_then (try_fold claim_service (claims routes) []) (\<lambda>_.
        case log_sink of None \<Rightarrow> Inl ProxyNeedsOutbox
        | Some sink \<Rightarrow>
            and_then (resolve_checkpoint_dir cli config sink home) (\<lambda>checkpoint_dir.
            Inr (Some \<lparr>ps_queue_capacity = positive_or DEFAULT_PROXY_QUEUE_CAPACITY (pc_queue_capacity config),
              ps_timeout_ms = positive_or DEFAULT_PROXY_TIMEOUT_MS (pc_timeout_ms config),
              ps_retry_max = unwrap_or DEFAULT_PROXY_RETRY_MAX (pc_retry_max config),
              ps_checkpoint_dir = checkpoint_dir, ps_routes = routes\<rparr>)))))"

end
