(* ===== verification/Proxy_Laws.thy ===== *)
theory Proxy_Laws
  imports Proxy_Settings
begin

text \<open>
  What the resolved forwarding settings guarantee: no service name belongs to two routes, header
  names are distinct tokens and header values hold no control character, and a header given on
  the command line replaces the configured one however its name is written.
\<close>

section \<open>Claimed service names\<close>

definition claimed :: "(str \<times> str) list \<Rightarrow> (str, str) omap \<Rightarrow> bool" where
  "claimed ds seen \<longleftrightarrow> distinct (map fst ds) \<and> '''' \<notin> fst ` set ds \<and>
     (\<forall>s. map_of seen s \<noteq> None \<longleftrightarrow> s \<in> fst ` set ds)"

interpretation claim: fallible_step claim_service claimed
proof
  fix ds :: "(str \<times> str) list" and x :: "str \<times> str" and seen seen'
  assume I: "claimed ds seen" and S: "claim_service x seen = Inr seen'"
  obtain svc route where x: "x = (svc, route)" by (cases x)
  from S have new: "svc \<noteq> ''''" "map_of seen svc = None" "seen' = om_put svc route seen"
    by (auto simp: claim_service_def x split: if_splits option.splits)
  from I new(2) have "svc \<notin> fst ` set ds" unfolding claimed_def by blast
  with I new show "claimed (ds @ [x]) seen'"
    unfolding claimed_def by (auto simp: x map_of_om_put)
qed

lemma map_fst_claims: "map fst (claims routes) = concat (map pr_service_names routes)"
  by (induction routes) (simp_all add: claims_def comp_def)

lemma claims_checked:
  assumes "try_fold claim_service (claims routes) [] = Inr seen"
  shows "distinct (concat (map pr_service_names routes)) \<and> '''' \<notin> set (concat (map pr_service_names routes))"
  using claim.run_inv [OF _ assms] by (simp add: claimed_def flip: map_fst_claims)

section \<open>Route names\<close>

definition named_routes :: "proxy_route_config list \<Rightarrow> (str, proxy_route_config) omap \<Rightarrow> bool" where
  "named_routes ds m \<longleftrightarrow> om_ok m \<and> (\<forall>e \<in> set m. rc_name (snd e) = fst e)"

interpretation collect: fallible_step collect_route named_routes
proof
  fix ds x m m'
  assume "named_routes ds m" and "collect_route x m = Inr m'"
  then show "named_routes (ds @ [x]) m'"
    using set_om_put [of "rc_name x" x m]
    by (auto simp: named_routes_def collect_route_def om_ok_put split: if_splits)
qed

lemma sorted_dedup: "sorted xs \<Longrightarrow> distinct (remdups_adj xs)" for xs :: "'a::linorder list"
proof (induction xs rule: remdups_adj.induct)
  case (3 x y xs)
  then have "x \<notin> set (y # xs)" if "x \<noteq> y" using that by auto
  with 3 show ?case by auto
qed simp_all

lemma vendor_route:
  assumes "build_vendor_route env name defaults endpoint transport hs cfg = Inr (Some r)"
  shows "pr_name r = name \<and> (defaults \<noteq> [] \<longrightarrow> pr_service_names r \<noteq> []) \<and>
    (\<exists>raw. resolve_headers env raw name = Inr (pr_headers r)) \<and> pr_signals r \<noteq> [] \<and> distinct (pr_signals r)"
proof -
  have signals: "normalize_signals s \<noteq> [] \<and> distinct (normalize_signals s)" for s
  proof (cases "s = []")
    case False
    then have "sort s \<noteq> []" by (metis length_sort length_0_conv)
    then show ?thesis
      using False by (simp add: normalize_signals_def sorted_dedup)
  qed (simp add: normalize_signals_def ALL_SIGNALS_def)
  from assms signals show ?thesis
    by (cases endpoint; cases cfg)
      (fastforce simp: build_vendor_route_def and_then_Inr Let_def normalize_service_names_def ALL_SIGNALS_def split: if_splits)+
qed

lemma custom_route:
  assumes "build_custom_route env cfg = Inr r"
  shows "pr_name r = rc_name cfg \<and> pr_service_names r \<noteq> [] \<and>
    (\<exists>raw. resolve_headers env raw (pr_name r) = Inr (pr_headers r))"
  using assms by (auto simp: build_custom_route_def and_then_Inr split: if_splits)

lemma om_del_keys: "om_ok m \<Longrightarrow> map fst (om_del k m) = filter (\<lambda>x. x \<noteq> k) (map fst m)"
  by (simp add: om_del_def filter_map comp_def)

lemma resolved_routes:
  assumes "resolve_routes env cli configured = Inr routes"
  shows "distinct (map pr_name routes) \<and> (\<forall>r \<in> set routes. pr_service_names r \<noteq> [] \<and>
    (\<exists>raw. resolve_headers env raw (pr_name r) = Inr (pr_headers r)))"
proof -
  obtain m a b custom where m: "try_fold collect_route configured [] = Inr m"
    and a: "build_vendor_route env ROUTE_ANTHROPIC DEFAULT_ANTHROPIC_SERVICES (anthropic_endpoint cli)
       (anthropic_transport cli) (anthropic_headers cli) (map_of m ROUTE_ANTHROPIC) = Inr a"
    and b: "build_vendor_route env ROUTE_OPENAI DEFAULT_OPENAI_SERVICES (openai_endpoint cli)
       (openai_transport cli) (openai_headers cli) (map_of (om_del ROUTE_ANTHROPIC m) ROUTE_OPENAI) = Inr b"
    and c: "try_map (build_custom_route env) (map snd (om_del ROUTE_OPENAI (om_del ROUTE_ANTHROPIC m))) = Inr custom"
    and routes: "routes = collect_vendor a @ collect_vendor b @ custom"
    using assms by (auto simp: resolve_routes_def and_then_Inr Let_def)
  define rest where "rest = om_del ROUTE_OPENAI (om_del ROUTE_ANTHROPIC m)"
  have named: "named_routes configured m"
    by (rule collect.run_inv [OF _ m]) (simp add: named_routes_def)
  have ok: "om_ok rest" using named by (simp add: named_routes_def rest_def om_ok_del)
  have rest: "om_ok rest" "\<forall>e \<in> set rest. rc_name (snd e) = fst e \<and> fst e \<noteq> ROUTE_ANTHROPIC \<and> fst e \<noteq> ROUTE_OPENAI"
    using ok named by (simp_all add: named_routes_def rest_def om_del_def)
  have all2: "list_all2 (\<lambda>e r. build_custom_route env (snd e) = Inr r) rest custom"
    using c by (simp add: try_map_Inr list_all2_map1 flip: rest_def)
  then have "list_all2 (\<lambda>e r. pr_name r = rc_name (snd e)) rest custom"
    by (rule list_all2_mono) (simp add: custom_route)
  then have "map pr_name custom = map (\<lambda>e. rc_name (snd e)) rest"
    by (induction rule: list_all2_induct) simp_all
  also have "\<dots> = map fst rest" using rest(2) by simp
  finally have names: "map pr_name custom = map fst rest" .
  have customs: "pr_service_names r \<noteq> [] \<and> (\<exists>raw. resolve_headers env raw (pr_name r) = Inr (pr_headers r))"
    if "r \<in> set custom" for r
    using that all2 custom_route by (auto simp: in_set_conv_nth list_all2_conv_all_nth) blast
  have vendors: "pr_name r = ROUTE_ANTHROPIC \<and> pr_service_names r \<noteq> [] \<and>
      (\<exists>raw. resolve_headers env raw (pr_name r) = Inr (pr_headers r))" if "r \<in> set (collect_vendor a)" for r
    using that a
    by (auto simp: collect_vendor_def DEFAULT_ANTHROPIC_SERVICES_def dest!: vendor_route split: option.splits)
  have vendors': "pr_name r = ROUTE_OPENAI \<and> pr_service_names r \<noteq> [] \<and>
      (\<exists>raw. resolve_headers env raw (pr_name r) = Inr (pr_headers r))" if "r \<in> set (collect_vendor b)" for r
    using that b by (auto simp: collect_vendor_def DEFAULT_OPENAI_SERVICES_def dest!: vendor_route split: option.splits)
  have va: "pr_name r = ROUTE_ANTHROPIC" if "a = Some r" for r
    using vendors [of r] that by (simp add: collect_vendor_def)
  have vb: "pr_name r = ROUTE_OPENAI" if "b = Some r" for r
    using vendors' [of r] that by (simp add: collect_vendor_def)
  have one: "map pr_name (collect_vendor a) \<in> {[], [ROUTE_ANTHROPIC]}" "map pr_name (collect_vendor b) \<in> {[], [ROUTE_OPENAI]}"
    using va vb by (simp_all add: collect_vendor_def split: option.splits)
  have two: "ROUTE_ANTHROPIC \<noteq> ROUTE_OPENAI" by (simp add: ROUTE_ANTHROPIC_def ROUTE_OPENAI_def)
  have "set (map pr_name custom) \<inter> {ROUTE_ANTHROPIC, ROUTE_OPENAI} = {}"
    using rest(2) by (auto simp: names)
  moreover have "distinct (map pr_name custom)" using om_ok_distinct [OF rest(1)] by (simp add: names)
  moreover have "distinct (map pr_name (collect_vendor a @ collect_vendor b))"
    using one two by auto
  moreover have "set (map pr_name (collect_vendor a @ collect_vendor b)) \<subseteq> {ROUTE_ANTHROPIC, ROUTE_OPENAI}"
    using one by auto
  ultimately have "distinct (map pr_name routes)"
    unfolding routes append_assoc [symmetric] map_append distinct_append by blast
  moreover have "pr_service_names r \<noteq> [] \<and> (\<exists>raw. resolve_headers env raw (pr_name r) = Inr (pr_headers r))"
    if "r \<in> set routes" for r
    using that vendors [of r] vendors' [of r] customs [of r] unfolding routes set_append by blast
  ultimately show ?thesis by blast
qed

section \<open>Headers are well formed\<close>

lemma byte_lower: "byte (to_ascii_lowercase_char c) = (if 65 \<le> byte c \<and> byte c \<le> 90 then byte c + 32 else byte c)"
  by (simp add: to_ascii_lowercase_char_def byte_def of_char_of)

lemma lower_lower_char [simp]: "to_ascii_lowercase_char (to_ascii_lowercase_char c) = to_ascii_lowercase_char c"
  by (auto simp: to_ascii_lowercase_char_def [of "to_ascii_lowercase_char c"] byte_lower split: if_splits)

lemma lower_lower [simp]: "to_ascii_lowercase (to_ascii_lowercase s) = to_ascii_lowercase s"
  by (simp add: to_ascii_lowercase_def comp_def)

lemma separators_bytes: "c \<in> set header_separators \<Longrightarrow> byte c \<in> {34, 40, 41, 44, 47, 58, 59, 60, 61, 62, 63, 64, 91, 92, 93, 123, 125}"
  by (auto simp: header_separators_def byte_def)

lemma token_char_lower: "token_char c \<Longrightarrow> token_char (to_ascii_lowercase_char c)"
proof -
  assume c: "token_char c"
  show ?thesis
  proof (cases "65 \<le> byte c \<and> byte c \<le> 90")
    case True
    then have b: "97 \<le> byte (to_ascii_lowercase_char c)" "byte (to_ascii_lowercase_char c) \<le> 122"
      by (simp_all add: byte_lower)
    then have "to_ascii_lowercase_char c \<notin> set header_separators"
      using separators_bytes [of "to_ascii_lowercase_char c"] by auto
    with b show ?thesis by (simp add: token_char_def is_ascii_graphic_def)
  next
    case False
    then have "to_ascii_lowercase_char c = c" by (auto simp: to_ascii_lowercase_char_def)
    with c show ?thesis by simp
  qed
qed

definition value_char :: "str \<Rightarrow> bool" where
  "value_char ch \<longleftrightarrow> \<not> is_control ch \<or> ch = [CHR 0x09]"

lemma value_chars_iff: "validate_value_chars key route n chs = Inr () \<longleftrightarrow> list_all value_char chs"
  by (induction chs arbitrary: n) (auto simp: value_char_def byte_def)

lemma value_chars_control: "list_all value_char chs \<longleftrightarrow> (\<forall>ch \<in> set chs. is_control ch \<longrightarrow> ch = [CHR 0x09])"
  by (auto simp: list_all_iff value_char_def)

definition header_ok :: "str \<times> str \<Rightarrow> bool" where
  "header_ok e \<longleftrightarrow> fst e \<noteq> '''' \<and> list_all token_char (fst e) \<and> to_ascii_lowercase (fst e) = fst e \<and>
     fst e \<notin> set DISALLOWED_KEYS \<and> list_all value_char (utf8_chars (snd e))"

definition headers_ok :: "(str \<times> str) list \<Rightarrow> bool" where
  "headers_ok hs \<longleftrightarrow> distinct (map fst hs) \<and> list_all header_ok hs"

lemma resolve_header_step:
  assumes "resolve_header env route e resolved = Inr resolved'"
  shows "\<exists>v. resolved' = resolved @ [(to_ascii_lowercase (fst e), v)] \<and>
    header_value env route (to_ascii_lowercase (fst e)) (snd e) = Inr v \<and>
    header_ok (to_ascii_lowercase (fst e), v) \<and> to_ascii_lowercase (fst e) \<notin> fst ` set resolved"
proof -
  obtain v where v: "validate_header_key (fst e) route = Inr ()"
    "\<forall>h \<in> set resolved. fst h \<noteq> to_ascii_lowercase (fst e)"
    "header_value env route (to_ascii_lowercase (fst e)) (snd e) = Inr v"
    "validate_header_value (to_ascii_lowercase (fst e)) v route = Inr ()"
    "resolved' = resolved @ [(to_ascii_lowercase (fst e), v)]"
    using assms by (auto simp: resolve_header_def and_then_Inr Let_def list_ex_iff)
  from v(1) have "list_all token_char (fst e)" "fst e \<noteq> ''''" "to_ascii_lowercase (fst e) \<notin> set DISALLOWED_KEYS"
    by (auto simp: validate_header_key_def split: if_splits)
  then have "header_ok (to_ascii_lowercase (fst e), v)"
    using v(4) by (auto simp: header_ok_def validate_header_value_def value_chars_iff to_ascii_lowercase_def
        list_all_iff token_char_lower)
  moreover have "to_ascii_lowercase (fst e) \<notin> fst ` set resolved" using v(2) by auto
  ultimately show ?thesis using v(3,5) by blast
qed

definition resolved_from :: "(str \<Rightarrow> env_lookup) \<Rightarrow> str \<Rightarrow> (str \<times> str) list \<Rightarrow> (str \<times> str) list \<Rightarrow> bool" where
  "resolved_from env route ds resolved \<longleftrightarrow> headers_ok resolved \<and>
     list_all2 (\<lambda>e h. fst h = to_ascii_lowercase (fst e) \<and> header_value env route (fst h) (snd e) = Inr (snd h)) ds resolved"

interpretation headers: fallible_step "resolve_header env route" "resolved_from env route" for env route
proof
  fix ds x and resolved resolved' :: "(str \<times> str) list"
  assume I: "resolved_from env route ds resolved" and S: "resolve_header env route x resolved = Inr resolved'"
  from resolve_header_step [OF S] I show "resolved_from env route (ds @ [x]) resolved'"
    by (auto simp: resolved_from_def headers_ok_def intro: list_all2_appendI)
qed

lemma resolve_headers_spec:
  assumes "resolve_headers env raw route = Inr hs"
  shows "resolved_from env route raw hs"
  by (rule headers.run_inv [OF _ assms [unfolded resolve_headers_def]]) (simp add: resolved_from_def headers_ok_def)

section \<open>Command line headers replace configured ones\<close>

text \<open>The value a list of header entries gives to a name: that of the last entry with the name.\<close>

definition cli_value :: "str \<Rightarrow> str list \<Rightarrow> str option" where
  "cli_value k entries = fold (\<lambda>entry v. case split_once (CHR ''='') entry of
       Some (key, value) \<Rightarrow> if eq_ignore_ascii_case (trim key) k then Some value else v
     | None \<Rightarrow> v) entries None"

lemma filter_put_other:
  "\<not> P k \<Longrightarrow> filter (\<lambda>e. P (fst e)) (om_put k v m) = filter (\<lambda>e. P (fst e)) m"
  by (induction m) auto

lemma filter_put_only:
  "P k \<Longrightarrow> filter (\<lambda>e. P (fst e)) m = [] \<Longrightarrow> filter (\<lambda>e. P (fst e)) (om_put k v m) = [(k, v)]"
  by (induction m) (auto split: if_splits)

lemma same_name_trans: "eq_ignore_ascii_case a b \<Longrightarrow> eq_ignore_ascii_case a c \<longleftrightarrow> eq_ignore_ascii_case b c"
  by (simp add: eq_ignore_ascii_case_def)

lemma same_name_lower [simp]: "eq_ignore_ascii_case (to_ascii_lowercase a) b = eq_ignore_ascii_case a b"
  by (simp add: eq_ignore_ascii_case_def)

definition merged :: "str \<Rightarrow> (str, str) omap \<Rightarrow> (nat \<times> str) list \<Rightarrow> (str, str) omap \<Rightarrow> bool" where
  "merged k dest0 ds dest \<longleftrightarrow> filter (\<lambda>e. eq_ignore_ascii_case (fst e) k) dest =
     (case cli_value k (map snd ds) of
        Some v \<Rightarrow> [(to_ascii_lowercase k, v)]
      | None \<Rightarrow> filter (\<lambda>e. eq_ignore_ascii_case (fst e) k) dest0)"

interpretation merge: fallible_step merge_cli_header "merged k dest0" for k dest0
proof
  fix ds and x :: "nat \<times> str" and dest dest'
  assume I: "merged k dest0 ds dest" and S: "merge_cli_header x dest = Inr dest'"
  obtain key val where sp: "split_once (CHR ''='') (snd x) = Some (key, val)"
    and d: "dest' = om_put (to_ascii_lowercase (trim key)) val (filter (\<lambda>e. \<not> eq_ignore_ascii_case (fst e) (trim key)) dest)"
    using S by (auto simp: merge_cli_header_def Let_def split: option.splits if_splits)
  show "merged k dest0 (ds @ [x]) dest'"
  proof (cases "eq_ignore_ascii_case (trim key) k")
    case True
    have "filter (\<lambda>e. eq_ignore_ascii_case (fst e) k) (filter (\<lambda>e. \<not> eq_ignore_ascii_case (fst e) (trim key)) dest) = []"
      using True by (auto simp: filter_empty_conv eq_ignore_ascii_case_def)
    then have "filter (\<lambda>e. eq_ignore_ascii_case (fst e) k) dest' = [(to_ascii_lowercase (trim key), val)]"
      unfolding d by (subst filter_put_only [of "\<lambda>a. eq_ignore_ascii_case a k"]) (use True in simp_all)
    then show ?thesis using True sp by (simp add: merged_def cli_value_def eq_ignore_ascii_case_def)
  next
    case False
    have "filter (\<lambda>e. eq_ignore_ascii_case (fst e) k) dest' = filter (\<lambda>e. eq_ignore_ascii_case (fst e) k)
        (filter (\<lambda>e. \<not> eq_ignore_ascii_case (fst e) (trim key)) dest)"
      unfolding d by (rule filter_put_other [of "\<lambda>a. eq_ignore_ascii_case a k"]) (use False in simp)
    also have "\<dots> = filter (\<lambda>e. eq_ignore_ascii_case (fst e) k) dest"
      using False by (auto simp: eq_ignore_ascii_case_def intro!: filter_cong)
    finally show ?thesis using I False sp by (simp add: merged_def cli_value_def)
  qed
qed

lemma merge_cli_headers_spec:
  assumes "merge_cli_headers dest entries = Inr dest'"
  shows "filter (\<lambda>e. eq_ignore_ascii_case (fst e) k) dest' = (case cli_value k entries of
      Some v \<Rightarrow> [(to_ascii_lowercase k, v)] | None \<Rightarrow> filter (\<lambda>e. eq_ignore_ascii_case (fst e) k) dest)"
proof -
  have "merged k dest (enumerate 0 entries) dest'"
    by (rule merge.run_inv [OF _ assms [unfolded merge_cli_headers_def]]) (simp add: merged_def cli_value_def)
  then show ?thesis by (simp add: merged_def)
qed

section \<open>Resolved settings\<close>

lemma positive_or_pos: "0 < d \<Longrightarrow> 0 < positive_or d x"
  by (auto simp: positive_or_def split: option.splits)

lemma resolved_settings:
  assumes "resolve_proxy_settings env cli config sink home = Inr (Some ps)"
  shows "distinct (concat (map pr_service_names (ps_routes ps))) \<and>
    '''' \<notin> set (concat (map pr_service_names (ps_routes ps))) \<and>
    (\<forall>r \<in> set (ps_routes ps). pr_service_names r \<noteq> [] \<and> headers_ok (pr_headers r)) \<and>
    distinct (map pr_name (ps_routes ps)) \<and> ps_routes ps \<noteq> [] \<and> sink \<noteq> None \<and>
    0 < ps_queue_capacity ps \<and> 0 < ps_timeout_ms ps"
proof -
  obtain routes seen where r: "resolve_routes env cli (pc_routes (unwrap_or default_proxy_config config)) = Inr routes"
    and s: "try_fold claim_service (claims routes) [] = Inr seen"
    and ps: "routes \<noteq> []" "ps_routes ps = routes" "sink \<noteq> None"
    "ps_queue_capacity ps = positive_or DEFAULT_PROXY_QUEUE_CAPACITY (pc_queue_capacity (unwrap_or default_proxy_config config))"
    "ps_timeout_ms ps = positive_or DEFAULT_PROXY_TIMEOUT_MS (pc_timeout_ms (unwrap_or default_proxy_config config))"
    using assms by (auto simp: resolve_proxy_settings_def and_then_Inr Let_def split: option.splits if_splits)
  have "headers_ok hs" if "resolve_headers env raw route = Inr hs" for raw route hs
    using resolve_headers_spec [OF that] by (simp add: resolved_from_def)
  with resolved_routes [OF r] claims_checked [OF s] ps show ?thesis
    by (auto simp: positive_or_pos DEFAULT_PROXY_QUEUE_CAPACITY_def DEFAULT_PROXY_TIMEOUT_MS_def)
qed

end
