(* ===== verification/Settings.thy ===== *)
theory Settings
  imports Proxy_Laws
begin

text \<open>
  \<^verbatim>\<open>Settings::merge\<close> of \<^verbatim>\<open>src/src/cli.rs\<close>: every setting comes from the command line or
  the environment (which the argument parser has put into one record), else from the
  configuration file, else from a default. Addresses are kept as text, durations in nanoseconds;
  the largest number of permits of the semaphore library is an argument.
\<close>

section \<open>Data\<close>

datatype commands = Init "str option" bool bool   \<comment> \<open>path, force, daemon\<close>

datatype color_mode = ColorAuto | ColorAlways | ColorNever

record cli =
  cli_command :: "commands option"
  cli_config :: "str option"
  cli_grpc_addr :: "str option"
  cli_http_addr :: "str option"
  cli_max_inflight_requests :: "u64 option"
  cli_receive_timeout_ms :: "u64 option"
  cli_log_file :: "str option"
  cli_log_dir :: "str option"
  cli_log_keep_days :: "u32 option"
  cli_no_stdout :: "bool option"
  cli_pretty_log :: "bool option"
  cli_summary :: "bool option"
  cli_color :: "color_mode option"
  cli_dry_run :: bool
  cli_proxy_anthropic_endpoint :: "str option"
  cli_proxy_anthropic_transport :: "proxy_transport_arg option"
  cli_proxy_anthropic_headers :: "str list"
  cli_proxy_openai_endpoint :: "str option"
  cli_proxy_openai_transport :: "proxy_transport_arg option"
  cli_proxy_openai_headers :: "str list"
  cli_proxy_checkpoint_dir :: "str option"

record config =
  cfg_grpc_addr :: "str option"
  cfg_http_addr :: "str option"
  cfg_max_inflight_requests :: "u64 option"
  cfg_receive_timeout_ms :: "u64 option"
  cfg_log_file :: "str option"
  cfg_log_dir :: "str option"
  cfg_log_keep_days :: "u32 option"
  cfg_no_stdout :: "bool option"
  cfg_pretty_log :: "bool option"
  cfg_summary :: "bool option"
  cfg_color :: "color_mode option"
  cfg_proxy :: "proxy_config option"

record settings =
  st_grpc_addr :: str
  st_http_addr :: str
  st_max_inflight_requests :: u64
  st_receive_timeout :: nat
  st_log_sink :: "log_sink option"
  st_no_stdout :: bool
  st_pretty_log_dir :: "str option"
  st_summary :: bool
  st_color :: color_mode
  st_dry_run :: bool
  st_proxy :: "proxy_settings option"

definition DEFAULT_GRPC_ADDR :: str where
  "DEFAULT_GRPC_ADDR = ''0.0.0.0:4317''"

definition DEFAULT_HTTP_ADDR :: str where
  "DEFAULT_HTTP_ADDR = ''0.0.0.0:4318''"

definition DEFAULT_LOG_KEEP_DAYS :: u32 where
  "DEFAULT_LOG_KEEP_DAYS = 10"

definition DEFAULT_MAX_INFLIGHT_REQUESTS :: u64 where
  "DEFAULT_MAX_INFLIGHT_REQUESTS = 8"

definition DEFAULT_RECEIVE_TIMEOUT :: nat where
  "DEFAULT_RECEIVE_TIMEOUT = 5 * 10 ^ 9"

definition from_millis :: "u64 \<Rightarrow> nat" where
  "from_millis ms = unat ms * 10 ^ 6"

section \<open>Terminals and colours\<close>

definition no_color_requested :: "str option \<Rightarrow> bool" where
  "no_color_requested var = (case var of None \<Rightarrow> False | Some v \<Rightarrow> v \<noteq> '''')"

definition enabled_for_stdout :: "str option \<Rightarrow> bool \<Rightarrow> color_mode \<Rightarrow> bool" where
  "enabled_for_stdout no_color is_terminal c = (case c of
       ColorAlways \<Rightarrow> True
     | ColorNever \<Rightarrow> False
     | ColorAuto \<Rightarrow> \<not> no_color_requested no_color \<and> is_terminal)"

definition color_enabled_for_stderr :: "str option \<Rightarrow> bool \<Rightarrow> bool" where
  "color_enabled_for_stderr no_color is_terminal = (\<not> no_color_requested no_color \<and> is_terminal)"

definition warns_unrotated_stdout :: "settings \<Rightarrow> bool \<Rightarrow> bool" where
  "warns_unrotated_stdout s stdout_is_terminal = (\<not> st_no_stdout s \<and> \<not> stdout_is_terminal)"

section \<open>Where the logs go\<close>

definition resolve_log_sink :: "cli \<Rightarrow> config \<Rightarrow> str option \<Rightarrow> log_sink option setting" where
  "resolve_log_sink cli config home =
     (let keep_days = unwrap_or DEFAULT_LOG_KEEP_DAYS (or_else (cli_log_keep_days cli) (cfg_log_keep_days config)) in
      case (cli_log_file cli, cli_log_dir cli) of
        (Some _, Some _) \<Rightarrow> Inl CliSinksExclusive
      | (Some path, None) \<Rightarrow> Inr (Some (LogFile (expand_user_path path home)))
      | (None, Some dir) \<Rightarrow> Inr (Some (LogDirectory (expand_user_path dir home) keep_days))
      | (None, None) \<Rightarrow>
          (case (cfg_log_file config, cfg_log_dir config) of
             (Some _, Some _) \<Rightarrow> Inl ConfigSinksExclusive
           | (Some path, None) \<Rightarrow> and_then (non_empty_config_path ''log-file'' path)
               (\<lambda>path. Inr (Some (LogFile (expand_user_path path home))))
           | (None, Some dir) \<Rightarrow> and_then (non_empty_config_path ''log-dir'' dir)
               (\<lambda>dir. Inr (Some (LogDirectory (expand_user_path dir home) keep_days)))
           | (None, None) \<Rightarrow> Inr None))"

definition resolve_pretty_log_dir :: "bool \<Rightarrow> log_sink option \<Rightarrow> str option setting" where
  "resolve_pretty_log_dir enabled sink =
     (if \<not> enabled then Inr None
      else case sink of
        Some (LogDirectory dir _) \<Rightarrow> Inr (Some dir)
      | Some (LogFile _) \<Rightarrow> Inl PrettyLogWithFile
      | None \<Rightarrow> Inl PrettyLogWithoutDir)"

section \<open>All settings\<close>

definition proxy_inputs :: "cli \<Rightarrow> proxy_cli_inputs" where
  "proxy_inputs c = \<lparr>anthropic_endpoint = cli_proxy_anthropic_endpoint c,
     anthropic_transport = cli_proxy_anthropic_transport c, anthropic_headers = cli_proxy_anthropic_headers c,
     openai_endpoint = cli_proxy_openai_endpoint c, openai_transport = cli_proxy_openai_transport c,
     openai_headers = cli_proxy_openai_headers c, cli_checkpoint_dir = cli_proxy_checkpoint_dir c\<rparr>"

definition resolve_max_inflight :: "u64 \<Rightarrow> cli \<Rightarrow> config \<Rightarrow> u64 setting" where
  "resolve_max_inflight max_permits cli config =
     (let n = unwrap_or DEFAULT_MAX_INFLIGHT_REQUESTS (or_else (cli_max_inflight_requests cli) (cfg_max_inflight_requests config)) in
      and_then (ensure (1 \<le> n \<and> n \<le> max_permits) InflightOutOfRange) (\<lambda>_. Inr n))"

definition resolve_receive_timeout :: "cli \<Rightarrow> config \<Rightarrow> nat setting" where
  "resolve_receive_timeout cli config =
     (let t = (case or_else (cli_receive_timeout_ms cli) (cfg_receive_timeout_ms config) of
          None \<Rightarrow> DEFAULT_RECEIVE_TIMEOUT | Some ms \<Rightarrow> from_millis ms) in
      and_then (ensure (t \<noteq> 0) ZeroReceiveTimeout) (\<lambda>_. Inr t))"

definition merge_with_home ::
    "u64 \<Rightarrow> (str \<Rightarrow> env_lookup) \<Rightarrow> cli \<Rightarrow> config \<Rightarrow> str option \<Rightarrow> settings setting" where
  "merge_with_home max_permits env cli config home =
     and_then (resolve_log_sink cli config home) (\<lambda>log_sink.
     and_then (resolve_pretty_log_dir (unwrap_or False (or_else (cli_pretty_log cli) (cfg_pretty_log config))) log_sink) (\<lambda>pretty_log_dir.
     and_then (resolve_proxy_settings env (proxy_inputs cli) (cfg_proxy config) log_sink home) (\<lambda>proxy.
     and_then (resolve_max_inflight max_permits cli config) (\<lambda>max_inflight.
     and_then (resolve_receive_timeout cli config) (\<lambda>receive_timeout.
     Inr \<lparr>st_grpc_addr = unwrap_or DEFAULT_GRPC_ADDR (or_else (cli_grpc_addr cli) (cfg_grpc_addr config)),
       st_http_addr = unwrap_or DEFAULT_HTTP_ADDR (or_else (cli_http_addr cli) (cfg_http_addr config)),
       st_max_inflight_requests = max_inflight,
       st_receive_timeout = receive_timeout,
       st_log_sink = log_sink,
       st_no_stdout = unwrap_or False (or_else (cli_no_stdout cli) (cfg_no_stdout config)),
       st_pretty_log_dir = pretty_log_dir,
       st_summary = unwrap_or False (or_else (cli_summary cli) (cfg_summary config)),
       st_color = unwrap_or ColorAuto (or_else (cli_color cli) (cfg_color config)),
       st_dry_run = cli_dry_run cli,
       st_proxy = proxy\<rparr>)))))"

section \<open>Facts\<close>

text \<open>
  What the command line leaves visible of the configuration file: a log destination given there
  hides both of the file's.
\<close>

definition hidden_by :: "'a option \<Rightarrow> 'b option \<Rightarrow> 'b option" where
  "hidden_by given x = (if given = None then x else None)"

definition visible_config :: "cli \<Rightarrow> config \<Rightarrow> config" where
  "visible_config cli c = c\<lparr>cfg_grpc_addr := hidden_by (cli_grpc_addr cli) (cfg_grpc_addr c),
     cfg_http_addr := hidden_by (cli_http_addr cli) (cfg_http_addr c),
     cfg_max_inflight_requests := hidden_by (cli_max_inflight_requests cli) (cfg_max_inflight_requests c),
     cfg_receive_timeout_ms := hidden_by (cli_receive_timeout_ms cli) (cfg_receive_timeout_ms c),
     cfg_log_file := hidden_by (or_else (cli_log_file cli) (cli_log_dir cli)) (cfg_log_file c),
     cfg_log_dir := hidden_by (or_else (cli_log_file cli) (cli_log_dir cli)) (cfg_log_dir c),
     cfg_log_keep_days := hidden_by (cli_log_keep_days cli) (cfg_log_keep_days c),
     cfg_no_stdout := hidden_by (cli_no_stdout cli) (cfg_no_stdout c),
     cfg_pretty_log := hidden_by (cli_pretty_log cli) (cfg_pretty_log c),
     cfg_summary := hidden_by (cli_summary cli) (cfg_summary c),
     cfg_color := hidden_by (cli_color cli) (cfg_color c)\<rparr>"

lemma or_else_simps [simp]: "or_else None b = b" "or_else (Some a) b = Some a"
  by (simp_all add: or_else_def)

lemma hidden_by_simps [simp]: "hidden_by None x = x" "hidden_by (Some a) x = None"
  by (simp_all add: hidden_by_def)

lemma or_else_hidden [simp]: "or_else a (hidden_by a b) = or_else a b"
  by (cases a) simp_all

lemma log_sink_visible: "resolve_log_sink cli (visible_config cli c) home = resolve_log_sink cli c home"
  by (cases "cli_log_file cli"; cases "cli_log_dir cli")
    (simp_all add: resolve_log_sink_def visible_config_def)

lemma merge_visible: "merge_with_home max_permits env cli (visible_config cli c) home = merge_with_home max_permits env cli c home"
  unfolding merge_with_home_def resolve_max_inflight_def resolve_receive_timeout_def log_sink_visible
  by (simp add: visible_config_def)

lemma pretty_log_dir_Inr:
  "resolve_pretty_log_dir enabled sink = Inr (Some dir) \<longleftrightarrow> enabled \<and> (\<exists>k. sink = Some (LogDirectory dir k))"
  by (auto simp: resolve_pretty_log_dir_def split: option.splits log_sink.splits)

lemma max_inflight_Inr: "resolve_max_inflight max_permits cli c = Inr n \<Longrightarrow> 1 \<le> n \<and> n \<le> max_permits"
  by (auto simp: resolve_max_inflight_def and_then_Inr ensure_def Let_def split: if_splits)

lemma receive_timeout_Inr: "resolve_receive_timeout cli c = Inr t \<Longrightarrow> 0 < t"
  by (auto simp: resolve_receive_timeout_def and_then_Inr ensure_def Let_def split: if_splits)

lemma log_sink_not_empty:
  assumes "resolve_log_sink cli c home = Inr (Some sink)" "cli_log_file cli = None" "cli_log_dir cli = None"
  shows "(case sink of LogFile _ \<Rightarrow> cfg_log_file c \<noteq> Some '''' \<and> cfg_log_dir c = None
    | LogDirectory _ _ \<Rightarrow> cfg_log_dir c \<noteq> Some '''' \<and> cfg_log_file c = None)"
  using assms
  by (auto simp: resolve_log_sink_def and_then_Inr non_empty_config_path_def Let_def split: option.splits if_splits)

lemma merged_settings:
  assumes "merge_with_home max_permits env cli c home = Inr s"
  shows "resolve_log_sink cli c home = Inr (st_log_sink s) \<and>
    resolve_pretty_log_dir (unwrap_or False (or_else (cli_pretty_log cli) (cfg_pretty_log c))) (st_log_sink s) = Inr (st_pretty_log_dir s) \<and>
    resolve_proxy_settings env (proxy_inputs cli) (cfg_proxy c) (st_log_sink s) home = Inr (st_proxy s) \<and>
    resolve_max_inflight max_permits cli c = Inr (st_max_inflight_requests s) \<and>
    resolve_receive_timeout cli c = Inr (st_receive_timeout s)"
  using assms by (auto simp: merge_with_home_def and_then_Inr)

section \<open>A concrete configuration\<close>

text \<open>
  A file whose two log destinations contradict each other, and a command line that names one.
\<close>

definition sample_cli_args :: cli where
  "sample_cli_args = \<lparr>cli_command = None, cli_config = None, cli_grpc_addr = None, cli_http_addr = None,
     cli_max_inflight_requests = None, cli_receive_timeout_ms = Some 2000, cli_log_file = None, cli_log_dir = Some ''~/logs'',
     cli_log_keep_days = None, cli_no_stdout = Some False, cli_pretty_log = Some True, cli_summary = None, cli_color = None,
     cli_dry_run = False, cli_proxy_anthropic_endpoint = None, cli_proxy_anthropic_transport = None,
     cli_proxy_anthropic_headers = [], cli_proxy_openai_endpoint = None, cli_proxy_openai_transport = None,
     cli_proxy_openai_headers = [], cli_proxy_checkpoint_dir = None\<rparr>"

definition sample_file_config :: config where
  "sample_file_config = \<lparr>cfg_grpc_addr = Some ''127.0.0.1:4317'', cfg_http_addr = None, cfg_max_inflight_requests = Some 4,
     cfg_receive_timeout_ms = Some 0, cfg_log_file = Some ''/a'', cfg_log_dir = Some '''', cfg_log_keep_days = Some 3,
     cfg_no_stdout = Some True, cfg_pretty_log = None, cfg_summary = None, cfg_color = Some ColorNever, cfg_proxy = None\<rparr>"

definition sample_settings :: settings where
  "sample_settings = \<lparr>st_grpc_addr = ''127.0.0.1:4317'', st_http_addr = ''0.0.0.0:4318'', st_max_inflight_requests = 4,
     st_receive_timeout = 2 * 10 ^ 9, st_log_sink = Some (LogDirectory ''/h/logs'' 3), st_no_stdout = False,
     st_pretty_log_dir = Some ''/h/logs'', st_summary = False, st_color = ColorNever, st_dry_run = False, st_proxy = None\<rparr>"

lemma sample_expand: "expand_user_path ''~/logs'' (Some ''/h'') = ''/h/logs''"
  by code_simp

lemma sample_merge: "merge_with_home 100 env sample_cli_args sample_file_config (Some ''/h'') = Inr sample_settings"
proof -
  have sink: "resolve_log_sink sample_cli_args sample_file_config (Some ''/h'') = Inr (Some (LogDirectory ''/h/logs'' 3))"
    by (simp add: resolve_log_sink_def sample_cli_args_def sample_file_config_def sample_expand unwrap_or_def Let_def)
  have proxy: "resolve_proxy_settings env (proxy_inputs sample_cli_args) None sink home = Inr None" for sink home
    by (simp add: resolve_proxy_settings_def proxy_inputs_def sample_cli_args_def unwrap_or_def default_proxy_config_def
      resolve_routes_def build_vendor_route_def collect_vendor_def om_del_def Let_def)
  have "resolve_max_inflight 100 sample_cli_args sample_file_config = Inr 4"
    by (simp add: resolve_max_inflight_def sample_cli_args_def sample_file_config_def unwrap_or_def ensure_def Let_def)
  moreover have "resolve_receive_timeout sample_cli_args sample_file_config = Inr (2 * 10 ^ 9)"
    by (simp add: resolve_receive_timeout_def sample_cli_args_def sample_file_config_def from_millis_def ensure_def Let_def)
  moreover have "cfg_proxy sample_file_config = None" by (simp add: sample_file_config_def)
  ultimately show ?thesis
    by (simp add: merge_with_home_def sink proxy resolve_pretty_log_dir_def)
      (simp add: sample_settings_def sample_cli_args_def sample_file_config_def unwrap_or_def DEFAULT_HTTP_ADDR_def)
qed

end
