(* ===== verification/Admission.thy ===== *)
theory Admission
  imports Settings
begin

text \<open>
  The receive limits of \<^verbatim>\<open>src/src/admission.rs\<close>: how many requests are worked on, and how
  many may wait for that, whatever order their steps take. The semaphore is a library: it hands
  out a permit only when one is free, and a request that holds permits gives them back when the
  last clone is dropped. Durations and times are nanoseconds.
\<close>

section \<open>Limits\<close>

definition WAITING_PER_INFLIGHT :: u64 where
  "WAITING_PER_INFLIGHT = 8"

datatype rejected = Busy | TimedOut

definition message :: "rejected \<Rightarrow> str" where
  "message r = (case r of
       Busy \<Rightarrow> ''receiver is busy; retry later''
     | TimedOut \<Rightarrow> ''receiver is busy; timed out waiting for a free slot'')"

record receive_limits =
  rl_slots :: nat   \<comment> \<open>free permits\<close>
  rl_waiting :: u64
  rl_max_waiting :: u64
  rl_timeout :: nat

definition limits_new :: "u64 \<Rightarrow> nat \<Rightarrow> receive_limits" where
  "limits_new max_inflight timeout = \<lparr>rl_slots = unat max_inflight, rl_waiting = 0,
     rl_max_waiting = saturating_mul max_inflight WAITING_PER_INFLIGHT, rl_timeout = timeout\<rparr>"

text \<open>\<open>fits\<close>: the instants the clock can express.\<close>

definition deadline :: "(nat \<Rightarrow> bool) \<Rightarrow> nat \<Rightarrow> receive_limits \<Rightarrow> nat" where
  "deadline fits now l = (if fits (now + rl_timeout l) then now + rl_timeout l
     else now + 60 * 60 * 24 * 365 * 10 ^ 9)"

section \<open>Requests\<close>

text \<open>
  A request that found no free permit enters the count of waiting requests (and leaves it again if
  that was too many), waits, and holds its permit through a number of clones. Cancelling drops
  whatever it has.
\<close>

datatype request_phase =
    Arrived
  | Entering
  | Rejecting
  | Queued
  | Granted
  | Holding nat
  | Refused rejected
  | Finished

fun has_permit :: "request_phase \<Rightarrow> bool" where
  "has_permit Granted = True"
| "has_permit (Holding _) = True"
| "has_permit _ = False"

fun counted_waiting :: "request_phase \<Rightarrow> bool" where
  "counted_waiting Rejecting = True"
| "counted_waiting Queued = True"
| "counted_waiting Granted = True"
| "counted_waiting _ = False"

fun really_waiting :: "request_phase \<Rightarrow> bool" where
  "really_waiting Queued = True"
| "really_waiting Granted = True"
| "really_waiting _ = False"

record admission_state =
  as_limits :: receive_limits
  as_requests :: "request_phase list"

definition try_acquire :: "receive_limits \<Rightarrow> request_phase \<times> receive_limits" where
  "try_acquire l = (if 0 < rl_slots l then (Holding 1, l\<lparr>rl_slots := rl_slots l - 1\<rparr>) else (Entering, l))"

definition waiting_enter :: "receive_limits \<Rightarrow> request_phase \<times> receive_limits" where
  "waiting_enter l = (let waiting = rl_waiting l + 1; l = l\<lparr>rl_waiting := waiting\<rparr> in
     if rl_max_waiting l < waiting then (Rejecting, l) else (Queued, l))"

definition waiting_leave :: "receive_limits \<Rightarrow> receive_limits" where
  "waiting_leave l = l\<lparr>rl_waiting := rl_waiting l - 1\<rparr>"

definition release :: "receive_limits \<Rightarrow> receive_limits" where
  "release l = l\<lparr>rl_slots := rl_slots l + 1\<rparr>"

text \<open>What a step of a request does: its new phase and the new limits.\<close>

inductive request_step :: "request_phase \<Rightarrow> receive_limits \<Rightarrow> request_phase \<Rightarrow> receive_limits \<Rightarrow> bool" where
  TryAcquire: "try_acquire l = (p, l') \<Longrightarrow> request_step Arrived l p l'"
| Enter: "waiting_enter l = (p, l') \<Longrightarrow> request_step Entering l p l'"
| Reject: "request_step Rejecting l (Refused Busy) (waiting_leave l)"
| Acquire: "0 < rl_slots l \<Longrightarrow> request_step Queued l Granted (l\<lparr>rl_slots := rl_slots l - 1\<rparr>)"
| Leave: "request_step Granted l (Holding 1) (waiting_leave l)"
| Timeout: "request_step Queued l (Refused TimedOut) (waiting_leave l)"
| Cancel: "p \<in> {Arrived, Entering} \<Longrightarrow> request_step p l Finished l"
| CancelWaiting: "request_step Queued l Finished (waiting_leave l)"
| Clone: "request_step (Holding (Suc n)) l (Holding (Suc (Suc n))) l"
| DropClone: "request_step (Holding (Suc (Suc n))) l (Holding (Suc n)) l"
| DropLast: "request_step (Holding 1) l Finished (release l)"

text \<open>Requests live in memory, so there are fewer than \<open>2 ^ 64\<close> of them.\<close>

inductive admission_reachable :: "receive_limits \<Rightarrow> admission_state \<Rightarrow> bool"
  for l0 :: receive_limits where
  Start: "admission_reachable l0 \<lparr>as_limits = l0, as_requests = []\<rparr>"
| Arrive: "admission_reachable l0 s \<Longrightarrow> length (as_requests s) + 1 < 2 ^ 64 \<Longrightarrow>
    admission_reachable l0 (s\<lparr>as_requests := as_requests s @ [Arrived]\<rparr>)"
| Step: "admission_reachable l0 s \<Longrightarrow> i < length (as_requests s) \<Longrightarrow>
    request_step (as_requests s ! i) (as_limits s) p l \<Longrightarrow>
    admission_reachable l0 (s\<lparr>as_limits := l, as_requests := (as_requests s)[i := p]\<rparr>)"

section \<open>Facts\<close>

definition how_many :: "(request_phase \<Rightarrow> bool) \<Rightarrow> admission_state \<Rightarrow> nat" where
  "how_many P s = length (filter P (as_requests s))"

definition limits_kept :: "nat \<Rightarrow> u64 \<Rightarrow> admission_state \<Rightarrow> bool" where
  "limits_kept slots max_waiting s \<longleftrightarrow>
     rl_slots (as_limits s) + how_many has_permit s = slots \<and>
     unat (rl_waiting (as_limits s)) = how_many counted_waiting s \<and>
     how_many really_waiting s \<le> unat max_waiting \<and>
     rl_max_waiting (as_limits s) = max_waiting \<and> length (as_requests s) < 2 ^ 64"

lemma length_filter_update:
  "i < length xs \<Longrightarrow> length (filter P (xs[i := y])) + (if P (xs ! i) then 1 else 0) = length (filter P xs) + (if P y then 1 else 0)"
proof (induction xs arbitrary: i)
  case (Cons x xs)
  then show ?case by (cases i) auto
qed simp

lemma how_many_update:
  "i < length (as_requests s) \<Longrightarrow> how_many P (s\<lparr>as_limits := l, as_requests := (as_requests s)[i := p]\<rparr>) +
     (if P (as_requests s ! i) then 1 else 0) = how_many P s + (if P p then 1 else 0)"
  by (simp add: how_many_def length_filter_update)

lemma how_many_less: "i < length (as_requests s) \<Longrightarrow> \<not> P (as_requests s ! i) \<Longrightarrow> how_many P s < length (as_requests s)"
  unfolding how_many_def by (rule length_filter_less) (auto intro: nth_mem)

lemma how_many_pos: "i < length (as_requests s) \<Longrightarrow> P (as_requests s ! i) \<Longrightarrow> 0 < how_many P s"
  unfolding how_many_def by (rule length_pos_if_in_set [of "as_requests s ! i"]) simp

lemma really_counted: "how_many really_waiting s \<le> how_many counted_waiting s"
  unfolding how_many_def
proof (induction "as_requests s" arbitrary: s)
  case (Cons p ps)
  from Cons.hyps(1) [of "s\<lparr>as_requests := ps\<rparr>"] Cons.hyps(2) [symmetric] show ?case by (cases p) simp_all
qed simp

lemma waiting_succ: "unat w = n \<Longrightarrow> n + 1 < 2 ^ 64 \<Longrightarrow> unat (w + 1 :: u64) = n + 1"
  using unat_add_lem [of w 1] by simp

lemma waiting_pred: "unat w = n \<Longrightarrow> 0 < n \<Longrightarrow> unat (w - 1 :: u64) = n - 1"
  by (metis One_nat_def gr0_conv_Suc unat_eq_zero unat_minus_one less_irrefl)

lemma limits_kept_step:
  assumes kept: "limits_kept slots max_waiting s" and i: "i < length (as_requests s)"
    and step: "request_step (as_requests s ! i) (as_limits s) p l"
  shows "limits_kept slots max_waiting (s\<lparr>as_limits := l, as_requests := (as_requests s)[i := p]\<rparr>)"
proof -
  let ?s = "s\<lparr>as_limits := l, as_requests := (as_requests s)[i := p]\<rparr>"
  note H = how_many_update [OF i, of has_permit p l] how_many_update [OF i, of counted_waiting p l]
    how_many_update [OF i, of really_waiting p l]
  have K: "rl_slots (as_limits s) + how_many has_permit s = slots"
    "unat (rl_waiting (as_limits s)) = how_many counted_waiting s" "how_many really_waiting s \<le> unat max_waiting"
    "rl_max_waiting (as_limits s) = max_waiting" "length (as_requests s) < 2 ^ 64"
    using kept by (simp_all add: limits_kept_def)
  have pred: "unat (rl_waiting (as_limits s) - 1) = how_many counted_waiting s - 1" if "counted_waiting (as_requests s ! i)"
    using waiting_pred [OF K(2) how_many_pos [of i s counted_waiting, OF i that]] .
  show ?thesis
    using step
  proof (cases rule: request_step.cases)
    case TryAcquire
    then show ?thesis using H K by (auto simp: limits_kept_def try_acquire_def split: if_splits)
  next
    case Enter
    have "how_many counted_waiting s < length (as_requests s)" using how_many_less [OF i] Enter(1) by simp
    then have succ: "unat (rl_waiting (as_limits s) + 1) = how_many counted_waiting s + 1"
      using K(5) by (intro waiting_succ [OF K(2)]) linarith
    then have "\<not> max_waiting < rl_waiting (as_limits s) + 1 \<Longrightarrow> how_many counted_waiting s + 1 \<le> unat max_waiting"
      by (simp add: word_less_nat_alt)
    then show ?thesis
      using Enter H K succ really_counted [of s]
      by (auto simp: limits_kept_def waiting_enter_def Let_def split: if_splits)
  qed (use H K pred in \<open>auto simp: limits_kept_def waiting_leave_def release_def\<close>)
qed

lemma limits_kept_reachable:
  "admission_reachable (limits_new max_inflight timeout) s \<Longrightarrow>
     limits_kept (unat max_inflight) (saturating_mul max_inflight WAITING_PER_INFLIGHT) s"
proof (induction rule: admission_reachable.induct)
  case Start
  then show ?case by (simp add: limits_kept_def limits_new_def how_many_def)
next
  case (Arrive s)
  then show ?case by (simp add: limits_kept_def how_many_def)
next
  case (Step s i p l)
  then show ?case using limits_kept_step by blast
qed

lemma saturating_mul_le: "unat (saturating_mul a b) \<le> unat a * unat b"
proof (cases "unat a * unat b < 2 ^ 64")
  case True
  then show ?thesis by (simp add: saturating_mul_def unat_word_ariths)
next
  case False
  then show ?thesis by (simp add: saturating_mul_def unat_u64_max)
qed

section \<open>A concrete run\<close>

text \<open>One permit and three requests: one works, one waits, one has been turned away.\<close>

definition sample_admission :: admission_state where
  "sample_admission = \<lparr>as_limits = \<lparr>rl_slots = 0, rl_waiting = 1, rl_max_waiting = 8, rl_timeout = 5\<rparr>,
     as_requests = [Holding 1, Queued, Refused TimedOut]\<rparr>"

lemma sample_next:
  assumes "admission_reachable l0 \<lparr>as_limits = l, as_requests = rs\<rparr>" and "request_step (rs ! i) l p l'"
    and "i < length rs" "rs[i := p] = rs'"
  shows "admission_reachable l0 \<lparr>as_limits = l', as_requests = rs'\<rparr>"
  using Step [OF assms(1), of i p l'] assms by simp

lemma sample_admission_reachable: "admission_reachable (limits_new 1 5) sample_admission"
proof -
  have start: "admission_reachable (limits_new 1 5) \<lparr>as_limits = \<lparr>rl_slots = 1, rl_waiting = 0, rl_max_waiting = 8, rl_timeout = 5\<rparr>,
      as_requests = []\<rparr>"
    using Start [of "limits_new 1 5"] by (simp add: limits_new_def saturating_mul_def WAITING_PER_INFLIGHT_def)
  have arrived: "admission_reachable (limits_new 1 5) \<lparr>as_limits = \<lparr>rl_slots = 1, rl_waiting = 0, rl_max_waiting = 8, rl_timeout = 5\<rparr>,
      as_requests = [Arrived, Arrived, Arrived]\<rparr>"
    using Arrive [OF Arrive [OF Arrive [OF start]]] by simp
  have 1: "admission_reachable (limits_new 1 5) \<lparr>as_limits = \<lparr>rl_slots = 0, rl_waiting = 0, rl_max_waiting = 8, rl_timeout = 5\<rparr>,
      as_requests = [Holding 1, Arrived, Arrived]\<rparr>"
    by (rule sample_next [OF arrived, where i = 0 and p = "Holding 1"]) (simp_all add: request_step.simps try_acquire_def)
  have 2: "admission_reachable (limits_new 1 5) \<lparr>as_limits = \<lparr>rl_slots = 0, rl_waiting = 0, rl_max_waiting = 8, rl_timeout = 5\<rparr>,
      as_requests = [Holding 1, Entering, Arrived]\<rparr>"
    by (rule sample_next [OF 1, where i = 1 and p = Entering]) (simp_all add: request_step.simps try_acquire_def)
  have 3: "admission_reachable (limits_new 1 5) \<lparr>as_limits = \<lparr>rl_slots = 0, rl_waiting = 0, rl_max_waiting = 8, rl_timeout = 5\<rparr>,
      as_requests = [Holding 1, Entering, Entering]\<rparr>"
    by (rule sample_next [OF 2, where i = 2 and p = Entering]) (simp_all add: request_step.simps try_acquire_def)
  have 4: "admission_reachable (limits_new 1 5) \<lparr>as_limits = \<lparr>rl_slots = 0, rl_waiting = 1, rl_max_waiting = 8, rl_timeout = 5\<rparr>,
      as_requests = [Holding 1, Queued, Entering]\<rparr>"
    by (rule sample_next [OF 3, where i = 1 and p = Queued]) (simp_all add: request_step.simps waiting_enter_def)
  have 5: "admission_reachable (limits_new 1 5) \<lparr>as_limits = \<lparr>rl_slots = 0, rl_waiting = 2, rl_max_waiting = 8, rl_timeout = 5\<rparr>,
      as_requests = [Holding 1, Queued, Queued]\<rparr>"
    by (rule sample_next [OF 4, where i = 2 and p = Queued]) (simp_all add: request_step.simps waiting_enter_def)
  show ?thesis
    unfolding sample_admission_def
    by (rule sample_next [OF 5, where i = 2 and p = "Refused TimedOut"]) (simp_all add: request_step.simps waiting_leave_def)
qed

text \<open>The limits of the sample settings with one request that got in at once.\<close>

definition sample_four :: admission_state where
  "sample_four = \<lparr>as_limits = (limits_new 4 (2 * 10 ^ 9))\<lparr>rl_slots := 3\<rparr>, as_requests = [Holding 1]\<rparr>"

lemma sample_four_reachable:
  "admission_reachable (limits_new (st_max_inflight_requests sample_settings) (st_receive_timeout sample_settings)) sample_four"
proof -
  have "admission_reachable (limits_new 4 (2 * 10 ^ 9)) \<lparr>as_limits = limits_new 4 (2 * 10 ^ 9), as_requests = [Arrived]\<rparr>"
    using Arrive [OF Start, of "limits_new 4 (2 * 10 ^ 9)"] by simp
  then have "admission_reachable (limits_new 4 (2 * 10 ^ 9)) sample_four"
    unfolding sample_four_def
    by (rule sample_next [where i = 0 and p = "Holding 1"]) (simp_all add: request_step.simps try_acquire_def limits_new_def)
  then show ?thesis by (simp add: sample_settings_def)
qed

end
