(* ===== verification/Retention.thy ===== *)
theory Retention
  imports Results Paths
begin

text \<open>
  The retention of \<^verbatim>\<open>src/src/sink.rs\<close>: which file names are daily files of the
  program and which of them a cleanup removes. The calendar is a library and an argument; a
  directory is what its listing and the system calls on its entries report.
\<close>

section \<open>Names of daily files\<close>

definition ROTATION_PREFIX :: str where
  "ROTATION_PREFIX = ''otel-logger''"

definition PRETTY_LOG_PREFIX :: str where
  "PRETTY_LOG_PREFIX = ''otel-logger.pretty''"

definition PRETTY_LOG_SUFFIX :: str where
  "PRETTY_LOG_SUFFIX = ''log''"

datatype log_kind = KindJsonl | KindPretty

text \<open>
  \<^verbatim>\<open>time::Month::try_from\<close> and \<^verbatim>\<open>Date::from_calendar_date\<close>: whether there is
  such a month and such a day.
\<close>

record calendar =
  month_exists :: "nat \<Rightarrow> bool"
  date_exists :: "nat \<Rightarrow> nat \<Rightarrow> nat \<Rightarrow> bool"

definition byte_range :: "nat \<Rightarrow> nat \<Rightarrow> str \<Rightarrow> str" where
  "byte_range i j s = take (j - i) (drop i s)"

definition is_calendar_date :: "calendar \<Rightarrow> str \<Rightarrow> bool" where
  "is_calendar_date cal date \<longleftrightarrow>
     (if length date \<noteq> 10 \<or> \<not> list_all is_ascii_digit (byte_range 0 4 date) \<or> date ! 4 \<noteq> CHR ''-'' \<or>
         \<not> list_all is_ascii_digit (byte_range 5 7 date) \<or> date ! 7 \<noteq> CHR ''-'' \<or> \<not> list_all is_ascii_digit (byte_range 8 10 date)
      then False
      else let year = digits_val (byte_range 0 4 date); month = digits_val (byte_range 5 7 date); day = digits_val (byte_range 8 10 date) in
        month_exists cal month \<and> date_exists cal year month day)"

definition strip :: "(str \<Rightarrow> str option) list \<Rightarrow> str \<Rightarrow> str option" where
  "strip fs s = fold (\<lambda>f r. Option.bind r f) fs (Some s)"

definition daily_log_kind :: "calendar \<Rightarrow> str \<Rightarrow> log_kind option" where
  "daily_log_kind cal filename =
     (case strip [strip_prefix PRETTY_LOG_PREFIX, strip_prefix ''.'', strip_suffix PRETTY_LOG_SUFFIX, strip_suffix ''.''] filename of
        Some date \<Rightarrow> if is_calendar_date cal date then Some KindPretty else None
      | None \<Rightarrow> (case strip [strip_prefix ROTATION_PREFIX, strip_prefix ''.''] filename of
            Some date \<Rightarrow> if is_calendar_date cal date then Some KindJsonl else None
          | None \<Rightarrow> None))"

section \<open>The cleanup\<close>

text \<open>The result of a system call on an entry that another process may remove at any time.\<close>

datatype 'a stat_result = StatOk 'a | StatNotFound | StatFailed io_error

record dir_entry =
  de_path :: str
  de_name :: "str option"   \<comment> \<open>the file name if it is valid UTF-8\<close>
  de_is_file :: "bool stat_result"
  de_modified :: "int option stat_result"   \<comment> \<open>nanoseconds since the epoch\<close>
  de_remove :: "unit stat_result"

datatype cleanup_step = Skip | Remove | Failed io_error

text \<open>
  Times are nanoseconds since the epoch; \<^verbatim>\<open>SystemTime\<close> keeps its seconds in an \<^verbatim>\<open>i64\<close>.
\<close>

definition DAY_NANOS :: int where
  "DAY_NANOS = 24 * 60 * 60 * 10 ^ 9"

definition SYSTEM_TIME_MIN :: int where
  "SYSTEM_TIME_MIN = - (2 ^ 63) * 10 ^ 9"

definition cutoff_time :: "int \<Rightarrow> u32 \<Rightarrow> int" where
  "cutoff_time now keep_days = (let t = now - int (unat keep_days) * DAY_NANOS in
     if t < SYSTEM_TIME_MIN then 0 else t)"

definition judge_entry :: "calendar \<Rightarrow> int \<Rightarrow> dir_entry \<Rightarrow> cleanup_step" where
  "judge_entry cal cutoff e = (case de_is_file e of
       StatFailed err \<Rightarrow> Failed err
     | StatNotFound \<Rightarrow> Skip
     | StatOk is_file \<Rightarrow>
         if \<not> is_file then Skip
         else (case de_name e of
             None \<Rightarrow> Skip
           | Some filename \<Rightarrow>
               if daily_log_kind cal filename = None then Skip
               else (case de_modified e of
                   StatNotFound \<Rightarrow> Skip
                 | StatFailed err \<Rightarrow> Failed err
                 | StatOk None \<Rightarrow> Skip
                 | StatOk (Some modified) \<Rightarrow>
                     if cutoff \<le> modified then Skip
                     else (case de_remove e of
                         StatOk _ \<Rightarrow> Remove
                       | StatNotFound \<Rightarrow> Skip
                       | StatFailed err \<Rightarrow> Failed err))))"

text \<open>The paths removed so far; an error ends the loop and what was removed stays removed.\<close>

fun cleanup_entries :: "calendar \<Rightarrow> int \<Rightarrow> (io_error + dir_entry) list \<Rightarrow> unit io_result \<times> str list" where
  "cleanup_entries cal cutoff [] = (Inr (), [])"
| "cleanup_entries cal cutoff (Inl err # es) = (Inl err, [])"
| "cleanup_entries cal cutoff (Inr e # es) = (case judge_entry cal cutoff e of
       Failed err \<Rightarrow> (Inl err, [])
     | Skip \<Rightarrow> cleanup_entries cal cutoff es
     | Remove \<Rightarrow> (case cleanup_entries cal cutoff es of (r, removed) \<Rightarrow> (r, de_path e # removed)))"

definition cleanup_old_rotated_logs ::
    "calendar \<Rightarrow> int \<Rightarrow> u32 \<Rightarrow> bool io_result \<Rightarrow> (io_error + dir_entry) list io_result \<Rightarrow> unit io_result \<times> str list" where
  "cleanup_old_rotated_logs cal now keep_days exists read_dir = (case exists of
       Inl err \<Rightarrow> (Inl err, [])
     | Inr False \<Rightarrow> (Inr (), [])
     | Inr True \<Rightarrow> (case read_dir of
           Inl err \<Rightarrow> (Inl err, [])
         | Inr entries \<Rightarrow> cleanup_entries cal (cutoff_time now keep_days) entries))"

text \<open>The retention that opening a rotated log uses: at least one day.\<close>

definition max_keep :: "u32 \<Rightarrow> u32" where
  "max_keep keep_days = max keep_days 1"

section \<open>Facts\<close>

text \<open>The names the writers give to their files.\<close>

definition jsonl_name :: "str \<Rightarrow> str" where
  "jsonl_name date = ROTATION_PREFIX @ ''.'' @ date"

definition pretty_name :: "str \<Rightarrow> str" where
  "pretty_name date = PRETTY_LOG_PREFIX @ ''.'' @ date @ ''.'' @ PRETTY_LOG_SUFFIX"

lemma strip_pretty:
  "strip [strip_prefix PRETTY_LOG_PREFIX, strip_prefix ''.'', strip_suffix PRETTY_LOG_SUFFIX, strip_suffix ''.''] name = Some date \<longleftrightarrow>
     name = pretty_name date"
  by (auto simp: strip_def Option.bind_eq_Some_conv strip_prefix_Some strip_suffix_Some pretty_name_def)

lemma strip_jsonl:
  "strip [strip_prefix ROTATION_PREFIX, strip_prefix ''.''] name = Some date \<longleftrightarrow> name = jsonl_name date"
  by (auto simp: strip_def Option.bind_eq_Some_conv strip_prefix_Some jsonl_name_def)

lemma date_digit: "is_calendar_date cal date \<Longrightarrow> length date = 10 \<and> is_ascii_digit (date ! 0)"
  by (auto simp: is_calendar_date_def byte_range_def nth_take list_all_length split: if_splits)

lemma pretty_not_jsonl: "is_calendar_date cal d \<Longrightarrow> jsonl_name d \<noteq> pretty_name d'"
proof
  assume d: "is_calendar_date cal d" and eq: "jsonl_name d = pretty_name d'"
  then have "d = ''pretty.'' @ d' @ ''.log''"
    by (simp add: jsonl_name_def pretty_name_def ROTATION_PREFIX_def PRETTY_LOG_PREFIX_def PRETTY_LOG_SUFFIX_def)
  with date_digit [OF d] show False by (simp add: is_ascii_digit_def byte_def)
qed

lemma kind_jsonl: "daily_log_kind cal name = Some KindJsonl \<longleftrightarrow> (\<exists>d. is_calendar_date cal d \<and> name = jsonl_name d)"
proof (cases "strip [strip_prefix PRETTY_LOG_PREFIX, strip_prefix ''.'', strip_suffix PRETTY_LOG_SUFFIX, strip_suffix ''.''] name")
  case (Some date)
  then have "name = pretty_name date" by (simp add: strip_pretty)
  then have "name \<noteq> jsonl_name d" if "is_calendar_date cal d" for d
    using pretty_not_jsonl [OF that, of date] by simp
  then show ?thesis using Some by (auto simp: daily_log_kind_def)
next
  case None
  show ?thesis
  proof (cases "strip [strip_prefix ROTATION_PREFIX, strip_prefix ''.''] name")
    case (Some date)
    then have "name = jsonl_name date" by (simp add: strip_jsonl)
    then show ?thesis using None Some by (auto simp: daily_log_kind_def jsonl_name_def)
  next
    case missing: None
    then have "name \<noteq> jsonl_name d" for d using strip_jsonl [of name d] by auto
    then show ?thesis using None missing by (simp add: daily_log_kind_def)
  qed
qed

lemma kind_pretty: "daily_log_kind cal name = Some KindPretty \<longleftrightarrow> (\<exists>d. is_calendar_date cal d \<and> name = pretty_name d)"
proof (cases "strip [strip_prefix PRETTY_LOG_PREFIX, strip_prefix ''.'', strip_suffix PRETTY_LOG_SUFFIX, strip_suffix ''.''] name")
  case (Some date)
  then have "name = pretty_name date" by (simp add: strip_pretty)
  then show ?thesis using Some by (auto simp: daily_log_kind_def pretty_name_def)
next
  case None
  then have "name \<noteq> pretty_name d" for d using strip_pretty [of name d] by auto
  then show ?thesis using None by (auto simp: daily_log_kind_def split: option.splits)
qed

lemma judge_remove:
  "judge_entry cal cutoff e = Remove \<longleftrightarrow> de_is_file e = StatOk True \<and>
     (\<exists>name. de_name e = Some name \<and> daily_log_kind cal name \<noteq> None) \<and>
     (\<exists>m. de_modified e = StatOk (Some m) \<and> m < cutoff) \<and> (\<exists>u. de_remove e = StatOk u)"
  by (auto simp: judge_entry_def split: stat_result.splits option.splits if_splits)

lemma cleanup_removed:
  "p \<in> set (snd (cleanup_entries cal cutoff es)) \<Longrightarrow> \<exists>e. Inr e \<in> set es \<and> de_path e = p \<and> judge_entry cal cutoff e = Remove"
  by (induction cal cutoff es rule: cleanup_entries.induct)
    (auto split: cleanup_step.splits prod.splits)

lemma cleanup_complete:
  "cleanup_entries cal cutoff es = (Inr u, removed) \<Longrightarrow>
     Inr e \<in> set es \<Longrightarrow> judge_entry cal cutoff e = Remove \<Longrightarrow> de_path e \<in> set removed"
  by (induction cal cutoff es arbitrary: removed rule: cleanup_entries.induct)
    (auto split: cleanup_step.splits prod.splits)

lemma cleanup_entries_no_failure:
  "cleanup_entries cal cutoff es = (Inr u, removed) \<Longrightarrow> Inr e \<in> set es \<Longrightarrow> judge_entry cal cutoff e \<noteq> Failed err"
  by (induction cal cutoff es arbitrary: removed rule: cleanup_entries.induct)
    (auto split: cleanup_step.splits prod.splits)

lemma written_name: "daily_log_kind cal name \<noteq> None \<longleftrightarrow>
    (\<exists>d. is_calendar_date cal d \<and> (name = jsonl_name d \<or> name = pretty_name d))"
proof -
  have "daily_log_kind cal name \<noteq> None \<longleftrightarrow> daily_log_kind cal name = Some KindJsonl \<or> daily_log_kind cal name = Some KindPretty"
    by (cases "daily_log_kind cal name") (auto intro: log_kind.exhaust)
  also have "\<dots> \<longleftrightarrow> (\<exists>d. is_calendar_date cal d \<and> (name = jsonl_name d \<or> name = pretty_name d))"
    unfolding kind_jsonl kind_pretty by blast
  finally show ?thesis .
qed

lemma cleanup_entries_removable:
  assumes "cleanup_entries cal cutoff es = (Inr u, removed)" "Inr e \<in> set es"
    and "de_is_file e = StatOk True" "de_name e = Some name" "daily_log_kind cal name \<noteq> None"
    "de_modified e = StatOk (Some m)" "m < cutoff"
  shows "de_path e \<in> set removed \<or> de_remove e = StatNotFound"
proof (cases "de_remove e")
  case (StatOk v)
  with assms have "judge_entry cal cutoff e = Remove" by (auto simp: judge_remove)
  with cleanup_complete [OF assms(1,2)] show ?thesis by simp
next
  case (StatFailed err)
  with assms have "judge_entry cal cutoff e = Failed err" by (simp add: judge_entry_def)
  with cleanup_entries_no_failure [OF assms(1,2), of err] show ?thesis by simp
qed simp

lemma cleanup_spec:
  assumes "cleanup_old_rotated_logs cal now keep_days exists read_dir = (r, removed)"
  shows "(\<forall>p \<in> set removed. \<exists>entries e d. read_dir = Inr entries \<and> Inr e \<in> set entries \<and> de_path e = p \<and>
      de_is_file e = StatOk True \<and> is_calendar_date cal d \<and> de_name e \<in> {Some (jsonl_name d), Some (pretty_name d)} \<and>
      (\<exists>m. de_modified e = StatOk (Some m) \<and> m < cutoff_time now keep_days)) \<and>
    (r = Inr () \<longrightarrow> (\<forall>entries e d m. exists = Inr True \<longrightarrow> read_dir = Inr entries \<longrightarrow> Inr e \<in> set entries \<longrightarrow>
      de_is_file e = StatOk True \<longrightarrow> is_calendar_date cal d \<longrightarrow> de_name e \<in> {Some (jsonl_name d), Some (pretty_name d)} \<longrightarrow>
      de_modified e = StatOk (Some m) \<longrightarrow> m < cutoff_time now keep_days \<longrightarrow> de_path e \<in> set removed \<or> de_remove e = StatNotFound))"
proof (cases "exists = Inr True \<and> (\<exists>entries. read_dir = Inr entries)")
  case True
  then obtain entries where e: "exists = Inr True" "read_dir = Inr entries" by blast
  then have c: "cleanup_entries cal (cutoff_time now keep_days) entries = (r, removed)"
    using assms by (simp add: cleanup_old_rotated_logs_def)
  have "\<exists>e d. Inr e \<in> set entries \<and> de_path e = p \<and> de_is_file e = StatOk True \<and> is_calendar_date cal d \<and>
      de_name e \<in> {Some (jsonl_name d), Some (pretty_name d)} \<and>
      (\<exists>m. de_modified e = StatOk (Some m) \<and> m < cutoff_time now keep_days)" if "p \<in> set removed" for p
  proof -
    obtain e where e: "Inr e \<in> set entries" "de_path e = p" "judge_entry cal (cutoff_time now keep_days) e = Remove"
      using cleanup_removed [of p cal "cutoff_time now keep_days" entries] \<open>p \<in> set removed\<close> c by auto
    then obtain name where "de_name e = Some name" "daily_log_kind cal name \<noteq> None" by (auto simp: judge_remove)
    with e show ?thesis unfolding judge_remove written_name by blast
  qed
  moreover have "de_path e \<in> set removed \<or> de_remove e = StatNotFound"
    if "r = Inr ()" "Inr e \<in> set entries" "de_is_file e = StatOk True" "is_calendar_date cal d"
      "de_name e \<in> {Some (jsonl_name d), Some (pretty_name d)}" "de_modified e = StatOk (Some m)" "m < cutoff_time now keep_days"
    for e d m
    using cleanup_entries_removable [OF c [unfolded that(1)] that(2,3) _ _ that(6,7)] that(4,5) written_name by blast
  ultimately show ?thesis by (simp add: e)
next
  case False
  with assms show ?thesis by (auto simp: cleanup_old_rotated_logs_def split: sum.splits bool.splits)
qed

section \<open>A concrete directory\<close>

text \<open>An old log, a new one, an old file of another program and a directory with a daily name.\<close>

definition sample_calendar :: calendar where
  "sample_calendar = \<lparr>month_exists = (\<lambda>m. 1 \<le> m \<and> m \<le> 12), date_exists = (\<lambda>y m d. 1 \<le> d \<and> d \<le> 28)\<rparr>"

definition sample_entry :: "str \<Rightarrow> bool \<Rightarrow> int \<Rightarrow> dir_entry" where
  "sample_entry name is_file modified = \<lparr>de_path = ''/v/'' @ name, de_name = Some name, de_is_file = StatOk is_file,
     de_modified = StatOk (Some modified), de_remove = StatOk ()\<rparr>"

definition sample_listing :: "(io_error + dir_entry) list" where
  "sample_listing = map Inr [sample_entry ''otel-logger.2026-01-01'' True 0, sample_entry ''otel-logger.2026-01-09'' True (8 * DAY_NANOS),
     sample_entry ''otel-logger.pid'' True 0, sample_entry ''otel-logger.2026-01-02'' False 0]"

lemma sample_names:
  "daily_log_kind sample_calendar ''otel-logger.2026-01-01'' = Some KindJsonl"
  "daily_log_kind sample_calendar ''otel-logger.2026-01-09'' = Some KindJsonl"
  "daily_log_kind sample_calendar ''otel-logger.2026-01-02'' = Some KindJsonl"
  "daily_log_kind sample_calendar ''otel-logger.pid'' = None"
  by code_simp+

lemma sample_cleanup:
  "cleanup_old_rotated_logs sample_calendar (9 * DAY_NANOS) 7 (Inr True) (Inr sample_listing) =
     (Inr (), [''/v/otel-logger.2026-01-01''])"
  by (simp add: cleanup_old_rotated_logs_def sample_listing_def judge_entry_def sample_entry_def sample_names
      cutoff_time_def DAY_NANOS_def SYSTEM_TIME_MIN_def Let_def)

end
