(* ===== verification/Channel.thy ===== *)
theory Channel
  imports Prelude
begin

text \<open>
  The bounded channel (\<^verbatim>\<open>tokio::sync::mpsc\<close>) that the pretty writers and the forwarding
  lanes use. It is a library outside the repository: the code that uses it takes it as a
  parameter, and the locale states the documented behaviour it relies on. The bounded first-in
  first-out queue at the end behaves that way, so the laws can hold.
\<close>

datatype send_result = SendOk | SendFull | SendClosed

record ('q, 'm) channel_ops =
  ch_try_send :: "'m \<Rightarrow> 'q \<Rightarrow> send_result \<times> 'q"
  ch_recv :: "'q \<Rightarrow> ('m \<times> 'q) option"   \<comment> \<open>\<open>None\<close>: nothing to receive now\<close>
  ch_is_closed :: "'q \<Rightarrow> bool"
  ch_close :: "'q \<Rightarrow> 'q"   \<comment> \<open>by the receiver\<close>
  ch_capacity :: "'q \<Rightarrow> nat"   \<comment> \<open>the room left\<close>

text \<open>
  \<open>waiting\<close> lists the messages that have been sent and not received, in order. A send takes effect
  completely or not at all.
\<close>

locale channel =
  fixes ops :: "('q, 'm) channel_ops" and waiting :: "'q \<Rightarrow> 'm list" and capacity :: nat
  assumes send_ok: "ch_try_send ops m q = (SendOk, q') \<Longrightarrow> waiting q' = waiting q @ [m]"
    and send_ok_room: "ch_try_send ops m q = (SendOk, q') \<Longrightarrow> length (waiting q) < capacity"
    and send_full: "ch_try_send ops m q = (SendFull, q') \<Longrightarrow> q' = q \<and> capacity \<le> length (waiting q)"
    and send_closed: "ch_try_send ops m q = (SendClosed, q') \<Longrightarrow> q' = q \<and> ch_is_closed ops q"
    and send_open: "ch_try_send ops m q = (SendOk, q') \<Longrightarrow> \<not> ch_is_closed ops q \<and> \<not> ch_is_closed ops q'"
    and recv_some: "ch_recv ops q = Some (m, q') \<Longrightarrow> waiting q = m # waiting q' \<and> ch_is_closed ops q' = ch_is_closed ops q"
    and recv_none: "ch_recv ops q = None \<Longrightarrow> waiting q = []"
    and close: "waiting (ch_close ops q) = waiting q \<and> ch_is_closed ops (ch_close ops q)"
    and room: "ch_capacity ops q = capacity - length (waiting q)"
begin

lemma bounded_send: "length (waiting q) \<le> capacity \<Longrightarrow> length (waiting (snd (ch_try_send ops m q))) \<le> capacity"
  using send_ok [of m q] send_ok_room [of m q] send_full [of m q] send_closed [of m q]
  by (cases "ch_try_send ops m q"; cases "fst (ch_try_send ops m q)") auto

lemma recv_cases: "ch_recv ops q = None \<and> waiting q = [] \<or> (\<exists>m q'. ch_recv ops q = Some (m, q') \<and> waiting q = m # waiting q')"
  using recv_none [of q] recv_some [of q] by (cases "ch_recv ops q") auto

lemma send_waiting:
  "waiting (snd (ch_try_send ops m q)) = waiting q @ (if fst (ch_try_send ops m q) = SendOk then [m] else [])"
  using send_ok [of m q] send_full [of m q] send_closed [of m q]
  by (cases "ch_try_send ops m q"; cases "fst (ch_try_send ops m q)") auto

end

section \<open>A bounded first-in first-out queue\<close>

record 'm bounded_fifo =
  bf_items :: "'m list"
  bf_closed :: bool

definition fifo_try_send :: "nat \<Rightarrow> 'm \<Rightarrow> 'm bounded_fifo \<Rightarrow> send_result \<times> 'm bounded_fifo" where
  "fifo_try_send cap m q =
     (if bf_closed q then (SendClosed, q)
      else if cap \<le> length (bf_items q) then (SendFull, q)
      else (SendOk, q\<lparr>bf_items := bf_items q @ [m]\<rparr>))"

definition fifo_recv :: "'m bounded_fifo \<Rightarrow> ('m \<times> 'm bounded_fifo) option" where
  "fifo_recv q = (case bf_items q of [] \<Rightarrow> None | m # ms \<Rightarrow> Some (m, q\<lparr>bf_items := ms\<rparr>))"

definition fifo_ops :: "nat \<Rightarrow> ('m bounded_fifo, 'm) channel_ops" where
  "fifo_ops cap = \<lparr>ch_try_send = fifo_try_send cap, ch_recv = fifo_recv, ch_is_closed = bf_closed,
     ch_close = bf_closed_update (\<lambda>_. True), ch_capacity = (\<lambda>q. cap - length (bf_items q))\<rparr>"

definition fifo_new :: "'m bounded_fifo" where
  "fifo_new = \<lparr>bf_items = [], bf_closed = False\<rparr>"

interpretation fifo: channel "fifo_ops cap" bf_items cap for cap
  by unfold_locales
    (auto simp: fifo_ops_def fifo_try_send_def fifo_recv_def split: if_splits list.splits)

end
