(* ===== verification/Write_Health.thy ===== *)
theory Write_Health
  imports Prelude
begin

text \<open>
  The failure reporting of \<^verbatim>\<open>src/src/sink.rs\<close>: \<^verbatim>\<open>WriteHealth\<close> thins out the reports
  of a failing output to one when it starts, one per interval while it lasts and one when it has
  recovered, and \<^verbatim>\<open>PrettyWriterState\<close> stops writing to a stdout whose reader is gone. An
  \<^verbatim>\<open>Instant\<close> and a \<^verbatim>\<open>Duration\<close> are nanoseconds.
\<close>

section \<open>State and operations\<close>

definition secs :: "nat \<Rightarrow> nat" where
  "secs n = n * 1000000000"

definition PRETTY_FAILURE_REPORT_INTERVAL :: nat where
  "PRETTY_FAILURE_REPORT_INTERVAL = secs (10 * 60)"

definition PRETTY_RECOVERY_QUIET_PERIOD :: nat where
  "PRETTY_RECOVERY_QUIET_PERIOD = secs 60"

record failure_streak =
  fs_since :: nat
  fs_failures :: u64
  fs_last_failure :: nat
  fs_last_report :: nat

record write_health =
  failing :: "failure_streak option"

definition default_health :: write_health where
  "default_health = \<lparr>failing = None\<rparr>"

datatype health_report =
    Silent
  | Started
  | Ongoing u64 nat
  | Recovered u64 nat

text \<open>\<^verbatim>\<open>saturating_duration_since\<close> is truncated subtraction.\<close>

definition on_failure :: "nat \<Rightarrow> write_health \<Rightarrow> health_report \<times> write_health" where
  "on_failure now h = (case failing h of
       None \<Rightarrow> (Started, h\<lparr>failing := Some \<lparr>fs_since = now, fs_failures = 1, fs_last_failure = now, fs_last_report = now\<rparr>\<rparr>)
     | Some s \<Rightarrow>
         let s = s\<lparr>fs_failures := saturating_add (fs_failures s) 1, fs_last_failure := now\<rparr>
         in if now - fs_last_report s < PRETTY_FAILURE_REPORT_INTERVAL
            then (Silent, h\<lparr>failing := Some s\<rparr>)
            else (Ongoing (fs_failures s) (now - fs_since s), h\<lparr>failing := Some (s\<lparr>fs_last_report := now\<rparr>)\<rparr>))"

definition on_success :: "nat \<Rightarrow> write_health \<Rightarrow> health_report \<times> write_health" where
  "on_success now h = (case failing h of
       Some s \<Rightarrow>
         if PRETTY_RECOVERY_QUIET_PERIOD \<le> now - fs_last_failure s
         then (Recovered (fs_failures s) (now - fs_since s), h\<lparr>failing := None\<rparr>)
         else (Silent, h)
     | None \<Rightarrow> (Silent, h))"

definition unresolved :: "nat \<Rightarrow> write_health \<Rightarrow> (u64 \<times> nat \<times> nat) option" where
  "unresolved now h = map_option (\<lambda>s. (fs_failures s, now - fs_since s, now - fs_last_failure s)) (failing h)"

section \<open>A pretty writer\<close>

datatype write_outcome = Written | BrokenPipe | OtherError

record pretty_writer_state =
  broken_pipe :: bool
  health :: write_health

definition default_writer_state :: pretty_writer_state where
  "default_writer_state = \<lparr>broken_pipe = False, health = default_health\<rparr>"

definition should_write :: "pretty_writer_state \<Rightarrow> bool" where
  "should_write s = (\<not> broken_pipe s)"

definition record_result :: "bool \<Rightarrow> write_outcome \<Rightarrow> nat \<Rightarrow> pretty_writer_state \<Rightarrow> health_report \<times> pretty_writer_state" where
  "record_result is_stdout result now s =
     (if result = Written then
        let (report, h) = on_success now (health s) in (report, s\<lparr>health := h\<rparr>)
      else if result = BrokenPipe \<and> is_stdout then (Silent, s\<lparr>broken_pipe := True\<rparr>)
      else let (report, h) = on_failure now (health s) in (report, s\<lparr>health := h\<rparr>))"

section \<open>Runs of results\<close>

text \<open>A run of write results with the time of each, and the reports that are not silent.\<close>

definition health_step :: "nat \<times> bool \<Rightarrow> write_health \<Rightarrow> health_report \<times> write_health" where
  "health_step ev h = (if snd ev then on_success (fst ev) h else on_failure (fst ev) h)"

fun health_run :: "(nat \<times> bool) list \<Rightarrow> write_health \<Rightarrow> (nat \<times> health_report) list \<times> write_health" where
  "health_run [] h = ([], h)"
| "health_run (ev # evs) h = (let (r, h') = health_step ev h; (rs, h'') = health_run evs h'
     in (if r = Silent then rs else (fst ev, r) # rs, h''))"

text \<open>
  The protocol of the reports: outside an outage only \<open>Started\<close> can come, inside one only
  \<open>Ongoing\<close> and \<open>Recovered\<close>. The result is whether an outage is open.
\<close>

fun protocol :: "health_report list \<Rightarrow> bool \<Rightarrow> bool option" where
  "protocol [] opened = Some opened"
| "protocol (Silent # rs) opened = None"
| "protocol (Started # rs) opened = (if opened then None else protocol rs True)"
| "protocol (Ongoing _ _ # rs) opened = (if opened then protocol rs True else None)"
| "protocol (Recovered _ _ # rs) opened = (if opened then protocol rs False else None)"

lemma health_run_protocol:
  "health_run evs h = (rs, h') \<Longrightarrow> protocol (map snd rs) (failing h \<noteq> None) = Some (failing h' \<noteq> None)"
proof (induction evs arbitrary: h rs)
  case (Cons ev evs)
  obtain r h1 where s: "health_step ev h = (r, h1)" by (cases "health_step ev h")
  obtain rs1 h2 where run: "health_run evs h1 = (rs1, h2)" by (cases "health_run evs h1")
  have IH: "protocol (map snd rs1) (failing h1 \<noteq> None) = Some (failing h' \<noteq> None)"
    using Cons.IH [of h1 rs1] Cons.prems s run by simp
  have rs: "rs = (if r = Silent then rs1 else (fst ev, r) # rs1)" using Cons.prems s run by simp
  show ?case
    using s IH by (cases r) (auto simp: rs health_step_def on_failure_def on_success_def Let_def split: if_splits option.splits)
qed simp

fun outages :: "(nat \<times> health_report) list \<Rightarrow> nat" where
  "outages [] = 0"
| "outages ((_, Recovered _ _) # rs) = Suc (outages rs)"
| "outages (_ # rs) = outages rs"

fun reminders :: "(nat \<times> health_report) list \<Rightarrow> nat" where
  "reminders [] = 0"
| "reminders ((_, Ongoing _ _) # rs) = Suc (reminders rs)"
| "reminders (_ # rs) = reminders rs"

lemma report_count:
  "protocol (map snd rs) opened = Some opened' \<Longrightarrow>
     length rs + (if opened then 1 else 0) = 2 * outages rs + reminders rs + (if opened' then 1 else 0)"
proof (induction rs arbitrary: opened)
  case (Cons x rs)
  obtain t r where x: "x = (t, r)" by (cases x)
  show ?case
    using Cons.IH [of True] Cons.IH [of False] Cons.prems by (cases r) (auto simp: x split: if_splits)
qed simp

text \<open>
  While time does not run backwards, closed outages take at least the quiet period each, and
  reminders are at least the interval apart.
\<close>

definition clock_ok :: "nat \<Rightarrow> nat \<Rightarrow> nat \<Rightarrow> nat \<Rightarrow> write_health \<Rightarrow> bool" where
  "clock_ok t0 n m now h \<longleftrightarrow> (case failing h of
       None \<Rightarrow> t0 + n * PRETTY_RECOVERY_QUIET_PERIOD \<le> now \<and> t0 + m * PRETTY_FAILURE_REPORT_INTERVAL \<le> now
     | Some s \<Rightarrow> t0 + n * PRETTY_RECOVERY_QUIET_PERIOD \<le> fs_last_failure s \<and> fs_last_failure s \<le> now \<and>
         t0 + m * PRETTY_FAILURE_REPORT_INTERVAL \<le> fs_last_report s \<and> fs_last_report s \<le> now)"

lemma clock_ok_step:
  assumes "clock_ok t0 n m now h" and "now \<le> t" and "health_step (t, ok) h = (r, h')"
  shows "clock_ok t0 (n + outages [(t, r)]) (m + reminders [(t, r)]) t h'"
  using assms
  by (auto simp: clock_ok_def health_step_def on_failure_def on_success_def Let_def split: option.splits if_splits)

lemma clock_ok_run:
  "clock_ok t0 n m now h \<Longrightarrow> sorted (now # map fst evs) \<Longrightarrow> health_run evs h = (rs, h') \<Longrightarrow>
     clock_ok t0 (n + outages rs) (m + reminders rs) (last (now # map fst evs)) h'"
proof (induction evs arbitrary: n m now h rs)
  case (Cons ev evs)
  obtain t ok where ev: "ev = (t, ok)" by (cases ev)
  obtain r h1 where s: "health_step (t, ok) h = (r, h1)" by (cases "health_step (t, ok) h")
  obtain rs1 h2 where run: "health_run evs h1 = (rs1, h2)" by (cases "health_run evs h1")
  have "clock_ok t0 (n + outages [(t, r)]) (m + reminders [(t, r)]) t h1"
    using clock_ok_step [OF Cons.prems(1) _ s] Cons.prems(2) by (simp add: ev)
  from Cons.IH [OF this, of rs1] show ?case
    using Cons.prems(2,3) s run by (cases r) (auto simp: ev)
qed simp

lemma clock_ok_bounds:
  "clock_ok t0 n m now h \<Longrightarrow> t0 + n * PRETTY_RECOVERY_QUIET_PERIOD \<le> now \<and> t0 + m * PRETTY_FAILURE_REPORT_INTERVAL \<le> now"
  by (auto simp: clock_ok_def split: option.splits)

lemma report_rate:
  assumes "health_run evs default_health = (rs, h)" and "sorted (t0 # map fst evs)"
    and "T = last (t0 # map fst evs) - t0"
  shows "length rs \<le> 1 + 2 * (T div PRETTY_RECOVERY_QUIET_PERIOD) + T div PRETTY_FAILURE_REPORT_INTERVAL"
proof -
  define last_t where "last_t = last (t0 # map fst evs)"
  have "clock_ok t0 (0 + outages rs) (0 + reminders rs) last_t h"
    unfolding last_t_def by (rule clock_ok_run [OF _ assms(2,1)]) (simp add: clock_ok_def default_health_def)
  from clock_ok_bounds [OF this] have "t0 + outages rs * PRETTY_RECOVERY_QUIET_PERIOD \<le> last_t"
    "t0 + reminders rs * PRETTY_FAILURE_REPORT_INTERVAL \<le> last_t" by simp_all
  then have "outages rs * PRETTY_RECOVERY_QUIET_PERIOD \<le> T" "reminders rs * PRETTY_FAILURE_REPORT_INTERVAL \<le> T"
    unfolding assms(3) last_t_def [symmetric] by linarith+
  then have "outages rs \<le> T div PRETTY_RECOVERY_QUIET_PERIOD" "reminders rs \<le> T div PRETTY_FAILURE_REPORT_INTERVAL"
    by (simp_all add: less_eq_div_iff_mult_less_eq PRETTY_RECOVERY_QUIET_PERIOD_def PRETTY_FAILURE_REPORT_INTERVAL_def secs_def)
  moreover have "length rs \<le> 2 * outages rs + reminders rs + 1"
    using report_count [OF health_run_protocol [OF assms(1)]] by (simp add: default_health_def split: if_splits)
  ultimately show ?thesis by linarith
qed

section \<open>A closed stdout\<close>

definition writer_run :: "bool \<Rightarrow> (write_outcome \<times> nat) list \<Rightarrow> pretty_writer_state \<Rightarrow> pretty_writer_state" where
  "writer_run is_stdout rs s =
     fold (\<lambda>(r, t) s. if should_write s then snd (record_result is_stdout r t s) else s) rs s"

lemma writer_run_broken:
  "broken_pipe (writer_run is_stdout rs s) \<longleftrightarrow> broken_pipe s \<or> (is_stdout \<and> BrokenPipe \<in> fst ` set rs)"
proof (induction rs arbitrary: s)
  case (Cons x rs)
  obtain r t where x: "x = (r, t)" by (cases x)
  have "broken_pipe (snd (record_result is_stdout r t s)) \<longleftrightarrow> broken_pipe s \<or> (is_stdout \<and> r = BrokenPipe)"
    by (auto simp: record_result_def Let_def split: prod.splits)
  moreover have "writer_run is_stdout (x # rs) s = writer_run is_stdout rs
      (if should_write s then snd (record_result is_stdout r t s) else s)"
    by (simp add: writer_run_def x)
  ultimately show ?case using Cons by (auto simp: x should_write_def)
qed (simp add: writer_run_def)

text \<open>A short outage: two failures, a success too early and one after the quiet period.\<close>

lemma sample_health:
  "health_run [(0, False), (secs 5, False), (secs 30, True), (secs 70, True)] default_health =
     ([(0, Started), (secs 70, Recovered 2 (secs 70))], default_health)"
  by (simp add: health_step_def on_failure_def on_success_def default_health_def secs_def
      PRETTY_FAILURE_REPORT_INTERVAL_def PRETTY_RECOVERY_QUIET_PERIOD_def saturating_add_def Let_def)

end
