(* ===== verification/Pretty_Queue.thy ===== *)
theory Pretty_Queue
  imports Channel Write_Health "HOL-Library.Multiset"
begin

text \<open>
  The queues of human-readable output in \<^verbatim>\<open>src/src/sink.rs\<close>: every output has a bounded
  channel, a budget of bytes and a writer task of its own. Handlers enqueue concurrently: the
  atomic addition to the byte counter and what follows it are separate steps, so other handlers
  and the writer can come in between. The channel is the parameter of \<^verbatim>\<open>Channel\<close>.
\<close>

unbundle bit_operations_syntax

section \<open>Jobs and outputs\<close>

text \<open>A job carries the name of the one-shot channel that is answered when it has been handled.\<close>

record pretty_job =
  pj_rendered :: str
  pj_want_summary :: bool
  pj_sync :: "nat option"

datatype drop_reason = WriterStopped | QueueFull | ByteBudget

record 'q pretty_output =
  po_tx :: 'q
  po_color :: bool
  po_queued_bytes :: u64
  po_max_queued_bytes :: u64
  po_dropped :: u64
  po_stop_reported :: bool

definition PRETTY_QUEUE_CAPACITY :: nat where
  "PRETTY_QUEUE_CAPACITY = 256"

definition PRETTY_QUEUE_MAX_BYTES :: u64 where
  "PRETTY_QUEUE_MAX_BYTES = 64 * 1024 * 1024"

definition po_spawn :: "'q \<Rightarrow> bool \<Rightarrow> 'q pretty_output" where
  "po_spawn tx color = \<lparr>po_tx = tx, po_color = color, po_queued_bytes = 0,
     po_max_queued_bytes = PRETTY_QUEUE_MAX_BYTES, po_dropped = 0, po_stop_reported = False\<rparr>"

section \<open>Dropping\<close>

definition is_power_of_two :: "u64 \<Rightarrow> bool" where
  "is_power_of_two n \<longleftrightarrow> n \<noteq> 0 \<and> n AND (n - 1) = 0"

text \<open>What is written to the diagnostics: the first stop as an error, the rest thinned out.\<close>

datatype drop_report = NoReport | StopError u64 | StopWarn u64 | BehindWarn u64 drop_reason

definition report_drop :: "drop_reason \<Rightarrow> 'q pretty_output \<Rightarrow> drop_report \<times> 'q pretty_output" where
  "report_drop reason po = (let po = po\<lparr>po_dropped := po_dropped po + 1\<rparr>; dropped = po_dropped po in
     if reason = WriterStopped then
       let reported = po_stop_reported po; po = po\<lparr>po_stop_reported := True\<rparr> in
         if \<not> reported then (StopError dropped, po)
         else if is_power_of_two dropped then (StopWarn dropped, po)
         else (NoReport, po)
     else if is_power_of_two dropped then (BehindWarn dropped reason, po)
     else (NoReport, po))"

section \<open>Enqueueing\<close>

definition str_len :: "str \<Rightarrow> u64" where
  "str_len s = of_nat (length s)"

text \<open>\<^verbatim>\<open>fetch_add\<close>: the counter before, and whether the batch is over the budget.\<close>

definition reserve :: "str \<Rightarrow> 'q pretty_output \<Rightarrow> bool \<times> 'q pretty_output" where
  "reserve rendered po = (let queued = po_queued_bytes po in
     (po_max_queued_bytes po < saturating_add queued (str_len rendered),
      po\<lparr>po_queued_bytes := queued + str_len rendered\<rparr>))"

definition submit :: "('q, pretty_job) channel_ops \<Rightarrow> str \<Rightarrow> bool \<Rightarrow> bool \<Rightarrow> 'q pretty_output \<Rightarrow> drop_reason option \<times> 'q pretty_output" where
  "submit ops rendered want_summary over_budget po =
     (if ch_is_closed ops (po_tx po) then (Some WriterStopped, po)
      else if over_budget then (Some ByteBudget, po)
      else let job = \<lparr>pj_rendered = rendered, pj_want_summary = want_summary, pj_sync = None\<rparr> in
        (case ch_try_send ops job (po_tx po) of
           (SendOk, q) \<Rightarrow> (None, po\<lparr>po_tx := q\<rparr>)
         | (SendFull, q) \<Rightarrow> (Some QueueFull, po\<lparr>po_tx := q\<rparr>)
         | (SendClosed, q) \<Rightarrow> (Some WriterStopped, po\<lparr>po_tx := q\<rparr>)))"

definition settle :: "str \<Rightarrow> drop_reason option \<Rightarrow> 'q pretty_output \<Rightarrow> drop_report \<times> 'q pretty_output" where
  "settle rendered reason po = (case reason of
       None \<Rightarrow> (NoReport, po)
     | Some r \<Rightarrow> report_drop r (po\<lparr>po_queued_bytes := po_queued_bytes po - str_len rendered\<rparr>))"

definition finish_enqueue ::
    "('q, pretty_job) channel_ops \<Rightarrow> str \<Rightarrow> bool \<Rightarrow> bool \<Rightarrow> 'q pretty_output \<Rightarrow> drop_reason option \<times> drop_report \<times> 'q pretty_output" where
  "finish_enqueue ops rendered want_summary over_budget po =
     (case submit ops rendered want_summary over_budget po of
        (reason, po) \<Rightarrow> (reason, settle rendered reason po))"

definition enqueue ::
    "('q, pretty_job) channel_ops \<Rightarrow> str \<Rightarrow> bool \<Rightarrow> 'q pretty_output \<Rightarrow> drop_reason option \<times> drop_report \<times> 'q pretty_output" where
  "enqueue ops rendered want_summary po =
     (case reserve rendered po of (over_budget, po) \<Rightarrow> finish_enqueue ops rendered want_summary over_budget po)"

text \<open>The synchronisation job of \<^verbatim>\<open>drain\<close>; it has no bytes.\<close>

definition sync_job :: "nat \<Rightarrow> pretty_job" where
  "sync_job s = \<lparr>pj_rendered = [], pj_want_summary = False, pj_sync = Some s\<rparr>"

section \<open>The writer task\<close>

datatype writer_phase = Idle | Handling pretty_job | Exited "pretty_job option"   \<comment> \<open>the job lost with the task\<close>

text \<open>
  The state of one output: what handlers and writer share, the handlers between \<^verbatim>\<open>fetch_add\<close>
  and the rest of \<^verbatim>\<open>enqueue\<close>, the writer, the answered synchronisations, and the history of
  the jobs that were accepted and handled and of the drops.
\<close>

record 'q pretty_state =
  ps_out :: "'q pretty_output"
  ps_enqueuing :: "(str \<times> bool \<times> bool) list"   \<comment> \<open>rendered, want summary, over budget\<close>
  ps_phase :: writer_phase
  ps_writer :: pretty_writer_state
  ps_synced :: "nat list"
  ps_offered :: nat
  ps_accepted :: "pretty_job list"
  ps_handled :: "pretty_job list"
  ps_drops :: "(drop_reason \<times> drop_report) list"

definition ps_reserve :: "str \<Rightarrow> bool \<Rightarrow> 'q pretty_state \<Rightarrow> 'q pretty_state" where
  "ps_reserve rendered want_summary s = (case reserve rendered (ps_out s) of
     (over, po) \<Rightarrow> s\<lparr>ps_out := po, ps_enqueuing := ps_enqueuing s @ [(rendered, want_summary, over)], ps_offered := Suc (ps_offered s)\<rparr>)"

definition ps_finish :: "('q, pretty_job) channel_ops \<Rightarrow> nat \<Rightarrow> 'q pretty_state \<Rightarrow> 'q pretty_state" where
  "ps_finish ops i s = (case ps_enqueuing s ! i of
     (rendered, want_summary, over) \<Rightarrow> (case finish_enqueue ops rendered want_summary over (ps_out s) of
        (reason, report, po) \<Rightarrow>
          s\<lparr>ps_out := po, ps_enqueuing := take i (ps_enqueuing s) @ drop (Suc i) (ps_enqueuing s),
            ps_accepted := ps_accepted s @ (if reason = None
              then [\<lparr>pj_rendered = rendered, pj_want_summary = want_summary, pj_sync = None\<rparr>] else []),
            ps_drops := ps_drops s @ (case reason of None \<Rightarrow> [] | Some r \<Rightarrow> [(r, report)])\<rparr>))"

text \<open>\<^verbatim>\<open>tx.send(job).await\<close> takes effect when there is room.\<close>

definition ps_sync :: "('q, pretty_job) channel_ops \<Rightarrow> nat \<Rightarrow> 'q pretty_state \<Rightarrow> 'q pretty_state" where
  "ps_sync ops n s = (case ch_try_send ops (sync_job n) (po_tx (ps_out s)) of
     (SendOk, q) \<Rightarrow> s\<lparr>ps_out := (ps_out s)\<lparr>po_tx := q\<rparr>, ps_accepted := ps_accepted s @ [sync_job n]\<rparr>
   | _ \<Rightarrow> s)"

definition writer_recv :: "('q, pretty_job) channel_ops \<Rightarrow> 'q pretty_state \<Rightarrow> 'q pretty_state" where
  "writer_recv ops s = (case ch_recv ops (po_tx (ps_out s)) of
     None \<Rightarrow> s
   | Some (job, q) \<Rightarrow> s\<lparr>ps_out := (ps_out s)\<lparr>po_tx := q\<rparr>, ps_phase := Handling job\<rparr>)"

text \<open>The rest of the round: write unless there is nothing to write, free the bytes, answer.\<close>

definition writer_handle :: "bool \<Rightarrow> pretty_job \<Rightarrow> write_outcome \<Rightarrow> nat \<Rightarrow> 'q pretty_state \<Rightarrow> 'q pretty_state" where
  "writer_handle is_stdout job result now s =
     s\<lparr>ps_writer := (if should_write (ps_writer s) \<and> pj_rendered job \<noteq> []
          then snd (record_result is_stdout result now (ps_writer s)) else ps_writer s),
       ps_out := (ps_out s)\<lparr>po_queued_bytes := po_queued_bytes (ps_out s) - str_len (pj_rendered job)\<rparr>,
       ps_synced := ps_synced s @ (case pj_sync job of None \<Rightarrow> [] | Some n \<Rightarrow> [n]),
       ps_handled := ps_handled s @ [job],
       ps_phase := Idle\<rparr>"

text \<open>
  The task ends when it is dropped with its runtime; that closes the channel, and what it has not
  handled is lost without being taken off the counter.
\<close>

definition writer_stop :: "('q, pretty_job) channel_ops \<Rightarrow> 'q pretty_state \<Rightarrow> 'q pretty_state" where
  "writer_stop ops s = s\<lparr>ps_phase := Exited (case ps_phase s of Handling job \<Rightarrow> Some job | _ \<Rightarrow> None),
     ps_out := (ps_out s)\<lparr>po_tx := ch_close ops (po_tx (ps_out s))\<rparr>\<rparr>"

text \<open>
  One step of a handler, of the shutdown or of the writer. The strings that are counted are all
  in memory, so the counter has room for one more.
\<close>

inductive pretty_step :: "('q, pretty_job) channel_ops \<Rightarrow> bool \<Rightarrow> 'q pretty_state \<Rightarrow> 'q pretty_state \<Rightarrow> bool"
  for ops :: "('q, pretty_job) channel_ops" and is_stdout :: bool where
  Reserve: "unat (po_queued_bytes (ps_out s)) + length rendered < 2 ^ 64 \<Longrightarrow>
    pretty_step ops is_stdout s (ps_reserve rendered want_summary s)"
| Finish: "i < length (ps_enqueuing s) \<Longrightarrow> pretty_step ops is_stdout s (ps_finish ops i s)"
| Sync: "pretty_step ops is_stdout s (ps_sync ops n s)"
| Recv: "ps_phase s = Idle \<Longrightarrow> pretty_step ops is_stdout s (writer_recv ops s)"
| Handle: "ps_phase s = Handling job \<Longrightarrow> pretty_step ops is_stdout s (writer_handle is_stdout job result now s)"
| Stop: "ps_phase s \<in> {Idle, Handling job} \<Longrightarrow> pretty_step ops is_stdout s (writer_stop ops s)"

definition pretty_start :: "'q \<Rightarrow> bool \<Rightarrow> 'q pretty_state" where
  "pretty_start q color = \<lparr>ps_out = po_spawn q color, ps_enqueuing = [], ps_phase = Idle, ps_writer = default_writer_state,
     ps_synced = [], ps_offered = 0, ps_accepted = [], ps_handled = [], ps_drops = []\<rparr>"

inductive pretty_reachable :: "('q, pretty_job) channel_ops \<Rightarrow> bool \<Rightarrow> 'q pretty_state \<Rightarrow> 'q pretty_state \<Rightarrow> bool"
  for ops :: "('q, pretty_job) channel_ops" and is_stdout :: bool and s0 :: "'q pretty_state" where
  Start: "pretty_reachable ops is_stdout s0 s0"
| Step: "pretty_reachable ops is_stdout s0 s \<Longrightarrow> pretty_step ops is_stdout s s' \<Longrightarrow> pretty_reachable ops is_stdout s0 s'"

section \<open>The budget of bytes\<close>

text \<open>
  The strings that are counted, in the order of their additions to the counter, each with the
  value of the counter after it and whether the queue has accepted it. The counter was at least
  the sum of everything that still counts and came before.
\<close>

type_synonym counted_string = "nat \<times> nat \<times> bool"

abbreviation cs_len :: "counted_string \<Rightarrow> nat" where "cs_len \<equiv> fst"
abbreviation cs_top :: "counted_string \<Rightarrow> nat" where "cs_top x \<equiv> fst (snd x)"
abbreviation cs_accepted :: "counted_string \<Rightarrow> bool" where "cs_accepted x \<equiv> snd (snd x)"

fun covered :: "nat \<Rightarrow> counted_string list \<Rightarrow> bool" where
  "covered n [] = True"
| "covered n (x # xs) = (n + cs_len x \<le> cs_top x \<and> covered (n + cs_len x) xs)"

lemma covered_mono: "covered n xs \<Longrightarrow> m \<le> n \<Longrightarrow> covered m xs"
proof (induction xs arbitrary: m n)
  case (Cons x xs)
  from Cons.IH [of "n + cs_len x" "m + cs_len x"] Cons.prems show ?case by simp
qed simp

lemma covered_append: "covered n (xs @ ys) \<longleftrightarrow> covered n xs \<and> covered (n + sum_list (map cs_len xs)) ys"
  by (induction xs arbitrary: n) (auto simp: add.assoc)

lemma covered_remove: "covered n (xs @ x # ys) \<Longrightarrow> covered n (xs @ ys)"
  using covered_mono [of "n + sum_list (map cs_len xs) + cs_len x" ys "n + sum_list (map cs_len xs)"]
  by (simp add: covered_append)

lemma covered_accept: "covered n (xs @ (l, t, a) # ys) \<Longrightarrow> covered n (xs @ (l, t, b) # ys)"
  by (simp add: covered_append)

lemma covered_bound:
  "covered n xs \<Longrightarrow> \<forall>x \<in> set xs. cs_accepted x \<longrightarrow> cs_top x \<le> limit \<Longrightarrow> \<exists>x \<in> set xs. cs_accepted x \<Longrightarrow>
     n + sum_list (map cs_len (filter cs_accepted xs)) \<le> limit"
proof (induction xs arbitrary: n)
  case (Cons x xs)
  show ?case
  proof (cases "\<exists>y \<in> set xs. cs_accepted y")
    case True
    with Cons have "n + cs_len x + sum_list (map cs_len (filter cs_accepted xs)) \<le> limit" by simp
    then show ?thesis by simp
  next
    case False
    then have "filter cs_accepted xs = []" by (simp add: filter_empty_conv)
    with Cons.prems False show ?thesis by auto
  qed
qed simp

section \<open>Invariants\<close>

definition job_len :: "pretty_job \<Rightarrow> nat" where
  "job_len job = length (pj_rendered job)"

definition batch_lens :: "pretty_job list \<Rightarrow> nat multiset" where
  "batch_lens jobs = mset (map job_len (filter (\<lambda>job. pj_sync job = None) jobs))"

text \<open>The counted strings match the handlers that are enqueueing and the accepted jobs.\<close>

definition matches :: "counted_string list \<Rightarrow> (str \<times> bool \<times> bool) list \<Rightarrow> pretty_job list \<Rightarrow> nat \<Rightarrow> bool" where
  "matches live enqueuing jobs limit \<longleftrightarrow>
     mset (map cs_len (filter cs_accepted live)) = batch_lens jobs \<and>
     mset (map (\<lambda>x. (cs_len x, limit < cs_top x)) (filter (\<lambda>x. \<not> cs_accepted x) live)) =
       mset (map (\<lambda>(rendered, _, over). (length rendered, over)) enqueuing)"

definition within_budget :: "u64 \<Rightarrow> u64 \<Rightarrow> (str \<times> bool \<times> bool) list \<Rightarrow> pretty_job list \<Rightarrow> bool" where
  "within_budget queued limit enqueuing jobs \<longleftrightarrow> (\<exists>live. covered 0 live \<and>
     (\<forall>x \<in> set live. cs_accepted x \<longrightarrow> cs_top x \<le> unat limit) \<and>
     sum_list (map cs_len live) = unat queued \<and> matches live enqueuing jobs (unat limit))"

definition jobs_in_hand :: "writer_phase \<Rightarrow> pretty_job list" where
  "jobs_in_hand p = (case p of Idle \<Rightarrow> [] | Handling job \<Rightarrow> [job] | Exited None \<Rightarrow> [] | Exited (Some job) \<Rightarrow> [job])"

lemma live_enqueuing:
  assumes "matches live enqueuing jobs limit" and "i < length enqueuing" and "enqueuing ! i = (rendered, want, over)"
  obtains xs ys t where "live = xs @ (length rendered, t, False) # ys" "over \<longleftrightarrow> limit < t"
proof -
  have "(length rendered, over) \<in> set (map (\<lambda>(rendered, _, over). (length rendered, over)) enqueuing)"
    using nth_mem [OF assms(2)] by (auto simp: assms(3) intro!: image_eqI [of _ _ "(rendered, want, over)"])
  also have "set (map (\<lambda>(rendered, _, over). (length rendered, over)) enqueuing) =
      set (map (\<lambda>x. (cs_len x, limit < cs_top x)) (filter (\<lambda>x. \<not> cs_accepted x) live))"
    using assms(1) mset_eq_setD unfolding matches_def by blast
  finally obtain x where x: "x \<in> set live" "\<not> cs_accepted x" "cs_len x = length rendered" "over \<longleftrightarrow> limit < cs_top x"
    by auto
  obtain xs ys where "live = xs @ x # ys" using x(1) by (meson split_list)
  moreover have "x = (length rendered, cs_top x, False)" using x by (simp add: prod_eq_iff)
  ultimately show ?thesis using that [of xs "cs_top x" ys] x(4) by argo
qed

lemma live_job:
  assumes "matches live enqueuing jobs limit" and "job \<in> set jobs" and "pj_sync job = None"
  obtains xs ys t where "live = xs @ (job_len job, t, True) # ys"
proof -
  have "job_len job \<in># batch_lens jobs" using assms(2,3) by (simp add: batch_lens_def)
  also have "batch_lens jobs = mset (map cs_len (filter cs_accepted live))" using assms(1) by (simp add: matches_def)
  finally obtain x where x: "x \<in> set live" "cs_accepted x" "cs_len x = job_len job" by auto
  obtain xs ys where "live = xs @ x # ys" using x(1) by (meson split_list)
  moreover have "x = (job_len job, cs_top x, True)" using x by (simp add: prod_eq_iff)
  ultimately show ?thesis using that [of xs "cs_top x" ys] by argo
qed

lemma enqueuing_remove:
  "i < length xs \<Longrightarrow> mset xs = add_mset (xs ! i) (mset (take i xs @ drop (Suc i) xs))"
proof -
  assume i: "i < length xs"
  have "mset xs = mset (take i xs @ xs ! i # drop (Suc i) xs)"
    using arg_cong [OF id_take_nth_drop [OF i], of mset] .
  then show ?thesis by simp
qed

lemma budget_reserve:
  assumes "within_budget queued limit enqueuing jobs" and "unat queued + length rendered < 2 ^ 64"
  shows "within_budget (queued + str_len rendered) limit
    (enqueuing @ [(rendered, want, limit < saturating_add queued (str_len rendered))]) jobs"
proof -
  from assms(1) obtain live where live: "covered 0 live" "\<forall>x \<in> set live. cs_accepted x \<longrightarrow> cs_top x \<le> unat limit"
    "sum_list (map cs_len live) = unat queued" "matches live enqueuing jobs (unat limit)"
    by (auto simp: within_budget_def)
  have len: "unat (str_len rendered) = length rendered"
    using assms(2) by (simp add: str_len_def unat_of_nat)
  have top: "limit < saturating_add queued (str_len rendered) \<longleftrightarrow> unat limit < unat queued + length rendered"
    using assms(2) by (simp add: word_less_nat_alt unat_saturating_add len)
  have sum: "unat (queued + str_len rendered) = unat queued + length rendered"
    using unat_add_lem [of queued "str_len rendered"] assms(2) by (simp add: len)
  let ?live = "live @ [(length rendered, unat queued + length rendered, False)]"
  have "covered 0 ?live" using live by (simp add: covered_append)
  moreover have "matches ?live (enqueuing @ [(rendered, want, limit < saturating_add queued (str_len rendered))]) jobs (unat limit)"
    using live(4) by (simp add: matches_def top)
  ultimately show ?thesis
    using live sum unfolding within_budget_def by (intro exI [of _ ?live]) auto
qed

lemma counter_sub:
  assumes "length rendered + n = unat queued"
  shows "unat (queued - str_len rendered) = n"
proof -
  have "length rendered < 2 ^ 64" using assms unsigned_less [of queued] by (simp add: le_less_trans [of _ "unat queued"])
  then have len: "unat (str_len rendered) = length rendered" by (simp add: str_len_def unat_of_nat)
  then have "str_len rendered \<le> queued" using assms by (simp add: word_le_nat_alt)
  from unat_sub [OF this] show ?thesis using assms len by simp
qed

lemma budget_drop:
  assumes b: "within_budget queued limit enqueuing jobs" and i: "i < length enqueuing" "enqueuing ! i = (rendered, want, over)"
  shows "within_budget (queued - str_len rendered) limit (take i enqueuing @ drop (Suc i) enqueuing) jobs"
proof -
  from b obtain live where live: "covered 0 live" "\<forall>x \<in> set live. cs_accepted x \<longrightarrow> cs_top x \<le> unat limit"
    "sum_list (map cs_len live) = unat queued" "matches live enqueuing jobs (unat limit)"
    by (auto simp: within_budget_def)
  obtain xs ys t where split: "live = xs @ (length rendered, t, False) # ys" "over \<longleftrightarrow> unat limit < t"
    using live_enqueuing [OF live(4) i] .
  have "covered 0 (xs @ ys)" using live(1) unfolding split(1) by (rule covered_remove)
  moreover have "sum_list (map cs_len (xs @ ys)) = unat (queued - str_len rendered)"
    using counter_sub [of rendered "sum_list (map cs_len (xs @ ys))" queued] live(3) by (simp add: split(1))
  moreover have "matches (xs @ ys) (take i enqueuing @ drop (Suc i) enqueuing) jobs (unat limit)"
    using live(4) i(2) by (simp add: matches_def enqueuing_remove [OF i(1)] split)
  ultimately show ?thesis using live(2) unfolding within_budget_def by (intro exI [of _ "xs @ ys"]) (simp add: split(1))
qed

lemma budget_accept:
  assumes b: "within_budget queued limit enqueuing jobs" and i: "i < length enqueuing" "enqueuing ! i = (rendered, want, False)"
    and jobs: "batch_lens jobs' = add_mset (length rendered) (batch_lens jobs)"
  shows "within_budget queued limit (take i enqueuing @ drop (Suc i) enqueuing) jobs'"
proof -
  from b obtain live where live: "covered 0 live" "\<forall>x \<in> set live. cs_accepted x \<longrightarrow> cs_top x \<le> unat limit"
    "sum_list (map cs_len live) = unat queued" "matches live enqueuing jobs (unat limit)"
    by (auto simp: within_budget_def)
  obtain xs ys t where split: "live = xs @ (length rendered, t, False) # ys" "\<not> unat limit < t"
    using live_enqueuing [OF live(4) i] by blast
  let ?live = "xs @ (length rendered, t, True) # ys"
  have "covered 0 ?live" using live(1) unfolding split(1) by (rule covered_accept)
  moreover have "matches ?live (take i enqueuing @ drop (Suc i) enqueuing) jobs' (unat limit)"
    using live(4) i(2) split(2) by (simp add: matches_def enqueuing_remove [OF i(1)] jobs split(1))
  ultimately show ?thesis
    using live(2,3) split unfolding within_budget_def by (intro exI [of _ ?live]) auto
qed

lemma budget_jobs:
  "within_budget queued limit enqueuing jobs \<Longrightarrow> batch_lens jobs' = batch_lens jobs \<Longrightarrow> within_budget queued limit enqueuing jobs'"
  by (simp add: within_budget_def matches_def)

lemma budget_handled:
  assumes b: "within_budget queued limit enqueuing (job # jobs)" and sync: "pj_sync job \<noteq> None \<longrightarrow> pj_rendered job = []"
  shows "within_budget (queued - str_len (pj_rendered job)) limit enqueuing jobs"
proof (cases "pj_sync job")
  case (Some n)
  with b sync budget_jobs [OF b, of jobs] show ?thesis by (simp add: batch_lens_def str_len_def)
next
  case None
  from b obtain live where live: "covered 0 live" "\<forall>x \<in> set live. cs_accepted x \<longrightarrow> cs_top x \<le> unat limit"
    "sum_list (map cs_len live) = unat queued" "matches live enqueuing (job # jobs) (unat limit)"
    by (auto simp: within_budget_def)
  obtain xs t ys where split: "live = xs @ (job_len job, t, True) # ys"
    by (rule live_job [OF live(4) _ None]) simp_all
  have "covered 0 (xs @ ys)" using live(1) unfolding split(1) by (rule covered_remove)
  moreover have "sum_list (map cs_len (xs @ ys)) = unat (queued - str_len (pj_rendered job))"
    using counter_sub [of "pj_rendered job" "sum_list (map cs_len (xs @ ys))" queued] live(3) by (simp add: split(1) job_len_def)
  moreover have "matches (xs @ ys) enqueuing jobs (unat limit)"
    using live(4) None by (simp add: matches_def split batch_lens_def)
  ultimately show ?thesis using live(2) unfolding within_budget_def by (intro exI [of _ "xs @ ys"]) (simp add: split(1))
qed

lemma sum_batch_lens:
  "\<forall>job \<in> set jobs. pj_sync job \<noteq> None \<longrightarrow> pj_rendered job = [] \<Longrightarrow> sum_mset (batch_lens jobs) = sum_list (map job_len jobs)"
  by (induction jobs) (auto simp: batch_lens_def job_len_def)

lemma budget_bound:
  assumes "within_budget queued limit enqueuing jobs" and sync: "\<forall>job \<in> set jobs. pj_sync job \<noteq> None \<longrightarrow> pj_rendered job = []"
  shows "sum_list (map job_len jobs) \<le> unat limit \<and>
    unat queued = sum_list (map job_len jobs) + sum_list (map (\<lambda>(rendered, _). length rendered) enqueuing)"
proof -
  from assms(1) obtain live where live: "covered 0 live" "\<forall>x \<in> set live. cs_accepted x \<longrightarrow> cs_top x \<le> unat limit"
    "sum_list (map cs_len live) = unat queued" "matches live enqueuing jobs (unat limit)"
    by (auto simp: within_budget_def)
  have acc: "sum_list (map cs_len (filter cs_accepted live)) = sum_list (map job_len jobs)"
    using live(4) sum_batch_lens [OF sync] by (simp add: matches_def sum_mset_sum_list [symmetric])
  have "sum_list (map cs_len (filter (\<lambda>x. \<not> cs_accepted x) live)) = sum_list (map (\<lambda>(rendered, _). length rendered) enqueuing)"
  proof -
    have "image_mset fst (mset (map (\<lambda>x. (cs_len x, unat limit < cs_top x)) (filter (\<lambda>x. \<not> cs_accepted x) live))) =
        image_mset fst (mset (map (\<lambda>(rendered, _, over). (length rendered, over)) enqueuing))"
      using live(4) by (simp add: matches_def)
    then have "mset (map cs_len (filter (\<lambda>x. \<not> cs_accepted x) live)) = mset (map (\<lambda>(rendered, _). length rendered) enqueuing)"
      by (simp add: multiset.map_comp comp_def case_prod_beta')
    then show ?thesis by (metis sum_mset_sum_list)
  qed
  moreover have "sum_list (map cs_len live) = sum_list (map cs_len (filter cs_accepted live)) + sum_list (map cs_len (filter (\<lambda>x. \<not> cs_accepted x) live))"
    by (induction live) auto
  moreover have "sum_list (map cs_len (filter cs_accepted live)) \<le> unat limit"
  proof (cases "\<exists>x \<in> set live. cs_accepted x")
    case True
    with covered_bound [OF live(1,2)] show ?thesis by simp
  next
    case False
    then have "filter cs_accepted live = []" by (simp add: filter_empty_conv)
    then show ?thesis by simp
  qed
  ultimately show ?thesis using live(3) acc by simp
qed

section \<open>What holds in every reachable state\<close>

definition stop_errors :: "(drop_reason \<times> drop_report) list \<Rightarrow> nat" where
  "stop_errors drops = length (filter (\<lambda>(_, report). \<exists>n. report = StopError n) drops)"

locale pretty_channel = channel ops waiting capacity
  for ops :: "('q, pretty_job) channel_ops" and waiting :: "'q \<Rightarrow> pretty_job list" and capacity :: nat
begin

definition unhandled :: "'q pretty_state \<Rightarrow> pretty_job list" where
  "unhandled s = jobs_in_hand (ps_phase s) @ waiting (po_tx (ps_out s))"

definition budget_ok :: "'q pretty_state \<Rightarrow> bool" where
  "budget_ok s \<longleftrightarrow> within_budget (po_queued_bytes (ps_out s)) (po_max_queued_bytes (ps_out s)) (ps_enqueuing s) (unhandled s) \<and>
     (\<forall>job \<in> set (unhandled s). pj_sync job \<noteq> None \<longrightarrow> pj_rendered job = []) \<and>
     length (waiting (po_tx (ps_out s))) \<le> capacity"

definition history_ok :: "'q pretty_state \<Rightarrow> bool" where
  "history_ok s \<longleftrightarrow> ps_accepted s = ps_handled s @ unhandled s \<and>
     ps_synced s = List.map_filter pj_sync (ps_handled s) \<and>
     ps_offered s = length (ps_enqueuing s) + length (filter (\<lambda>job. pj_sync job = None) (ps_accepted s)) + length (ps_drops s) \<and>
     po_dropped (ps_out s) = of_nat (length (ps_drops s)) \<and>
     (po_stop_reported (ps_out s) \<longleftrightarrow> (\<exists>report. (WriterStopped, report) \<in> set (ps_drops s))) \<and>
     stop_errors (ps_drops s) = (if po_stop_reported (ps_out s) then 1 else 0)"

lemma submit_cases:
  assumes "submit ops rendered want over po = (reason, po')"
  shows "(reason = None \<longrightarrow> \<not> over \<and> length (waiting (po_tx po)) < capacity \<and>
      (\<exists>q. po' = po\<lparr>po_tx := q\<rparr> \<and> waiting q = waiting (po_tx po) @ [\<lparr>pj_rendered = rendered, pj_want_summary = want, pj_sync = None\<rparr>])) \<and>
    (reason \<noteq> None \<longrightarrow> po' = po)"
  using assms send_ok [of "\<lparr>pj_rendered = rendered, pj_want_summary = want, pj_sync = None\<rparr>" "po_tx po"]
    send_ok_room [of "\<lparr>pj_rendered = rendered, pj_want_summary = want, pj_sync = None\<rparr>" "po_tx po"]
    send_full [of "\<lparr>pj_rendered = rendered, pj_want_summary = want, pj_sync = None\<rparr>" "po_tx po"]
    send_closed [of "\<lparr>pj_rendered = rendered, pj_want_summary = want, pj_sync = None\<rparr>" "po_tx po"]
  by (auto simp: submit_def Let_def split: if_splits prod.splits send_result.splits)

lemma budget_start: "waiting q = [] \<Longrightarrow> budget_ok (pretty_start q color)"
  unfolding budget_ok_def within_budget_def
  by (auto simp: pretty_start_def po_spawn_def unhandled_def jobs_in_hand_def matches_def batch_lens_def intro!: exI [of _ "[]"])

lemma finish_eq:
  assumes "ps_enqueuing s ! i = (rendered, want, over)" and "submit ops rendered want over (ps_out s) = (reason, po)"
    and "settle rendered reason po = (report, po')"
  shows "ps_finish ops i s = s\<lparr>ps_out := po', ps_enqueuing := take i (ps_enqueuing s) @ drop (Suc i) (ps_enqueuing s),
      ps_accepted := ps_accepted s @ (if reason = None
        then [\<lparr>pj_rendered = rendered, pj_want_summary = want, pj_sync = None\<rparr>] else []),
      ps_drops := ps_drops s @ (case reason of None \<Rightarrow> [] | Some r \<Rightarrow> [(r, report)])\<rparr>"
  using assms by (simp add: ps_finish_def finish_enqueue_def)

lemma budget_ok_finish:
  assumes ok: "budget_ok s" and i: "i < length (ps_enqueuing s)"
  shows "budget_ok (ps_finish ops i s)"
proof -
  obtain rendered want over where e: "ps_enqueuing s ! i = (rendered, want, over)" by (cases "ps_enqueuing s ! i")
  obtain reason po where sub: "submit ops rendered want over (ps_out s) = (reason, po)"
    by (cases "submit ops rendered want over (ps_out s)")
  obtain report po' where set: "settle rendered reason po = (report, po')" by (cases "settle rendered reason po")
  note S = submit_cases [OF sub] and F = finish_eq [OF e sub set]
  have b: "within_budget (po_queued_bytes (ps_out s)) (po_max_queued_bytes (ps_out s)) (ps_enqueuing s) (unhandled s)"
    using ok by (simp add: budget_ok_def)
  show ?thesis
  proof (cases reason)
    case None
    with S obtain q where q: "\<not> over" "length (waiting (po_tx (ps_out s))) < capacity" "po = (ps_out s)\<lparr>po_tx := q\<rparr>"
      "waiting q = waiting (po_tx (ps_out s)) @ [\<lparr>pj_rendered = rendered, pj_want_summary = want, pj_sync = None\<rparr>]" by auto
    from budget_accept [OF b i, of rendered want "unhandled s @ [\<lparr>pj_rendered = rendered, pj_want_summary = want, pj_sync = None\<rparr>]"] e q(1)
    show ?thesis using ok None q
      using set by (auto simp: budget_ok_def F settle_def unhandled_def batch_lens_def job_len_def)
  next
    case (Some r)
    with S have "po = ps_out s" by simp
    with budget_drop [OF b i e] show ?thesis using ok Some
      using set by (auto simp: budget_ok_def F settle_def unhandled_def report_drop_def Let_def split: if_splits)
  qed
qed

lemma sync_cases:
  "ps_sync ops n s = s \<or> (\<exists>q. ps_sync ops n s = s\<lparr>ps_out := (ps_out s)\<lparr>po_tx := q\<rparr>, ps_accepted := ps_accepted s @ [sync_job n]\<rparr> \<and>
      waiting q = waiting (po_tx (ps_out s)) @ [sync_job n] \<and> length (waiting (po_tx (ps_out s))) < capacity)"
proof (cases "ch_try_send ops (sync_job n) (po_tx (ps_out s))")
  case (Pair a q)
  show ?thesis
    using send_ok [of "sync_job n" "po_tx (ps_out s)" q] send_ok_room [of "sync_job n" "po_tx (ps_out s)" q] Pair
    by (cases a) (auto simp: ps_sync_def)
qed

lemma recv_step_cases:
  "writer_recv ops s = s \<or> (\<exists>job q. writer_recv ops s = s\<lparr>ps_out := (ps_out s)\<lparr>po_tx := q\<rparr>, ps_phase := Handling job\<rparr> \<and>
      waiting (po_tx (ps_out s)) = job # waiting q)"
  using recv_some [of "po_tx (ps_out s)"] by (auto simp: writer_recv_def split: option.splits prod.splits)

lemma budget_step: "pretty_step ops is_stdout s s' \<Longrightarrow> budget_ok s \<Longrightarrow> budget_ok s'"
proof (induction rule: pretty_step.induct)
  case (Reserve s rendered want)
  with budget_reserve [of "po_queued_bytes (ps_out s)" "po_max_queued_bytes (ps_out s)" "ps_enqueuing s" "unhandled s" rendered want]
  show ?case by (simp add: budget_ok_def ps_reserve_def reserve_def Let_def unhandled_def)
next
  case (Finish i s)
  then show ?case by (rule budget_ok_finish [rotated])
next
  case (Sync s n)
  from sync_cases [of n s] show ?case
  proof
    assume "\<exists>q. ps_sync ops n s = s\<lparr>ps_out := (ps_out s)\<lparr>po_tx := q\<rparr>, ps_accepted := ps_accepted s @ [sync_job n]\<rparr> \<and>
      waiting q = waiting (po_tx (ps_out s)) @ [sync_job n] \<and> length (waiting (po_tx (ps_out s))) < capacity"
    then obtain q where q: "ps_sync ops n s = s\<lparr>ps_out := (ps_out s)\<lparr>po_tx := q\<rparr>, ps_accepted := ps_accepted s @ [sync_job n]\<rparr>"
      "waiting q = waiting (po_tx (ps_out s)) @ [sync_job n]" "length (waiting (po_tx (ps_out s))) < capacity" by blast
    have "batch_lens (unhandled s @ [sync_job n]) = batch_lens (unhandled s)" by (simp add: batch_lens_def sync_job_def)
    from budget_jobs [OF _ this] show ?thesis
      using Sync q by (auto simp: budget_ok_def unhandled_def sync_job_def)
  qed (use Sync in simp)
next
  case (Recv s)
  with recv_step_cases [of s] show ?case by (auto simp: budget_ok_def unhandled_def jobs_in_hand_def)
next
  case (Handle s job result now)
  then have "within_budget (po_queued_bytes (ps_out s)) (po_max_queued_bytes (ps_out s)) (ps_enqueuing s)
      (job # waiting (po_tx (ps_out s)))" "pj_sync job \<noteq> None \<longrightarrow> pj_rendered job = []"
    by (simp_all add: budget_ok_def unhandled_def jobs_in_hand_def)
  from budget_handled [OF this] show ?case
    using Handle by (auto simp: budget_ok_def unhandled_def jobs_in_hand_def writer_handle_def)
next
  case (Stop s job)
  then show ?case using close by (auto simp: budget_ok_def unhandled_def jobs_in_hand_def writer_stop_def)
qed

end

context pretty_channel
begin

lemma history_ok_finish:
  assumes ok: "history_ok s" and i: "i < length (ps_enqueuing s)"
  shows "history_ok (ps_finish ops i s)"
proof -
  obtain rendered want over where e: "ps_enqueuing s ! i = (rendered, want, over)" by (cases "ps_enqueuing s ! i")
  obtain reason po where sub: "submit ops rendered want over (ps_out s) = (reason, po)"
    by (cases "submit ops rendered want over (ps_out s)")
  obtain report po' where set: "settle rendered reason po = (report, po')" by (cases "settle rendered reason po")
  note S = submit_cases [OF sub] and F = finish_eq [OF e sub set]
  have len: "length (take i (ps_enqueuing s) @ drop (Suc i) (ps_enqueuing s)) + 1 = length (ps_enqueuing s)" using i by simp
  show ?thesis
  proof (cases reason)
    case None
    with S obtain q where "po = (ps_out s)\<lparr>po_tx := q\<rparr>"
      "waiting q = waiting (po_tx (ps_out s)) @ [\<lparr>pj_rendered = rendered, pj_want_summary = want, pj_sync = None\<rparr>]" by auto
    then show ?thesis using ok None set len by (auto simp: history_ok_def F settle_def unhandled_def)
  next
    case (Some r)
    with S have po: "po = ps_out s" by simp
    obtain report' po'' where rep: "report_drop r ((ps_out s)\<lparr>po_queued_bytes := po_queued_bytes (ps_out s) - str_len rendered\<rparr>) = (report', po'')"
      by (cases "report_drop r ((ps_out s)\<lparr>po_queued_bytes := po_queued_bytes (ps_out s) - str_len rendered\<rparr>)")
    have R: "po_tx po'' = po_tx (ps_out s)" "po_dropped po'' = po_dropped (ps_out s) + 1"
      "po_stop_reported po'' \<longleftrightarrow> po_stop_reported (ps_out s) \<or> r = WriterStopped"
      "(\<exists>n. report' = StopError n) \<longleftrightarrow> r = WriterStopped \<and> \<not> po_stop_reported (ps_out s)"
      using rep by (auto simp: report_drop_def Let_def split: if_splits)
    have F': "ps_finish ops i s = s\<lparr>ps_out := po'', ps_enqueuing := take i (ps_enqueuing s) @ drop (Suc i) (ps_enqueuing s),
        ps_drops := ps_drops s @ [(r, report')]\<rparr>"
      using F set rep by (simp add: Some po settle_def)
    show ?thesis using ok len R unfolding F' history_ok_def
      by (auto simp: unhandled_def stop_errors_def split: if_splits)
  qed
qed

lemma history_step: "pretty_step ops is_stdout s s' \<Longrightarrow> history_ok s \<Longrightarrow> history_ok s'"
proof (induction rule: pretty_step.induct)
  case (Reserve s rendered want)
  then show ?case by (simp add: history_ok_def ps_reserve_def reserve_def Let_def unhandled_def)
next
  case (Finish i s)
  then show ?case by (rule history_ok_finish [rotated])
next
  case (Sync s n)
  with sync_cases [of n s] show ?case by (auto simp: history_ok_def unhandled_def sync_job_def)
next
  case (Recv s)
  with recv_step_cases [of s] show ?case by (auto simp: history_ok_def unhandled_def jobs_in_hand_def)
next
  case (Handle s job result now)
  then show ?case
    by (auto simp: history_ok_def unhandled_def jobs_in_hand_def writer_handle_def map_filter_def)
next
  case (Stop s job)
  then show ?case using close by (auto simp: history_ok_def unhandled_def jobs_in_hand_def writer_stop_def)
qed

lemma reachable_ok:
  "pretty_reachable ops is_stdout (pretty_start q color) s \<Longrightarrow> waiting q = [] \<Longrightarrow>
     budget_ok s \<and> history_ok s \<and> po_max_queued_bytes (ps_out s) = PRETTY_QUEUE_MAX_BYTES"
proof (induction rule: pretty_reachable.induct)
  case Start
  then show ?case
    using budget_start by (auto simp: history_ok_def pretty_start_def po_spawn_def unhandled_def jobs_in_hand_def
        stop_errors_def map_filter_def)
next
  case (Step s s')
  have "po_max_queued_bytes (ps_out s') = po_max_queued_bytes (ps_out s)"
    using Step.hyps(2)
    by (induction rule: pretty_step.induct)
      (auto simp: ps_reserve_def reserve_def ps_finish_def finish_enqueue_def submit_def settle_def report_drop_def ps_sync_def
        writer_recv_def writer_handle_def writer_stop_def Let_def split: prod.splits option.splits send_result.splits if_splits)
  with Step budget_step history_step show ?case by metis
qed

text \<open>A synchronisation that has been answered comes after everything accepted before it.\<close>

lemma synced_prefix:
  assumes "history_ok s" and "ps_accepted s = before @ sync_job n # after" and "n \<in> set (ps_synced s)"
    and "\<forall>job \<in> set (before @ after). pj_sync job \<noteq> Some n"
  shows "\<exists>more. ps_handled s = before @ sync_job n # more"
proof -
  have split: "before @ sync_job n # after = ps_handled s @ unhandled s" using assms(1,2) by (simp add: history_ok_def)
  have "n \<in> set (List.map_filter pj_sync (ps_handled s))" using assms(1,3) by (simp add: history_ok_def)
  then obtain job where job: "job \<in> set (ps_handled s)" "pj_sync job = Some n" by (auto simp: map_filter_def)
  show ?thesis
  proof (cases "length (ps_handled s) \<le> length before")
    case True
    have "ps_handled s = take (length (ps_handled s)) (before @ sync_job n # after)" by (simp add: split)
    with True have "set (ps_handled s) \<subseteq> set before" by (metis diff_is_0_eq take0 append_Nil2 take_append set_take_subset)
    with job assms(4) show ?thesis by auto
  next
    case False
    with split show ?thesis
      by (auto simp: append_eq_append_conv2 append_eq_Cons_conv Cons_eq_append_conv dest: sym [of _ "ps_handled s"])
  qed
qed

end

interpretation fifo_pretty: pretty_channel "fifo_ops cap" bf_items cap for cap
  by unfold_locales

section \<open>A concrete run\<close>

text \<open>Two handlers enqueue with their steps interleaved, the second one first; a synchronisation follows.\<close>

definition sample_reserved :: "pretty_job bounded_fifo pretty_state" where
  "sample_reserved = ps_reserve ''b'' False (ps_reserve ''aa'' True (pretty_start fifo_new True))"

definition sample_queued :: "pretty_job bounded_fifo pretty_state" where
  "sample_queued = ps_sync (fifo_ops 256) 7 (ps_finish (fifo_ops 256) 0 (ps_finish (fifo_ops 256) 1 sample_reserved))"

definition sample_job :: "str \<Rightarrow> bool \<Rightarrow> pretty_job" where
  "sample_job rendered want = \<lparr>pj_rendered = rendered, pj_want_summary = want, pj_sync = None\<rparr>"

definition sample_handled :: "pretty_job bounded_fifo pretty_state" where
  "sample_handled = (let recv = writer_recv (fifo_ops 256); ok = \<lambda>job. writer_handle True job Written 0 in
     ok (sync_job 7) (recv (ok (sample_job ''aa'' True) (recv (ok (sample_job ''b'' False) (recv sample_queued))))))"

lemma sample_reserved_eq:
  "sample_reserved = (pretty_start fifo_new True)\<lparr>ps_out := (po_spawn fifo_new True)\<lparr>po_queued_bytes := 3\<rparr>,
     ps_enqueuing := [(''aa'', True, False), (''b'', False, False)], ps_offered := Suc (Suc 0)\<rparr>"
  by (simp add: sample_reserved_def ps_reserve_def reserve_def pretty_start_def po_spawn_def str_len_def
      PRETTY_QUEUE_MAX_BYTES_def saturating_add_def Let_def)

lemma sample_queued_eq:
  "sample_queued = (pretty_start fifo_new True)\<lparr>ps_out := (po_spawn \<lparr>bf_items = [sample_job ''b'' False, sample_job ''aa'' True, sync_job 7],
       bf_closed = False\<rparr> True)\<lparr>po_queued_bytes := 3\<rparr>, ps_offered := Suc (Suc 0),
     ps_accepted := [sample_job ''b'' False, sample_job ''aa'' True, sync_job 7]\<rparr>"
  by (simp add: sample_queued_def sample_reserved_eq ps_finish_def finish_enqueue_def submit_def settle_def ps_sync_def fifo_ops_def
      fifo_try_send_def fifo_new_def pretty_start_def po_spawn_def sample_job_def)

lemma sample_handled_eq:
  "ps_synced sample_handled = [7] \<and> ps_accepted sample_handled = [sample_job ''b'' False, sample_job ''aa'' True, sync_job 7] \<and>
   po_queued_bytes (ps_out sample_handled) = 0 \<and> ps_offered sample_handled = 2 \<and> ps_drops sample_handled = []"
  by (simp add: sample_handled_def sample_queued_eq writer_recv_def writer_handle_def fifo_ops_def fifo_recv_def
      pretty_start_def po_spawn_def sample_job_def sync_job_def str_len_def should_write_def default_writer_state_def Let_def)

lemma sample_handled_reachable: "pretty_reachable (fifo_ops 256) True (pretty_start fifo_new True) sample_handled"
proof -
  have reserved: "pretty_reachable (fifo_ops 256) True (pretty_start fifo_new True) sample_reserved"
    unfolding sample_reserved_def
    by (intro pretty_reachable.Step [OF pretty_reachable.Step [OF pretty_reachable.Start pretty_step.Reserve] pretty_step.Reserve])
      (simp_all add: ps_reserve_def reserve_def pretty_start_def po_spawn_def str_len_def Let_def)
  have queued: "pretty_reachable (fifo_ops 256) True (pretty_start fifo_new True) sample_queued"
    unfolding sample_queued_def
    by (intro pretty_reachable.Step [OF pretty_reachable.Step [OF pretty_reachable.Step [OF reserved pretty_step.Finish]
        pretty_step.Finish] pretty_step.Sync])
      (simp_all add: sample_reserved_eq ps_finish_def finish_enqueue_def submit_def settle_def fifo_ops_def
        fifo_try_send_def fifo_new_def pretty_start_def po_spawn_def)
  have round: "pretty_reachable (fifo_ops 256) True (pretty_start fifo_new True) (writer_handle True job Written 0 (writer_recv (fifo_ops 256) s))"
    if "pretty_reachable (fifo_ops 256) True (pretty_start fifo_new True) s" "ps_phase s = Idle"
      "ps_phase (writer_recv (fifo_ops 256) s) = Handling job" for s job
    by (rule pretty_reachable.Step [OF pretty_reachable.Step [OF that(1) pretty_step.Recv [OF that(2)]] pretty_step.Handle [OF that(3)]])
  show ?thesis
    unfolding sample_handled_def Let_def
    by (intro round queued)
      (simp_all add: sample_queued_eq writer_recv_def writer_handle_def fifo_ops_def fifo_recv_def pretty_start_def po_spawn_def)
qed

end
