(* ===== verification/Routing.thy ===== *)
theory Routing
  imports Aggregator Proxy_Settings Channel
begin

text \<open>
  \<^verbatim>\<open>src/src/forward/router.rs\<close> and the shared types of
  \<^verbatim>\<open>src/src/forward/mod.rs\<close>: a received batch is split by service name and each part is
  offered to the bounded queue of one lane.
\<close>

section \<open>Requests, counters and lanes\<close>

datatype export_request =
    ExportLogs logs_request
  | ExportTraces traces_request
  | ExportMetrics metrics_request

fun request_signal :: "export_request \<Rightarrow> proxy_signal" where
  "request_signal (ExportLogs _) = SignalLogs"
| "request_signal (ExportTraces _) = SignalTraces"
| "request_signal (ExportMetrics _) = SignalMetrics"

fun is_empty_request :: "export_request \<Rightarrow> bool" where
  "is_empty_request (ExportLogs r) \<longleftrightarrow> r = []"
| "is_empty_request (ExportTraces r) \<longleftrightarrow> r = []"
| "is_empty_request (ExportMetrics r) \<longleftrightarrow> r = []"

fun record_signal :: "telemetry_record \<Rightarrow> proxy_signal" where
  "record_signal (Logs _) = SignalLogs"
| "record_signal (Traces _) = SignalTraces"
| "record_signal (Metrics _) = SignalMetrics"

text \<open>The atomic counters wrap around.\<close>

record route_metrics =
  sent_total :: u64
  failed_total :: u64
  dropped_total :: u64

definition default_metrics :: route_metrics where
  "default_metrics = \<lparr>sent_total = 0, failed_total = 0, dropped_total = 0\<rparr>"

record route_metrics_snapshot =
  snap_sent :: u64
  snap_failed :: u64
  snap_dropped :: u64
  snap_queue_depth :: u64

definition metrics_snapshot :: "u64 \<Rightarrow> route_metrics \<Rightarrow> route_metrics_snapshot" where
  "metrics_snapshot depth m = \<lparr>snap_sent = sent_total m, snap_failed = failed_total m,
     snap_dropped = dropped_total m, snap_queue_depth = depth\<rparr>"

record 'q route_lane =
  ln_name :: str
  ln_route :: proxy_route
  ln_sender :: 'q
  ln_metrics :: route_metrics

text \<open>An index into the lanes; \<^verbatim>\<open>usize::MAX\<close> stands for none.\<close>

definition usize_max :: nat where
  "usize_max = 2 ^ 64 - 1"

record 'q proxy_router =
  rt_lanes :: "'q route_lane list"
  rt_matcher :: "str \<rightharpoonup> nat"

section \<open>Building the router\<close>

definition build_matcher :: "proxy_route list \<Rightarrow> str \<rightharpoonup> nat" where
  "build_matcher routes = fold (\<lambda>(i, r) m. fold (\<lambda>sn m. m(sn \<mapsto> i)) (pr_service_names r) m)
     (enumerate 0 routes) Map.empty"

definition router_new :: "'q route_lane list \<Rightarrow> 'q proxy_router" where
  "router_new lanes = \<lparr>rt_lanes = lanes, rt_matcher = build_matcher (map ln_route lanes)\<rparr>"

datatype 'e spawn_error = QueueTooLarge nat | ClientError 'e

text \<open>The client of a route is built with the lane; one that cannot be built stops the start.\<close>

definition spawn_lanes ::
    "nat \<Rightarrow> (nat \<Rightarrow> 'q) \<Rightarrow> (proxy_route \<Rightarrow> 'e spawn_error + 'c) \<Rightarrow> proxy_settings \<Rightarrow> 'e spawn_error + ('q route_lane \<times> 'c) list" where
  "spawn_lanes max_permits new_channel build_client settings =
     (let queue_capacity = max (unat (ps_queue_capacity settings)) 1 in
      if max_permits < queue_capacity then Inl (QueueTooLarge queue_capacity)
      else try_map (\<lambda>route. and_then (build_client route) (\<lambda>client.
        Inr (\<lparr>ln_name = pr_name route, ln_route = route, ln_sender = new_channel queue_capacity,
          ln_metrics = default_metrics\<rparr>, client))) (ps_routes settings))"

section \<open>Which lane a resource belongs to\<close>

definition extract_service_name :: "resource option \<Rightarrow> str" where
  "extract_service_name r = (case r of
       None \<Rightarrow> ''''
     | Some attrs \<Rightarrow> (case Option.bind (List.find (\<lambda>kv. kv_key kv = ''service.name'') attrs)
           (\<lambda>kv. Option.bind (kv_value kv) av_value) of
         Some (StringValue s) \<Rightarrow> s
       | _ \<Rightarrow> ''''))"

definition lane_index :: "(str \<rightharpoonup> nat) \<Rightarrow> proxy_route \<Rightarrow> nat" where
  "lane_index matcher route = (case List.map_filter matcher (pr_service_names route) of [] \<Rightarrow> usize_max | i # _ \<Rightarrow> i)"

definition service_name_matches_lane ::
    "resource option \<Rightarrow> (str \<rightharpoonup> nat) \<Rightarrow> nat \<Rightarrow> proxy_route \<Rightarrow> bool" where
  "service_name_matches_lane res matcher first_target_idx route =
     (case matcher (extract_service_name res) of
        Some idx \<Rightarrow> idx = lane_index matcher route
      | None \<Rightarrow> False)"

text \<open>The route's first service name decides an index that is passed on but not used.\<close>

definition target_index :: "(str \<rightharpoonup> nat) \<Rightarrow> proxy_route \<Rightarrow> nat option" where
  "target_index matcher route = (case pr_service_names route of
     [] \<Rightarrow> None | sn # _ \<Rightarrow> Some (unwrap_or usize_max (matcher sn)))"

definition filter_logs :: "logs_request \<Rightarrow> (str \<rightharpoonup> nat) \<Rightarrow> proxy_route \<Rightarrow> export_request option" where
  "filter_logs req matcher route = (case target_index matcher route of
       None \<Rightarrow> None
     | Some target_idx \<Rightarrow>
         let resource_logs = filter (\<lambda>rl. service_name_matches_lane (rl_resource rl) matcher target_idx route) req in
         if resource_logs = [] then None else Some (ExportLogs resource_logs))"

definition filter_traces :: "traces_request \<Rightarrow> (str \<rightharpoonup> nat) \<Rightarrow> proxy_route \<Rightarrow> export_request option" where
  "filter_traces req matcher route = (case target_index matcher route of
       None \<Rightarrow> None
     | Some target_idx \<Rightarrow>
         let resource_spans = filter (\<lambda>rs. service_name_matches_lane (rs_resource rs) matcher target_idx route) req in
         if resource_spans = [] then None else Some (ExportTraces resource_spans))"

definition filter_metrics :: "metrics_request \<Rightarrow> (str \<rightharpoonup> nat) \<Rightarrow> proxy_route \<Rightarrow> export_request option" where
  "filter_metrics req matcher route = (case target_index matcher route of
       None \<Rightarrow> None
     | Some target_idx \<Rightarrow>
         let resource_metrics = filter (\<lambda>rm. service_name_matches_lane (rm_resource rm) matcher target_idx route) req in
         if resource_metrics = [] then None else Some (ExportMetrics resource_metrics))"

definition filter_record :: "telemetry_record \<Rightarrow> (str \<rightharpoonup> nat) \<Rightarrow> proxy_route \<Rightarrow> export_request option" where
  "filter_record record matcher route = (case record of
       Logs req \<Rightarrow> filter_logs req matcher route
     | Traces req \<Rightarrow> filter_traces req matcher route
     | Metrics req \<Rightarrow> filter_metrics req matcher route)"

section \<open>Notification\<close>

definition count_drop :: "route_metrics \<Rightarrow> route_metrics" where
  "count_drop m = m\<lparr>dropped_total := dropped_total m + 1\<rparr>"

definition offer :: "('q, export_request) channel_ops \<Rightarrow> export_request \<Rightarrow> 'q route_lane \<Rightarrow> 'q route_lane" where
  "offer ops request lane = (case ch_try_send ops request (ln_sender lane) of
       (SendOk, q) \<Rightarrow> lane\<lparr>ln_sender := q\<rparr>
     | (SendFull, q) \<Rightarrow> lane\<lparr>ln_sender := q, ln_metrics := count_drop (ln_metrics lane)\<rparr>
     | (SendClosed, q) \<Rightarrow> lane\<lparr>ln_sender := q, ln_metrics := count_drop (ln_metrics lane)\<rparr>)"

definition notify_lane ::
    "('q, export_request) channel_ops \<Rightarrow> telemetry_record \<Rightarrow> (str \<rightharpoonup> nat) \<Rightarrow> 'q route_lane \<Rightarrow> 'q route_lane" where
  "notify_lane ops record matcher lane =
     (if \<not> accepts_signal (ln_route lane) (record_signal record) then lane
      else case filter_record record matcher (ln_route lane) of
          None \<Rightarrow> lane
        | Some request \<Rightarrow> offer ops request lane)"

definition notify ::
    "('q, export_request) channel_ops \<Rightarrow> telemetry_record \<Rightarrow> 'q proxy_router \<Rightarrow> 'q proxy_router" where
  "notify ops record router =
     router\<lparr>rt_lanes := map (notify_lane ops record (rt_matcher router)) (rt_lanes router)\<rparr>"

definition router_snapshot ::
    "nat \<Rightarrow> ('q, export_request) channel_ops \<Rightarrow> 'q proxy_router \<Rightarrow> (str \<times> route_metrics_snapshot) list" where
  "router_snapshot max_capacity ops router = map (\<lambda>lane.
     (ln_name lane, metrics_snapshot (of_nat (max_capacity - ch_capacity ops (ln_sender lane))) (ln_metrics lane)))
     (rt_lanes router)"

section \<open>Every resource has one lane\<close>

text \<open>Routes as the settings deliver them: no service name twice, none empty, none missing.\<close>

definition disjoint_routes :: "proxy_route list \<Rightarrow> bool" where
  "disjoint_routes routes \<longleftrightarrow> distinct (concat (map pr_service_names routes)) \<and>
     '''' \<notin> set (concat (map pr_service_names routes)) \<and> (\<forall>r \<in> set routes. pr_service_names r \<noteq> [])"

lemma fold_insert_names: "fold (\<lambda>sn m. m(sn \<mapsto> i)) ns m = (\<lambda>s. if s \<in> set ns then Some i else m s)"
  by (induction ns arbitrary: m) (auto simp: fun_eq_iff)

lemma build_matcher_snoc:
  "build_matcher (routes @ [r]) = (\<lambda>s. if s \<in> set (pr_service_names r) then Some (length routes) else build_matcher routes s)"
  unfolding build_matcher_def fold_insert_names by (simp add: enumerate_append_eq)

lemma build_matcher_lookup:
  "disjoint_routes routes \<Longrightarrow> build_matcher routes s = Some i \<longleftrightarrow> i < length routes \<and> s \<in> set (pr_service_names (routes ! i))"
proof (induction routes rule: rev_induct)
  case Nil
  then show ?case by (simp add: build_matcher_def)
next
  case (snoc r routes)
  have "disjoint_routes routes" using snoc.prems by (auto simp: disjoint_routes_def)
  note IH = snoc.IH [OF this]
  have other: "s \<notin> set (pr_service_names r)" if "j < length routes" "s \<in> set (pr_service_names (routes ! j))" for j
    using snoc.prems that nth_mem [OF that(1)] unfolding disjoint_routes_def by fastforce
  show ?case
    using IH other by (auto simp: build_matcher_snoc nth_append less_Suc_eq)
qed

lemma lane_index_own:
  assumes "disjoint_routes routes" and "i < length routes"
  shows "lane_index (build_matcher routes) (routes ! i) = i"
proof -
  obtain n ns where names: "pr_service_names (routes ! i) = n # ns"
    using assms nth_mem [of i routes] by (cases "pr_service_names (routes ! i)") (auto simp: disjoint_routes_def)
  then have "build_matcher routes n = Some i" using build_matcher_lookup [OF assms(1)] assms(2) by simp
  then show ?thesis by (simp add: lane_index_def names List.map_filter_simps)
qed

lemma matches_lane_iff:
  assumes "disjoint_routes routes" and "i < length routes"
  shows "service_name_matches_lane res (build_matcher routes) t (routes ! i) \<longleftrightarrow>
    extract_service_name res \<in> set (pr_service_names (routes ! i))"
  using build_matcher_lookup [OF assms(1), of "extract_service_name res" i] lane_index_own [OF assms] assms(2)
    build_matcher_lookup [OF assms(1), of "extract_service_name res"]
  by (cases "build_matcher routes (extract_service_name res)") (auto simp: service_name_matches_lane_def)

lemma target_index_some:
  "disjoint_routes routes \<Longrightarrow> r \<in> set routes \<Longrightarrow> \<exists>t. target_index m r = Some t"
  by (auto simp: disjoint_routes_def target_index_def split: list.splits)

text \<open>The part of a batch whose resources a predicate on service names selects, if there is any.\<close>

definition part_of :: "(str \<Rightarrow> bool) \<Rightarrow> telemetry_record \<Rightarrow> export_request" where
  "part_of P record = (case record of
       Logs req \<Rightarrow> ExportLogs (filter (\<lambda>rl. P (extract_service_name (rl_resource rl))) req)
     | Traces req \<Rightarrow> ExportTraces (filter (\<lambda>rs. P (extract_service_name (rs_resource rs))) req)
     | Metrics req \<Rightarrow> ExportMetrics (filter (\<lambda>rm. P (extract_service_name (rm_resource rm))) req))"

lemma filter_record_eq:
  assumes "disjoint_routes routes" and "i < length routes"
    and part: "part = part_of (\<lambda>s. s \<in> set (pr_service_names (routes ! i))) rcd"
  shows "filter_record rcd (build_matcher routes) (routes ! i) = (if is_empty_request part then None else Some part)"
proof -
  obtain t where "target_index (build_matcher routes) (routes ! i) = Some t"
    using target_index_some [OF assms(1)] assms(2) nth_mem by blast
  then show ?thesis
    using matches_lane_iff [OF assms(1,2)]
    by (cases rcd) (simp_all add: part filter_record_def filter_logs_def filter_traces_def filter_metrics_def
        part_of_def Let_def)
qed

lemma disjoint_routes_unique:
  assumes "disjoint_routes routes" and "i < length routes" and "s \<in> set (pr_service_names (routes ! i))"
    and "j < length routes" and "s \<in> set (pr_service_names (routes ! j))"
  shows "j = i"
  using build_matcher_lookup [OF assms(1), of s] assms(2-5) by (metis option.inject)

lemma disjoint_routes_nonempty:
  "disjoint_routes routes \<Longrightarrow> i < length routes \<Longrightarrow> '''' \<notin> set (pr_service_names (routes ! i))"
  unfolding disjoint_routes_def using nth_mem by fastforce

end
