(* ===== verification/Sink.thy ===== *)
theory Sink
  imports Settings Retention Pretty_Queue Routing
begin

text \<open>
  The sink of \<^verbatim>\<open>src/src/sink.rs\<close>: it persists a batch as one line of JSON, then counts
  it, hands it to the human-readable outputs and to the forwarding lanes. Every batch has a task
  of its own; the steps of the tasks, of the shutdown and of the writers interleave. The disk is
  the one of \<^verbatim>\<open>Storage\<close>; the bytes of the files that a cleanup removes are not taken off
  it. Serialisation, rendering, the calendar and the printed form of dates are arguments.
\<close>

section \<open>The writers of JSON lines\<close>

record 'd rotated_writer =
  rw_roller :: "'d daily_writer"
  rw_dir :: str
  rw_keep_days :: u32
  rw_last_cleanup_day :: i32

datatype 'd jsonl_writer =
    JsonlFile "file_handle transactional_append"
  | JsonlRoller "'d rotated_writer"

text \<open>What a call reads from its surroundings: the clock, and what a cleanup finds in the directory.\<close>

record 'd surroundings =
  su_utc_day :: i32
  su_local_date :: 'd
  su_now :: int
  su_dir_exists :: "bool io_result"
  su_read_dir :: "(io_error + dir_entry) list io_result"

record 'd sink_library =
  sl_to_vec :: "telemetry_record \<Rightarrow> u8 list option"
  sl_render :: "telemetry_record \<Rightarrow> bool \<Rightarrow> str"
  sl_show_date :: "'d \<Rightarrow> str"
  sl_calendar :: calendar

definition cleanup_now :: "calendar \<Rightarrow> 'd surroundings \<Rightarrow> u32 \<Rightarrow> unit io_result \<times> str list" where
  "cleanup_now cal su keep_days =
     cleanup_old_rotated_logs cal (su_now su) keep_days (su_dir_exists su) (su_read_dir su)"

definition cleanup_if_day_changed ::
    "calendar \<Rightarrow> 'd surroundings \<Rightarrow> 'd rotated_writer \<Rightarrow> (unit io_result \<times> str list) option \<times> 'd rotated_writer" where
  "cleanup_if_day_changed cal su w =
     (if rw_last_cleanup_day w = su_utc_day su then (None, w)
      else (Some (cleanup_now cal su (rw_keep_days w)), w\<lparr>rw_last_cleanup_day := su_utc_day su\<rparr>))"

definition daily_flush :: "'d daily_writer \<Rightarrow> unit io_result \<times> 'd daily_writer" where
  "daily_flush w = (case file_flush (ta_file (dw_file w)) of
     (r, f) \<Rightarrow> (r, w\<lparr>dw_file := (dw_file w)\<lparr>ta_file := f\<rparr>\<rparr>))"

definition write_line :: "'d sink_library \<Rightarrow> 'd surroundings \<Rightarrow> u8 list \<Rightarrow> 'd jsonl_writer \<Rightarrow> unit io_result \<times> 'd jsonl_writer" where
  "write_line lib su line jw = (case jw of
       JsonlFile ta \<Rightarrow> (case ta_append file_ops line ta of (r, ta) \<Rightarrow> (r, JsonlFile ta))
     | JsonlRoller w \<Rightarrow>
         (case cleanup_if_day_changed (sl_calendar lib) su w of (_, w) \<Rightarrow>
           (case append_at (sl_show_date lib) line (su_local_date su) (rw_roller w) of
              (Inl e, d) \<Rightarrow> (Inl e, JsonlRoller (w\<lparr>rw_roller := d\<rparr>))
            | (Inr _, d) \<Rightarrow> (case daily_flush d of (r, d) \<Rightarrow> (r, JsonlRoller (w\<lparr>rw_roller := d\<rparr>))))))"

definition jsonl_flush :: "'d jsonl_writer \<Rightarrow> unit io_result \<times> 'd jsonl_writer" where
  "jsonl_flush jw = (case jw of
       JsonlFile ta \<Rightarrow> (case file_sync_all (ta_file ta) of (r, f) \<Rightarrow> (r, JsonlFile (ta\<lparr>ta_file := f\<rparr>)))
     | JsonlRoller w \<Rightarrow> (case daily_flush (rw_roller w) of
           (Inl e, d) \<Rightarrow> (Inl e, JsonlRoller (w\<lparr>rw_roller := d\<rparr>))
         | (Inr _, d) \<Rightarrow> (case daily_sync_all d of (r, d) \<Rightarrow> (r, JsonlRoller (w\<lparr>rw_roller := d\<rparr>)))))"

section \<open>Opening\<close>

definition open_log_file :: "str \<Rightarrow> disk \<Rightarrow> file_handle transactional_append io_result \<times> disk" where
  "open_log_file path d = (case create_parent path d of
     (Inl e, d) \<Rightarrow> (Inl e, d) | (Inr _, d) \<Rightarrow> append_file_open path d)"

definition open_rotated :: "'d sink_library \<Rightarrow> 'd surroundings \<Rightarrow> str \<Rightarrow> u32 \<Rightarrow> disk \<Rightarrow> 'd rotated_writer io_result \<times> disk" where
  "open_rotated lib su dir keep_days d = (case create_private_dir dir d of
       (Inl e, d) \<Rightarrow> (Inl e, d)
     | (Inr _, d) \<Rightarrow> (case fst (cleanup_now (sl_calendar lib) su (max_keep keep_days)) of
           Inl e \<Rightarrow> (Inl e, d)
         | Inr _ \<Rightarrow> (case daily_at_date (sl_show_date lib) dir ROTATION_PREFIX None (su_local_date su) d of
               (Inl e, d) \<Rightarrow> (Inl e, d)
             | (Inr w, d) \<Rightarrow> (Inr \<lparr>rw_roller = with_sync_on_rotate w, rw_dir = dir, rw_keep_days = max_keep keep_days,
                   rw_last_cleanup_day = su_utc_day su\<rparr>, d))))"

definition open_pretty_log :: "'d sink_library \<Rightarrow> 'd surroundings \<Rightarrow> str \<Rightarrow> disk \<Rightarrow> 'd daily_writer io_result \<times> disk" where
  "open_pretty_log lib su dir d = (case create_private_dir dir d of
       (Inl e, d) \<Rightarrow> (Inl e, d)
     | (Inr _, d) \<Rightarrow> daily_at_date (sl_show_date lib) dir PRETTY_LOG_PREFIX (Some PRETTY_LOG_SUFFIX) (su_local_date su) d)"

definition open_jsonl :: "'d sink_library \<Rightarrow> 'd surroundings \<Rightarrow> log_sink option \<Rightarrow> disk \<Rightarrow> 'd jsonl_writer option io_result \<times> disk" where
  "open_jsonl lib su sink d = (case sink of
       None \<Rightarrow> (Inr None, d)
     | Some (LogFile path) \<Rightarrow> (case open_log_file path d of
           (Inl e, d) \<Rightarrow> (Inl e, d) | (Inr ta, d) \<Rightarrow> (Inr (Some (JsonlFile ta)), d))
     | Some (LogDirectory dir keep_days) \<Rightarrow> (case open_rotated lib su dir keep_days d of
           (Inl e, d) \<Rightarrow> (Inl e, d) | (Inr w, d) \<Rightarrow> (Inr (Some (JsonlRoller w)), d)))"

section \<open>Probing the outputs\<close>

definition probe_log_file :: "str \<Rightarrow> disk \<Rightarrow> unit io_result \<times> disk" where
  "probe_log_file path d = (case create_parent path d of
     (Inl e, d) \<Rightarrow> (Inl e, d) | (Inr _, d) \<Rightarrow> append_file_probe path d)"

fun read_all :: "(io_error + dir_entry) list \<Rightarrow> unit io_result" where
  "read_all [] = Inr ()"
| "read_all (Inl e # _) = Inl e"
| "read_all (Inr _ # es) = read_all es"

definition probe_jsonl :: "'d sink_library \<Rightarrow> 'd surroundings \<Rightarrow> log_sink option \<Rightarrow> disk \<Rightarrow> unit io_result \<times> disk" where
  "probe_jsonl lib su sink d = (case sink of
       None \<Rightarrow> (Inr (), d)
     | Some (LogFile path) \<Rightarrow> probe_log_file path d
     | Some (LogDirectory dir _) \<Rightarrow> (case create_private_dir dir d of
           (Inl e, d) \<Rightarrow> (Inl e, d)
         | (Inr _, d) \<Rightarrow> (case su_read_dir su of
               Inl e \<Rightarrow> (Inl e, d)
             | Inr entries \<Rightarrow> (case read_all entries of
                   Inl e \<Rightarrow> (Inl e, d)
                 | Inr _ \<Rightarrow> probe_log_file (daily_path (sl_show_date lib) dir ROTATION_PREFIX None (su_local_date su)) d))))"

definition probe_settings :: "'d sink_library \<Rightarrow> 'd surroundings \<Rightarrow> settings \<Rightarrow> disk \<Rightarrow> unit io_result \<times> disk" where
  "probe_settings lib su st d = (case probe_jsonl lib su (st_log_sink st) d of
       (Inl e, d) \<Rightarrow> (Inl e, d)
     | (Inr _, d) \<Rightarrow> (case st_pretty_log_dir st of
           None \<Rightarrow> (Inr (), d)
         | Some dir \<Rightarrow> probe_log_file
             (daily_path (sl_show_date lib) dir PRETTY_LOG_PREFIX (Some PRETTY_LOG_SUFFIX) (su_local_date su)) d))"

section \<open>The sink\<close>

record ('d, 'q, 'l) sink =
  sk_summary_enabled :: bool
  sk_admission :: bool
  sk_jsonl_health :: write_health
  sk_file :: "'d jsonl_writer option"
  sk_stdout :: "'q pretty_output option"
  sk_pretty_log :: "'q pretty_output option"
  sk_aggregator :: aggregator
  sk_proxy :: "'l proxy_router option"

text \<open>
  The sink of the settings, with the disk after opening and the file that the writer task of the
  second output gets. \<open>clk\<close> is the clock of the aggregator, \<open>tx\<close> an empty channel.
\<close>

definition sink_from_settings ::
    "'d sink_library \<Rightarrow> 'd surroundings \<Rightarrow> 'q \<Rightarrow> str option \<Rightarrow> bool \<Rightarrow> (nat \<Rightarrow> time) \<Rightarrow> settings \<Rightarrow> 'l proxy_router option \<Rightarrow> disk \<Rightarrow>
     (('d, 'q, 'l) sink \<times> 'd daily_writer option) io_result \<times> disk" where
  "sink_from_settings lib su tx no_color is_terminal clk st proxy d =
     (case open_jsonl lib su (st_log_sink st) d of
        (Inl e, d) \<Rightarrow> (Inl e, d)
      | (Inr jsonl, d) \<Rightarrow>
          let sink = \<lambda>pretty. \<lparr>sk_summary_enabled = st_summary st, sk_admission = True, sk_jsonl_health = default_health,
            sk_file = jsonl, sk_stdout = (if st_no_stdout st then None else Some (po_spawn tx (enabled_for_stdout no_color is_terminal (st_color st)))),
            sk_pretty_log = pretty, sk_aggregator = aggregator_new clk, sk_proxy = proxy\<rparr> in
          (case st_pretty_log_dir st of
             None \<Rightarrow> (Inr (sink None, None), d)
           | Some dir \<Rightarrow> (case open_pretty_log lib su dir d of
                 (Inl e, d) \<Rightarrow> (Inl e, d)
               | (Inr w, d) \<Rightarrow> (Inr (sink (Some (po_spawn tx False)), Some w), d))))"

datatype persist_error = SerializeFailed | WriteFailed io_error

type_synonym persisted = "persist_error + unit"

definition write_jsonl ::
    "'d sink_library \<Rightarrow> 'd surroundings \<Rightarrow> telemetry_record \<Rightarrow> ('d, 'q, 'l) sink \<Rightarrow> persisted \<times> ('d, 'q, 'l) sink" where
  "write_jsonl lib su rcd sk = (case sl_to_vec lib rcd of
       None \<Rightarrow> (Inl SerializeFailed, sk)
     | Some text \<Rightarrow> let line = text @ [newline] in
         (case sk_file sk of
            None \<Rightarrow> (Inr (), sk)
          | Some w \<Rightarrow> (case write_line lib su line w of
                (Inl e, w) \<Rightarrow> (Inl (WriteFailed e), sk\<lparr>sk_file := Some w\<rparr>)
              | (Inr _, w) \<Rightarrow> (Inr (), sk\<lparr>sk_file := Some w\<rparr>))))"

definition note_health :: "persisted \<Rightarrow> nat \<Rightarrow> ('d, 'q, 'l) sink \<Rightarrow> health_report \<times> ('d, 'q, 'l) sink" where
  "note_health result now sk =
     (case (case result of Inr _ \<Rightarrow> on_success now (sk_jsonl_health sk) | Inl _ \<Rightarrow> on_failure now (sk_jsonl_health sk)) of
        (report, h) \<Rightarrow> (report, sk\<lparr>sk_jsonl_health := h\<rparr>))"

definition ingest_record :: "telemetry_record \<Rightarrow> ('d, 'q, 'l) sink \<Rightarrow> bool \<times> ('d, 'q, 'l) sink" where
  "ingest_record rcd sk = (case ingest rcd (sk_aggregator sk) of (g, n) \<Rightarrow> (0 < n, sk\<lparr>sk_aggregator := g\<rparr>))"

definition queue_output ::
    "('q, pretty_job) channel_ops \<Rightarrow> 'd sink_library \<Rightarrow> telemetry_record \<Rightarrow> bool \<Rightarrow> 'q pretty_output \<Rightarrow> 'q pretty_output" where
  "queue_output qops lib rcd want_summary po =
     snd (snd (enqueue qops (sl_render lib rcd (po_color po)) want_summary po))"

definition queue_pretty ::
    "('q, pretty_job) channel_ops \<Rightarrow> 'd sink_library \<Rightarrow> telemetry_record \<Rightarrow> bool \<Rightarrow> ('d, 'q, 'l) sink \<Rightarrow> ('d, 'q, 'l) sink" where
  "queue_pretty qops lib rcd want_summary sk =
     sk\<lparr>sk_stdout := map_option (queue_output qops lib rcd want_summary) (sk_stdout sk),
        sk_pretty_log := map_option (queue_output qops lib rcd want_summary) (sk_pretty_log sk)\<rparr>"

definition forward :: "('l, export_request) channel_ops \<Rightarrow> telemetry_record \<Rightarrow> ('d, 'q, 'l) sink \<Rightarrow> ('d, 'q, 'l) sink" where
  "forward lops rcd sk = sk\<lparr>sk_proxy := map_option (notify lops rcd) (sk_proxy sk)\<rparr>"

definition sink_flush :: "('d, 'q, 'l) sink \<Rightarrow> unit io_result \<times> ('d, 'q, 'l) sink" where
  "sink_flush sk = (case sk_file sk of
       None \<Rightarrow> (Inr (), sk)
     | Some w \<Rightarrow> (case jsonl_flush w of (r, w) \<Rightarrow> (r, sk\<lparr>sk_file := Some w\<rparr>)))"

section \<open>Tasks\<close>

text \<open>Where the task of a batch is; \<open>TaskSaved\<close> is past the persistence, which may be switched off.\<close>

datatype task_phase =
    TaskWaiting
  | TaskRejected
  | TaskAdmitted
  | TaskPersisted persisted
  | TaskSaved
  | TaskIngested bool
  | TaskQueued
  | TaskDone persisted

record ('d, 'q, 'l) sink_state =
  ss_sink :: "('d, 'q, 'l) sink"
  ss_tasks :: "(telemetry_record \<times> task_phase) list"
  ss_locked :: bool   \<comment> \<open>the shutdown holds the admission lock\<close>
  ss_saved :: "telemetry_record list"
  ss_ingested :: "telemetry_record list"

fun in_flight :: "task_phase \<Rightarrow> bool" where
  "in_flight TaskWaiting = False"
| "in_flight TaskRejected = False"
| "in_flight (TaskDone _) = False"
| "in_flight _ = True"

definition task_at :: "('d, 'q, 'l) sink_state \<Rightarrow> nat \<Rightarrow> telemetry_record \<Rightarrow> task_phase \<Rightarrow> bool" where
  "task_at s i rcd p \<longleftrightarrow> i < length (ss_tasks s) \<and> ss_tasks s ! i = (rcd, p)"

definition set_task :: "nat \<Rightarrow> telemetry_record \<Rightarrow> task_phase \<Rightarrow> ('d, 'q, 'l) sink_state \<Rightarrow> ('d, 'q, 'l) sink_state" where
  "set_task i rcd p s = s\<lparr>ss_tasks := (ss_tasks s)[i := (rcd, p)]\<rparr>"

definition task_admit :: "nat \<Rightarrow> telemetry_record \<Rightarrow> ('d, 'q, 'l) sink_state \<Rightarrow> ('d, 'q, 'l) sink_state" where
  "task_admit i rcd s = set_task i rcd (if sk_admission (ss_sink s) then TaskAdmitted else TaskRejected) s"

definition task_persist ::
    "'d sink_library \<Rightarrow> 'd surroundings \<Rightarrow> nat \<Rightarrow> telemetry_record \<Rightarrow> ('d, 'q, 'l) sink_state \<Rightarrow> ('d, 'q, 'l) sink_state" where
  "task_persist lib su i rcd s =
     (if sk_file (ss_sink s) = None then set_task i rcd TaskSaved s
      else case write_jsonl lib su rcd (ss_sink s) of
        (result, sk) \<Rightarrow> set_task i rcd (TaskPersisted result)
          (s\<lparr>ss_sink := sk, ss_saved := ss_saved s @ (case result of Inl _ \<Rightarrow> [] | Inr _ \<Rightarrow> [rcd])\<rparr>))"

definition task_health :: "nat \<Rightarrow> nat \<Rightarrow> telemetry_record \<Rightarrow> persisted \<Rightarrow> ('d, 'q, 'l) sink_state \<Rightarrow> ('d, 'q, 'l) sink_state" where
  "task_health now i rcd result s = set_task i rcd (case result of Inl e \<Rightarrow> TaskDone (Inl e) | Inr _ \<Rightarrow> TaskSaved)
     (s\<lparr>ss_sink := snd (note_health result now (ss_sink s))\<rparr>)"

definition task_ingest :: "nat \<Rightarrow> telemetry_record \<Rightarrow> ('d, 'q, 'l) sink_state \<Rightarrow> ('d, 'q, 'l) sink_state" where
  "task_ingest i rcd s = (case ingest_record rcd (ss_sink s) of
     (samples_present, sk) \<Rightarrow> set_task i rcd (TaskIngested (samples_present \<and> sk_summary_enabled sk))
       (s\<lparr>ss_sink := sk, ss_ingested := ss_ingested s @ [rcd]\<rparr>))"

definition task_queue ::
    "('q, pretty_job) channel_ops \<Rightarrow> 'd sink_library \<Rightarrow> nat \<Rightarrow> telemetry_record \<Rightarrow> bool \<Rightarrow> ('d, 'q, 'l) sink_state \<Rightarrow> ('d, 'q, 'l) sink_state" where
  "task_queue qops lib i rcd want_summary s =
     set_task i rcd TaskQueued (s\<lparr>ss_sink := queue_pretty qops lib rcd want_summary (ss_sink s)\<rparr>)"

definition task_forward ::
    "('l, export_request) channel_ops \<Rightarrow> nat \<Rightarrow> telemetry_record \<Rightarrow> ('d, 'q, 'l) sink_state \<Rightarrow> ('d, 'q, 'l) sink_state" where
  "task_forward lops i rcd s = set_task i rcd (TaskDone (Inr ())) (s\<lparr>ss_sink := forward lops rcd (ss_sink s)\<rparr>)"

text \<open>The shutdown takes the lock when no task holds it, closes the admission, flushes and lets go.\<close>

definition shutdown_close :: "('d, 'q, 'l) sink_state \<Rightarrow> ('d, 'q, 'l) sink_state" where
  "shutdown_close s = s\<lparr>ss_sink := (ss_sink s)\<lparr>sk_admission := False\<rparr>, ss_locked := True\<rparr>"

definition shutdown_flush :: "('d, 'q, 'l) sink_state \<Rightarrow> ('d, 'q, 'l) sink_state" where
  "shutdown_flush s = s\<lparr>ss_sink := snd (sink_flush (ss_sink s)), ss_locked := False\<rparr>"

text \<open>
  The writers and the lanes take messages out of their queues at any time. The reader-writer lock
  is a library: a task gets it whenever the shutdown does not hold it, the shutdown when no task
  holds it.
\<close>

inductive sink_step ::
    "('q, pretty_job) channel_ops \<Rightarrow> ('l, export_request) channel_ops \<Rightarrow> 'd sink_library \<Rightarrow>
     ('d, 'q, 'l) sink_state \<Rightarrow> ('d, 'q, 'l) sink_state \<Rightarrow> bool"
  for qops :: "('q, pretty_job) channel_ops" and lops :: "('l, export_request) channel_ops" and lib :: "'d sink_library" where
  Arrive: "sink_step qops lops lib s (s\<lparr>ss_tasks := ss_tasks s @ [(rcd, TaskWaiting)]\<rparr>)"
| Admit: "task_at s i rcd TaskWaiting \<Longrightarrow> \<not> ss_locked s \<Longrightarrow> sink_step qops lops lib s (task_admit i rcd s)"
| Persist: "task_at s i rcd TaskAdmitted \<Longrightarrow> sink_step qops lops lib s (task_persist lib su i rcd s)"
| Health: "task_at s i rcd (TaskPersisted result) \<Longrightarrow> sink_step qops lops lib s (task_health now i rcd result s)"
| Ingest: "task_at s i rcd TaskSaved \<Longrightarrow> sink_step qops lops lib s (task_ingest i rcd s)"
| Queue: "task_at s i rcd (TaskIngested want) \<Longrightarrow> sink_step qops lops lib s (task_queue qops lib i rcd want s)"
| Forward: "task_at s i rcd TaskQueued \<Longrightarrow> sink_step qops lops lib s (task_forward lops i rcd s)"
| Close: "list_all (\<lambda>t. \<not> in_flight (snd t)) (ss_tasks s) \<Longrightarrow> \<not> ss_locked s \<Longrightarrow> sink_step qops lops lib s (shutdown_close s)"
| Flush: "ss_locked s \<Longrightarrow> sink_step qops lops lib s (shutdown_flush s)"
| Outputs: "sink_step qops lops lib s
    (s\<lparr>ss_sink := (ss_sink s)\<lparr>sk_stdout := out, sk_pretty_log := pretty, sk_proxy := router\<rparr>\<rparr>)"

definition sink_start :: "('d, 'q, 'l) sink \<Rightarrow> ('d, 'q, 'l) sink_state" where
  "sink_start sk = \<lparr>ss_sink = sk, ss_tasks = [], ss_locked = False, ss_saved = [], ss_ingested = []\<rparr>"

inductive sink_reachable ::
    "('q, pretty_job) channel_ops \<Rightarrow> ('l, export_request) channel_ops \<Rightarrow> 'd sink_library \<Rightarrow> ('d, 'q, 'l) sink_state \<Rightarrow>
     ('d, 'q, 'l) sink_state \<Rightarrow> bool"
  for qops :: "('q, pretty_job) channel_ops" and lops :: "('l, export_request) channel_ops" and lib :: "'d sink_library"
    and s0 :: "('d, 'q, 'l) sink_state" where
  Start: "sink_reachable qops lops lib s0 s0"
| Step: "sink_reachable qops lops lib s0 s \<Longrightarrow> sink_step qops lops lib s s' \<Longrightarrow> sink_reachable qops lops lib s0 s'"

end
