(* ===== verification/Sink_Laws.thy ===== *)
theory Sink_Laws
  imports Sink "HOL-Library.Sublist"
begin

text \<open>
  What holds of the sink however its tasks interleave: an invariant of the step relation relates
  the tasks, the lines on the disk and the aggregator. The histories of the state list the batches
  in the order in which they were saved and counted.
\<close>

section \<open>Counting tasks\<close>

definition count_tasks :: "(task_phase \<Rightarrow> bool) \<Rightarrow> (telemetry_record \<times> task_phase) list \<Rightarrow> telemetry_record multiset" where
  "count_tasks P tasks = image_mset fst (filter_mset (P \<circ> snd) (mset tasks))"

fun phase_saved :: "task_phase \<Rightarrow> bool" where
  "phase_saved (TaskPersisted r) = (r = Inr ())"
| "phase_saved TaskSaved = True"
| "phase_saved (TaskIngested _) = True"
| "phase_saved TaskQueued = True"
| "phase_saved (TaskDone r) = (r = Inr ())"
| "phase_saved _ = False"

fun phase_ingested :: "task_phase \<Rightarrow> bool" where
  "phase_ingested (TaskIngested _) = True"
| "phase_ingested TaskQueued = True"
| "phase_ingested (TaskDone r) = (r = Inr ())"
| "phase_ingested _ = False"

definition phase_acknowledged :: "task_phase \<Rightarrow> bool" where
  "phase_acknowledged p \<longleftrightarrow> p = TaskDone (Inr ())"

lemma count_tasks_simps [simp]: "count_tasks P [] = {#}"
  "count_tasks P (tasks @ [(rcd, p)]) = count_tasks P tasks + (if P p then {#rcd#} else {#})"
  by (simp_all add: count_tasks_def)

lemma count_tasks_set:
  assumes "task_at s i rcd p"
  shows "count_tasks P (ss_tasks (set_task i rcd q s)) + (if P p then {#rcd#} else {#}) =
    count_tasks P (ss_tasks s) + (if P q then {#rcd#} else {#})"
proof -
  have i: "i < length (ss_tasks s)" "ss_tasks s ! i = (rcd, p)" using assms by (simp_all add: task_at_def)
  then have "(rcd, p) \<in># mset (ss_tasks s)" by (metis in_multiset_in_set nth_mem)
  then obtain M where "mset (ss_tasks s) = add_mset (rcd, p) M" by (metis insert_DiffM)
  with i show ?thesis by (simp add: count_tasks_def set_task_def mset_update)
qed

lemma count_tasks_same: "\<forall>t \<in> set tasks. P (snd t) = Q (snd t) \<Longrightarrow> count_tasks P tasks = count_tasks Q tasks"
  unfolding count_tasks_def by (intro arg_cong [of _ _ "image_mset fst"] filter_mset_cong) auto

section \<open>The lines on the disk\<close>

definition line_of :: "'d sink_library \<Rightarrow> telemetry_record \<Rightarrow> u8 list" where
  "line_of lib rcd = (case sl_to_vec lib rcd of None \<Rightarrow> [] | Some text \<Rightarrow> text @ [newline])"

text \<open>
  A single file holds what it held at first and exactly the saved lines, in order. A daily file
  holds the lines written on its date; they are the saved ones, and those whose flush failed after
  the line was written.
\<close>

definition jsonl_holds ::
    "'d sink_library \<Rightarrow> log_sink \<Rightarrow> (str \<Rightarrow> u8 list) \<Rightarrow> telemetry_record list \<Rightarrow> 'd jsonl_writer \<Rightarrow> bool" where
  "jsonl_holds lib sink base saved jw \<longleftrightarrow> (case jw of
       JsonlFile ta \<Rightarrow> sink = LogFile (fh_path (ta_file ta)) \<and> os_file.valid ta \<and>
         os_file.stored ta = base (fh_path (ta_file ta)) @ concat (map (line_of lib) saved)
     | JsonlRoller w \<Rightarrow> (\<exists>keep. sink = LogDirectory (dw_dir (rw_roller w)) keep) \<and>
         dw_prefix (rw_roller w) = ROTATION_PREFIX \<and> dw_suffix (rw_roller w) = None \<and>
         dw_wf (sl_show_date lib) (rw_roller w) \<and> (\<exists>written.
         subseq (map (line_of lib) saved) (map fst written) \<and>
         (\<forall>p. dw_stored (rw_roller w) p =
            base p @ bytes_for (daily_path (sl_show_date lib) (dw_dir (rw_roller w)) ROTATION_PREFIX None) p written)))"

lemma handle_stored:
  "file_bytes f = file_bytes (ta_file ta) \<Longrightarrow> os_file.valid (ta\<lparr>ta_file := f\<rparr>) = os_file.valid ta"
  "file_bytes f = file_bytes (ta_file ta) \<Longrightarrow> os_file.stored (ta\<lparr>ta_file := f\<rparr>) = os_file.stored ta"
  by (cases "ta_rollback ta"; simp add: os_file.valid_def os_file.stored_def)+

lemma handle_same_files:
  assumes "same_files (ta_file (dw_file w)) f"
  shows "dw_wf show_date (w\<lparr>dw_file := (dw_file w)\<lparr>ta_file := f\<rparr>\<rparr>) = dw_wf show_date w \<and>
    dw_stored (w\<lparr>dw_file := (dw_file w)\<lparr>ta_file := f\<rparr>\<rparr>) = dw_stored w"
proof
  have b: "file_bytes f = file_bytes (ta_file (dw_file w))" using same_files_bytes [OF assms] .
  then show "dw_wf show_date (w\<lparr>dw_file := (dw_file w)\<lparr>ta_file := f\<rparr>\<rparr>) = dw_wf show_date w"
    using assms by (simp add: dw_wf_def handle_stored [OF b] same_files_def)
  show "dw_stored (w\<lparr>dw_file := (dw_file w)\<lparr>ta_file := f\<rparr>\<rparr>) = dw_stored w"
    using assms by (simp add: fun_eq_iff dw_stored_def handle_stored [OF b] same_files_def disk_bytes_def)
qed

lemma file_flush_same: "file_flush f = (r, f') \<Longrightarrow> same_files f f'"
  by (auto simp: file_flush_def dest: syscall_same split: prod.splits fault.splits)

lemma file_sync_same: "file_sync_all f = (r, f') \<Longrightarrow> same_files f f'"
  by (auto simp: file_sync_all_def dest: syscall_same split: prod.splits fault.splits)

lemma daily_flush_same:
  assumes "daily_flush w = (r, w')"
  shows "dw_wf show_date w' = dw_wf show_date w \<and> dw_stored w' = dw_stored w \<and>
    dw_dir w' = dw_dir w \<and> dw_prefix w' = dw_prefix w \<and> dw_suffix w' = dw_suffix w"
  using assms handle_same_files [OF file_flush_same] by (auto simp: daily_flush_def split: prod.splits)

lemma daily_sync_same:
  assumes "daily_sync_all w = (r, w')"
  shows "dw_wf show_date w' = dw_wf show_date w \<and> dw_stored w' = dw_stored w \<and>
    dw_dir w' = dw_dir w \<and> dw_prefix w' = dw_prefix w \<and> dw_suffix w' = dw_suffix w"
  using assms handle_same_files [OF file_sync_same] by (auto simp: daily_sync_all_def split: prod.splits)

lemma jsonl_flush_holds:
  assumes "jsonl_holds lib sink base saved jw" and "jsonl_flush jw = (r, jw')"
  shows "jsonl_holds lib sink base saved jw'"
proof (cases jw)
  case (JsonlFile ta)
  obtain q f where s: "file_sync_all (ta_file ta) = (q, f)" by (cases "file_sync_all (ta_file ta)")
  have "same_files (ta_file ta) f" using file_sync_same [OF s] .
  with assms JsonlFile s handle_stored [OF same_files_bytes [OF this]] show ?thesis
    by (auto simp: jsonl_flush_def jsonl_holds_def same_files_def)
next
  case (JsonlRoller w)
  obtain q d where f: "daily_flush (rw_roller w) = (q, d)" by (cases "daily_flush (rw_roller w)")
  obtain q' d' where s: "daily_sync_all d = (q', d')" by (cases "daily_sync_all d")
  note F = daily_flush_same [OF f, of "sl_show_date lib"] and S = daily_sync_same [OF s, of "sl_show_date lib"]
  have "\<exists>d''. jw' = JsonlRoller (w\<lparr>rw_roller := d''\<rparr>) \<and> (d'' = d \<or> d'' = d')"
    using assms(2) JsonlRoller f s by (cases q) (auto simp: jsonl_flush_def)
  then show ?thesis using assms(1) F S JsonlRoller by (auto simp: jsonl_holds_def)
qed

lemma write_line_holds:
  assumes "jsonl_holds lib sink base saved jw" and "write_line lib su (line_of lib rcd) jw = (r, jw')" and "line_of lib rcd \<noteq> []"
  shows "jsonl_holds lib sink base (saved @ (case r of Inl _ \<Rightarrow> [] | Inr _ \<Rightarrow> [rcd])) jw'"
proof (cases jw)
  case (JsonlFile ta)
  obtain q ta' where a: "ta_append file_ops (line_of lib rcd) ta = (q, ta')" by (cases "ta_append file_ops (line_of lib rcd) ta")
  have "own_path (ta_file ta) (ta_file ta')" using own_path_append [OF a] .
  with os_file.append_spec [OF _ a] assms JsonlFile a show ?thesis
    by (cases q) (auto simp: write_line_def jsonl_holds_def own_path_def)
next
  case (JsonlRoller w)
  have complete: "complete_lines (line_of lib rcd) = line_of lib rcd"
    using assms(3) by (auto simp: line_of_def split: option.splits)
  obtain c w1 where c: "cleanup_if_day_changed (sl_calendar lib) su w = (c, w1)" by (cases "cleanup_if_day_changed (sl_calendar lib) su w")
  then have w1: "rw_roller w1 = rw_roller w" by (auto simp: cleanup_if_day_changed_def split: if_splits)
  obtain q d where a: "append_at (sl_show_date lib) (line_of lib rcd) (su_local_date su) (rw_roller w) = (q, d)"
    by (cases "append_at (sl_show_date lib) (line_of lib rcd) (su_local_date su) (rw_roller w)")
  obtain q' d' where f: "daily_flush d = (q', d')" by (cases "daily_flush d")
  note F = daily_flush_same [OF f, of "sl_show_date lib"]
  obtain written where W: "dw_wf (sl_show_date lib) (rw_roller w)" "subseq (map (line_of lib) saved) (map fst written)"
    "\<And>p. dw_stored (rw_roller w) p = base p @ bytes_for (daily_path (sl_show_date lib) (dw_dir (rw_roller w)) ROTATION_PREFIX None) p written"
    "dw_prefix (rw_roller w) = ROTATION_PREFIX" "dw_suffix (rw_roller w) = None"
    "\<exists>keep. sink = LogDirectory (dw_dir (rw_roller w)) keep"
    using assms(1) JsonlRoller by (auto simp: jsonl_holds_def)
  note A = append_at_spec [OF W(1) complete a]
  show ?thesis
  proof (cases q)
    case (Inl e)
    then have "r = Inl e" "jw' = JsonlRoller (w1\<lparr>rw_roller := d\<rparr>)"
      using assms(2) JsonlRoller c a w1 by (auto simp: write_line_def)
    then show ?thesis using A W Inl by (auto simp: jsonl_holds_def)
  next
    case (Inr u)
    then have r: "r = q'" "jw' = JsonlRoller (w1\<lparr>rw_roller := d'\<rparr>)"
      using assms(2) JsonlRoller c a w1 f by (auto simp: write_line_def)
    let ?written = "written @ [(line_of lib rcd, su_local_date su)]"
    have sub: "subseq (map (line_of lib) saved @ map (line_of lib) (case q' of Inl _ \<Rightarrow> [] | Inr _ \<Rightarrow> [rcd])) (map fst ?written)"
      using W(2) by (cases q') (auto simp: list_emb_append2 intro: list_emb_append_mono)
    have "dw_stored d' p = base p @ bytes_for (daily_path (sl_show_date lib) (dw_dir d') ROTATION_PREFIX None) p ?written" for p
      using A F W(3-5) Inr by (auto simp: bytes_for_def)
    moreover have "dw_wf (sl_show_date lib) d'" using A F by simp
    moreover have "dw_prefix d' = ROTATION_PREFIX" "dw_suffix d' = None" "\<exists>keep. sink = LogDirectory (dw_dir d') keep"
      using A F W(4-6) by simp_all
    ultimately show ?thesis using sub r by (auto simp: jsonl_holds_def intro!: exI [of _ ?written])
  qed
qed

section \<open>The invariant\<close>

text \<open>
  The counted batches are those past the ingestion, the saved ones those past the persistence, and
  no task is under way once the admission is closed.
\<close>

definition tasks_ok :: "('d, 'q, 'l) sink_state \<Rightarrow> bool" where
  "tasks_ok s \<longleftrightarrow> count_tasks phase_ingested (ss_tasks s) = mset (ss_ingested s) \<and>
     (sk_file (ss_sink s) \<noteq> None \<longrightarrow> count_tasks phase_saved (ss_tasks s) = mset (ss_saved s)) \<and>
     (ss_locked s \<longrightarrow> \<not> sk_admission (ss_sink s)) \<and>
     (\<not> sk_admission (ss_sink s) \<longrightarrow> (\<forall>t \<in> set (ss_tasks s). \<not> in_flight (snd t)))"

definition disk_ok :: "'d sink_library \<Rightarrow> log_sink \<Rightarrow> (str \<Rightarrow> u8 list) \<Rightarrow> aggregator \<Rightarrow> ('d, 'q, 'l) sink_state \<Rightarrow> bool" where
  "disk_ok lib sink base g s \<longleftrightarrow> sk_aggregator (ss_sink s) = ingest_run (ss_ingested s) g \<and>
     (\<forall>jw. sk_file (ss_sink s) = Some jw \<longrightarrow> jsonl_holds lib sink base (ss_saved s) jw)"

lemma task_in: "task_at s i rcd p \<Longrightarrow> (rcd, p) \<in> set (ss_tasks s)"
  by (metis nth_mem task_at_def)

lemma set_task_in: "t \<in> set (ss_tasks (set_task i rcd p s)) \<Longrightarrow> t = (rcd, p) \<or> t \<in> set (ss_tasks s)"
  unfolding set_task_def using set_update_subset_insert [of "ss_tasks s" i "(rcd, p)"] by auto

lemma set_task_fields [simp]: "ss_sink (set_task i rcd p s) = ss_sink s" "ss_saved (set_task i rcd p s) = ss_saved s"
  "ss_ingested (set_task i rcd p s) = ss_ingested s" "ss_locked (set_task i rcd p s) = ss_locked s"
  by (simp_all add: set_task_def)

lemma write_jsonl_fields:
  assumes "write_jsonl lib su rcd sk = (r, sk')"
  shows "sk_admission sk' = sk_admission sk \<and> sk_aggregator sk' = sk_aggregator sk \<and> (sk_file sk' = None \<longleftrightarrow> sk_file sk = None)"
  using assms by (auto simp: write_jsonl_def Let_def split: option.splits prod.splits sum.splits)

lemma ingest_record_fields:
  assumes "ingest_record rcd sk = (b, sk')"
  shows "sk_admission sk' = sk_admission sk \<and> sk_file sk' = sk_file sk \<and> sk_aggregator sk' = fst (ingest rcd (sk_aggregator sk))"
  using assms by (auto simp: ingest_record_def split: prod.splits)

lemma sink_flush_fields:
  assumes "sink_flush sk = (r, sk')"
  shows "sk_admission sk' = sk_admission sk \<and> sk_aggregator sk' = sk_aggregator sk \<and> (sk_file sk' = None \<longleftrightarrow> sk_file sk = None)"
  using assms by (auto simp: sink_flush_def split: option.splits prod.splits)

text \<open>A step of one task keeps the accounts when the histories grow by what its phase gains.\<close>

lemma move_task:
  assumes ok: "tasks_ok s" and at: "task_at s i rcd p" and flight: "in_flight p"
    and s': "ss_tasks s' = ss_tasks s" "ss_locked s' = ss_locked s" "sk_admission (ss_sink s') = sk_admission (ss_sink s)"
      "sk_file (ss_sink s') = None \<longleftrightarrow> sk_file (ss_sink s) = None"
    and ing: "mset (ss_ingested s') + (if phase_ingested p then {#rcd#} else {#}) = mset (ss_ingested s) + (if phase_ingested q then {#rcd#} else {#})"
    and sav: "sk_file (ss_sink s) \<noteq> None \<Longrightarrow>
      mset (ss_saved s') + (if phase_saved p then {#rcd#} else {#}) = mset (ss_saved s) + (if phase_saved q then {#rcd#} else {#})"
  shows "tasks_ok (set_task i rcd q s')"
proof -
  have at': "task_at s' i rcd p" using at s'(1) by (simp add: task_at_def)
  have opened: "sk_admission (ss_sink s)" using ok task_in [OF at] flight by (auto simp: tasks_ok_def)
  have "count_tasks phase_ingested (ss_tasks s) = mset (ss_ingested s)" using ok by (simp add: tasks_ok_def)
  then have "count_tasks phase_ingested (ss_tasks (set_task i rcd q s')) = mset (ss_ingested s')"
    using count_tasks_set [OF at', of phase_ingested q] ing unfolding s'(1) by (metis add_right_imp_eq)
  moreover have "count_tasks phase_saved (ss_tasks (set_task i rcd q s')) = mset (ss_saved s')" if "sk_file (ss_sink s) \<noteq> None"
  proof -
    have "count_tasks phase_saved (ss_tasks s) = mset (ss_saved s)" using ok that by (simp add: tasks_ok_def)
    then show ?thesis
      using count_tasks_set [OF at', of phase_saved q] sav [OF that] unfolding s'(1) by (metis add_right_imp_eq)
  qed
  ultimately show ?thesis using ok opened s' by (auto simp: tasks_ok_def)
qed

lemma tasks_ok_persist:
  assumes ok: "tasks_ok s" and at: "task_at s i rcd TaskAdmitted"
  shows "tasks_ok (task_persist lib su i rcd s)"
proof (cases "sk_file (ss_sink s) = None")
  case True
  then show ?thesis unfolding task_persist_def
    using move_task [OF ok at, of s TaskSaved] by simp
next
  case False
  obtain r sk where w: "write_jsonl lib su rcd (ss_sink s) = (r, sk)" by (cases "write_jsonl lib su rcd (ss_sink s)")
  note W = write_jsonl_fields [OF w]
  have "task_persist lib su i rcd s = set_task i rcd (TaskPersisted r)
      (s\<lparr>ss_sink := sk, ss_saved := ss_saved s @ (case r of Inl _ \<Rightarrow> [] | Inr _ \<Rightarrow> [rcd])\<rparr>)"
    using False by (auto simp: task_persist_def w)
  then show ?thesis
    using False move_task [OF ok at, of "s\<lparr>ss_sink := sk, ss_saved := ss_saved s @ (case r of Inl _ \<Rightarrow> [] | Inr _ \<Rightarrow> [rcd])\<rparr>" "TaskPersisted r"] W
    by (cases r) simp_all
qed

lemma tasks_ok_health:
  assumes ok: "tasks_ok s" and at: "task_at s i rcd (TaskPersisted r)"
  shows "tasks_ok (task_health now i rcd r s)"
proof -
  obtain rep sk where h: "note_health r now (ss_sink s) = (rep, sk)" by (cases "note_health r now (ss_sink s)")
  then have H: "sk_admission sk = sk_admission (ss_sink s)" "sk_file sk = sk_file (ss_sink s)"
    by (auto simp: note_health_def split: prod.splits)
  have "task_health now i rcd r s = set_task i rcd (case r of Inl e \<Rightarrow> TaskDone (Inl e) | Inr _ \<Rightarrow> TaskSaved) (s\<lparr>ss_sink := sk\<rparr>)"
    by (simp add: task_health_def h)
  then show ?thesis
    using move_task [OF ok at, of "s\<lparr>ss_sink := sk\<rparr>" "case r of Inl e \<Rightarrow> TaskDone (Inl e) | Inr _ \<Rightarrow> TaskSaved"] H
    by (cases r) simp_all
qed

lemma tasks_ok_ingest:
  assumes ok: "tasks_ok s" and at: "task_at s i rcd TaskSaved"
  shows "tasks_ok (task_ingest i rcd s)"
proof -
  obtain b sk where g: "ingest_record rcd (ss_sink s) = (b, sk)" by (cases "ingest_record rcd (ss_sink s)")
  note G = ingest_record_fields [OF g]
  have "tasks_ok (set_task i rcd (TaskIngested (b \<and> sk_summary_enabled sk)) (s\<lparr>ss_sink := sk, ss_ingested := ss_ingested s @ [rcd]\<rparr>))"
    by (rule move_task [OF ok at]) (use G in simp_all)
  then show ?thesis by (simp add: task_ingest_def g)
qed

lemma tasks_ok_queue: "tasks_ok s \<Longrightarrow> task_at s i rcd (TaskIngested want) \<Longrightarrow> tasks_ok (task_queue qops lib i rcd want s)"
  unfolding task_queue_def
  by (rule move_task [where p = "TaskIngested want"]) (simp_all add: queue_pretty_def)

lemma tasks_ok_forward: "tasks_ok s \<Longrightarrow> task_at s i rcd TaskQueued \<Longrightarrow> tasks_ok (task_forward lops i rcd s)"
  unfolding task_forward_def
  by (rule move_task [where p = TaskQueued]) (simp_all add: forward_def)

lemma tasks_ok_admit:
  assumes ok: "tasks_ok s" and at: "task_at s i rcd TaskWaiting"
  shows "tasks_ok (task_admit i rcd s)"
proof -
  have "count_tasks P (ss_tasks (set_task i rcd q s)) = count_tasks P (ss_tasks s)" if "\<not> P TaskWaiting" "\<not> P q" for P q
    using count_tasks_set [OF at, of P q] that by simp
  then have c: "count_tasks phase_ingested (ss_tasks (task_admit i rcd s)) = count_tasks phase_ingested (ss_tasks s)"
    "count_tasks phase_saved (ss_tasks (task_admit i rcd s)) = count_tasks phase_saved (ss_tasks s)"
    by (auto simp: task_admit_def)
  have "\<not> in_flight (snd t)" if "t \<in> set (ss_tasks (task_admit i rcd s))" "\<not> sk_admission (ss_sink s)" for t
    using set_task_in [of t i rcd TaskRejected s] that ok by (auto simp: task_admit_def tasks_ok_def)
  with ok c show ?thesis by (auto simp: tasks_ok_def task_admit_def)
qed

lemma tasks_ok_step: "sink_step qops lops lib s s' \<Longrightarrow> tasks_ok s \<Longrightarrow> tasks_ok s'"
proof (induction rule: sink_step.induct)
  case (Arrive s rcd)
  then show ?case by (auto simp: tasks_ok_def)
next
  case (Close s)
  then show ?case by (auto simp: tasks_ok_def shutdown_close_def list_all_iff)
next
  case (Flush s)
  obtain r sk where f: "sink_flush (ss_sink s) = (r, sk)" by (cases "sink_flush (ss_sink s)")
  show ?case using Flush sink_flush_fields [OF f] by (auto simp: tasks_ok_def shutdown_flush_def f)
next
  case (Outputs s out pretty router)
  then show ?case by (simp add: tasks_ok_def)
qed (simp_all add: tasks_ok_admit tasks_ok_persist tasks_ok_health tasks_ok_ingest tasks_ok_queue tasks_ok_forward)

section \<open>The disk and the totals\<close>

lemma disk_ok_fields:
  "disk_ok lib sink base g s \<Longrightarrow> sk_aggregator (ss_sink s') = sk_aggregator (ss_sink s) \<Longrightarrow> sk_file (ss_sink s') = sk_file (ss_sink s) \<Longrightarrow>
     ss_ingested s' = ss_ingested s \<Longrightarrow> ss_saved s' = ss_saved s \<Longrightarrow> disk_ok lib sink base g s'"
  by (simp add: disk_ok_def)

lemma disk_ok_persist:
  assumes ok: "disk_ok lib sink base g s"
  shows "disk_ok lib sink base g (task_persist lib su i rcd s)"
proof (cases "sk_file (ss_sink s)")
  case None
  then show ?thesis using ok by (simp add: task_persist_def disk_ok_def)
next
  case (Some jw)
  then have holds: "jsonl_holds lib sink base (ss_saved s) jw" using ok by (simp add: disk_ok_def)
  show ?thesis
  proof (cases "sl_to_vec lib rcd")
    case None
    with Some ok show ?thesis by (simp add: task_persist_def write_jsonl_def disk_ok_def)
  next
    fix body assume body: "sl_to_vec lib rcd = Some body"
    then have line: "line_of lib rcd = body @ [newline]" by (simp add: line_of_def)
    obtain r jw' where w: "write_line lib su (line_of lib rcd) jw = (r, jw')" by (cases "write_line lib su (line_of lib rcd) jw")
    have "jsonl_holds lib sink base (ss_saved s @ (case r of Inl _ \<Rightarrow> [] | Inr _ \<Rightarrow> [rcd])) jw'"
      by (rule write_line_holds [OF holds w]) (simp add: line)
    then show ?thesis
      using ok Some w body by (cases r) (simp_all add: task_persist_def write_jsonl_def disk_ok_def line)
  qed
qed

lemma disk_ok_ingest:
  assumes "disk_ok lib sink base g s"
  shows "disk_ok lib sink base g (task_ingest i rcd s)"
proof -
  obtain b sk where i: "ingest_record rcd (ss_sink s) = (b, sk)" by (cases "ingest_record rcd (ss_sink s)")
  show ?thesis
    using assms ingest_record_fields [OF i] by (simp add: task_ingest_def i disk_ok_def ingest_run_def)
qed

lemma disk_ok_flush:
  assumes "disk_ok lib sink base g s"
  shows "disk_ok lib sink base g (shutdown_flush s)"
proof (cases "sk_file (ss_sink s)")
  case None
  then show ?thesis using assms by (simp add: shutdown_flush_def sink_flush_def disk_ok_def)
next
  case (Some jw)
  obtain r jw' where f: "jsonl_flush jw = (r, jw')" by (cases "jsonl_flush jw")
  show ?thesis
    using assms Some f jsonl_flush_holds [OF _ f, of lib sink base "ss_saved s"]
    by (simp add: shutdown_flush_def sink_flush_def disk_ok_def)
qed

lemma note_health_fields:
  "sk_aggregator (snd (note_health r now sk)) = sk_aggregator sk" "sk_file (snd (note_health r now sk)) = sk_file sk"
  by (simp_all add: note_health_def split: prod.splits)

lemma disk_ok_step: "sink_step qops lops lib s s' \<Longrightarrow> disk_ok lib sink base g s \<Longrightarrow> disk_ok lib sink base g s'"
proof (induction rule: sink_step.induct)
  case (Persist s i rcd su)
  then show ?case using disk_ok_persist by blast
next
  case (Ingest s i rcd)
  then show ?case using disk_ok_ingest by blast
next
  case (Flush s)
  then show ?case using disk_ok_flush by blast
next
  case (Health s i rcd result now)
  then show ?case by (elim disk_ok_fields) (simp_all add: task_health_def note_health_fields)
qed (auto elim!: disk_ok_fields simp: task_admit_def task_queue_def queue_pretty_def task_forward_def forward_def shutdown_close_def)

lemma reachable_sink:
  assumes "sink_reachable qops lops lib (sink_start sk) s" and "sk_admission sk"
    and "\<forall>jw. sk_file sk = Some jw \<longrightarrow> jsonl_holds lib sink base [] jw"
  shows "tasks_ok s \<and> disk_ok lib sink base (sk_aggregator sk) s \<and> (sk_file (ss_sink s) = None \<longleftrightarrow> sk_file sk = None)"
  using assms(1)
proof (induction rule: sink_reachable.induct)
  case Start
  then show ?case using assms(2,3) by (simp add: sink_start_def tasks_ok_def disk_ok_def ingest_run_def)
next
  case (Step s s')
  have "sk_file (ss_sink s') = None \<longleftrightarrow> sk_file (ss_sink s) = None"
    using Step.hyps(2)
  proof (induction rule: sink_step.induct)
    case (Persist s i rcd su)
    then show ?case using write_jsonl_fields [of lib su rcd "ss_sink s"]
      by (cases "write_jsonl lib su rcd (ss_sink s)") (auto simp: task_persist_def)
  next
    case (Ingest s i rcd)
    then show ?case using ingest_record_fields [of rcd "ss_sink s"]
      by (cases "ingest_record rcd (ss_sink s)") (auto simp: task_ingest_def)
  next
    case (Flush s)
    then show ?case using sink_flush_fields [of "ss_sink s"]
      by (cases "sink_flush (ss_sink s)") (auto simp: shutdown_flush_def)
  qed (auto simp: task_admit_def task_health_def note_health_fields task_queue_def queue_pretty_def task_forward_def
      forward_def shutdown_close_def)
  with Step tasks_ok_step disk_ok_step show ?case by metis
qed

text \<open>Opening repairs the file, or the file of the day, and keeps the complete lines of every file.\<close>

lemma create_keeps:
  "create_private_dir dir d = (r, d') \<Longrightarrow> disk_files d' = disk_files d"
  "create_parent path d = (r, d') \<Longrightarrow> disk_files d' = disk_files d"
  by (auto simp: create_private_dir_def create_parent_def disk_syscall_def split: prod.splits fault.splits list.splits option.splits if_splits)

lemma opened_jsonl:
  assumes "open_jsonl lib su (Some sink) d = (Inr (Some jw), d')"
  shows "jsonl_holds lib sink (\<lambda>p. complete_lines (disk_bytes d p)) [] jw"
proof (cases sink)
  case (LogFile path)
  obtain q d1 where c: "create_parent path d = (q, d1)" by (cases "create_parent path d")
  have keep: "disk_bytes d1 = disk_bytes d" using create_keeps(2) [OF c] by (simp add: fun_eq_iff disk_bytes_def)
  obtain r d2 where o: "append_file_open path d1 = (r, d2)" by (cases "append_file_open path d1")
  obtain ta where "r = Inr ta" "jw = JsonlFile ta"
    using assms LogFile c o by (auto simp: open_jsonl_def open_log_file_def split: sum.splits)
  then show ?thesis
    using open_lines [OF o] LogFile by (auto simp: jsonl_holds_def os_file.valid_def os_file.stored_def keep)
next
  case (LogDirectory dir keep_days)
  obtain q d1 where c: "create_private_dir dir d = (q, d1)" by (cases "create_private_dir dir d")
  have keep: "disk_bytes d1 = disk_bytes d" using create_keeps(1) [OF c] by (simp add: fun_eq_iff disk_bytes_def)
  obtain r d2 where o: "daily_at_date (sl_show_date lib) dir ROTATION_PREFIX None (su_local_date su) d1 = (r, d2)"
    by (cases "daily_at_date (sl_show_date lib) dir ROTATION_PREFIX None (su_local_date su) d1")
  obtain w where w: "r = Inr w" "jw = JsonlRoller \<lparr>rw_roller = with_sync_on_rotate w, rw_dir = dir, rw_keep_days = max_keep keep_days,
      rw_last_cleanup_day = su_utc_day su\<rparr>"
    using assms LogDirectory c o by (auto simp: open_jsonl_def open_rotated_def split: sum.splits prod.splits)
  note D = daily_at_date_wf [OF o [unfolded w(1)]]
  have "dw_wf (sl_show_date lib) (with_sync_on_rotate w)" "dw_stored (with_sync_on_rotate w) = dw_stored w"
    using D by (simp_all add: with_sync_on_rotate_def dw_wf_def dw_stored_def fun_eq_iff)
  then show ?thesis
    using D LogDirectory w(2) by (auto simp: jsonl_holds_def with_sync_on_rotate_def bytes_for_def keep intro!: exI [of _ "[]"])
qed

lemma opened_sink:
  assumes "sink_from_settings lib su tx no_color is_terminal clk st proxy d = (Inr (sk, pretty), d')"
  shows "sk_admission sk \<and> sk_aggregator sk = aggregator_new clk \<and> (sk_file sk = None \<longleftrightarrow> st_log_sink st = None) \<and>
    (\<forall>sink jw. st_log_sink st = Some sink \<longrightarrow> sk_file sk = Some jw \<longrightarrow>
       jsonl_holds lib sink (\<lambda>p. complete_lines (disk_bytes d p)) [] jw)"
proof -
  obtain r d1 where o: "open_jsonl lib su (st_log_sink st) d = (r, d1)" by (cases "open_jsonl lib su (st_log_sink st) d")
  obtain jsonl where r: "r = Inr jsonl" "sk_file sk = jsonl" "sk_admission sk" "sk_aggregator sk = aggregator_new clk"
    using assms o by (auto simp: sink_from_settings_def Let_def split: sum.splits option.splits prod.splits)
  have "jsonl = None \<longleftrightarrow> st_log_sink st = None"
    using o r(1) by (auto simp: open_jsonl_def split: option.splits log_sink.splits prod.splits sum.splits)
  moreover have "jsonl_holds lib sink (\<lambda>p. complete_lines (disk_bytes d p)) [] jw" if "st_log_sink st = Some sink" "jsonl = Some jw" for sink jw
    using opened_jsonl [of lib su sink d jw d1] o r(1) that by simp
  ultimately show ?thesis using r by auto
qed

text \<open>The sink of the settings in every state it can reach.\<close>

lemma sink_invariant:
  assumes "sink_from_settings lib su tx no_color is_terminal clk st proxy d = (Inr (sk, pretty), d')"
    and "sink_reachable qops lops lib (sink_start sk) s"
  shows "tasks_ok s" and "sk_aggregator (ss_sink s) = ingest_run (ss_ingested s) (aggregator_new clk)"
    and "sk_file (ss_sink s) = None \<longleftrightarrow> st_log_sink st = None"
    and "st_log_sink st = Some sink \<Longrightarrow> sk_file (ss_sink s) = Some jw \<Longrightarrow>
      jsonl_holds lib sink (\<lambda>p. complete_lines (disk_bytes d p)) (ss_saved s) jw"
proof -
  note O = opened_sink [OF assms(1)]
  have R: "tasks_ok s \<and> disk_ok lib sink (\<lambda>p. complete_lines (disk_bytes d p)) (aggregator_new clk) s \<and>
      (sk_file (ss_sink s) = None \<longleftrightarrow> sk_file sk = None)" if "st_log_sink st = Some sink \<or> st_log_sink st = None" for sink
    using reachable_sink [OF assms(2), of sink "\<lambda>p. complete_lines (disk_bytes d p)"] O that by auto
  then show "tasks_ok s" "sk_aggregator (ss_sink s) = ingest_run (ss_ingested s) (aggregator_new clk)"
    "sk_file (ss_sink s) = None \<longleftrightarrow> st_log_sink st = None"
    using O by (cases "st_log_sink st"; simp add: disk_ok_def)+
  show "jsonl_holds lib sink (\<lambda>p. complete_lines (disk_bytes d p)) (ss_saved s) jw"
    if "st_log_sink st = Some sink" "sk_file (ss_sink s) = Some jw"
    using R [of sink] that by (simp add: disk_ok_def)
qed

section \<open>Every task can end\<close>

lemma sink_reachable_trans:
  "sink_reachable qops lops lib s1 s2 \<Longrightarrow> sink_reachable qops lops lib s0 s1 \<Longrightarrow> sink_reachable qops lops lib s0 s2"
  by (induction rule: sink_reachable.induct) (auto intro: sink_reachable.Step)

lemma task_at_set: "i < length (ss_tasks s) \<Longrightarrow> task_at (set_task i rcd p s) i rcd p"
  by (simp add: task_at_def set_task_def)

text \<open>
  Nothing holds up a task that got in: its own steps take it to its end, which is the result of
  its write.
\<close>

lemma task_ends:
  assumes at: "task_at s i rcd TaskAdmitted" and opened: "sk_file (ss_sink s) \<noteq> None"
    and w: "write_jsonl lib su rcd (ss_sink s) = (r, sk)"
  shows "\<exists>s'. sink_reachable qops lops lib s s' \<and> ss_tasks s' = (ss_tasks s)[i := (rcd, TaskDone r)] \<and>
    sk_file (ss_sink s') = sk_file sk \<and> sk_admission (ss_sink s') = sk_admission sk \<and> ss_locked s' = ss_locked s \<and>
    ss_saved s' = ss_saved s @ (case r of Inl _ \<Rightarrow> [] | Inr _ \<Rightarrow> [rcd])"
proof -
  have i: "i < length (ss_tasks s)" using at by (simp add: task_at_def)
  define s1 where "s1 = task_persist lib su i rcd s"
  define s2 where "s2 = task_health 0 i rcd r s1"
  have s1: "s1 = set_task i rcd (TaskPersisted r) (s\<lparr>ss_sink := sk, ss_saved := ss_saved s @ (case r of Inl _ \<Rightarrow> [] | Inr _ \<Rightarrow> [rcd])\<rparr>)"
    using opened by (auto simp: s1_def task_persist_def w)
  have r1: "sink_reachable qops lops lib s s1"
    unfolding s1_def by (rule sink_reachable.Step [OF sink_reachable.Start Persist [OF at]])
  have "task_at s1 i rcd (TaskPersisted r)" unfolding s1 by (rule task_at_set) (simp add: i)
  then have r2: "sink_reachable qops lops lib s s2"
    unfolding s2_def by (rule sink_reachable.Step [OF r1 Health])
  obtain rep sk2 where h: "note_health r 0 sk = (rep, sk2)" by (cases "note_health r 0 sk")
  have H: "sk_file sk2 = sk_file sk" "sk_admission sk2 = sk_admission sk"
    using h by (auto simp: note_health_def split: prod.splits)
  show ?thesis
  proof (cases r)
    case (Inl e)
    then show ?thesis
      using r2 h H by (intro exI [of _ s2]) (simp add: s2_def s1 task_health_def set_task_def)
  next
    case (Inr u)
    define s3 where "s3 = task_ingest i rcd s2"
    have at2: "task_at s2 i rcd TaskSaved"
      using Inr i by (simp add: s2_def s1 task_health_def task_at_def set_task_def)
    obtain b sk3 where g: "ingest_record rcd sk2 = (b, sk3)" by (cases "ingest_record rcd sk2")
    note G = ingest_record_fields [OF g]
    have r3: "sink_reachable qops lops lib s s3"
      unfolding s3_def by (rule sink_reachable.Step [OF r2 Ingest [OF at2]])
    have at3: "task_at s3 i rcd (TaskIngested (b \<and> sk_summary_enabled sk3))"
      using Inr i h g by (simp add: s3_def s2_def s1 task_ingest_def task_health_def task_at_def set_task_def)
    define s4 where "s4 = task_queue qops lib i rcd (b \<and> sk_summary_enabled sk3) s3"
    have r4: "sink_reachable qops lops lib s s4"
      unfolding s4_def by (rule sink_reachable.Step [OF r3 Queue [OF at3]])
    have at4: "task_at s4 i rcd TaskQueued"
      using at3 by (simp add: s4_def task_queue_def task_at_def set_task_def)
    have r5: "sink_reachable qops lops lib s (task_forward lops i rcd s4)"
      by (rule sink_reachable.Step [OF r4 Forward [OF at4]])
    show ?thesis
      using r5 Inr h H g G
      by (intro exI [of _ "task_forward lops i rcd s4"])
        (simp add: s4_def s3_def s2_def s1 task_forward_def forward_def task_queue_def queue_pretty_def task_ingest_def
          task_health_def set_task_def)
  qed
qed

section \<open>After the shutdown\<close>

text \<open>Once the admission is closed nothing is saved or counted any more, and it stays closed.\<close>

definition closed :: "('d, 'q, 'l) sink_state \<Rightarrow> bool" where
  "closed s \<longleftrightarrow> \<not> sk_admission (ss_sink s) \<and> (\<forall>t \<in> set (ss_tasks s). \<not> in_flight (snd t))"

lemma closed_no_task: "closed s \<Longrightarrow> task_at s i rcd p \<Longrightarrow> \<not> in_flight p"
  using task_in by (fastforce simp: closed_def)

lemma closed_step:
  assumes "sink_step qops lops lib s s'" and "closed s"
  shows "closed s' \<and> ss_saved s' = ss_saved s \<and> ss_ingested s' = ss_ingested s"
  using assms
proof (induction rule: sink_step.induct)
  case (Admit s i rcd)
  then show ?case using set_task_in by (fastforce simp: closed_def task_admit_def)
next
  case (Flush s)
  then show ?case using sink_flush_fields [of "ss_sink s"]
    by (cases "sink_flush (ss_sink s)") (auto simp: closed_def shutdown_flush_def)
next
  case (Arrive s rcd)
  then show ?case by (simp add: closed_def)
next
  case (Close s)
  then show ?case by (simp add: closed_def shutdown_close_def)
next
  case (Outputs s out pretty router)
  then show ?case by (simp add: closed_def)
qed (auto dest: closed_no_task)

lemma closed_reachable:
  assumes "sink_reachable qops lops lib s s'" and "closed s"
  shows "closed s' \<and> ss_saved s' = ss_saved s \<and> ss_ingested s' = ss_ingested s"
  using assms by (induction rule: sink_reachable.induct) (auto dest: closed_step)

lemma all_acknowledged:
  assumes "tasks_ok s" and "\<forall>t \<in> set (ss_tasks s). \<not> in_flight (snd t)"
  shows "count_tasks phase_acknowledged (ss_tasks s) = mset (ss_ingested s)"
    "sk_file (ss_sink s) \<noteq> None \<Longrightarrow> mset (ss_saved s) = mset (ss_ingested s)"
proof -
  have "phase_acknowledged (snd t) = phase_ingested (snd t)" "phase_saved (snd t) = phase_ingested (snd t)"
    if "t \<in> set (ss_tasks s)" for t
    using assms(2) that by (cases "snd t"; auto simp: phase_acknowledged_def)+
  then have "count_tasks phase_acknowledged (ss_tasks s) = count_tasks phase_ingested (ss_tasks s)"
    "count_tasks phase_saved (ss_tasks s) = count_tasks phase_ingested (ss_tasks s)"
    by (auto intro!: count_tasks_same)
  with assms(1) show "count_tasks phase_acknowledged (ss_tasks s) = mset (ss_ingested s)"
    "sk_file (ss_sink s) \<noteq> None \<Longrightarrow> mset (ss_saved s) = mset (ss_ingested s)"
    by (auto simp: tasks_ok_def)
qed

section \<open>A probe changes nothing\<close>

definition same_contents :: "disk \<Rightarrow> disk \<Rightarrow> bool" where
  "same_contents d d' \<longleftrightarrow> (\<forall>p. disk_bytes d' p = disk_bytes d p)"

lemma same_contents_trans: "same_contents d d' \<Longrightarrow> same_contents d' d'' \<Longrightarrow> same_contents d d''"
  by (simp add: same_contents_def)

lemma syscall_contents: "disk_syscall d = (x, d') \<Longrightarrow> same_contents d d'"
  by (auto simp: disk_syscall_def same_contents_def disk_bytes_def split: list.splits)

lemma create_contents: "create_private_dir dir d = (r, d') \<Longrightarrow> same_contents d d'"
  by (auto simp: create_private_dir_def dest: syscall_contents split: prod.splits fault.splits)

lemma open_contents: "open_file path d = (r, d') \<Longrightarrow> same_contents d d'"
  by (auto simp: open_file_def Let_def same_contents_def disk_bytes_def dest!: syscall_contents split: prod.splits fault.splits)

lemma probe_contents:
  assumes "probe_log_file path d = (r, d')"
  shows "same_contents d d'"
proof -
  obtain q d1 where c: "create_parent path d = (q, d1)" by (cases "create_parent path d")
  have c1: "same_contents d d1"
    using c create_contents by (auto simp: create_parent_def same_contents_def split: option.splits if_splits)
  obtain o' d2 where o: "open_file path d1 = (o', d2)" by (cases "open_file path d1")
  have "d' = d1 \<or> d' = d2"
    using assms c o by (auto simp: probe_log_file_def append_file_probe_def split: sum.splits)
  with c1 same_contents_trans [OF c1 open_contents [OF o]] show ?thesis by blast
qed

lemma probe_jsonl_contents: "probe_jsonl lib su sink d = (r, d') \<Longrightarrow> same_contents d d'"
  by (auto simp: probe_jsonl_def dest!: probe_contents create_contents intro: same_contents_trans
      split: option.splits log_sink.splits prod.splits sum.splits)
    (simp_all add: same_contents_def)

lemma probe_settings_contents:
  assumes "probe_settings lib su st d = (r, d')"
  shows "same_contents d d'"
proof -
  obtain q d1 where j: "probe_jsonl lib su (st_log_sink st) d = (q, d1)" by (cases "probe_jsonl lib su (st_log_sink st) d")
  show ?thesis
    using assms j probe_jsonl_contents [OF j] same_contents_trans [OF probe_jsonl_contents [OF j] probe_contents]
    by (auto simp: probe_settings_def split: sum.splits option.splits)
qed

end
