(* ===== verification/Client.thy ===== *)
theory Client
  imports Routing
begin

text \<open>
  \<^verbatim>\<open>src/src/forward/client.rs\<close>: building the client of a route and judging the result
  of a send. The URL, header and protobuf parsers, the TLS and HTTP stacks and the clock are
  libraries: they are arguments. A duration is in milliseconds here, or in nanoseconds where the
  code needs them.
\<close>

section \<open>Endpoints\<close>

record parsed_url =
  url_scheme :: str
  url_has_host :: bool
  url_query :: "str option"
  url_fragment :: "str option"
  url_username :: str
  url_password :: "str option"

datatype client_error =
    EndpointUnparsable str
  | EndpointNotHttp str
  | EndpointQueryOrFragment str
  | EndpointCredentials str
  | TimeoutTooLong str nat
  | EndpointRejected str
  | InvalidHeaderKey str
  | InvalidHeaderValue str str
  | BuildUrl str str

definition GRPC_TIMEOUT_MAX :: nat where
  "GRPC_TIMEOUT_MAX = 99999999 * 60 * 60 * 1000"

definition OTLP_HTTP_PROTOBUF :: str where
  "OTLP_HTTP_PROTOBUF = ''application/x-protobuf''"

definition OTLP_HTTP_LOGS_PATH :: str where
  "OTLP_HTTP_LOGS_PATH = ''/v1/logs''"

definition OTLP_HTTP_TRACES_PATH :: str where
  "OTLP_HTTP_TRACES_PATH = ''/v1/traces''"

definition OTLP_HTTP_METRICS_PATH :: str where
  "OTLP_HTTP_METRICS_PATH = ''/v1/metrics''"

definition validate_proxy_endpoint :: "(str \<Rightarrow> parsed_url option) \<Rightarrow> str \<Rightarrow> str \<Rightarrow> client_error + unit" where
  "validate_proxy_endpoint parse_url raw route =
     and_then (ok_or (EndpointUnparsable route) (parse_url raw)) (\<lambda>url.
     and_then (ensure (url_scheme url \<in> {''http'', ''https''} \<and> url_has_host url) (EndpointNotHttp route)) (\<lambda>_.
     and_then (ensure (url_query url = None \<and> url_fragment url = None) (EndpointQueryOrFragment route)) (\<lambda>_.
     ensure (url_username url = '''' \<and> url_password url = None) (EndpointCredentials route))))"

text \<open>The endpoint with its timeouts; TLS is on for \<^verbatim>\<open>https\<close>.\<close>

record grpc_endpoint =
  ge_url :: str
  ge_timeout :: nat
  ge_tls :: bool

definition build_grpc_endpoint ::
    "(str \<Rightarrow> parsed_url option) \<Rightarrow> (str \<Rightarrow> str option option) \<Rightarrow> str \<Rightarrow> str \<Rightarrow> nat \<Rightarrow> client_error + grpc_endpoint" where
  "build_grpc_endpoint parse_url uri_scheme url route timeout =
     and_then (validate_proxy_endpoint parse_url url route) (\<lambda>_.
     and_then (ensure (timeout \<le> GRPC_TIMEOUT_MAX) (TimeoutTooLong route timeout)) (\<lambda>_.
     and_then (ok_or (EndpointRejected route) (uri_scheme url)) (\<lambda>scheme.
     Inr \<lparr>ge_url = url, ge_timeout = timeout, ge_tls = (scheme = Some ''https'')\<rparr>)))"

text \<open>A header map: an insert replaces the values of the name.\<close>

definition header_insert :: "str \<Rightarrow> str \<Rightarrow> (str \<times> str) list \<Rightarrow> (str \<times> str) list" where
  "header_insert k v hs = filter (\<lambda>h. fst h \<noteq> k) hs @ [(k, v)]"

text \<open>
  The header libraries: the parsed name (which HTTP folds to lower case) and whether the value is
  accepted.
\<close>

definition insert_header ::
    "(str \<Rightarrow> str option) \<Rightarrow> (str \<Rightarrow> bool) \<Rightarrow> str \<Rightarrow> (str \<Rightarrow> str) \<Rightarrow> str \<times> str \<Rightarrow> (str \<times> str) list \<Rightarrow> client_error + (str \<times> str) list" where
  "insert_header parse_name value_ok route fold_key header hs =
     and_then (ok_or (InvalidHeaderKey route) (parse_name (fold_key (fst header)))) (\<lambda>name.
     and_then (ensure (value_ok (snd header)) (InvalidHeaderValue route (fst header))) (\<lambda>_.
     Inr (header_insert name (snd header) hs)))"

record grpc_client =
  gc_endpoint :: grpc_endpoint
  gc_metadata :: "(str \<times> str) list"
  gc_timeout :: nat

definition grpc_connect ::
    "(str \<Rightarrow> parsed_url option) \<Rightarrow> (str \<Rightarrow> str option option) \<Rightarrow> (str \<Rightarrow> str option) \<Rightarrow> (str \<Rightarrow> bool) \<Rightarrow>
     proxy_route \<Rightarrow> nat \<Rightarrow> client_error + grpc_client" where
  "grpc_connect parse_url uri_scheme parse_name value_ok route timeout =
     and_then (build_grpc_endpoint parse_url uri_scheme (pr_endpoint route) (pr_name route) timeout) (\<lambda>endpoint.
     and_then (try_fold (insert_header parse_name value_ok (pr_name route) to_ascii_lowercase) (pr_headers route) []) (\<lambda>metadata.
     Inr \<lparr>gc_endpoint = endpoint, gc_metadata = metadata, gc_timeout = timeout\<rparr>))"

record http_urls =
  hu_logs :: str
  hu_traces :: str
  hu_metrics :: str

record http_client =
  hc_urls :: http_urls
  hc_headers :: "(str \<times> str) list"
  hc_timeout :: nat

definition trim_end_slashes :: "str \<Rightarrow> str" where
  "trim_end_slashes s = rev (dropWhile (\<lambda>c. c = CHR ''/'') (rev s))"

definition signal_url :: "(str \<Rightarrow> parsed_url option) \<Rightarrow> str \<Rightarrow> str \<Rightarrow> str \<Rightarrow> client_error + str" where
  "signal_url parse_url route base path =
     (case parse_url (base @ path) of None \<Rightarrow> Inl (BuildUrl route path) | Some _ \<Rightarrow> Inr (base @ path))"

definition http_build ::
    "(str \<Rightarrow> parsed_url option) \<Rightarrow> (str \<Rightarrow> str option) \<Rightarrow> (str \<Rightarrow> bool) \<Rightarrow> proxy_route \<Rightarrow> nat \<Rightarrow> client_error + http_client" where
  "http_build parse_url parse_name value_ok route timeout =
     and_then (validate_proxy_endpoint parse_url (pr_endpoint route) (pr_name route)) (\<lambda>_.
     let base = trim_end_slashes (pr_endpoint route) in
     and_then (signal_url parse_url (pr_name route) base OTLP_HTTP_LOGS_PATH) (\<lambda>logs.
     and_then (signal_url parse_url (pr_name route) base OTLP_HTTP_TRACES_PATH) (\<lambda>traces.
     and_then (signal_url parse_url (pr_name route) base OTLP_HTTP_METRICS_PATH) (\<lambda>metrics.
     and_then (try_fold (insert_header parse_name value_ok (pr_name route) id) (pr_headers route)
       [(''content-type'', OTLP_HTTP_PROTOBUF)]) (\<lambda>headers.
     Inr \<lparr>hc_urls = \<lparr>hu_logs = logs, hu_traces = traces, hu_metrics = metrics\<rparr>, hc_headers = headers,
       hc_timeout = timeout\<rparr>)))))"

datatype route_client = GrpcRoute grpc_client | HttpRoute http_client

definition route_client_build ::
    "(str \<Rightarrow> parsed_url option) \<Rightarrow> (str \<Rightarrow> str option option) \<Rightarrow> (str \<Rightarrow> str option) \<Rightarrow> (str \<Rightarrow> bool) \<Rightarrow>
     (str \<Rightarrow> str option) \<Rightarrow> (str \<Rightarrow> bool) \<Rightarrow> proxy_route \<Rightarrow> nat \<Rightarrow> client_error + route_client" where
  "route_client_build parse_url uri_scheme meta_name meta_value http_name http_value route timeout =
     (case pr_transport route of
        Grpc \<Rightarrow> and_then (grpc_connect parse_url uri_scheme meta_name meta_value route timeout) (\<lambda>c. Inr (GrpcRoute c))
      | HttpProtobuf \<Rightarrow> and_then (http_build parse_url http_name http_value route timeout) (\<lambda>c. Inr (HttpRoute c)))"

section \<open>Sending over HTTP\<close>

text \<open>
  What the HTTP library reports: a failure before a response, or the status and the text of the
  header \<^verbatim>\<open>Retry-After\<close> if it is there and readable.
\<close>

datatype http_response = HttpTransportFailure | HttpResponse (resp_status: nat) (resp_retry_after: "str option")

datatype grpc_code =
    CodeOk | CodeCancelled | CodeUnknown | CodeInvalidArgument | CodeDeadlineExceeded | CodeNotFound
  | CodeAlreadyExists | CodePermissionDenied | CodeResourceExhausted | CodeFailedPrecondition | CodeAborted
  | CodeOutOfRange | CodeUnimplemented | CodeInternal | CodeUnavailable | CodeDataLoss | CodeUnauthenticated

datatype export_error =
    HttpExportFailure nat "nat option"   \<comment> \<open>status and delay in nanoseconds\<close>
  | GrpcStatus (st_code: grpc_code) (st_transport_source: bool) (st_details: "u8 list")
  | ReqwestError
  | OtherExportError

definition is_success :: "nat \<Rightarrow> bool" where
  "is_success status \<longleftrightarrow> 200 \<le> status \<and> status < 300"

definition secs_to_nanos :: "u64 \<Rightarrow> nat" where
  "secs_to_nanos n = unat n * 1000000000"

text \<open>
  \<^verbatim>\<open>parse_retry_after\<close>: seconds, or a date (how far it is in the future, zero when past);
  a delay that the clock cannot add to the present is ignored.
\<close>

definition parse_retry_after :: "(str \<Rightarrow> nat option) \<Rightarrow> (nat \<Rightarrow> bool) \<Rightarrow> str \<Rightarrow> nat option" where
  "parse_retry_after date_ahead fits v =
     (case or_else (map_option secs_to_nanos (parse_u64 (trim v))) (date_ahead v) of
        None \<Rightarrow> None
      | Some delay \<Rightarrow> if fits delay then Some delay else None)"

definition http_target :: "http_urls \<Rightarrow> export_request \<Rightarrow> str \<times> str" where
  "http_target urls request = (case request of
       ExportLogs _ \<Rightarrow> (hu_logs urls, OTLP_HTTP_LOGS_PATH)
     | ExportTraces _ \<Rightarrow> (hu_traces urls, OTLP_HTTP_TRACES_PATH)
     | ExportMetrics _ \<Rightarrow> (hu_metrics urls, OTLP_HTTP_METRICS_PATH))"

definition http_export ::
    "(str \<Rightarrow> nat option) \<Rightarrow> (nat \<Rightarrow> bool) \<Rightarrow> (export_request \<Rightarrow> u8 list) \<Rightarrow>
     (str \<Rightarrow> (str \<times> str) list \<Rightarrow> u8 list \<Rightarrow> http_response) \<Rightarrow> http_client \<Rightarrow> export_request \<Rightarrow> export_error + unit" where
  "http_export date_ahead fits encode_pb post client request =
     (case post (fst (http_target (hc_urls client) request)) (hc_headers client) (encode_pb request) of
        HttpTransportFailure \<Rightarrow> Inl ReqwestError
      | HttpResponse status retry_after \<Rightarrow>
          if is_success status then Inr ()
          else Inl (HttpExportFailure status (Option.bind retry_after (parse_retry_after date_ahead fits))))"

section \<open>Sending over gRPC\<close>

text \<open>
  The call of the service of the request's signal, with the metadata and the timeout of the
  client; a partial success of the upstream is a success and only logged.
\<close>

record grpc_failure =
  gf_code :: grpc_code
  gf_transport_source :: bool
  gf_details :: "u8 list"

definition grpc_export ::
    "(export_request \<Rightarrow> (str \<times> str) list \<Rightarrow> nat \<Rightarrow> grpc_failure + 'partial) \<Rightarrow> grpc_client \<Rightarrow> export_request \<Rightarrow>
     export_error + unit" where
  "grpc_export call client request = (case call request (gc_metadata client) (gc_timeout client) of
       Inl f \<Rightarrow> Inl (GrpcStatus (gf_code f) (gf_transport_source f) (gf_details f))
     | Inr _ \<Rightarrow> Inr ())"

text \<open>
  The warnings of the three services about a partial success: how many records, spans or data
  points were rejected, and the text of the upstream.
\<close>

definition warn_partial :: "proxy_signal \<Rightarrow> (i64 \<times> str) option \<Rightarrow> (proxy_signal \<times> i64 \<times> str) option" where
  "warn_partial signal ps = (case ps of
       None \<Rightarrow> None
     | Some (rejected, error_message) \<Rightarrow>
         if rejected \<noteq> 0 \<or> error_message \<noteq> [] then Some (signal, rejected, error_message) else None)"

definition grpc_warning ::
    "(export_request \<Rightarrow> (str \<times> str) list \<Rightarrow> nat \<Rightarrow> grpc_failure + (i64 \<times> str) option) \<Rightarrow> grpc_client \<Rightarrow> export_request \<Rightarrow>
     (proxy_signal \<times> i64 \<times> str) option" where
  "grpc_warning call client request = (case call request (gc_metadata client) (gc_timeout client) of
       Inl _ \<Rightarrow> None
     | Inr ps \<Rightarrow> warn_partial (request_signal request) ps)"

lemma warned_is_sent: "grpc_warning call client request = Some w \<Longrightarrow> grpc_export call client request = Inr ()"
  by (auto simp: grpc_warning_def grpc_export_def split: sum.splits)

definition route_client_export ::
    "(http_client \<Rightarrow> export_request \<Rightarrow> export_error + unit) \<Rightarrow> (grpc_client \<Rightarrow> export_request \<Rightarrow> export_error + unit) \<Rightarrow>
     route_client \<Rightarrow> export_request \<Rightarrow> export_error + unit" where
  "route_client_export via_http via_grpc client request = (case client of
       GrpcRoute c \<Rightarrow> via_grpc c request
     | HttpRoute c \<Rightarrow> via_http c request)"

section \<open>Which failures may be retried\<close>

text \<open>
  The decoders of the protobuf messages \<^verbatim>\<open>RpcStatus\<close> (the type and value of each
  detail) and \<^verbatim>\<open>RpcRetryInfo\<close> (seconds and nanoseconds) are arguments.
\<close>

definition last_segment :: "str \<Rightarrow> str" where
  "last_segment s = rev (takeWhile (\<lambda>c. c \<noteq> CHR ''/'') (rev s))"

definition retry_info_delay ::
    "(u8 list \<Rightarrow> (i64 \<times> i32) option option) \<Rightarrow> (nat \<Rightarrow> bool) \<Rightarrow> str \<times> u8 list \<Rightarrow> nat option" where
  "retry_info_delay decode_retry_info fits detail =
     (if last_segment (fst detail) \<noteq> ''google.rpc.RetryInfo'' then None
      else case decode_retry_info (snd detail) of
          None \<Rightarrow> None
        | Some None \<Rightarrow> Some 0
        | Some (Some (seconds, nanos)) \<Rightarrow>
            if sint seconds < 0 \<or> 315576000000 < sint seconds \<or> sint nanos < 0 \<or> 1000000000 \<le> sint nanos then None
            else let delay = nat (sint seconds) * 1000000000 + nat (sint nanos) in
              if fits delay then Some delay else None)"

definition grpc_retry_info ::
    "(u8 list \<Rightarrow> (str \<times> u8 list) list option) \<Rightarrow> (u8 list \<Rightarrow> (i64 \<times> i32) option option) \<Rightarrow> (nat \<Rightarrow> bool) \<Rightarrow>
     u8 list \<Rightarrow> nat option" where
  "grpc_retry_info decode_status decode_retry_info fits details =
     (case decode_status details of
        None \<Rightarrow> None
      | Some ds \<Rightarrow> (case List.map_filter (retry_info_delay decode_retry_info fits) ds of [] \<Rightarrow> None | d # _ \<Rightarrow> Some d))"

definition retry_delay ::
    "(u8 list \<Rightarrow> (str \<times> u8 list) list option) \<Rightarrow> (u8 list \<Rightarrow> (i64 \<times> i32) option option) \<Rightarrow> (nat \<Rightarrow> bool) \<Rightarrow>
     export_error \<Rightarrow> nat option" where
  "retry_delay decode_status decode_retry_info fits error = (case error of
       HttpExportFailure status retry_after \<Rightarrow>
         if status \<in> {429, 502, 503, 504} then Some (unwrap_or 0 retry_after) else None
     | GrpcStatus code transport details \<Rightarrow>
         let info = grpc_retry_info decode_status decode_retry_info fits details in
         if code \<in> {CodeCancelled, CodeDeadlineExceeded, CodeAborted, CodeOutOfRange, CodeUnavailable, CodeDataLoss}
           then Some (unwrap_or 0 info)
         else if code = CodeResourceExhausted then info
         else if (code = CodeUnknown \<or> code = CodeInternal) \<and> transport then Some 0
         else None
     | ReqwestError \<Rightarrow> Some 0
     | OtherExportError \<Rightarrow> None)"

section \<open>Facts\<close>

text \<open>The delays that come from outside are ones the clock can handle.\<close>

lemma retry_info_fits: "retry_info_delay dec fits d = Some n \<Longrightarrow> n = 0 \<or> fits n"
  by (auto simp: retry_info_delay_def Let_def split: if_splits option.splits prod.splits)

lemma grpc_retry_info_fits: "grpc_retry_info ds dec fits b = Some n \<Longrightarrow> n = 0 \<or> fits n"
proof -
  assume "grpc_retry_info ds dec fits b = Some n"
  then obtain es r where "List.map_filter (retry_info_delay dec fits) es = n # r"
    by (auto simp: grpc_retry_info_def split: option.splits list.splits)
  then have "n \<in> set (List.map_filter (retry_info_delay dec fits) es)" by simp
  then obtain d where "retry_info_delay dec fits d = Some n" by (auto simp: List.map_filter_def)
  then show ?thesis by (rule retry_info_fits)
qed

lemma insert_header_keys:
  "insert_header pn vo route fk h hs = Inr hs' \<Longrightarrow> distinct (map fst hs) \<Longrightarrow> distinct (map fst hs')"
  by (auto simp: insert_header_def and_then_Inr header_insert_def distinct_map_filter)

lemma header_insert_other: "k \<noteq> j \<Longrightarrow> map_of (header_insert k v hs) j = map_of hs j"
  by (induction hs) (auto simp: header_insert_def)

lemma header_insert_same: "map_of (header_insert k v hs) k = Some v"
  by (induction hs) (auto simp: header_insert_def)

lemma trim_end_slashes_spec: "trim_end_slashes s = [] \<or> last (trim_end_slashes s) \<noteq> CHR ''/''"
proof (cases "dropWhile (\<lambda>c. c = CHR ''/'') (rev s)")
  case (Cons c cs)
  then have "c \<noteq> CHR ''/''" using hd_dropWhile [of "\<lambda>c. c = CHR ''/''" "rev s"] by simp
  with Cons show ?thesis by (simp add: trim_end_slashes_def)
qed (simp add: trim_end_slashes_def)

section \<open>Built clients\<close>

interpretation header_map: fallible_step "insert_header pn vo route fk" "\<lambda>_ hs. distinct (map fst hs)" for pn vo route fk
  by unfold_locales (rule insert_header_keys)

definition client_valid :: "(str \<Rightarrow> parsed_url option) \<Rightarrow> proxy_route \<Rightarrow> route_client \<Rightarrow> bool" where
  "client_valid parse_url route client \<longleftrightarrow>
    (\<exists>url. parse_url (pr_endpoint route) = Some url \<and> url_scheme url \<in> {''http'', ''https''} \<and> url_has_host url \<and>
      url_query url = None \<and> url_fragment url = None \<and> url_username url = '''' \<and> url_password url = None) \<and>
    (case client of
       GrpcRoute c \<Rightarrow> gc_timeout c \<le> 99999999 * 3600000 \<and> ge_url (gc_endpoint c) = pr_endpoint route \<and>
         distinct (map fst (gc_metadata c))
     | HttpRoute c \<Rightarrow> hu_logs (hc_urls c) = trim_end_slashes (pr_endpoint route) @ ''/v1/logs'' \<and>
         hu_traces (hc_urls c) = trim_end_slashes (pr_endpoint route) @ ''/v1/traces'' \<and>
         hu_metrics (hc_urls c) = trim_end_slashes (pr_endpoint route) @ ''/v1/metrics'' \<and>
         distinct (map fst (hc_headers c)))"

lemma endpoint_valid:
  "validate_proxy_endpoint parse_url raw route = Inr u \<Longrightarrow>
    \<exists>url. parse_url raw = Some url \<and> url_scheme url \<in> {''http'', ''https''} \<and> url_has_host url \<and>
      url_query url = None \<and> url_fragment url = None \<and> url_username url = '''' \<and> url_password url = None"
  by (auto simp: validate_proxy_endpoint_def and_then_Inr)

lemma grpc_connected:
  assumes "grpc_connect parse_url uri_scheme pn vo route timeout = Inr c"
  shows "client_valid parse_url route (GrpcRoute c)"
proof -
  obtain e metadata where e: "build_grpc_endpoint parse_url uri_scheme (pr_endpoint route) (pr_name route) timeout = Inr e"
    and m: "try_fold (insert_header pn vo (pr_name route) to_ascii_lowercase) (pr_headers route) [] = Inr metadata"
    and c: "c = \<lparr>gc_endpoint = e, gc_metadata = metadata, gc_timeout = timeout\<rparr>"
    using assms by (auto simp: grpc_connect_def and_then_Inr)
  have "distinct (map fst metadata)" by (rule header_map.run_inv [OF _ m]) simp
  moreover have "ge_url e = pr_endpoint route \<and> timeout \<le> GRPC_TIMEOUT_MAX"
    using e by (auto simp: build_grpc_endpoint_def and_then_Inr)
  moreover have "validate_proxy_endpoint parse_url (pr_endpoint route) (pr_name route) = Inr ()"
    using e by (auto simp: build_grpc_endpoint_def and_then_Inr)
  ultimately show ?thesis
    using endpoint_valid by (simp add: client_valid_def c GRPC_TIMEOUT_MAX_def)
qed

lemma http_built:
  assumes "http_build parse_url pn vo route timeout = Inr c"
  shows "client_valid parse_url route (HttpRoute c)"
proof -
  obtain hs where v: "validate_proxy_endpoint parse_url (pr_endpoint route) (pr_name route) = Inr ()"
    and h: "try_fold (insert_header pn vo (pr_name route) id) (pr_headers route) [(''content-type'', OTLP_HTTP_PROTOBUF)] = Inr hs"
    and c: "hc_headers c = hs" "hu_logs (hc_urls c) = trim_end_slashes (pr_endpoint route) @ OTLP_HTTP_LOGS_PATH"
      "hu_traces (hc_urls c) = trim_end_slashes (pr_endpoint route) @ OTLP_HTTP_TRACES_PATH"
      "hu_metrics (hc_urls c) = trim_end_slashes (pr_endpoint route) @ OTLP_HTTP_METRICS_PATH"
    using assms by (auto simp: http_build_def and_then_Inr Let_def signal_url_def split: option.splits)
  have "distinct (map fst hs)" by (rule header_map.run_inv [OF _ h]) simp
  with endpoint_valid [OF v] c show ?thesis
    by (simp add: client_valid_def OTLP_HTTP_LOGS_PATH_def OTLP_HTTP_TRACES_PATH_def OTLP_HTTP_METRICS_PATH_def)
qed

lemma client_built:
  "route_client_build parse_url uri_scheme mn mv hn hv route timeout = Inr client \<Longrightarrow> client_valid parse_url route client"
  by (auto simp: route_client_build_def and_then_Inr split: proxy_transport.splits dest: grpc_connected http_built)

end
