(* ===== verification/Receiver.thy ===== *)
theory Receiver
  imports Admission Sink_Laws Client
begin

text \<open>
  The receiving ends of \<^verbatim>\<open>src/src/http.rs\<close> and \<^verbatim>\<open>src/src/grpc.rs\<close>: the checks, the
  answers and the handlers of both protocols, as steps that interleave with the receive limits of
  \<^verbatim>\<open>Admission\<close> and with the sink of \<^verbatim>\<open>Sink\<close>. Request number \<open>i\<close> of the receiver is
  request number \<open>i\<close> of the limits. The HTTP and gRPC libraries are arguments: header text, the
  codecs, and what reading a body ends with.
\<close>

section \<open>Checks and answers over HTTP\<close>

definition PROTOBUF_CT :: str where
  "PROTOBUF_CT = ''application/x-protobuf''"

definition JSON_CT :: str where
  "JSON_CT = ''application/json''"

definition OTLP_MAX_REQUEST_BYTES :: nat where
  "OTLP_MAX_REQUEST_BYTES = 32 * 1024 * 1024"

datatype encoding = Protobuf | Json

text \<open>Why the sink did not take a batch.\<close>

datatype record_error = ShuttingDown | NotPersisted persist_error

datatype http_error =
    UnsupportedContentType str
  | BadProtobuf str
  | BadJson str
  | BadBody str
  | BodyTooLarge
  | ReceiverBusy rejected
  | BodyTimeout
  | Persistence record_error

definition http_status :: "http_error \<Rightarrow> nat" where
  "http_status e = (case e of
       UnsupportedContentType _ \<Rightarrow> 415
     | BadProtobuf _ \<Rightarrow> 400
     | BadJson _ \<Rightarrow> 400
     | BadBody _ \<Rightarrow> 400
     | BodyTooLarge \<Rightarrow> 413
     | ReceiverBusy _ \<Rightarrow> 503
     | BodyTimeout \<Rightarrow> 503
     | Persistence _ \<Rightarrow> 503)"

definition http_error_text :: "(record_error \<Rightarrow> str) \<Rightarrow> http_error \<Rightarrow> str" where
  "http_error_text show_record_error e = (case e of
       UnsupportedContentType ct \<Rightarrow> ''unsupported content type: '' @ ct
     | BadProtobuf cause \<Rightarrow> ''failed to decode protobuf body: '' @ cause
     | BadJson cause \<Rightarrow> ''failed to decode JSON body: '' @ cause
     | BadBody cause \<Rightarrow> ''failed to read request body: '' @ cause
     | BodyTooLarge \<Rightarrow> ''request body exceeds 33554432 bytes''
     | ReceiverBusy r \<Rightarrow> message r
     | BodyTimeout \<Rightarrow> ''request body was not received before the deadline; retry later''
     | Persistence cause \<Rightarrow> ''failed to persist telemetry: '' @ show_record_error cause)"

text \<open>
  What the libraries do: the text of a header value if it is printable, the decoders of the three
  requests, the encoders of the empty response of a signal, and the text of an error.
\<close>

record wire_library =
  wl_to_str :: "u8 list \<Rightarrow> str option"
  wl_traces :: "encoding \<Rightarrow> u8 list \<Rightarrow> str + traces_request"
  wl_metrics :: "encoding \<Rightarrow> u8 list \<Rightarrow> str + metrics_request"
  wl_logs :: "encoding \<Rightarrow> u8 list \<Rightarrow> str + logs_request"
  wl_encode :: "encoding \<Rightarrow> proxy_signal \<Rightarrow> u8 list"
  wl_show :: "record_error \<Rightarrow> str"

definition first_part :: "char \<Rightarrow> str \<Rightarrow> str" where
  "first_part c s = (case split_once c s of None \<Rightarrow> s | Some (a, _) \<Rightarrow> a)"

definition detect_encoding :: "wire_library \<Rightarrow> u8 list option \<Rightarrow> http_error + encoding" where
  "detect_encoding lib content_type =
     (case (case content_type of
          Some v \<Rightarrow> ok_or (UnsupportedContentType ''<invalid header value>'') (wl_to_str lib v)
        | None \<Rightarrow> Inr PROTOBUF_CT) of
        Inl e \<Rightarrow> Inl e
      | Inr ct \<Rightarrow> let primary = trim (first_part (CHR '';'') ct) in
          if eq_ignore_ascii_case primary PROTOBUF_CT then Inr Protobuf
          else if eq_ignore_ascii_case primary JSON_CT then Inr Json
          else Inl (UnsupportedContentType primary))"

text \<open>An error and its causes; \<open>True\<close> marks the error that reports an exceeded length limit.\<close>

fun exceeds_length_limit :: "bool list \<Rightarrow> bool" where
  "exceeds_length_limit [] = False"
| "exceeds_length_limit (is_limit_error # sources) = (is_limit_error \<or> exceeds_length_limit sources)"

datatype body_end = BodyDeadline | BodyFailed str "bool list" | BodyRead "u8 list"

definition read_body :: "body_end \<Rightarrow> http_error + u8 list" where
  "read_body b = (case b of
       BodyDeadline \<Rightarrow> Inl BodyTimeout
     | BodyRead bytes \<Rightarrow> Inr bytes
     | BodyFailed cause chain \<Rightarrow> Inl (if exceeds_length_limit chain then BodyTooLarge else BadBody cause))"

definition decode_request :: "(encoding \<Rightarrow> u8 list \<Rightarrow> str + 'm) \<Rightarrow> encoding \<Rightarrow> u8 list \<Rightarrow> http_error + 'm" where
  "decode_request decode enc bytes = (case decode enc bytes of
       Inr m \<Rightarrow> Inr m
     | Inl cause \<Rightarrow> Inl (case enc of Protobuf \<Rightarrow> BadProtobuf cause | Json \<Rightarrow> BadJson cause))"

datatype answer =
    HttpReply (reply_status: nat) (reply_content_type: "str option") (reply_body: "u8 list")
  | GrpcReply
  | GrpcFailure grpc_code str

definition into_response :: "wire_library \<Rightarrow> http_error \<Rightarrow> answer" where
  "into_response lib e = HttpReply (http_status e) None (text_bytes (http_error_text (wl_show lib) e))"

definition encode_response :: "wire_library \<Rightarrow> encoding \<Rightarrow> proxy_signal \<Rightarrow> answer" where
  "encode_response lib enc sig =
     HttpReply 200 (Some (case enc of Protobuf \<Rightarrow> PROTOBUF_CT | Json \<Rightarrow> JSON_CT)) (wl_encode lib enc sig)"

section \<open>Answers over gRPC\<close>

text \<open>
  A body that ends with an error ends the call with a status of the library, unless the error is
  that of the deadline.
\<close>

datatype grpc_body_end = GrpcDeadline | GrpcFailed grpc_code str | GrpcDecoded telemetry_record

definition rejected_status :: "rejected \<Rightarrow> answer" where
  "rejected_status r = GrpcFailure CodeUnavailable (message r)"

definition deadline_exceeded_as_unavailable :: "grpc_body_end \<Rightarrow> answer + telemetry_record" where
  "deadline_exceeded_as_unavailable b = (case b of
       GrpcDeadline \<Rightarrow> Inl (GrpcFailure CodeUnavailable ''request body was not received before the deadline; retry later'')
     | GrpcFailed code cause \<Rightarrow> Inl (GrpcFailure code cause)
     | GrpcDecoded rcd \<Rightarrow> Inr rcd)"

definition persistence_status :: "wire_library \<Rightarrow> record_error \<Rightarrow> answer" where
  "persistence_status lib e = GrpcFailure CodeUnavailable (''failed to persist telemetry: '' @ wl_show lib e)"

text \<open>What OTLP lets an exporter send again, and what tells it that its batch was taken.\<close>

fun retryable :: "answer \<Rightarrow> bool" where
  "retryable (HttpReply status _ _) = (status \<in> {429, 502, 503, 504})"
| "retryable GrpcReply = False"
| "retryable (GrpcFailure code _) = (code = CodeUnavailable)"

fun acknowledges :: "answer \<Rightarrow> bool" where
  "acknowledges (HttpReply status _ _) = is_success status"
| "acknowledges GrpcReply = True"
| "acknowledges (GrpcFailure _ _) = False"

section \<open>Handlers\<close>

datatype transport = OverHttp proxy_signal "u8 list option" | OverGrpc proxy_signal

datatype handler_phase = Starting | Admitting | Reading | Saving | Answered answer | Cancelled

text \<open>
  A permit has clones: those of the handler (over gRPC the layer holds one and the request
  another), and the one that goes with the batch to the task of the sink.
\<close>

record handler =
  rq_transport :: transport
  rq_encoding :: "encoding option"
  rq_phase :: handler_phase
  rq_held :: nat
  rq_job :: "nat option"   \<comment> \<open>the task of the batch\<close>
  rq_job_holds :: bool

definition new_handler :: "transport \<Rightarrow> handler" where
  "new_handler t = \<lparr>rq_transport = t, rq_encoding = None, rq_phase = Starting, rq_held = 0, rq_job = None, rq_job_holds = False\<rparr>"

definition begin_handler :: "wire_library \<Rightarrow> handler \<Rightarrow> handler" where
  "begin_handler wl h = (case rq_transport h of
       OverHttp _ content_type \<Rightarrow> (case detect_encoding wl content_type of
           Inl e \<Rightarrow> h\<lparr>rq_phase := Answered (into_response wl e)\<rparr>
         | Inr enc \<Rightarrow> h\<lparr>rq_encoding := Some enc, rq_phase := Admitting\<rparr>)
     | OverGrpc _ \<Rightarrow> h\<lparr>rq_phase := Admitting\<rparr>)"

definition busy_answer :: "wire_library \<Rightarrow> rejected \<Rightarrow> handler \<Rightarrow> answer" where
  "busy_answer wl r h = (case rq_transport h of
       OverHttp _ _ \<Rightarrow> into_response wl (ReceiverBusy r)
     | OverGrpc _ \<Rightarrow> rejected_status r)"

definition permit_clones :: "transport \<Rightarrow> nat" where
  "permit_clones t = (case t of OverHttp _ _ \<Rightarrow> 1 | OverGrpc _ \<Rightarrow> 2)"

text \<open>The three handlers up to the sink: the body, the request in it, and the batch made of it.\<close>

definition handle_traces :: "wire_library \<Rightarrow> encoding \<Rightarrow> body_end \<Rightarrow> http_error + telemetry_record" where
  "handle_traces wl enc b = and_then (read_body b) (\<lambda>bytes.
     and_then (decode_request (wl_traces wl) enc bytes) (\<lambda>req. Inr (Traces req)))"

definition handle_metrics :: "wire_library \<Rightarrow> encoding \<Rightarrow> body_end \<Rightarrow> http_error + telemetry_record" where
  "handle_metrics wl enc b = and_then (read_body b) (\<lambda>bytes.
     and_then (decode_request (wl_metrics wl) enc bytes) (\<lambda>req. Inr (Metrics req)))"

definition handle_logs :: "wire_library \<Rightarrow> encoding \<Rightarrow> body_end \<Rightarrow> http_error + telemetry_record" where
  "handle_logs wl enc b = and_then (read_body b) (\<lambda>bytes.
     and_then (decode_request (wl_logs wl) enc bytes) (\<lambda>req. Inr (Logs req)))"

definition http_received :: "wire_library \<Rightarrow> encoding \<Rightarrow> proxy_signal \<Rightarrow> body_end \<Rightarrow> answer + telemetry_record" where
  "http_received wl enc sig b =
     (case (case sig of
          SignalTraces \<Rightarrow> handle_traces wl enc b
        | SignalMetrics \<Rightarrow> handle_metrics wl enc b
        | SignalLogs \<Rightarrow> handle_logs wl enc b) of
        Inl e \<Rightarrow> Inl (into_response wl e)
      | Inr rcd \<Rightarrow> Inr rcd)"

text \<open>The answer when the sink has returned.\<close>

definition http_answer :: "wire_library \<Rightarrow> encoding \<Rightarrow> proxy_signal \<Rightarrow> record_error + unit \<Rightarrow> answer" where
  "http_answer wl enc sig result = (case result of
       Inl e \<Rightarrow> into_response wl (Persistence e)
     | Inr _ \<Rightarrow> encode_response wl enc sig)"

definition grpc_answer :: "wire_library \<Rightarrow> record_error + unit \<Rightarrow> answer" where
  "grpc_answer wl result = (case result of
       Inl e \<Rightarrow> persistence_status wl e
     | Inr _ \<Rightarrow> GrpcReply)"

definition record_answer :: "wire_library \<Rightarrow> handler \<Rightarrow> record_error + unit \<Rightarrow> answer" where
  "record_answer wl h result = (case rq_transport h of
       OverHttp sig _ \<Rightarrow> http_answer wl (case rq_encoding h of Some enc \<Rightarrow> enc | None \<Rightarrow> Protobuf) sig result
     | OverGrpc _ \<Rightarrow> grpc_answer wl result)"

fun task_result :: "task_phase \<Rightarrow> (record_error + unit) option" where
  "task_result TaskRejected = Some (Inl ShuttingDown)"
| "task_result (TaskDone (Inl e)) = Some (Inl (NotPersisted e))"
| "task_result (TaskDone (Inr _)) = Some (Inr ())"
| "task_result _ = None"

section \<open>The other endpoints\<close>

datatype endpoint = ReceiveBatch proxy_signal | HealthCheck | StatsReport

definition http_router :: "str \<Rightarrow> str \<Rightarrow> endpoint option" where
  "http_router verb path = map_of
     [((''POST'', ''/v1/traces''), ReceiveBatch SignalTraces), ((''POST'', ''/v1/metrics''), ReceiveBatch SignalMetrics),
      ((''POST'', ''/v1/logs''), ReceiveBatch SignalLogs), ((''GET'', ''/healthz''), HealthCheck),
      ((''GET'', ''/stats''), StatsReport)] (verb, path)"

definition health_reply :: str where
  "health_reply = ''ok''"

record stats_response =
  sr_usage :: usage_snapshot
  sr_proxy :: "(str, route_metrics_snapshot) omap option"

definition handle_stats ::
    "(time \<Rightarrow> str) \<Rightarrow> nat \<Rightarrow> ('l, export_request) channel_ops \<Rightarrow> ('d, 'q, 'l) sink \<Rightarrow> stats_response" where
  "handle_stats format_rfc3339 cap lops sk = \<lparr>sr_usage = aggregator_snapshot format_rfc3339 (sk_aggregator sk),
     sr_proxy = map_option (\<lambda>r. fold (\<lambda>(name, m). om_put name m) (router_snapshot cap lops r) []) (sk_proxy sk)\<rparr>"

section \<open>The receiver\<close>

record ('d, 'q, 'l) receiver =
  rv_admission :: admission_state
  rv_sink :: "('d, 'q, 'l) sink_state"
  rv_handlers :: "handler list"

definition handler_at :: "('d, 'q, 'l) receiver \<Rightarrow> nat \<Rightarrow> handler \<Rightarrow> bool" where
  "handler_at s i h \<longleftrightarrow> i < length (rv_handlers s) \<and> rv_handlers s ! i = h"

definition permit_of :: "('d, 'q, 'l) receiver \<Rightarrow> nat \<Rightarrow> request_phase" where
  "permit_of s i = as_requests (rv_admission s) ! i"

definition set_handler :: "nat \<Rightarrow> handler \<Rightarrow> ('d, 'q, 'l) receiver \<Rightarrow> ('d, 'q, 'l) receiver" where
  "set_handler i h s = s\<lparr>rv_handlers := (rv_handlers s)[i := h]\<rparr>"

definition set_permit :: "nat \<Rightarrow> request_phase \<times> receive_limits \<Rightarrow> ('d, 'q, 'l) receiver \<Rightarrow> ('d, 'q, 'l) receiver" where
  "set_permit i pl s = s\<lparr>rv_admission := (rv_admission s)
     \<lparr>as_limits := snd pl, as_requests := (as_requests (rv_admission s))[i := fst pl]\<rparr>\<rparr>"

definition clone_permit :: "request_phase \<Rightarrow> request_phase" where
  "clone_permit p = (case p of Holding n \<Rightarrow> Holding (Suc n) | _ \<Rightarrow> p)"

fun drop_permit :: "request_phase \<times> receive_limits \<Rightarrow> request_phase \<times> receive_limits" where
  "drop_permit (Holding (Suc (Suc n)), l) = (Holding (Suc n), l)"
| "drop_permit (Holding (Suc 0), l) = (Finished, release l)"
| "drop_permit pl = pl"

definition drop_permits :: "nat \<Rightarrow> nat \<Rightarrow> ('d, 'q, 'l) receiver \<Rightarrow> ('d, 'q, 'l) receiver" where
  "drop_permits n i s = set_permit i ((drop_permit ^^ n) (permit_of s i, as_limits (rv_admission s))) s"

definition arrive :: "transport \<Rightarrow> ('d, 'q, 'l) receiver \<Rightarrow> ('d, 'q, 'l) receiver" where
  "arrive t s = s\<lparr>rv_admission := (rv_admission s)\<lparr>as_requests := as_requests (rv_admission s) @ [Arrived]\<rparr>,
     rv_handlers := rv_handlers s @ [new_handler t]\<rparr>"

text \<open>A request whose content type is refused never asks for a permit.\<close>

definition begin_request :: "wire_library \<Rightarrow> nat \<Rightarrow> handler \<Rightarrow> ('d, 'q, 'l) receiver \<Rightarrow> ('d, 'q, 'l) receiver" where
  "begin_request wl i h s = (let h' = begin_handler wl h; s = set_handler i h' s in
     if rq_phase h' = Admitting then s else set_permit i (Finished, as_limits (rv_admission s)) s)"

definition enter :: "nat \<Rightarrow> handler \<Rightarrow> ('d, 'q, 'l) receiver \<Rightarrow> ('d, 'q, 'l) receiver" where
  "enter i h s = (let n = permit_clones (rq_transport h) in
     set_permit i ((clone_permit ^^ (n - 1)) (permit_of s i), as_limits (rv_admission s))
       (set_handler i (h\<lparr>rq_phase := Reading, rq_held := n\<rparr>) s))"

text \<open>
  A handler that could not read its batch answers and drops its clones; otherwise one of them goes
  with the batch to the sink.
\<close>

definition received :: "nat \<Rightarrow> handler \<Rightarrow> answer + telemetry_record \<Rightarrow> ('d, 'q, 'l) receiver \<Rightarrow> ('d, 'q, 'l) receiver" where
  "received i h r s = (case r of
       Inl a \<Rightarrow> drop_permits (rq_held h) i (set_handler i (h\<lparr>rq_phase := Answered a, rq_held := 0\<rparr>) s)
     | Inr rcd \<Rightarrow> set_handler i (h\<lparr>rq_phase := Saving, rq_held := rq_held h - 1, rq_job := Some (length (ss_tasks (rv_sink s))), rq_job_holds := True\<rparr>)
         (s\<lparr>rv_sink := (rv_sink s)\<lparr>ss_tasks := ss_tasks (rv_sink s) @ [(rcd, TaskWaiting)]\<rparr>\<rparr>))"

definition job_phase :: "('d, 'q, 'l) receiver \<Rightarrow> nat \<Rightarrow> task_phase" where
  "job_phase s j = snd (ss_tasks (rv_sink s) ! j)"

definition answer_request :: "nat \<Rightarrow> handler \<Rightarrow> answer \<Rightarrow> ('d, 'q, 'l) receiver \<Rightarrow> ('d, 'q, 'l) receiver" where
  "answer_request i h a s = drop_permits (rq_held h) i (set_handler i (h\<lparr>rq_phase := Answered a, rq_held := 0\<rparr>) s)"

text \<open>
  A handler that is dropped drops its clones. A batch that the sink has not admitted yet goes with
  it; the task of an admitted batch goes on and keeps its own clone.
\<close>

definition not_admitted :: "handler \<Rightarrow> ('d, 'q, 'l) receiver \<Rightarrow> bool" where
  "not_admitted h s \<longleftrightarrow> (case rq_job h of None \<Rightarrow> False | Some j \<Rightarrow> rq_job_holds h \<and> job_phase s j = TaskWaiting)"

definition cancel_request :: "nat \<Rightarrow> handler \<Rightarrow> ('d, 'q, 'l) receiver \<Rightarrow> ('d, 'q, 'l) receiver" where
  "cancel_request i h s =
     drop_permits (rq_held h + (if not_admitted h s then 1 else 0)) i
       (set_handler i (h\<lparr>rq_phase := Cancelled, rq_held := 0, rq_job_holds := rq_job_holds h \<and> \<not> not_admitted h s\<rparr>) s)"

definition given_up :: "('d, 'q, 'l) receiver \<Rightarrow> nat \<Rightarrow> bool" where
  "given_up s j \<longleftrightarrow> j < length (ss_tasks (rv_sink s)) \<and> job_phase s j = TaskWaiting \<and>
     (\<exists>h \<in> set (rv_handlers s). rq_phase h = Cancelled \<and> rq_job h = Some j)"

inductive receiver_step ::
    "('q, pretty_job) channel_ops \<Rightarrow> ('l, export_request) channel_ops \<Rightarrow> 'd sink_library \<Rightarrow> wire_library \<Rightarrow>
     ('d, 'q, 'l) receiver \<Rightarrow> ('d, 'q, 'l) receiver \<Rightarrow> bool"
  for qops :: "('q, pretty_job) channel_ops" and lops :: "('l, export_request) channel_ops" and lib :: "'d sink_library"
    and wl :: wire_library where
  Arrive: "length (rv_handlers s) + 1 < 2 ^ 64 \<Longrightarrow> receiver_step qops lops lib wl s (arrive t s)"
| Begin: "handler_at s i h \<Longrightarrow> rq_phase h = Starting \<Longrightarrow> receiver_step qops lops lib wl s (begin_request wl i h s)"
| Wait: "handler_at s i h \<Longrightarrow> rq_phase h = Admitting \<Longrightarrow> request_step (permit_of s i) (as_limits (rv_admission s)) p l \<Longrightarrow>
    (\<forall>n. permit_of s i \<noteq> Holding n) \<Longrightarrow> p \<noteq> Finished \<Longrightarrow> receiver_step qops lops lib wl s (set_permit i (p, l) s)"
| Refuse: "handler_at s i h \<Longrightarrow> rq_phase h = Admitting \<Longrightarrow> permit_of s i = Refused r \<Longrightarrow>
    receiver_step qops lops lib wl s (set_handler i (h\<lparr>rq_phase := Answered (busy_answer wl r h)\<rparr>) s)"
| Enter: "handler_at s i h \<Longrightarrow> rq_phase h = Admitting \<Longrightarrow> permit_of s i = Holding 1 \<Longrightarrow>
    receiver_step qops lops lib wl s (enter i h s)"
| HttpRead: "handler_at s i h \<Longrightarrow> rq_phase h = Reading \<Longrightarrow> rq_transport h = OverHttp sig ct \<Longrightarrow> rq_encoding h = Some enc \<Longrightarrow>
    (\<forall>bytes. b = BodyRead bytes \<longrightarrow> length bytes \<le> OTLP_MAX_REQUEST_BYTES) \<Longrightarrow>
    receiver_step qops lops lib wl s (received i h (http_received wl enc sig b) s)"
| GrpcRead: "handler_at s i h \<Longrightarrow> rq_phase h = Reading \<Longrightarrow> rq_transport h = OverGrpc sig \<Longrightarrow>
    receiver_step qops lops lib wl s (received i h (deadline_exceeded_as_unavailable g) s)"
| SinkMoves: "sink_step qops lops lib (rv_sink s) sk \<Longrightarrow> length (ss_tasks sk) = length (ss_tasks (rv_sink s)) \<Longrightarrow>
    (\<forall>j. given_up s j \<longrightarrow> ss_tasks sk ! j = ss_tasks (rv_sink s) ! j) \<Longrightarrow>
    receiver_step qops lops lib wl s (s\<lparr>rv_sink := sk\<rparr>)"
| JobDrops: "handler_at s i h \<Longrightarrow> rq_job h = Some j \<Longrightarrow> rq_job_holds h \<Longrightarrow> task_result (job_phase s j) \<noteq> None \<Longrightarrow>
    receiver_step qops lops lib wl s (drop_permits 1 i (set_handler i (h\<lparr>rq_job_holds := False\<rparr>) s))"
| Answer: "handler_at s i h \<Longrightarrow> rq_phase h = Saving \<Longrightarrow> rq_job h = Some j \<Longrightarrow> \<not> rq_job_holds h \<Longrightarrow>
    task_result (job_phase s j) = Some result \<Longrightarrow>
    receiver_step qops lops lib wl s (answer_request i h (record_answer wl h result) s)"
| CancelWaiting: "handler_at s i h \<Longrightarrow> rq_phase h \<in> {Starting, Admitting} \<Longrightarrow>
    request_step (permit_of s i) (as_limits (rv_admission s)) Finished l \<Longrightarrow> \<not> has_permit (permit_of s i) \<Longrightarrow>
    receiver_step qops lops lib wl s (set_permit i (Finished, l) (set_handler i (h\<lparr>rq_phase := Cancelled\<rparr>) s))"
| CancelWorking: "handler_at s i h \<Longrightarrow> rq_phase h \<in> {Reading, Saving} \<Longrightarrow>
    receiver_step qops lops lib wl s (cancel_request i h s)"

definition receiver_start :: "receive_limits \<Rightarrow> ('d, 'q, 'l) sink \<Rightarrow> ('d, 'q, 'l) receiver" where
  "receiver_start l sk = \<lparr>rv_admission = \<lparr>as_limits = l, as_requests = []\<rparr>, rv_sink = sink_start sk, rv_handlers = []\<rparr>"

inductive receiver_reachable ::
    "('q, pretty_job) channel_ops \<Rightarrow> ('l, export_request) channel_ops \<Rightarrow> 'd sink_library \<Rightarrow> wire_library \<Rightarrow>
     ('d, 'q, 'l) receiver \<Rightarrow> ('d, 'q, 'l) receiver \<Rightarrow> bool"
  for qops :: "('q, pretty_job) channel_ops" and lops :: "('l, export_request) channel_ops" and lib :: "'d sink_library"
    and wl :: wire_library and s0 :: "('d, 'q, 'l) receiver" where
  Start: "receiver_reachable qops lops lib wl s0 s0"
| Step: "receiver_reachable qops lops lib wl s0 s \<Longrightarrow> receiver_step qops lops lib wl s s' \<Longrightarrow> receiver_reachable qops lops lib wl s0 s'"

end
