(* ===== verification/Receiver_Laws.thy ===== *)
theory Receiver_Laws
  imports Receiver
begin

text \<open>
  What holds of the receiver however requests, limits and sink interleave: every run of it is a run
  of the receive limits and a run of the sink, a request that is read or saved holds a permit, and
  an answer says what has become of the batch.
\<close>

section \<open>A run of the receiver is a run of its parts\<close>

lemma set_handler_fields [simp]: "rv_admission (set_handler i h s) = rv_admission s" "rv_sink (set_handler i h s) = rv_sink s"
  "length (rv_handlers (set_handler i h s)) = length (rv_handlers s)" "permit_of (set_handler i h s) k = permit_of s k"
  "rv_handlers (set_handler i h s) = (rv_handlers s)[i := h]"
  by (simp_all add: set_handler_def permit_of_def)

lemma set_permit_fields [simp]: "rv_handlers (set_permit i pl s) = rv_handlers s" "rv_sink (set_permit i pl s) = rv_sink s"
  "length (as_requests (rv_admission (set_permit i pl s))) = length (as_requests (rv_admission s))"
  "as_limits (rv_admission (set_permit i pl s)) = snd pl"
  by (simp_all add: set_permit_def)

lemma permit_of_set [simp]:
  "i < length (as_requests (rv_admission s)) \<Longrightarrow> permit_of (set_permit i pl s) k = (if k = i then fst pl else permit_of s k)"
  by (simp add: permit_of_def set_permit_def nth_list_update)

lemma permit_of_other [simp]: "k \<noteq> i \<Longrightarrow> permit_of (set_permit i pl s) k = permit_of s k"
  "k \<noteq> i \<Longrightarrow> permit_of (drop_permits n i s) k = permit_of s k"
  by (simp_all add: permit_of_def set_permit_def drop_permits_def)

lemma drop_permits_fields [simp]: "rv_handlers (drop_permits n i s) = rv_handlers s" "rv_sink (drop_permits n i s) = rv_sink s"
  "length (as_requests (rv_admission (drop_permits n i s))) = length (as_requests (rv_admission s))"
  by (simp_all add: drop_permits_def)

lemma admission_step:
  assumes "admission_reachable l0 (rv_admission s)" and "i < length (as_requests (rv_admission s))"
    and "request_step (permit_of s i) (as_limits (rv_admission s)) p l"
  shows "admission_reachable l0 (rv_admission (set_permit i (p, l) s))"
  using admission_reachable.Step [OF assms(1,2)] assms(3) by (simp add: set_permit_def permit_of_def)

lemma drop_is_step: "drop_permit (p, l) = (p', l') \<Longrightarrow> (p', l') = (p, l) \<or> request_step p l p' l'"
  by (cases "(p, l)" rule: drop_permit.cases) (auto intro: request_step.intros DropLast [unfolded One_nat_def])

lemma set_permit_twice: "set_permit i pl (set_permit i pl' s) = set_permit i pl s"
  by (simp add: set_permit_def)

lemma set_permit_same: "i < length (as_requests (rv_admission s)) \<Longrightarrow> set_permit i (permit_of s i, as_limits (rv_admission s)) s = s"
  by (simp add: set_permit_def permit_of_def)

lemma drop_permits_Suc: "i < length (as_requests (rv_admission s)) \<Longrightarrow> drop_permits (Suc n) i s = drop_permits 1 i (drop_permits n i s)"
  by (simp add: drop_permits_def set_permit_twice)

lemma drop_permits_reachable:
  "admission_reachable l0 (rv_admission s) \<Longrightarrow> i < length (as_requests (rv_admission s)) \<Longrightarrow>
     admission_reachable l0 (rv_admission (drop_permits n i s))"
proof (induction n)
  case 0
  then show ?case by (simp add: drop_permits_def set_permit_same)
next
  case (Suc n)
  let ?s = "drop_permits n i s"
  obtain p l where d: "drop_permit (permit_of ?s i, as_limits (rv_admission ?s)) = (p, l)" by fastforce
  have "drop_permits (Suc n) i s = set_permit i (p, l) ?s"
    using Suc.prems(2) d by (simp only: drop_permits_Suc) (simp add: drop_permits_def)
  then show ?case
    using Suc drop_is_step [OF d] admission_step [of l0 ?s i p l] set_permit_same [of i ?s] by auto
qed

lemma clones_reachable:
  assumes "admission_reachable l0 (rv_admission s)" "i < length (as_requests (rv_admission s))" "permit_of s i = Holding 1"
  shows "admission_reachable l0 (rv_admission (set_permit i ((clone_permit ^^ (permit_clones t - 1)) (permit_of s i), as_limits (rv_admission s)) s))"
proof (cases t)
  case (OverHttp sig ct)
  then show ?thesis using assms(1) by (simp add: permit_clones_def set_permit_same [OF assms(2)])
next
  case (OverGrpc sig)
  have "request_step (permit_of s i) (as_limits (rv_admission s)) (Holding (Suc (Suc 0))) (as_limits (rv_admission s))"
    using Clone [of 0] assms(3) by simp
  from admission_step [OF assms(1,2) this] OverGrpc assms(3) show ?thesis
    by (simp add: permit_clones_def clone_permit_def)
qed

text \<open>Before a request asks for a permit the limits only know that it has arrived.\<close>

definition requests_match :: "('d, 'q, 'l) receiver \<Rightarrow> bool" where
  "requests_match s \<longleftrightarrow> length (as_requests (rv_admission s)) = length (rv_handlers s) \<and>
     (\<forall>i h. handler_at s i h \<longrightarrow> rq_phase h = Starting \<longrightarrow> permit_of s i = Arrived)"

lemma handler_at_set: "handler_at (set_handler i h s) k g \<longleftrightarrow> (if k = i then i < length (rv_handlers s) \<and> g = h else handler_at s k g)"
  by (auto simp: handler_at_def set_handler_def)

lemma handler_at_fields [simp]: "handler_at (set_permit i pl s) k g = handler_at s k g" "handler_at (drop_permits n i s) k g = handler_at s k g"
  "handler_at (s\<lparr>rv_sink := sk\<rparr>) k g = handler_at s k g" "permit_of (s\<lparr>rv_sink := sk\<rparr>) k = permit_of s k"
  by (simp_all add: handler_at_def permit_of_def)

lemma handler_at_less: "handler_at s i h \<Longrightarrow> i < length (rv_handlers s)"
  by (simp add: handler_at_def)

lemma handler_at_unique: "handler_at s i h \<Longrightarrow> handler_at s i g \<Longrightarrow> g = h"
  by (simp add: handler_at_def)

lemma permit_of_drop: "i < length (as_requests (rv_admission s)) \<Longrightarrow> permit_of (drop_permits n i s) k =
    (if k = i then fst ((drop_permit ^^ n) (permit_of s i, as_limits (rv_admission s))) else permit_of s k)"
  by (simp add: drop_permits_def)

lemma begin_phase: "rq_phase (begin_handler wl h) = Admitting \<or> (\<exists>a. rq_phase (begin_handler wl h) = Answered a)"
  by (simp add: begin_handler_def split: transport.splits sum.splits)

lemma requests_match_step:
  assumes "receiver_step qops lops lib wl s s'" and "requests_match s"
  shows "requests_match s'"
  using assms
proof (induction rule: receiver_step.induct)
  case (Arrive s t)
  then show ?case
    by (auto simp: requests_match_def arrive_def handler_at_def permit_of_def nth_append less_Suc_eq new_handler_def)
next
  case (Begin s i h)
  then show ?case using begin_phase [of wl h]
    by (auto simp: requests_match_def begin_request_def Let_def handler_at_set)
next
  case (Wait s i h p l)
  have "ia \<noteq> i" if "handler_at s ia ha" "rq_phase ha = Starting" for ia ha
    using Wait(1,2) that handler_at_unique by fastforce
  with Wait show ?case by (simp add: requests_match_def)
next
  case (SinkMoves s sk)
  then show ?case by (simp add: requests_match_def handler_at_def permit_of_def)
next
  case (JobDrops s i h j)
  then show ?case
    by (auto simp: requests_match_def handler_at_set drop_permits_def split: if_splits)
qed (auto simp: requests_match_def handler_at_set enter_def received_def answer_request_def cancel_request_def Let_def
    split: sum.splits)

lemma receiver_parts:
  assumes "receiver_reachable qops lops lib wl (receiver_start l0 sk) s"
  shows "admission_reachable l0 (rv_admission s)" "sink_reachable qops lops lib (sink_start sk) (rv_sink s)" "requests_match s"
proof -
  have "admission_reachable l0 (rv_admission s) \<and> sink_reachable qops lops lib (sink_start sk) (rv_sink s) \<and> requests_match s"
    using assms
  proof (induction rule: receiver_reachable.induct)
    case Start
    then show ?case
      by (simp add: receiver_start_def admission_reachable.Start sink_reachable.Start requests_match_def handler_at_def)
  next
    case (Step s s')
    have len: "length (as_requests (rv_admission s)) = length (rv_handlers s)" using Step by (simp add: requests_match_def)
    have m: "requests_match s'" using requests_match_step [OF Step.hyps(2)] Step by blast
    have A: "admission_reachable l0 (rv_admission s)" and S: "sink_reachable qops lops lib (sink_start sk) (rv_sink s)"
      using Step by auto
    have "admission_reachable l0 (rv_admission s') \<and> sink_reachable qops lops lib (sink_start sk) (rv_sink s')"
      using Step.hyps(2)
    proof (cases rule: receiver_step.cases)
      case (Arrive t)
      then show ?thesis using admission_reachable.Arrive [OF A] S len by (simp add: arrive_def)
    next
      case (Begin i h)
      then have "permit_of s i = Arrived" using Step by (simp add: requests_match_def)
      then have "request_step (permit_of s i) (as_limits (rv_admission s)) Finished (as_limits (rv_admission s))"
        by (simp add: Cancel)
      then have "admission_reachable l0 (rv_admission (set_permit i (Finished, as_limits (rv_admission s)) (set_handler i (begin_handler wl h) s)))"
        by (intro admission_step) (use A len Begin in \<open>simp_all add: handler_at_def\<close>)
      then show ?thesis using Begin A S by (simp add: begin_request_def Let_def)
    next
      case (Wait i h p l)
      then show ?thesis using admission_step [OF A, of i p l] S len by (simp add: handler_at_def)
    next
      case (Enter i h)
      then show ?thesis
        using clones_reachable [of l0 "set_handler i (h\<lparr>rq_phase := Reading, rq_held := permit_clones (rq_transport h)\<rparr>) s" i] A S len
        by (simp add: enter_def Let_def handler_at_def)
    next
      case (HttpRead i h sig ct enc b)
      then show ?thesis
        using drop_permits_reachable [of l0 "set_handler i _ s" i] A len sink_reachable.Step [OF S sink_step.Arrive]
        by (auto simp: received_def handler_at_def S split: sum.splits)
    next
      case (GrpcRead i h sig g)
      then show ?thesis
        using drop_permits_reachable [of l0 "set_handler i _ s" i] A len sink_reachable.Step [OF S sink_step.Arrive]
        by (auto simp: received_def handler_at_def S split: sum.splits)
    next
      case (SinkMoves sk')
      then show ?thesis using A sink_reachable.Step [OF S] by simp
    next
      case (JobDrops i h j)
      then show ?thesis
        using drop_permits_reachable [of l0 "set_handler i _ s" i] A S len by (simp add: handler_at_def)
    next
      case (Answer i h j result)
      then show ?thesis
        using drop_permits_reachable [of l0 "set_handler i _ s" i] A S len by (simp add: answer_request_def handler_at_def)
    next
      case (CancelWaiting i h l)
      then show ?thesis
        using admission_step [of l0 "set_handler i _ s" i Finished l] A S len by (simp add: handler_at_def)
    next
      case (CancelWorking i h)
      then show ?thesis
        using drop_permits_reachable [of l0 "set_handler i _ s" i] A S len by (simp add: cancel_request_def handler_at_def)
    qed (use A S in simp_all)
    with m show ?case by blast
  qed
  then show "admission_reachable l0 (rv_admission s)" "sink_reachable qops lops lib (sink_start sk) (rv_sink s)" "requests_match s"
    by blast+
qed


section \<open>The tasks of the sink\<close>

lemma set_task_nth: "i < length (ss_tasks s) \<Longrightarrow> ss_tasks (set_task i rcd p s) ! j = (if j = i then (rcd, p) else ss_tasks s ! j)"
  by (simp add: set_task_def nth_list_update)

text \<open>A step of the sink moves at most one task, which has not ended, and never back to the start.\<close>

definition task_moves :: "telemetry_record \<times> task_phase \<Rightarrow> telemetry_record \<times> task_phase \<Rightarrow> bool" where
  "task_moves t t' \<longleftrightarrow> t' = t \<or> (fst t' = fst t \<and> task_result (snd t) = None \<and> snd t' \<noteq> TaskWaiting)"

lemma set_task_moves:
  assumes "task_at s i rcd p" and "task_result p = None" "q \<noteq> TaskWaiting" and "ss_tasks s' = (ss_tasks s)[i := (rcd, q)]"
  shows "task_moves (ss_tasks s ! j) (ss_tasks s' ! j)"
  using assms by (cases "j = i") (auto simp: task_moves_def task_at_def)

lemma sink_step_tasks:
  assumes "sink_step qops lops lib s s'" and "length (ss_tasks s') = length (ss_tasks s)"
  shows "task_moves (ss_tasks s ! j) (ss_tasks s' ! j)"
  using assms
proof (induction rule: sink_step.induct)
  case (Admit s i rcd)
  then show ?case by (intro set_task_moves [OF Admit(1)]) (auto simp: task_admit_def set_task_def)
next
  case (Persist s i rcd su)
  obtain result sk where w: "write_jsonl lib su rcd (ss_sink s) = (result, sk)" by fastforce
  show ?case
  proof (cases "sk_file (ss_sink s) = None")
    case True
    then show ?thesis by (intro set_task_moves [OF Persist(1), where q = TaskSaved]) (auto simp: task_persist_def set_task_def)
  next
    case False
    then show ?thesis
      by (intro set_task_moves [OF Persist(1), where q = "TaskPersisted result"]) (auto simp: task_persist_def w set_task_def)
  qed
next
  case (Health s i rcd result now)
  show ?case
    by (rule set_task_moves [OF Health(1), where q = "case result of Inl e \<Rightarrow> TaskDone (Inl e) | Inr _ \<Rightarrow> TaskSaved"])
      (auto simp: task_health_def set_task_def split: sum.splits)
next
  case (Ingest s i rcd)
  obtain b sk where g: "ingest_record rcd (ss_sink s) = (b, sk)" by fastforce
  show ?case
    by (rule set_task_moves [OF Ingest(1), where q = "TaskIngested (b \<and> sk_summary_enabled sk)"]) (auto simp: task_ingest_def g set_task_def)
next
  case (Queue s i rcd want)
  show ?case by (rule set_task_moves [OF Queue(1), where q = TaskQueued]) (auto simp: task_queue_def set_task_def)
next
  case (Forward s i rcd)
  show ?case by (rule set_task_moves [OF Forward(1), where q = "TaskDone (Inr ())"]) (auto simp: task_forward_def set_task_def)
qed (auto simp: task_moves_def shutdown_close_def shutdown_flush_def)

section \<open>Permits, jobs and answers\<close>

definition clones :: "handler \<Rightarrow> nat" where
  "clones h = rq_held h + (if rq_job_holds h then 1 else 0)"

definition answer_ok :: "wire_library \<Rightarrow> (telemetry_record \<times> task_phase) list \<Rightarrow> handler \<Rightarrow> answer \<Rightarrow> bool" where
  "answer_ok wl tasks h a \<longleftrightarrow> (case rq_job h of
       None \<Rightarrow> \<not> acknowledges a
     | Some j \<Rightarrow> \<exists>r. task_result (snd (tasks ! j)) = Some r \<and> a = record_answer wl h r)"

text \<open>
  What is known of a handler and its permit: as many clones as the permit counts, and a task that
  has not ended keeps its clone unless it was given up before the sink admitted it.
\<close>

definition job_ok :: "(telemetry_record \<times> task_phase) list \<Rightarrow> handler \<Rightarrow> bool" where
  "job_ok tasks h \<longleftrightarrow> (case rq_job h of
       None \<Rightarrow> \<not> rq_job_holds h \<and> rq_phase h \<noteq> Saving
     | Some j \<Rightarrow> j < length tasks \<and> rq_phase h \<notin> {Starting, Admitting, Reading} \<and>
         (rq_job_holds h \<or> task_result (snd (tasks ! j)) \<noteq> None \<or> rq_phase h = Cancelled \<and> snd (tasks ! j) = TaskWaiting))"

definition phase_ok :: "wire_library \<Rightarrow> (telemetry_record \<times> task_phase) list \<Rightarrow> handler \<Rightarrow> request_phase \<Rightarrow> bool" where
  "phase_ok wl tasks h p \<longleftrightarrow> (case rq_phase h of
       Starting \<Rightarrow> rq_held h = 0
     | Admitting \<Rightarrow> rq_held h = 0 \<and> (\<forall>n. p = Holding n \<longrightarrow> n = 1)
     | Reading \<Rightarrow> 1 \<le> rq_held h
     | Saving \<Rightarrow> True
     | Answered a \<Rightarrow> rq_held h = 0 \<and> \<not> rq_job_holds h \<and> answer_ok wl tasks h a
     | Cancelled \<Rightarrow> rq_held h = 0)"

definition permit_ok :: "handler \<Rightarrow> request_phase \<Rightarrow> bool" where
  "permit_ok h p \<longleftrightarrow> (if 0 < clones h then p = Holding (clones h) else rq_phase h \<in> {Starting, Admitting} \<or> \<not> has_permit p)"

definition handler_ok :: "wire_library \<Rightarrow> (telemetry_record \<times> task_phase) list \<Rightarrow> handler \<Rightarrow> request_phase \<Rightarrow> bool" where
  "handler_ok wl tasks h p \<longleftrightarrow> permit_ok h p \<and> job_ok tasks h \<and> phase_ok wl tasks h p"

definition receiver_ok :: "wire_library \<Rightarrow> ('d, 'q, 'l) receiver \<Rightarrow> bool" where
  "receiver_ok wl s \<longleftrightarrow> requests_match s \<and>
     (\<forall>i h. handler_at s i h \<longrightarrow> handler_ok wl (ss_tasks (rv_sink s)) h (permit_of s i)) \<and>
     (\<forall>i h k g j. handler_at s i h \<longrightarrow> handler_at s k g \<longrightarrow> rq_job h = Some j \<longrightarrow> rq_job g = Some j \<longrightarrow> k = i) \<and>
     (\<forall>j < length (ss_tasks (rv_sink s)). \<exists>i h. handler_at s i h \<and> rq_job h = Some j)"

lemmas handler_ok_defs = handler_ok_def permit_ok_def job_ok_def phase_ok_def answer_ok_def clones_def

lemma record_answer_fields [simp]: "record_answer wl (h\<lparr>rq_phase := p\<rparr>) r = record_answer wl h r"
  "record_answer wl (h\<lparr>rq_held := n\<rparr>) r = record_answer wl h r" "record_answer wl (h\<lparr>rq_job_holds := b\<rparr>) r = record_answer wl h r"
  "record_answer wl (h\<lparr>rq_job := j\<rparr>) r = record_answer wl h r"
  by (cases "rq_transport h"; cases r; simp add: record_answer_def)+

lemma drop_many: "n \<le> m \<Longrightarrow> 0 < m \<Longrightarrow> fst ((drop_permit ^^ n) (Holding m, l)) = (if n = m then Finished else Holding (m - n))"
proof (induction n)
  case (Suc n)
  then obtain k l' where k: "(drop_permit ^^ n) (Holding m, l) = (Holding (Suc k), l')" "m - n = Suc k"
    by (cases "(drop_permit ^^ n) (Holding m, l)"; cases "m - n") auto
  then show ?case by (cases k) auto
qed simp

lemma clone_many: "(clone_permit ^^ n) (Holding m) = Holding (m + n)"
  by (induction n) (simp_all add: clone_permit_def)

lemma drop_none: "\<not> has_permit p \<Longrightarrow> fst ((drop_permit ^^ n) (p, l)) = p"
proof -
  assume p: "\<not> has_permit p"
  have "(drop_permit ^^ n) (p, l) = (p, l)" using p by (induction n) (cases p; simp)+
  then show ?thesis by simp
qed

text \<open>One handler moves: its job stays, or it gets the new last task.\<close>

lemma handler_moves:
  assumes ok: "receiver_ok wl s" and at: "handler_at s i h"
    and hs: "rv_handlers s' = (rv_handlers s)[i := h']" and m: "requests_match s'"
    and others: "\<And>k. k \<noteq> i \<Longrightarrow> permit_of s' k = permit_of s k"
    and tasks: "ss_tasks (rv_sink s') = ss_tasks (rv_sink s)" and job: "rq_job h' = rq_job h"
    and new: "handler_ok wl (ss_tasks (rv_sink s)) h' (permit_of s' i)"
  shows "receiver_ok wl s'"
proof -
  have at': "handler_at s' k g \<longleftrightarrow> (if k = i then g = h' else handler_at s k g)" for k g
    using at by (auto simp: handler_at_def hs)
  have job_at: "handler_at s' k g \<Longrightarrow> \<exists>g'. handler_at s k g' \<and> rq_job g' = rq_job g" for k g
    using at at' job by (auto split: if_splits)
  have "k' = k" if "handler_at s' k g" "handler_at s' k' g'" "rq_job g = Some j" "rq_job g' = Some j" for k g k' g' j
    using ok job_at [OF that(1)] job_at [OF that(2)] that(3,4) unfolding receiver_ok_def by metis
  moreover have "\<exists>k g. handler_at s' k g \<and> rq_job g = Some j" if j: "j < length (ss_tasks (rv_sink s))" for j
  proof -
    obtain k g where kg: "handler_at s k g" "rq_job g = Some j" using ok j unfolding receiver_ok_def by blast
    show ?thesis
    proof (cases "k = i")
      case True
      then have "g = h" using kg(1) at by (simp add: handler_at_def)
      with True kg(2) job show ?thesis by (intro exI [of _ i] exI [of _ h']) (simp add: at')
    next
      case False
      with kg show ?thesis by (intro exI [of _ k] exI [of _ g]) (simp add: at')
    qed
  qed
  moreover have "handler_ok wl (ss_tasks (rv_sink s)) g (permit_of s' k)" if "handler_at s' k g" for k g
    using that at' new ok others by (cases "k = i") (auto simp: receiver_ok_def)
  ultimately show ?thesis using m by (simp add: receiver_ok_def tasks)
qed


text \<open>A batch that was read gets the new last task; the tasks of the others stay theirs.\<close>

lemma handler_ok_more: "handler_ok wl tasks h p \<Longrightarrow> handler_ok wl (tasks @ ts) h p"
  by (auto simp: handler_ok_defs nth_append split: option.splits handler_phase.splits)

lemma job_starts:
  assumes ok: "receiver_ok wl s" and at: "handler_at s i h" and none: "rq_job h = None"
    and hs: "rv_handlers s' = (rv_handlers s)[i := h']" and m: "requests_match s'"
    and permits: "\<And>k. permit_of s' k = permit_of s k"
    and tasks: "ss_tasks (rv_sink s') = ss_tasks (rv_sink s) @ [t]" and job: "rq_job h' = Some (length (ss_tasks (rv_sink s)))"
    and new: "handler_ok wl (ss_tasks (rv_sink s) @ [t]) h' (permit_of s i)"
  shows "receiver_ok wl s'"
proof -
  let ?n = "length (ss_tasks (rv_sink s))"
  have at': "handler_at s' k g \<longleftrightarrow> (if k = i then g = h' else handler_at s k g)" for k g
    using at by (auto simp: handler_at_def hs)
  have old: "j < ?n" if "handler_at s k g" "rq_job g = Some j" for k g j
    using ok that unfolding receiver_ok_def handler_ok_def job_ok_def by fastforce
  have "k' = k" if g: "handler_at s' k g" "handler_at s' k' g'" "rq_job g = Some j" "rq_job g' = Some j" for k g k' g' j
  proof -
    have "k \<noteq> i \<Longrightarrow> k' \<noteq> i \<Longrightarrow> k' = k" using ok g at' unfolding receiver_ok_def by metis
    moreover have "k = i \<Longrightarrow> k' = i" "k' = i \<Longrightarrow> k = i"
      using g at' job old [of k g j] old [of k' g' j] by (auto split: if_splits)
    ultimately show ?thesis by blast
  qed
  moreover have "\<exists>k g. handler_at s' k g \<and> rq_job g = Some j" if j: "j < Suc ?n" for j
  proof (cases "j = ?n")
    case True
    then show ?thesis using job by (intro exI [of _ i] exI [of _ h']) (simp add: at')
  next
    case False
    then obtain k g where kg: "handler_at s k g" "rq_job g = Some j" using ok j unfolding receiver_ok_def by (metis less_antisym)
    then have "k \<noteq> i" using at none by (auto simp: handler_at_def)
    with kg show ?thesis by (intro exI [of _ k] exI [of _ g]) (simp add: at')
  qed
  moreover have "handler_ok wl (ss_tasks (rv_sink s) @ [t]) g (permit_of s' k)" if "handler_at s' k g" for k g
    using that at' new ok by (cases "k = i") (auto simp: receiver_ok_def permits intro: handler_ok_more)
  ultimately show ?thesis using m by (simp add: receiver_ok_def tasks)
qed

lemma sink_moves_ok:
  assumes ok: "receiver_ok wl s" and m: "requests_match (s\<lparr>rv_sink := sk\<rparr>)"
    and step: "sink_step qops lops lib (rv_sink s) sk" and len: "length (ss_tasks sk) = length (ss_tasks (rv_sink s))"
    and kept: "\<forall>j. given_up s j \<longrightarrow> ss_tasks sk ! j = ss_tasks (rv_sink s) ! j"
  shows "receiver_ok wl (s\<lparr>rv_sink := sk\<rparr>)"
proof -
  note moves = sink_step_tasks [OF step len]
  have "handler_ok wl (ss_tasks sk) h (permit_of s i)" if at: "handler_at s i h" for i h
  proof -
    have h: "handler_ok wl (ss_tasks (rv_sink s)) h (permit_of s i)" using ok at by (simp add: receiver_ok_def)
    have kept_h: "ss_tasks sk ! j = ss_tasks (rv_sink s) ! j"
      if "rq_job h = Some j" "rq_phase h = Cancelled" "snd (ss_tasks (rv_sink s) ! j) = TaskWaiting" "j < length (ss_tasks (rv_sink s))" for j
    proof -
      have "h \<in> set (rv_handlers s)" using at by (auto simp: handler_at_def)
      with that have "given_up s j" by (auto simp: given_up_def job_phase_def)
      then show ?thesis using kept by blast
    qed
    have stays: "ss_tasks sk ! j = ss_tasks (rv_sink s) ! j" if "task_result (snd (ss_tasks (rv_sink s) ! j)) \<noteq> None" for j
      using moves [of j] that by (auto simp: task_moves_def)
    have j: "job_ok (ss_tasks sk) h"
      using h stays kept_h by (force simp: handler_ok_def job_ok_def len split: option.splits)
    have "phase_ok wl (ss_tasks sk) h (permit_of s i)"
      using h stays by (force simp: handler_ok_def phase_ok_def answer_ok_def split: option.splits handler_phase.splits)
    with h j show ?thesis by (simp add: handler_ok_def)
  qed
  then show ?thesis using ok m len by (simp add: receiver_ok_def)
qed

lemma errors_not_acknowledged [simp]: "\<not> acknowledges (into_response wl e)" "\<not> acknowledges (busy_answer wl r h)"
  by (cases e; simp add: into_response_def http_status_def is_success_def busy_answer_def rejected_status_def split: transport.splits)+

lemma read_not_acknowledged: "http_received wl enc sig b = Inl a \<Longrightarrow> \<not> acknowledges a"
  "deadline_exceeded_as_unavailable g = Inl a \<Longrightarrow> \<not> acknowledges a"
  by (auto simp: http_received_def deadline_exceeded_as_unavailable_def split: sum.splits grpc_body_end.splits)

lemma begin_cases:
  obtains enc where "begin_handler wl h = h\<lparr>rq_encoding := enc, rq_phase := Admitting\<rparr>"
  | e where "begin_handler wl h = h\<lparr>rq_phase := Answered (into_response wl e)\<rparr>"
proof (cases "rq_transport h")
  case (OverHttp sig ct)
  then show ?thesis using that by (cases "detect_encoding wl ct") (auto simp: begin_handler_def)
next
  case (OverGrpc sig)
  then have "begin_handler wl h = h\<lparr>rq_encoding := rq_encoding h, rq_phase := Admitting\<rparr>" by (simp add: begin_handler_def)
  then show ?thesis using that by blast
qed

lemma received_ok:
  assumes ok: "receiver_ok wl s" and at: "handler_at s i h" and p: "rq_phase h = Reading"
    and r: "\<And>a. r = Inl a \<Longrightarrow> \<not> acknowledges a" and m: "requests_match (received i h r s)"
  shows "receiver_ok wl (received i h r s)"
proof -
  have h: "handler_ok wl (ss_tasks (rv_sink s)) h (permit_of s i)" using ok at by (simp add: receiver_ok_def)
  then have none: "rq_job h = None" "\<not> rq_job_holds h" "1 \<le> rq_held h"
    using p by (auto simp: handler_ok_defs split: option.splits)
  then have permit: "permit_of s i = Holding (rq_held h)" using h by (simp add: handler_ok_def permit_ok_def clones_def)
  have i: "i < length (as_requests (rv_admission s))" using ok at by (simp add: receiver_ok_def requests_match_def handler_at_def)
  show ?thesis
  proof (cases r)
    case (Inl a)
    show ?thesis
    proof (rule handler_moves [OF ok at, where h' = "h\<lparr>rq_phase := Answered a, rq_held := 0\<rparr>"])
      show "handler_ok wl (ss_tasks (rv_sink s)) (h\<lparr>rq_phase := Answered a, rq_held := 0\<rparr>) (permit_of (received i h r s) i)"
        using none r [OF Inl] i permit by (simp add: Inl received_def permit_of_drop drop_many handler_ok_defs)
    qed (use m in \<open>simp_all add: Inl received_def\<close>)
  next
    case (Inr rcd)
    show ?thesis
    proof (rule job_starts [OF ok at none(1)])
      show "handler_ok wl (ss_tasks (rv_sink s) @ [(rcd, TaskWaiting)])
          (h\<lparr>rq_phase := Saving, rq_held := rq_held h - 1, rq_job := Some (length (ss_tasks (rv_sink s))), rq_job_holds := True\<rparr>) (permit_of s i)"
        using none permit by (simp add: handler_ok_defs)
    qed (use m in \<open>simp_all add: Inr received_def\<close>)
  qed
qed


lemma handler_ok_phases:
  "rq_phase h = Starting \<Longrightarrow> handler_ok wl tasks h p \<longleftrightarrow> rq_held h = 0 \<and> \<not> rq_job_holds h \<and> rq_job h = None"
  "rq_phase h = Admitting \<Longrightarrow> handler_ok wl tasks h p \<longleftrightarrow>
     rq_held h = 0 \<and> \<not> rq_job_holds h \<and> rq_job h = None \<and> (\<forall>n. p = Holding n \<longrightarrow> n = 1)"
  "rq_phase h = Reading \<Longrightarrow> handler_ok wl tasks h p \<longleftrightarrow>
     1 \<le> rq_held h \<and> \<not> rq_job_holds h \<and> rq_job h = None \<and> p = Holding (rq_held h)"
  by (cases "rq_job h"; auto simp: handler_ok_defs)+

lemma receiver_ok_step:
  assumes step: "receiver_step qops lops lib wl s s'" and ok: "receiver_ok wl s"
  shows "receiver_ok wl s'"
proof -
  let ?tasks = "ss_tasks (rv_sink s)"
  have m: "requests_match s'" using requests_match_step [OF step] ok by (simp add: receiver_ok_def)
  have H: "handler_ok wl ?tasks h (permit_of s i)" "i < length (as_requests (rv_admission s))"
    "rq_phase h = Starting \<longrightarrow> permit_of s i = Arrived" if "handler_at s i h" for i h
    using ok that by (auto simp: receiver_ok_def requests_match_def handler_at_def)
  show ?thesis
    using step
  proof (cases rule: receiver_step.cases)
    case (Arrive t)
    let ?n = "length (rv_handlers s)"
    have new: "handler_ok wl ?tasks (new_handler t) Arrived" "rq_job (new_handler t) = None"
      by (simp_all add: handler_ok_defs new_handler_def)
    have at: "handler_at s' k g \<longleftrightarrow> handler_at s k g \<or> k = ?n \<and> g = new_handler t" for k g
      by (auto simp: Arrive handler_at_def arrive_def nth_append less_Suc_eq)
    have n: "permit_of s' ?n = Arrived" and old: "handler_at s k g \<Longrightarrow> permit_of s' k = permit_of s k" for k g
      using ok by (auto simp: Arrive arrive_def permit_of_def nth_append receiver_ok_def requests_match_def handler_at_def)
    have tasks: "ss_tasks (rv_sink s') = ?tasks" by (simp add: Arrive arrive_def)
    have "handler_ok wl ?tasks g (permit_of s' k)" if "handler_at s' k g" for k g
      using that at new(1) n old H by auto
    moreover have "k' = k" if "handler_at s' k g" "handler_at s' k' g'" "rq_job g = Some j" "rq_job g' = Some j" for k g k' g' j
    proof -
      have "handler_at s k g" "handler_at s k' g'" using that at new(2) by auto
      then show ?thesis using that(3,4) ok unfolding receiver_ok_def by blast
    qed
    moreover have "\<exists>k g. handler_at s' k g \<and> rq_job g = Some j" if "j < length ?tasks" for j
      using ok that at unfolding receiver_ok_def by blast
    ultimately show ?thesis using m by (simp add: receiver_ok_def tasks)
  next
    case (Begin i h)
    note h = H [OF Begin(2)]
    show ?thesis
    proof (rule handler_moves [OF ok Begin(2), where h' = "begin_handler wl h"])
      show "handler_ok wl ?tasks (begin_handler wl h) (permit_of s' i)"
      proof (cases rule: begin_cases [of wl h])
        case (1 enc)
        then show ?thesis using h Begin(3) by (simp add: Begin(1) begin_request_def handler_ok_phases)
      next
        case (2 e)
        then show ?thesis using h Begin(3) by (simp add: Begin(1) begin_request_def handler_ok_phases) (simp add: handler_ok_defs)
      qed
      show "rq_job (begin_handler wl h) = rq_job h" by (cases rule: begin_cases [of wl h]) auto
    qed (use m in \<open>simp_all add: Begin(1) begin_request_def Let_def\<close>)
  next
    case (Wait i h p l)
    note h = H [OF Wait(2)]
    show ?thesis
    proof (rule handler_moves [OF ok Wait(2), where h' = h])
      have "\<forall>n. p = Holding n \<longrightarrow> n = 1"
        using Wait(4,5) by (cases rule: request_step.cases) (auto simp: try_acquire_def waiting_enter_def Let_def split: if_splits)
      then show "handler_ok wl ?tasks h (permit_of s' i)"
        using h Wait(3) by (simp add: Wait(1) handler_ok_phases)
      show "rv_handlers s' = (rv_handlers s)[i := h]" using Wait(2) by (auto simp: Wait(1) handler_at_def)
    qed (use m in \<open>simp_all add: Wait(1)\<close>)
  next
    case (Refuse i h r)
    note h = H [OF Refuse(2)]
    show ?thesis
    proof (rule handler_moves [OF ok Refuse(2), where h' = "h\<lparr>rq_phase := Answered (busy_answer wl r h)\<rparr>"])
      show "handler_ok wl ?tasks (h\<lparr>rq_phase := Answered (busy_answer wl r h)\<rparr>) (permit_of s' i)"
        using h Refuse(3,4) by (simp add: Refuse(1) handler_ok_phases) (simp add: handler_ok_defs)
    qed (use m in \<open>simp_all add: Refuse(1)\<close>)
  next
    case (Enter i h)
    note h = H [OF Enter(2)]
    have n: "1 \<le> permit_clones (rq_transport h)" by (simp add: permit_clones_def split: transport.splits)
    show ?thesis
    proof (rule handler_moves [OF ok Enter(2), where h' = "h\<lparr>rq_phase := Reading, rq_held := permit_clones (rq_transport h)\<rparr>"])
      show "handler_ok wl ?tasks (h\<lparr>rq_phase := Reading, rq_held := permit_clones (rq_transport h)\<rparr>) (permit_of s' i)"
        using h Enter(3,4) n clone_many [of "permit_clones (rq_transport h) - 1" 1]
        by (simp add: Enter(1) enter_def Let_def handler_ok_phases)
    qed (use m in \<open>simp_all add: Enter(1) enter_def Let_def\<close>)
  next
    case (HttpRead i h sig ct enc b)
    show ?thesis using received_ok [OF ok HttpRead(2,3)] read_not_acknowledged m by (simp add: HttpRead(1))
  next
    case (GrpcRead i h sig g)
    show ?thesis using received_ok [OF ok GrpcRead(2,3)] read_not_acknowledged m by (simp add: GrpcRead(1))
  next
    case (SinkMoves sk)
    then show ?thesis using sink_moves_ok [OF ok] m by blast
  next
    case (JobDrops i h j)
    note h = H [OF JobDrops(2)]
    show ?thesis
    proof (rule handler_moves [OF ok JobDrops(2), where h' = "h\<lparr>rq_job_holds := False\<rparr>"])
      have "permit_of s' i = (if rq_held h = 0 then Finished else Holding (rq_held h))"
        using h JobDrops(4) by (simp add: JobDrops(1) permit_of_drop handler_ok_def permit_ok_def clones_def drop_many [of 1, simplified])
      then show "handler_ok wl ?tasks (h\<lparr>rq_job_holds := False\<rparr>) (permit_of s' i)"
        using h JobDrops(3-5) by (auto simp: handler_ok_defs job_phase_def split: handler_phase.splits)
    qed (use m in \<open>simp_all add: JobDrops(1)\<close>)
  next
    case (Answer i h j result)
    note h = H [OF Answer(2)]
    let ?h = "h\<lparr>rq_phase := Answered (record_answer wl h result), rq_held := 0\<rparr>"
    show ?thesis
    proof (rule handler_moves [OF ok Answer(2), where h' = ?h])
      have "\<not> has_permit (permit_of s' i)"
        using h Answer(3-5) drop_many [of "rq_held h" "rq_held h"] drop_none [of "permit_of s i"]
        by (auto simp: Answer(1) answer_request_def permit_of_drop handler_ok_def permit_ok_def clones_def split: if_splits)
      then show "handler_ok wl ?tasks ?h (permit_of s' i)"
        using h Answer(3-6) by (auto simp: handler_ok_defs job_phase_def)
    qed (use m in \<open>simp_all add: Answer(1) answer_request_def\<close>)
  next
    case (CancelWaiting i h l)
    note h = H [OF CancelWaiting(2)]
    show ?thesis
    proof (rule handler_moves [OF ok CancelWaiting(2), where h' = "h\<lparr>rq_phase := Cancelled\<rparr>"])
      show "handler_ok wl ?tasks (h\<lparr>rq_phase := Cancelled\<rparr>) (permit_of s' i)"
        using h CancelWaiting(3) by (auto simp: CancelWaiting(1) handler_ok_phases) (simp_all add: handler_ok_defs)
    qed (use m in \<open>simp_all add: CancelWaiting(1)\<close>)
  next
    case (CancelWorking i h)
    note h = H [OF CancelWorking(2)]
    let ?keep = "rq_job_holds h \<and> \<not> not_admitted h s"
    show ?thesis
    proof (rule handler_moves [OF ok CancelWorking(2), where h' = "h\<lparr>rq_phase := Cancelled, rq_held := 0, rq_job_holds := ?keep\<rparr>"])
      have n: "rq_held h + (if not_admitted h s then 1 else 0) + (if ?keep then 1 else 0) = clones h"
        by (auto simp: clones_def not_admitted_def split: option.splits)
      have "permit_of s' i = (if ?keep then Holding 1 else Finished) \<or> clones h = 0 \<and> \<not> has_permit (permit_of s' i)"
      proof (cases "clones h = 0")
        case True
        then show ?thesis using h CancelWorking(3) n drop_none [of "permit_of s i"]
          by (auto simp: CancelWorking(1) cancel_request_def permit_of_drop handler_ok_def permit_ok_def)
      next
        case False
        then have "permit_of s i = Holding (clones h)" using h by (simp add: handler_ok_def permit_ok_def)
        then show ?thesis using False n h drop_many [of "rq_held h + (if not_admitted h s then 1 else 0)" "clones h"]
          by (auto simp: CancelWorking(1) cancel_request_def permit_of_drop split: if_splits)
      qed
      then show "handler_ok wl ?tasks (h\<lparr>rq_phase := Cancelled, rq_held := 0, rq_job_holds := ?keep\<rparr>) (permit_of s' i)"
        using h CancelWorking(3) by (auto simp: handler_ok_defs not_admitted_def job_phase_def split: option.splits if_splits)
    qed (use m in \<open>simp_all add: CancelWorking(1) cancel_request_def\<close>)
  qed
qed

lemma receiver_invariant:
  "receiver_reachable qops lops lib wl (receiver_start l0 sk) s \<Longrightarrow> receiver_ok wl s"
proof (induction rule: receiver_reachable.induct)
  case Start
  then show ?case by (simp add: receiver_ok_def requests_match_def handler_at_def receiver_start_def sink_start_def)
qed (rule receiver_ok_step)


section \<open>What follows\<close>

text \<open>A request whose body is read, and a task that works on a batch, each hold a permit of their own.\<close>

lemma working_hold_permits:
  assumes ok: "receiver_ok wl s"
  shows "length (filter (\<lambda>h. rq_phase h = Reading) (rv_handlers s)) + length (filter (\<lambda>t. in_flight (snd t)) (ss_tasks (rv_sink s)))
    \<le> how_many has_permit (rv_admission s)"
proof -
  let ?tasks = "ss_tasks (rv_sink s)" and ?rs = "as_requests (rv_admission s)"
  define reading where "reading = {i. i < length (rv_handlers s) \<and> rq_phase (rv_handlers s ! i) = Reading}"
  define working where "working = {j. j < length ?tasks \<and> in_flight (snd (?tasks ! j))}"
  define holding where "holding = {i. i < length ?rs \<and> has_permit (?rs ! i)}"
  have len: "length ?rs = length (rv_handlers s)" using ok by (simp add: receiver_ok_def requests_match_def)
  have "\<forall>j \<in> working. \<exists>i. i < length (rv_handlers s) \<and> rq_job (rv_handlers s ! i) = Some j"
    using ok by (fastforce simp: receiver_ok_def working_def handler_at_def)
  then obtain owner where owner: "\<And>j. j \<in> working \<Longrightarrow> owner j < length (rv_handlers s)"
    "\<And>j. j \<in> working \<Longrightarrow> rq_job (rv_handlers s ! owner j) = Some j" by (metis (no_types) bchoice)
  have inj: "inj_on owner working" by (rule inj_onI) (metis option.inject owner(2))
  have ok_at: "handler_ok wl ?tasks (rv_handlers s ! i) (?rs ! i)" if "i < length (rv_handlers s)" for i
    using ok that by (simp add: receiver_ok_def handler_at_def permit_of_def)
  have read: "rq_job (rv_handlers s ! i) = None" "i \<in> holding" if "i \<in> reading" for i
    using that ok_at [of i] len by (auto simp: reading_def holding_def handler_ok_phases elim!: gr0_implies_Suc dest!: Suc_le_D)
  have "owner j \<in> holding" if j: "j \<in> working" for j
  proof -
    have p: "in_flight (snd (?tasks ! j))" using j by (simp add: working_def)
    then have "task_result (snd (?tasks ! j)) = None" "snd (?tasks ! j) \<noteq> TaskWaiting"
      by (cases "snd (?tasks ! j)"; simp)+
    with ok_at [OF owner(1) [OF j]] owner(2) [OF j] have "rq_job_holds (rv_handlers s ! owner j)"
      by (auto simp: handler_ok_def job_ok_def)
    with ok_at [OF owner(1) [OF j]] have "?rs ! owner j = Holding (Suc (rq_held (rv_handlers s ! owner j)))"
      by (simp add: handler_ok_def permit_ok_def clones_def)
    then show ?thesis using owner(1) [OF j] len by (simp add: holding_def)
  qed
  then have "owner ` working \<union> reading \<subseteq> holding" using read(2) by blast
  moreover have "owner ` working \<inter> reading = {}" using owner(2) read(1) by fastforce
  moreover have fin: "finite holding" "finite reading" "finite working" by (simp_all add: holding_def reading_def working_def)
  ultimately have "card working + card reading \<le> card holding"
    using card_mono [OF fin(1), of "owner ` working \<union> reading"] card_Un_disjoint [of "owner ` working" reading] card_image [OF inj]
    by simp
  then show ?thesis by (simp add: how_many_def length_filter_conv_card reading_def working_def holding_def)
qed

text \<open>What an answer says of the batch.\<close>

lemma record_answers: "acknowledges (record_answer wl h r) \<longleftrightarrow> r = Inr ()" "\<not> acknowledges (record_answer wl h r) \<Longrightarrow> retryable (record_answer wl h r)"
  by (cases "rq_transport h"; cases r; simp add: record_answer_def http_answer_def grpc_answer_def encode_response_def is_success_def persistence_status_def
      into_response_def http_status_def)+

lemma task_results: "task_result p = Some (Inr ()) \<longleftrightarrow> p = TaskDone (Inr ())" "task_result p = Some (Inl e) \<Longrightarrow> \<not> phase_saved p \<and> \<not> phase_ingested p"
  by (cases p rule: task_result.cases; auto)+

lemma answered_spec:
  assumes ok: "receiver_ok wl s" and at: "handler_at s i h" and a: "rq_phase h = Answered a"
  shows "acknowledges a \<longleftrightarrow> (\<exists>j. rq_job h = Some j \<and> job_phase s j = TaskDone (Inr ()))"
    and "rq_job h = Some j \<Longrightarrow> \<not> acknowledges a \<Longrightarrow> retryable a \<and> \<not> phase_saved (job_phase s j) \<and> \<not> phase_ingested (job_phase s j)"
    and "rq_job h = Some j \<Longrightarrow> j < length (ss_tasks (rv_sink s))"
proof -
  have H: "handler_ok wl (ss_tasks (rv_sink s)) h (permit_of s i)" using ok at by (simp add: receiver_ok_def)
  then have "answer_ok wl (ss_tasks (rv_sink s)) h a" using a by (simp add: handler_ok_def phase_ok_def)
  then show "acknowledges a \<longleftrightarrow> (\<exists>j. rq_job h = Some j \<and> job_phase s j = TaskDone (Inr ()))"
    by (auto simp: answer_ok_def record_answers job_phase_def task_results split: option.splits)
  show "retryable a \<and> \<not> phase_saved (job_phase s j) \<and> \<not> phase_ingested (job_phase s j)" if j: "rq_job h = Some j" "\<not> acknowledges a"
  proof -
    obtain r where r: "task_result (job_phase s j) = Some r" "a = record_answer wl h r"
      using \<open>answer_ok wl (ss_tasks (rv_sink s)) h a\<close> j(1) by (auto simp: answer_ok_def job_phase_def)
    then obtain e where "r = Inl e" using j(2) by (cases r) (auto simp: record_answers)
    then show ?thesis using r task_results(2) record_answers(2) j(2) by blast
  qed
  show "j < length (ss_tasks (rv_sink s))" if "rq_job h = Some j" using H that by (simp add: handler_ok_def job_ok_def)
qed

lemma done_in_histories:
  assumes "tasks_ok s" and "(rcd, TaskDone (Inr ())) \<in> set (ss_tasks s)"
  shows "rcd \<in> set (ss_ingested s)" "sk_file (ss_sink s) \<noteq> None \<Longrightarrow> rcd \<in> set (ss_saved s)"
proof -
  have "rcd \<in># count_tasks P (ss_tasks s)" if "P (TaskDone (Inr ()))" for P
    using assms(2) that unfolding count_tasks_def by (force simp: image_iff)
  from this [of phase_ingested] this [of phase_saved] assms(1)
  show "rcd \<in> set (ss_ingested s)" "sk_file (ss_sink s) \<noteq> None \<Longrightarrow> rcd \<in> set (ss_saved s)"
    by (auto simp: tasks_ok_def)
qed

end
