(* ===== verification/Sample_Sink.thy ===== *)
theory Sample_Sink
  imports Sink_Laws Sample_Batches
begin

text \<open>
  A concrete sink: a log file with a torn line, four batches in flight together, written out of
  order; the disk is full for one of them. Then the sink shuts down.
\<close>

definition sample_sink_settings :: settings where
  "sample_sink_settings = sample_settings\<lparr>st_log_sink := Some (LogFile ''x''), st_pretty_log_dir := None\<rparr>"

definition sample_lib :: "str sink_library" where
  "sample_lib = \<lparr>sl_to_vec = (\<lambda>_. Some [65]), sl_render = (\<lambda>_ _. ''r''), sl_show_date = id, sl_calendar = sample_calendar\<rparr>"

definition sample_surroundings :: "str surroundings" where
  "sample_surroundings = \<lparr>su_utc_day = 0, su_local_date = '''', su_now = 0, su_dir_exists = Inr True, su_read_dir = Inr []\<rparr>"

definition sample_disk :: disk where
  "sample_disk = \<lparr>disk_files = [''x'' \<mapsto> [66, 10, 67]], disk_faults = replicate 13 NoFault @ [Fault (IoError 28) 1]\<rparr>"

definition sample_file :: "u8 list \<Rightarrow> fault list \<Rightarrow> file_handle transactional_append" where
  "sample_file bytes faults = \<lparr>ta_file = \<lparr>fh_path = ''x'', fh_disk = \<lparr>disk_files = [''x'' \<mapsto> bytes], disk_faults = faults\<rparr>\<rparr>, ta_rollback = None\<rparr>"

type_synonym sample_sink = "(str, pretty_job bounded_fifo, export_request bounded_fifo) sink"

definition sample_opened :: sample_sink where
  "sample_opened = \<lparr>sk_summary_enabled = False, sk_admission = True, sk_jsonl_health = default_health,
     sk_file = Some (JsonlFile (sample_file [66, 10] (replicate 7 NoFault @ [Fault (IoError 28) 1]))),
     sk_stdout = Some (po_spawn fifo_new False), sk_pretty_log = None, sk_aggregator = aggregator_new (\<lambda>_. 0), sk_proxy = None\<rparr>"

lemmas file_eval = append_file_open_def open_file_def disk_syscall_def disk_bytes_def
  recover_tail_def file_len_def syscall_def find_valid_len.simps file_bytes_def
  newline_def file_truncate_def set_bytes_def rposition_def ta_append_def ta_repair_def
  file_ops_def write_and_flush_def file_write_all_def file_flush_def sample_file_def

lemma sample_opens:
  "\<exists>d. sink_from_settings sample_lib sample_surroundings fifo_new None False (\<lambda>_. 0) sample_sink_settings None sample_disk =
     (Inr (sample_opened, None), d)"
proof -
  have "path_parent ''x'' = Some ''''" by code_simp
  moreover have "replicate 13 NoFault = [NoFault, NoFault, NoFault, NoFault, NoFault, NoFault, NoFault, NoFault, NoFault, NoFault, NoFault, NoFault, NoFault]" "replicate 7 NoFault = [NoFault, NoFault, NoFault, NoFault, NoFault, NoFault, NoFault]"
    by (simp_all add: numeral_eq_Suc)
  ultimately have "\<exists>d. open_log_file ''x'' sample_disk = (Inr (sample_file [66, 10] (replicate 7 NoFault @ [Fault (IoError 28) 1])), d)"
    by (simp add: open_log_file_def create_parent_def file_eval sample_disk_def Let_def)
  then show ?thesis
    by (auto simp: sink_from_settings_def sample_sink_settings_def sample_settings_def open_jsonl_def sample_opened_def
        enabled_for_stdout_def Let_def)
qed

lemma sample_write:
  assumes "sk_file (sk :: sample_sink) = Some (JsonlFile ta)" and "ta_append file_ops [65, 10] ta = (r, ta')"
  shows "\<exists>sk'. write_jsonl sample_lib sample_surroundings rcd sk = ((case r of Inl e \<Rightarrow> Inl (WriteFailed e) | Inr _ \<Rightarrow> Inr ()), sk') \<and>
    sk_file sk' = Some (JsonlFile ta') \<and> sk_admission sk' = sk_admission sk"
  using assms by (cases r) (simp_all add: write_jsonl_def sample_lib_def write_line_def newline_def)

lemma sample_appends:
  "ta_append file_ops [65, 10] (sample_file [66, 10] (replicate 7 NoFault @ [Fault (IoError 28) 1])) =
     (Inr (), sample_file [66, 10, 65, 10] (replicate 4 NoFault @ [Fault (IoError 28) 1]))"
  "ta_append file_ops [65, 10] (sample_file [66, 10, 65, 10] (replicate 4 NoFault @ [Fault (IoError 28) 1])) =
     (Inr (), sample_file [66, 10, 65, 10, 65, 10] [NoFault, Fault (IoError 28) 1])"
  "ta_append file_ops [65, 10] (sample_file [66, 10, 65, 10, 65, 10] [NoFault, Fault (IoError 28) 1]) =
     (Inl (IoError 28), sample_file [66, 10, 65, 10, 65, 10] [])"
  "ta_append file_ops [65, 10] (sample_file [66, 10, 65, 10, 65, 10] []) =
     (Inr (), sample_file [66, 10, 65, 10, 65, 10, 65, 10] [])"
  by (simp_all add: file_eval numeral_eq_Suc Let_def)

definition sample_records :: "telemetry_record list" where
  "sample_records = claude_batches @ [Logs []]"

definition sample_admitted :: "(str, pretty_job bounded_fifo, export_request bounded_fifo) sink_state" where
  "sample_admitted = (sink_start sample_opened)\<lparr>ss_tasks := map (\<lambda>r. (r, TaskAdmitted)) sample_records\<rparr>"

abbreviation sample_reaches :: "(str, pretty_job bounded_fifo, export_request bounded_fifo) sink_state \<Rightarrow>
    (str, pretty_job bounded_fifo, export_request bounded_fifo) sink_state \<Rightarrow> bool" where
  "sample_reaches \<equiv> sink_reachable (fifo_ops 256) (fifo_ops 1024) sample_lib"

lemma sample_arrive: "sample_reaches s (s\<lparr>ss_tasks := ss_tasks s @ map (\<lambda>r. (r, TaskWaiting)) rs\<rparr>)"
proof (induction rs rule: rev_induct)
  case (snoc r rs)
  from sink_reachable.Step [OF snoc Arrive [of _ _ _ _ r]] show ?case by simp
qed (simp add: sink_reachable.Start)

lemma sample_admit:
  assumes "ss_tasks s = map (\<lambda>r. (r, TaskAdmitted)) rs @ map (\<lambda>r. (r, TaskWaiting)) rs'" and "\<not> ss_locked s" "sk_admission (ss_sink s)"
  shows "sample_reaches s (s\<lparr>ss_tasks := map (\<lambda>r. (r, TaskAdmitted)) (rs @ rs')\<rparr>)"
  using assms
proof (induction rs' arbitrary: s rs)
  case Nil
  then have "s\<lparr>ss_tasks := map (\<lambda>r. (r, TaskAdmitted)) (rs @ [])\<rparr> = s" by simp
  then show ?case by (simp add: sink_reachable.Start)
next
  case (Cons r rs')
  define s1 where "s1 = task_admit (length rs) r s"
  have at: "task_at s (length rs) r TaskWaiting" using Cons.prems by (simp add: task_at_def nth_append)
  have s1: "s1 = s\<lparr>ss_tasks := map (\<lambda>r. (r, TaskAdmitted)) (rs @ [r]) @ map (\<lambda>r. (r, TaskWaiting)) rs'\<rparr>"
    using Cons.prems by (simp add: s1_def task_admit_def set_task_def list_update_append)
  have "sample_reaches s s1"
    unfolding s1_def by (rule sink_reachable.Step [OF sink_reachable.Start Admit [OF at]]) (use Cons.prems in simp)
  moreover have "sample_reaches s1 (s1\<lparr>ss_tasks := map (\<lambda>r. (r, TaskAdmitted)) ((rs @ [r]) @ rs')\<rparr>)"
    by (rule Cons.IH) (use Cons.prems in \<open>simp_all add: s1\<close>)
  ultimately show ?case using sink_reachable_trans by (fastforce simp: s1)
qed

lemma sample_admitted_reachable: "sample_reaches (sink_start sample_opened) sample_admitted"
proof -
  have "sample_reaches (sink_start sample_opened)
      ((sink_start sample_opened)\<lparr>ss_tasks := map (\<lambda>r. (r, TaskWaiting)) sample_records\<rparr>)"
    using sample_arrive [of "sink_start sample_opened" sample_records] by (simp add: sink_start_def)
  moreover have "sample_reaches ((sink_start sample_opened)\<lparr>ss_tasks := map (\<lambda>r. (r, TaskWaiting)) sample_records\<rparr>) sample_admitted"
    using sample_admit [of "(sink_start sample_opened)\<lparr>ss_tasks := map (\<lambda>r. (r, TaskWaiting)) sample_records\<rparr>" "[]" sample_records]
    by (simp add: sample_admitted_def sink_start_def sample_opened_def)
  ultimately show ?thesis by (rule sink_reachable_trans [rotated])
qed

text \<open>One batch after the other: the third, the first, the failing fourth, the second.\<close>

lemma sample_task:
  assumes "sample_reaches (sink_start sample_opened) s" and "i < length (ss_tasks s)" "ss_tasks s ! i = (rcd, TaskAdmitted)"
    and "sk_file (ss_sink s) = Some (JsonlFile ta)" "ta_append file_ops [65, 10] ta = (r, ta')" "sk_admission (ss_sink s)" "\<not> ss_locked s"
  shows "\<exists>s'. sample_reaches (sink_start sample_opened) s' \<and>
    ss_tasks s' = (ss_tasks s)[i := (rcd, TaskDone (case r of Inl e \<Rightarrow> Inl (WriteFailed e) | Inr _ \<Rightarrow> Inr ()))] \<and>
    sk_file (ss_sink s') = Some (JsonlFile ta') \<and> sk_admission (ss_sink s') \<and> \<not> ss_locked s' \<and>
    ss_saved s' = ss_saved s @ (case r of Inl _ \<Rightarrow> [] | Inr _ \<Rightarrow> [rcd])"
proof -
  obtain sk where w: "write_jsonl sample_lib sample_surroundings rcd (ss_sink s) = ((case r of Inl e \<Rightarrow> Inl (WriteFailed e) | Inr _ \<Rightarrow> Inr ()), sk)"
    "sk_file sk = Some (JsonlFile ta')" "sk_admission sk = sk_admission (ss_sink s)"
    using sample_write [OF assms(4,5)] by blast
  have "task_at s i rcd TaskAdmitted" using assms(2,3) by (simp add: task_at_def)
  from task_ends [OF this _ w(1), of "fifo_ops 256" "fifo_ops 1024"] assms(4)
  obtain s' where s': "sample_reaches s s'"
    "ss_tasks s' = (ss_tasks s)[i := (rcd, TaskDone (case r of Inl e \<Rightarrow> Inl (WriteFailed e) | Inr _ \<Rightarrow> Inr ()))]"
    "sk_file (ss_sink s') = sk_file sk" "sk_admission (ss_sink s') = sk_admission sk" "ss_locked s' = ss_locked s"
    "ss_saved s' = ss_saved s @ (case (case r of Inl e \<Rightarrow> Inl (WriteFailed e) | Inr _ \<Rightarrow> Inr ()) of Inl _ \<Rightarrow> [] | Inr _ \<Rightarrow> [rcd])"
    by auto
  with w assms sink_reachable_trans [OF s'(1) assms(1)] show ?thesis by (cases r) auto
qed

definition sample_done :: "(telemetry_record \<times> task_phase) list" where
  "sample_done = map (\<lambda>r. (r, TaskDone (Inr ()))) claude_batches @ [(Logs [], TaskDone (Inl (WriteFailed (IoError 28))))]"

lemma sample_sink_run:
  "\<exists>s. sample_reaches (sink_start sample_opened) s \<and> ss_tasks s = sample_done \<and> sk_admission (ss_sink s) \<and> \<not> ss_locked s \<and>
     sk_file (ss_sink s) = Some (JsonlFile (sample_file [66, 10, 65, 10, 65, 10, 65, 10] []))"
proof -
  obtain b0 b1 b2 where b: "claude_batches = [b0, b1, b2]" by (simp add: claude_batches_def)
  have start: "ss_tasks sample_admitted = [(b0, TaskAdmitted), (b1, TaskAdmitted), (b2, TaskAdmitted), (Logs [], TaskAdmitted)]"
    "sk_file (ss_sink sample_admitted) = Some (JsonlFile (sample_file [66, 10] (replicate 7 NoFault @ [Fault (IoError 28) 1])))"
    "sk_admission (ss_sink sample_admitted)" "\<not> ss_locked sample_admitted"
    by (simp_all add: sample_admitted_def sample_records_def b sink_start_def sample_opened_def)
  from sample_task [OF sample_admitted_reachable, of 2 b2, OF _ _ start(2) sample_appends(1) start(3,4)] start(1)
  obtain s1 where s1: "sample_reaches (sink_start sample_opened) s1"
    "ss_tasks s1 = [(b0, TaskAdmitted), (b1, TaskAdmitted), (b2, TaskDone (Inr ())), (Logs [], TaskAdmitted)]"
    "sk_file (ss_sink s1) = Some (JsonlFile (sample_file [66, 10, 65, 10] (replicate 4 NoFault @ [Fault (IoError 28) 1])))"
    "sk_admission (ss_sink s1)" "\<not> ss_locked s1" by (auto simp: numeral_2_eq_2)
  from sample_task [OF s1(1), of 0 b0, OF _ _ s1(3) sample_appends(2) s1(4,5)] s1(2)
  obtain s2 where s2: "sample_reaches (sink_start sample_opened) s2"
    "ss_tasks s2 = [(b0, TaskDone (Inr ())), (b1, TaskAdmitted), (b2, TaskDone (Inr ())), (Logs [], TaskAdmitted)]"
    "sk_file (ss_sink s2) = Some (JsonlFile (sample_file [66, 10, 65, 10, 65, 10] [NoFault, Fault (IoError 28) 1]))"
    "sk_admission (ss_sink s2)" "\<not> ss_locked s2" by auto
  from sample_task [OF s2(1), of 3 "Logs []", OF _ _ s2(3) sample_appends(3) s2(4,5)] s2(2)
  obtain s3 where s3: "sample_reaches (sink_start sample_opened) s3"
    "ss_tasks s3 = [(b0, TaskDone (Inr ())), (b1, TaskAdmitted), (b2, TaskDone (Inr ())), (Logs [], TaskDone (Inl (WriteFailed (IoError 28))))]"
    "sk_file (ss_sink s3) = Some (JsonlFile (sample_file [66, 10, 65, 10, 65, 10] []))"
    "sk_admission (ss_sink s3)" "\<not> ss_locked s3" by (auto simp: numeral_3_eq_3)
  from sample_task [OF s3(1), of 1 b1, OF _ _ s3(3) sample_appends(4) s3(4,5)] s3(2)
  obtain s4 where "sample_reaches (sink_start sample_opened) s4"
    "ss_tasks s4 = [(b0, TaskDone (Inr ())), (b1, TaskDone (Inr ())), (b2, TaskDone (Inr ())), (Logs [], TaskDone (Inl (WriteFailed (IoError 28))))]"
    "sk_file (ss_sink s4) = Some (JsonlFile (sample_file [66, 10, 65, 10, 65, 10, 65, 10] []))"
    "sk_admission (ss_sink s4)" "\<not> ss_locked s4" by auto
  then show ?thesis by (intro exI [of _ s4]) (simp add: sample_done_def b)
qed

lemma sample_done_phases: "\<forall>t \<in> set sample_done. \<not> in_flight (snd t)"
  "count_tasks phase_acknowledged sample_done = mset claude_batches"
  by (auto simp: sample_done_def count_tasks_def phase_acknowledged_def claude_batches_def)

end
