(* ===== verification/Sample_Receiver.thy ===== *)
theory Sample_Receiver
  imports Receiver_Laws Sample_Sink
begin

text \<open>
  A concrete receiver: two requests over HTTP, of which one has a content type that is refused and
  the other is read, saved and acknowledged.
\<close>

definition sample_wire :: wire_library where
  "sample_wire = \<lparr>wl_to_str = (\<lambda>v. Some (map (char_of \<circ> unat) v)), wl_traces = (\<lambda>_ _. Inl ''bad''), wl_metrics = (\<lambda>_ _. Inl ''bad''),
     wl_logs = (\<lambda>_ bytes. if bytes = [] then Inr [] else Inl ''bad''), wl_encode = (\<lambda>_ _. []), wl_show = (\<lambda>_. ''e'')\<rparr>"

type_synonym sample_receiver = "(str, pretty_job bounded_fifo, export_request bounded_fifo) receiver"

definition sample_limits :: receive_limits where
  "sample_limits = limits_new (st_max_inflight_requests sample_sink_settings) (st_receive_timeout sample_sink_settings)"

abbreviation sample_receives :: "sample_receiver \<Rightarrow> bool" where
  "sample_receives \<equiv> receiver_reachable (fifo_ops 256) (fifo_ops 1024) sample_lib sample_wire (receiver_start sample_limits sample_opened)"

definition sample_http :: handler where
  "sample_http = (new_handler (OverHttp SignalLogs None))\<lparr>rq_encoding := Some Protobuf, rq_phase := Reading, rq_held := 1\<rparr>"

definition sample_refused :: handler where
  "sample_refused = (new_handler (OverHttp SignalLogs (Some [120])))
     \<lparr>rq_phase := Answered (into_response sample_wire (UnsupportedContentType ''x''))\<rparr>"

lemma sample_encodings: "detect_encoding sample_wire None = Inr Protobuf"
  "detect_encoding sample_wire (Some [120]) = Inl (UnsupportedContentType ''x'')"
  by code_simp+

lemma sample_begin: "begin_handler sample_wire (new_handler (OverHttp SignalLogs None)) =
    (new_handler (OverHttp SignalLogs None))\<lparr>rq_encoding := Some Protobuf, rq_phase := Admitting\<rparr>"
  "begin_handler sample_wire (new_handler (OverHttp SignalLogs (Some [120]))) = sample_refused"
  by (simp_all add: begin_handler_def sample_encodings sample_refused_def new_handler_def)


definition rcv :: "nat \<Rightarrow> request_phase list \<Rightarrow> (str, pretty_job bounded_fifo, export_request bounded_fifo) sink_state \<Rightarrow> handler list \<Rightarrow> sample_receiver" where
  "rcv free ps k hs = \<lparr>rv_admission = \<lparr>as_limits = sample_limits\<lparr>rl_slots := free\<rparr>, as_requests = ps\<rparr>, rv_sink = k, rv_handlers = hs\<rparr>"

lemma rcv_step:
  "sample_receives s \<Longrightarrow> receiver_step (fifo_ops 256) (fifo_ops 1024) sample_lib sample_wire s s' \<Longrightarrow> s' = s'' \<Longrightarrow> sample_receives s''"
  using receiver_reachable.Step by blast

lemma rcv_start: "sample_receives (rcv 4 [] (sink_start sample_opened) [])"
  using receiver_reachable.Start [of _ _ _ _ "receiver_start sample_limits sample_opened"]
  by (simp add: rcv_def receiver_start_def sample_limits_def limits_new_def sample_sink_settings_def sample_settings_def)

lemmas rcv_simps = rcv_def arrive_def begin_request_def set_handler_def set_permit_def handler_at_def permit_of_def Let_def
  new_handler_def enter_def permit_clones_def received_def drop_permits_def job_phase_def answer_request_def

definition first_handler :: "handler_phase \<Rightarrow> nat \<Rightarrow> nat option \<Rightarrow> bool \<Rightarrow> handler" where
  "first_handler p held job holds = \<lparr>rq_transport = OverHttp SignalLogs None, rq_encoding = Some Protobuf, rq_phase = p, rq_held = held,
     rq_job = job, rq_job_holds = holds\<rparr>"

lemma sample_reads: "sample_receives (rcv 3 [Holding 1, Finished] (sink_start sample_opened) [first_handler Reading 1 None False, sample_refused])"
proof -
  let ?k = "sink_start sample_opened"
  let ?new = "[new_handler (OverHttp SignalLogs None), new_handler (OverHttp SignalLogs (Some [120]))]"
  have 1: "sample_receives (rcv 4 [Arrived] ?k [new_handler (OverHttp SignalLogs None)])"
    by (rule rcv_step [OF rcv_start receiver_step.Arrive]) (simp_all add: rcv_simps)
  have 2: "sample_receives (rcv 4 [Arrived, Arrived] ?k ?new)"
    by (rule rcv_step [OF 1 receiver_step.Arrive]) (simp_all add: rcv_simps)
  have 3: "sample_receives (rcv 4 [Arrived, Finished] ?k [new_handler (OverHttp SignalLogs None), sample_refused])"
    by (rule rcv_step [OF 2 Begin [where i = 1 and h = "new_handler (OverHttp SignalLogs (Some [120]))"]]) (simp_all add: rcv_simps sample_begin [unfolded new_handler_def] sample_refused_def)
  have 4: "sample_receives (rcv 4 [Arrived, Finished] ?k [first_handler Admitting 0 None False, sample_refused])"
    by (rule rcv_step [OF 3 Begin [where i = 0 and h = "new_handler (OverHttp SignalLogs None)"]])
      (simp_all add: rcv_simps sample_begin [unfolded new_handler_def] first_handler_def)
  have 5: "sample_receives (rcv 3 [Holding 1, Finished] ?k [first_handler Admitting 0 None False, sample_refused])"
    by (rule rcv_step [OF 4 Wait [where i = 0 and h = "first_handler Admitting 0 None False" and p = "Holding 1" and l = "sample_limits\<lparr>rl_slots := 3\<rparr>"]])
      (simp_all add: rcv_simps first_handler_def request_step.simps try_acquire_def)
  show ?thesis
    by (rule rcv_step [OF 5 Enter [where i = 0 and h = "first_handler Admitting 0 None False"]]) (simp_all add: rcv_simps first_handler_def)
qed

definition sample_sent :: "(str, pretty_job bounded_fifo, export_request bounded_fifo) sink_state" where
  "sample_sent = (sink_start sample_opened)\<lparr>ss_tasks := [(Logs [], TaskAdmitted)]\<rparr>"

lemma sample_saves: "sample_receives (rcv 3 [Holding 1, Finished] sample_sent [first_handler Saving 0 (Some 0) True, sample_refused])"
proof -
  let ?waiting = "(sink_start sample_opened)\<lparr>ss_tasks := [(Logs [], TaskWaiting)]\<rparr>"
  have read: "http_received sample_wire Protobuf SignalLogs (BodyRead []) = Inr (Logs [])"
    by (simp add: http_received_def read_body_def handle_logs_def decode_request_def sample_wire_def)
  have 1: "sample_receives (rcv 3 [Holding 1, Finished] ?waiting [first_handler Saving 0 (Some 0) True, sample_refused])"
    by (rule rcv_step [OF sample_reads HttpRead [where i = 0 and b = "BodyRead []" and h = "first_handler Reading 1 None False" and sig = SignalLogs and ct = None and enc = Protobuf]])
      (simp_all add: rcv_simps first_handler_def read sink_start_def)
  have "sink_step (fifo_ops 256) (fifo_ops 1024) sample_lib ?waiting (task_admit 0 (Logs []) ?waiting)"
    by (rule Admit) (simp_all add: task_at_def sink_start_def)
  moreover have "task_admit 0 (Logs []) ?waiting = sample_sent"
    by (simp add: task_admit_def set_task_def sample_sent_def sink_start_def sample_opened_def)
  ultimately show ?thesis
    by (intro rcv_step [OF 1 SinkMoves [where sk = sample_sent]])
      (simp_all add: rcv_def sample_sent_def given_up_def first_handler_def sample_refused_def new_handler_def)
qed

text \<open>As long as no handler has been dropped and nothing new arrives, the receiver lets the sink run.\<close>

lemma sink_step_length: "sink_step qops lops lib s s' \<Longrightarrow> length (ss_tasks s) \<le> length (ss_tasks s')"
  by (induction rule: sink_step.induct)
    (auto simp: task_admit_def task_persist_def task_health_def task_ingest_def task_queue_def task_forward_def set_task_def
      shutdown_close_def shutdown_flush_def split: prod.splits)

lemma receiver_lets_sink_run:
  assumes "sink_reachable qops lops lib k k'" and "\<forall>h \<in> set hs. rq_phase h \<noteq> Cancelled"
    and "receiver_reachable qops lops lib wl s0 \<lparr>rv_admission = a, rv_sink = k, rv_handlers = hs\<rparr>"
  shows "length (ss_tasks k) \<le> length (ss_tasks k')" and "length (ss_tasks k') = length (ss_tasks k) \<Longrightarrow>
    receiver_reachable qops lops lib wl s0 \<lparr>rv_admission = a, rv_sink = k', rv_handlers = hs\<rparr>"
proof -
  have "length (ss_tasks k) \<le> length (ss_tasks k') \<and> (length (ss_tasks k') = length (ss_tasks k) \<longrightarrow>
      receiver_reachable qops lops lib wl s0 \<lparr>rv_admission = a, rv_sink = k', rv_handlers = hs\<rparr>)"
    using assms(1)
  proof (induction rule: sink_reachable.induct)
    case Start
    then show ?case using assms(3) by simp
  next
    case (Step k1 k2)
    have le: "length (ss_tasks k1) \<le> length (ss_tasks k2)" using sink_step_length [OF Step.hyps(2)] .
    show ?case
    proof (intro conjI impI)
      show "length (ss_tasks k) \<le> length (ss_tasks k2)" using Step.IH le by simp
      assume "length (ss_tasks k2) = length (ss_tasks k)"
      then have eq: "length (ss_tasks k2) = length (ss_tasks k1)" and
        r: "receiver_reachable qops lops lib wl s0 \<lparr>rv_admission = a, rv_sink = k1, rv_handlers = hs\<rparr>"
        using Step.IH le by simp_all
      have "receiver_step qops lops lib wl \<lparr>rv_admission = a, rv_sink = k1, rv_handlers = hs\<rparr>
          (\<lparr>rv_admission = a, rv_sink = k1, rv_handlers = hs\<rparr>\<lparr>rv_sink := k2\<rparr>)"
        by (rule SinkMoves) (use Step.hyps(2) eq assms(2) in \<open>auto simp: given_up_def\<close>)
      from receiver_reachable.Step [OF r this]
      show "receiver_reachable qops lops lib wl s0 \<lparr>rv_admission = a, rv_sink = k2, rv_handlers = hs\<rparr>" by simp
    qed
  qed
  then show "length (ss_tasks k) \<le> length (ss_tasks k')" and "length (ss_tasks k') = length (ss_tasks k) \<Longrightarrow>
    receiver_reachable qops lops lib wl s0 \<lparr>rv_admission = a, rv_sink = k', rv_handlers = hs\<rparr>" by blast+
qed

definition sample_ok :: handler where
  "sample_ok = first_handler (Answered (HttpReply 200 (Some PROTOBUF_CT) [])) 0 (Some 0) False"

lemma sample_answers:
  "\<exists>k. sample_receives (rcv 4 [Finished, Finished] k [sample_ok, sample_refused]) \<and> ss_tasks k = [(Logs [], TaskDone (Inr ()))]"
proof -
  obtain sk where w: "write_jsonl sample_lib sample_surroundings (Logs []) (ss_sink sample_sent) = (Inr (), sk)"
    using sample_write [of "ss_sink sample_sent", OF _ sample_appends(1), of "Logs []"]
    by (auto simp: sample_sent_def sink_start_def sample_opened_def)
  have "task_at sample_sent 0 (Logs []) TaskAdmitted" by (simp add: sample_sent_def task_at_def)
  from task_ends [OF this _ w, of "fifo_ops 256" "fifo_ops 1024"] obtain k where
    k: "sink_reachable (fifo_ops 256) (fifo_ops 1024) sample_lib sample_sent k" "ss_tasks k = [(Logs [], TaskDone (Inr ()))]"
    by (auto simp: sample_sent_def sink_start_def sample_opened_def)
  have 1: "sample_receives (rcv 3 [Holding 1, Finished] k [first_handler Saving 0 (Some 0) True, sample_refused])"
    unfolding rcv_def
    by (rule receiver_lets_sink_run(2) [OF k(1) _ sample_saves [unfolded rcv_def]])
      (simp_all add: first_handler_def sample_refused_def new_handler_def k(2) sample_sent_def)
  have 2: "sample_receives (rcv 4 [Finished, Finished] k [first_handler Saving 0 (Some 0) False, sample_refused])"
    by (rule rcv_step [OF 1 JobDrops [where i = 0 and j = 0 and h = "first_handler Saving 0 (Some 0) True"]]) (simp_all add: rcv_simps first_handler_def k(2) release_def)
  have "sample_receives (rcv 4 [Finished, Finished] k [sample_ok, sample_refused])"
    by (rule rcv_step [OF 2 Answer [where i = 0 and j = 0 and result = "Inr ()" and h = "first_handler Saving 0 (Some 0) False"]])
      (simp_all add: rcv_simps first_handler_def k(2) sample_ok_def record_answer_def http_answer_def encode_response_def sample_wire_def)
  with k(2) show ?thesis by blast
qed

end
