(* ===== verification/Worker.thy ===== *)
theory Worker
  imports Routing
begin

text \<open>
  \<^verbatim>\<open>src/src/forward/worker.rs\<close>: the task of one lane. It receives requests, sends each
  with retries, and at shutdown sends what is left for a limited time. The client, the clock and
  the shutdown token are the environment: what an attempt does is an argument of the retry loop,
  and the lane is a step relation whose steps interleave freely with the notifications.
\<close>

section \<open>Sending with retries\<close>

text \<open>
  An attempt: the token may be cancelled before it or while it runs, or the export returns; after
  a failed one the token may be cancelled during the sleep. The argument \<open>retry\<close> is the
  \<^verbatim>\<open>retry_delay\<close> of an error. Delays are in nanoseconds.
\<close>

datatype 'e attempt_result = Interrupted | Completed "'e + unit"

record 'e attempt =
  att_cancelled :: bool
  att_result :: "'e attempt_result"
  att_sleep_cancelled :: bool

datatype 'e send_outcome = Sent | SendCancelled | SendFailed "'e option"

definition INITIAL_DELAY :: nat where
  "INITIAL_DELAY = 200 * 1000000"

definition MAX_DELAY :: nat where
  "MAX_DELAY = 30 * 1000000000"

text \<open>The remaining attempts, the number of the next one, the delay, the last error and the sleeps so far.\<close>

primrec send_loop ::
    "('e \<Rightarrow> nat option) \<Rightarrow> (nat \<Rightarrow> 'e attempt) \<Rightarrow> nat \<Rightarrow> nat \<Rightarrow> nat \<Rightarrow> 'e option \<Rightarrow> nat list \<Rightarrow> 'e send_outcome \<times> nat list" where
  "send_loop retry env 0 i delay last_err slept = (SendFailed last_err, slept)"
| "send_loop retry env (Suc rest) i delay last_err slept =
     (if att_cancelled (env i) then (SendCancelled, slept)
      else case att_result (env i) of
          Interrupted \<Rightarrow> (SendCancelled, slept)
        | Completed (Inr _) \<Rightarrow> (Sent, slept)
        | Completed (Inl e) \<Rightarrow>
            if rest = 0 \<or> retry e = None then (SendFailed (Some e), slept)
            else if att_sleep_cancelled (env i) then (SendCancelled, slept)
            else send_loop retry env rest (Suc i) (min (delay * 2) MAX_DELAY) (Some e)
                   (slept @ [max delay (unwrap_or 0 (retry e))]))"

definition attempts :: "u32 \<Rightarrow> nat" where
  "attempts retry_max = min (2 ^ 32 - 1) (unat retry_max + 1)"

definition send_with_retry ::
    "('e \<Rightarrow> nat option) \<Rightarrow> (nat \<Rightarrow> 'e attempt) \<Rightarrow> u32 \<Rightarrow> 'e send_outcome \<times> nat list" where
  "send_with_retry retry env retry_max = send_loop retry env (attempts retry_max) 0 INITIAL_DELAY None []"

section \<open>The lane\<close>

text \<open>
  Where the task is: waiting for a request, sending one, closing with a request whose send was
  cancelled, draining the queue (with the number of abandoned requests and whether the grace
  period is over), or stopped.
\<close>

datatype worker_phase =
    Running
  | Sending export_request
  | Closing "export_request option"
  | Draining "export_request option" nat bool
  | Stopped

record 'q lane_state =
  la_queue :: 'q
  la_metrics :: route_metrics
  la_phase :: worker_phase
  la_notified :: nat   \<comment> \<open>requests offered so far, for the statements only\<close>

definition count_sent :: "route_metrics \<Rightarrow> route_metrics" where
  "count_sent m = m\<lparr>sent_total := sent_total m + 1\<rparr>"

definition count_failed :: "route_metrics \<Rightarrow> route_metrics" where
  "count_failed m = m\<lparr>failed_total := failed_total m + 1\<rparr>"

definition count_abandoned :: "nat \<Rightarrow> route_metrics \<Rightarrow> route_metrics" where
  "count_abandoned n m = (if 0 < n then m\<lparr>dropped_total := dropped_total m + of_nat n\<rparr> else m)"

text \<open>A notification, on the queue and counters the router shares with the task.\<close>

definition lane_notify :: "('q, export_request) channel_ops \<Rightarrow> export_request \<Rightarrow> 'q lane_state \<Rightarrow> 'q lane_state" where
  "lane_notify ops request s = (case ch_try_send ops request (la_queue s) of
       (SendOk, q) \<Rightarrow> s\<lparr>la_queue := q, la_notified := Suc (la_notified s)\<rparr>
     | (_, q) \<Rightarrow> s\<lparr>la_queue := q, la_metrics := count_drop (la_metrics s), la_notified := Suc (la_notified s)\<rparr>)"

text \<open>Receiving the next request outside a shutdown.\<close>

definition worker_receive :: "('q, export_request) channel_ops \<Rightarrow> 'q lane_state \<Rightarrow> 'q lane_state" where
  "worker_receive ops s = (case ch_recv ops (la_queue s) of
       None \<Rightarrow> s
     | Some (request, q) \<Rightarrow>
         if is_empty_request request then s\<lparr>la_queue := q\<rparr>
         else s\<lparr>la_queue := q, la_phase := Sending request\<rparr>)"

definition worker_sent :: "export_request \<Rightarrow> 'e send_outcome \<Rightarrow> 'q lane_state \<Rightarrow> 'q lane_state" where
  "worker_sent request out s = (case out of
       Sent \<Rightarrow> s\<lparr>la_metrics := count_sent (la_metrics s), la_phase := Running\<rparr>
     | SendCancelled \<Rightarrow> s\<lparr>la_phase := Closing (Some request)\<rparr>
     | SendFailed _ \<Rightarrow> s\<lparr>la_metrics := count_failed (la_metrics s), la_phase := Running\<rparr>)"

definition worker_close :: "('q, export_request) channel_ops \<Rightarrow> export_request option \<Rightarrow> 'q lane_state \<Rightarrow> 'q lane_state" where
  "worker_close ops interrupted s = s\<lparr>la_queue := ch_close ops (la_queue s), la_phase := Draining interrupted 0 False\<rparr>"

text \<open>One round of the drain loop: the interrupted request first, then the queue.\<close>

definition drain_one ::
    "export_request \<Rightarrow> nat \<Rightarrow> bool \<Rightarrow> 'e send_outcome \<Rightarrow> 'q lane_state \<Rightarrow> 'q lane_state" where
  "drain_one request abandoned expired out s =
     (if is_empty_request request then s\<lparr>la_phase := Draining None abandoned expired\<rparr>
      else if expired then s\<lparr>la_phase := Draining None (Suc abandoned) expired\<rparr>
      else case out of
          Sent \<Rightarrow> s\<lparr>la_metrics := count_sent (la_metrics s), la_phase := Draining None abandoned expired\<rparr>
        | SendCancelled \<Rightarrow> s\<lparr>la_phase := Draining None (Suc abandoned) expired\<rparr>
        | SendFailed _ \<Rightarrow> s\<lparr>la_metrics := count_failed (la_metrics s), la_phase := Draining None abandoned expired\<rparr>)"

definition drain_step ::
    "('q, export_request) channel_ops \<Rightarrow> export_request option \<Rightarrow> nat \<Rightarrow> bool \<Rightarrow> 'e send_outcome \<Rightarrow> 'q lane_state \<Rightarrow> 'q lane_state" where
  "drain_step ops interrupted abandoned expired out s = (case interrupted of
       Some request \<Rightarrow> drain_one request abandoned expired out s
     | None \<Rightarrow> (case ch_recv ops (la_queue s) of
           Some (request, q) \<Rightarrow> drain_one request abandoned expired out (s\<lparr>la_queue := q\<rparr>)
         | None \<Rightarrow> s\<lparr>la_metrics := count_abandoned abandoned (la_metrics s), la_phase := Stopped\<rparr>))"

text \<open>
  The interleaving. A notification only carries requests that are not empty, since the filters
  never build an empty one. Shutdown is noticed between requests or cancels a send.
\<close>

inductive lane_step :: "('q, export_request) channel_ops \<Rightarrow> ('e \<Rightarrow> nat option) \<Rightarrow> u32 \<Rightarrow> 'q lane_state \<Rightarrow> 'q lane_state \<Rightarrow> bool"
  for ops :: "('q, export_request) channel_ops" and retry :: "'e \<Rightarrow> nat option" and retry_max :: u32 where
  Notify: "\<not> is_empty_request request \<Longrightarrow> lane_step ops retry retry_max s (lane_notify ops request s)"
| Receive: "la_phase s = Running \<Longrightarrow> lane_step ops retry retry_max s (worker_receive ops s)"
| SendDone: "la_phase s = Sending request \<Longrightarrow> send_with_retry retry env retry_max = (out, slept) \<Longrightarrow>
    lane_step ops retry retry_max s (worker_sent request out s)"
| Shutdown: "la_phase s = Running \<Longrightarrow> lane_step ops retry retry_max s (s\<lparr>la_phase := Closing None\<rparr>)"
| Close: "la_phase s = Closing interrupted \<Longrightarrow> lane_step ops retry retry_max s (worker_close ops interrupted s)"
| Expire: "la_phase s = Draining interrupted abandoned False \<Longrightarrow>
    lane_step ops retry retry_max s (s\<lparr>la_phase := Draining interrupted abandoned True\<rparr>)"
| Drain: "la_phase s = Draining interrupted abandoned expired \<Longrightarrow> send_with_retry retry env 0 = (out, slept) \<Longrightarrow>
    lane_step ops retry retry_max s (drain_step ops interrupted abandoned expired out s)"

inductive lane_reachable :: "('q, export_request) channel_ops \<Rightarrow> ('e \<Rightarrow> nat option) \<Rightarrow> u32 \<Rightarrow> 'q \<Rightarrow> 'q lane_state \<Rightarrow> bool"
  for ops :: "('q, export_request) channel_ops" and retry :: "'e \<Rightarrow> nat option" and retry_max :: u32 and q0 :: 'q where
  Start: "lane_reachable ops retry retry_max q0
    \<lparr>la_queue = q0, la_metrics = default_metrics, la_phase = Running, la_notified = 0\<rparr>"
| Step: "lane_reachable ops retry retry_max q0 s \<Longrightarrow> lane_step ops retry retry_max s s' \<Longrightarrow>
    lane_reachable ops retry retry_max q0 s'"

section \<open>Every notified request is accounted for\<close>

text \<open>Requests that are in the task's hands: being sent, interrupted, or abandoned and not yet counted.\<close>

fun in_hand :: "worker_phase \<Rightarrow> nat" where
  "in_hand Running = 0"
| "in_hand (Sending _) = 1"
| "in_hand (Closing r) = (if r = None then 0 else 1)"
| "in_hand (Draining r n _) = (if r = None then n else Suc n)"
| "in_hand Stopped = 0"

fun held :: "worker_phase \<Rightarrow> export_request list" where
  "held (Sending r) = [r]"
| "held (Closing r) = (case r of None \<Rightarrow> [] | Some r \<Rightarrow> [r])"
| "held (Draining r _ _) = (case r of None \<Rightarrow> [] | Some r \<Rightarrow> [r])"
| "held _ = []"

definition counted :: "route_metrics \<Rightarrow> u64" where
  "counted m = sent_total m + failed_total m + dropped_total m"

lemma counted_simps [simp]:
  "counted (count_sent m) = counted m + 1" "counted (count_failed m) = counted m + 1"
  "counted (count_drop m) = counted m + 1" "counted (count_abandoned n m) = counted m + of_nat n"
  "counted default_metrics = 0"
  by (simp_all add: counted_def count_sent_def count_failed_def count_drop_def count_abandoned_def default_metrics_def)

lemmas lane_defs = lane_notify_def worker_receive_def worker_sent_def worker_close_def drain_step_def drain_one_def

text \<open>The invariant of a lane over any channel that behaves as documented.\<close>

locale lane_channel = channel ops waiting capacity
  for ops :: "('q, export_request) channel_ops" and waiting :: "'q \<Rightarrow> export_request list" and capacity :: nat
begin

definition closed_after_run :: "'q lane_state \<Rightarrow> bool" where
  "closed_after_run s \<longleftrightarrow> (case la_phase s of
       Draining _ _ _ \<Rightarrow> ch_is_closed ops (la_queue s)
     | Stopped \<Rightarrow> ch_is_closed ops (la_queue s) \<and> waiting (la_queue s) = []
     | _ \<Rightarrow> True)"

definition accounted :: "'q lane_state \<Rightarrow> bool" where
  "accounted s \<longleftrightarrow>
     of_nat (la_notified s) = counted (la_metrics s) + of_nat (in_hand (la_phase s)) + of_nat (length (waiting (la_queue s))) \<and>
     (\<forall>r \<in> set (waiting (la_queue s)) \<union> set (held (la_phase s)). \<not> is_empty_request r) \<and>
     length (waiting (la_queue s)) \<le> capacity \<and> closed_after_run s"

lemma accounted_notify:
  assumes "accounted s" and "\<not> is_empty_request request"
  shows "accounted (lane_notify ops request s)"
proof -
  obtain r q where sent: "ch_try_send ops request (la_queue s) = (r, q)" by (cases "ch_try_send ops request (la_queue s)")
  show ?thesis
  proof (cases r)
    case SendOk
    with assms sent send_ok [of request "la_queue s" q] send_ok_room [of request "la_queue s" q] send_open [of request "la_queue s" q]
    show ?thesis by (auto simp: accounted_def lane_notify_def closed_after_run_def split: worker_phase.splits)
  next
    case SendFull
    with assms sent send_full [of request "la_queue s" q]
    show ?thesis by (auto simp: accounted_def lane_notify_def closed_after_run_def split: worker_phase.splits)
  next
    case SendClosed
    with assms sent send_closed [of request "la_queue s" q]
    show ?thesis by (auto simp: accounted_def lane_notify_def closed_after_run_def split: worker_phase.splits)
  qed
qed

lemma accounted_receive:
  assumes "accounted s" and "la_phase s = Running"
  shows "accounted (worker_receive ops s)"
proof (cases "ch_recv ops (la_queue s)")
  case (Some x)
  obtain m q where x: "x = (m, q)" by (cases x)
  with Some recv_some [of "la_queue s" m q] assms show ?thesis
    by (auto simp: accounted_def worker_receive_def closed_after_run_def)
qed (use assms in \<open>simp add: worker_receive_def\<close>)

lemma accounted_sent:
  assumes "accounted s" and "la_phase s = Sending request"
  shows "accounted (worker_sent request out s)"
  using assms by (cases out) (auto simp: accounted_def worker_sent_def closed_after_run_def)

lemma accounted_close:
  assumes "accounted s" and "la_phase s = Closing interrupted"
  shows "accounted (worker_close ops interrupted s)"
  using assms close [of "la_queue s"]
  by (auto simp: accounted_def worker_close_def closed_after_run_def split: option.splits)

lemma accounted_drain_one:
  assumes "of_nat (la_notified s) = counted (la_metrics s) + of_nat (Suc abandoned) + of_nat (length (waiting (la_queue s)))"
    and "\<forall>r \<in> set (waiting (la_queue s)). \<not> is_empty_request r" and "\<not> is_empty_request request"
    and "length (waiting (la_queue s)) \<le> capacity" and "ch_is_closed ops (la_queue s)"
  shows "accounted (drain_one request abandoned expired out s)"
  using assms by (cases out) (auto simp: accounted_def drain_one_def closed_after_run_def)

lemma accounted_drain:
  assumes "accounted s" and "la_phase s = Draining interrupted abandoned expired"
  shows "accounted (drain_step ops interrupted abandoned expired out s)"
proof (cases interrupted)
  case (Some request)
  have "accounted (drain_one request abandoned expired out s)"
    by (rule accounted_drain_one) (use assms Some in \<open>auto simp: accounted_def closed_after_run_def\<close>)
  with Some show ?thesis by (simp add: drain_step_def)
next
  case None
  show ?thesis
  proof (cases "ch_recv ops (la_queue s)")
    case None
    with \<open>interrupted = None\<close> assms recv_none [of "la_queue s"] show ?thesis
      by (simp add: drain_step_def accounted_def closed_after_run_def)
  next
    case (Some x)
    obtain m q where x: "x = (m, q)" by (cases x)
    have "accounted (drain_one m abandoned expired out (s\<lparr>la_queue := q\<rparr>))"
      by (rule accounted_drain_one) (use assms Some x \<open>interrupted = None\<close> recv_some [of "la_queue s" m q]
        in \<open>auto simp: accounted_def closed_after_run_def\<close>)
    with Some x \<open>interrupted = None\<close> show ?thesis by (simp add: drain_step_def)
  qed
qed

lemma accounted_step:
  assumes "lane_step ops retry retry_max s s'" and "accounted s"
  shows "accounted s'"
  using assms
proof (cases rule: lane_step.cases)
  case (Expire interrupted abandoned)
  with assms show ?thesis by (auto simp: accounted_def closed_after_run_def)
next
  case Shutdown
  with assms show ?thesis by (auto simp: accounted_def closed_after_run_def)
qed (use assms in \<open>auto intro: accounted_notify accounted_receive accounted_sent accounted_close accounted_drain\<close>)

lemma reachable_accounted:
  "lane_reachable ops retry retry_max q0 s \<Longrightarrow> waiting q0 = [] \<Longrightarrow> accounted s"
proof (induction rule: lane_reachable.induct)
  case Start
  then show ?case by (simp add: accounted_def closed_after_run_def)
next
  case (Step s s')
  then show ?case using accounted_step by blast
qed

end

interpretation fifo_lane: lane_channel "fifo_ops cap" bf_items cap for cap
  by unfold_locales

section \<open>The drain ends\<close>

definition drain_round :: "('q, export_request) channel_ops \<Rightarrow> 'e send_outcome \<Rightarrow> 'q lane_state \<Rightarrow> 'q lane_state" where
  "drain_round ops out s = (case la_phase s of
     Draining interrupted abandoned expired \<Rightarrow> drain_step ops interrupted abandoned expired out s | _ \<Rightarrow> s)"

context lane_channel
begin

definition drain_left :: "'q lane_state \<Rightarrow> nat" where
  "drain_left s = (case la_phase s of
     Draining interrupted _ _ \<Rightarrow> Suc (length (waiting (la_queue s)) + length (held (la_phase s))) | _ \<Rightarrow> 0)"

definition draining :: "'q lane_state \<Rightarrow> bool" where
  "draining s \<longleftrightarrow> la_phase s = Stopped \<or> (\<exists>i n e. la_phase s = Draining i n e)"

lemma drain_one_phase:
  "\<exists>n e. la_phase (drain_one request abandoned expired out s) = Draining None n e"
  "la_queue (drain_one request abandoned expired out s) = la_queue s"
  by (auto simp: drain_one_def split: send_outcome.splits)

lemma drain_round_progress:
  assumes "draining s" and "la_phase s \<noteq> Stopped"
  shows "draining (drain_round ops out s) \<and> drain_left (drain_round ops out s) < drain_left s"
proof -
  obtain i n e where ph: "la_phase s = Draining i n e" using assms by (auto simp: draining_def)
  show ?thesis
  proof (cases i)
    case (Some request)
    have "drain_round ops out s = drain_one request n e out s" by (simp add: drain_round_def drain_step_def ph Some)
    with drain_one_phase [of request n e out s] ph Some show ?thesis by (auto simp: draining_def drain_left_def)
  next
    case None
    show ?thesis
    proof (cases "ch_recv ops (la_queue s)")
      case None
      with ph \<open>i = None\<close> show ?thesis by (simp add: drain_round_def drain_step_def draining_def drain_left_def)
    next
      case (Some x)
      obtain m q where x: "x = (m, q)" by (cases x)
      have "drain_round ops out s = drain_one m n e out (s\<lparr>la_queue := q\<rparr>)"
        by (simp add: drain_round_def drain_step_def ph \<open>i = None\<close> Some x)
      with drain_one_phase [of m n e out "s\<lparr>la_queue := q\<rparr>"] ph \<open>i = None\<close> Some x recv_some [of "la_queue s" m q]
      show ?thesis by (auto simp: draining_def drain_left_def)
    qed
  qed
qed

lemma drain_ends:
  "draining s \<Longrightarrow> drain_left s \<le> length outs \<Longrightarrow> la_phase (fold (drain_round ops) outs s) = Stopped"
proof (induction outs arbitrary: s)
  case Nil
  then show ?case by (auto simp: draining_def drain_left_def)
next
  case (Cons out outs)
  show ?case
  proof (cases "la_phase s = Stopped")
    case True
    then have "drain_round ops out s = s" by (simp add: drain_round_def)
    moreover have "fold (drain_round ops) outs s = s" using True by (induction outs) (simp_all add: drain_round_def)
    ultimately show ?thesis using True by simp
  next
    case False
    with drain_round_progress [OF Cons.prems(1), of out] Cons show ?thesis by simp
  qed
qed

end

section \<open>What the retry loop does\<close>

text \<open>An attempt after which the loop goes on.\<close>

definition goes_on :: "('e \<Rightarrow> nat option) \<Rightarrow> 'e attempt \<Rightarrow> bool" where
  "goes_on retry a \<longleftrightarrow> \<not> att_cancelled a \<and> \<not> att_sleep_cancelled a \<and>
     (case att_result a of Completed (Inl e) \<Rightarrow> retry e \<noteq> None | _ \<Rightarrow> False)"

definition backoff :: "nat \<Rightarrow> nat" where
  "backoff i = min (INITIAL_DELAY * 2 ^ i) MAX_DELAY"

definition wait_after :: "('e \<Rightarrow> nat option) \<Rightarrow> 'e attempt \<Rightarrow> nat" where
  "wait_after retry a = (case att_result a of Completed (Inl e) \<Rightarrow> unwrap_or 0 (retry e) | _ \<Rightarrow> 0)"

lemma backoff_Suc: "min (backoff i * 2) MAX_DELAY = backoff (Suc i)"
  by (auto simp: backoff_def min_def)

text \<open>
  The loop makes the attempts up to the first that does not go on, and no more than it may; it
  sleeps between two of them.
\<close>

lemma send_loop_spec:
  assumes "send_loop retry env rest i (backoff i) last_err slept = (out, slept')"
  shows "\<exists>n. (rest = 0 \<longrightarrow> n = 0) \<and> (0 < rest \<longrightarrow> n < rest) \<and>
    slept' = slept @ map (\<lambda>j. max (backoff j) (wait_after retry (env j))) [i ..< i + n] \<and>
    (\<forall>j \<in> {i ..< i + n}. goes_on retry (env j)) \<and>
    (0 < rest \<longrightarrow> out = (if att_cancelled (env (i + n)) then SendCancelled else
        case att_result (env (i + n)) of
          Interrupted \<Rightarrow> SendCancelled
        | Completed (Inr _) \<Rightarrow> Sent
        | Completed (Inl e) \<Rightarrow> if Suc n = rest \<or> retry e = None then SendFailed (Some e) else SendCancelled)) \<and>
    (0 < rest \<longrightarrow> Suc n = rest \<or> \<not> goes_on retry (env (i + n)))"
  using assms
proof (induction rest arbitrary: i last_err slept)
  case 0
  then show ?case by (intro exI [of _ 0]) simp
next
  case (Suc rest)
  show ?case
  proof (cases "goes_on retry (env i) \<and> rest \<noteq> 0")
    case True
    then obtain e where e: "att_result (env i) = Completed (Inl e)" "\<not> att_cancelled (env i)"
      "\<not> att_sleep_cancelled (env i)" "retry e \<noteq> None"
      by (auto simp: goes_on_def split: attempt_result.splits sum.splits)
    have "send_loop retry env rest (Suc i) (backoff (Suc i)) (Some e)
        (slept @ [max (backoff i) (wait_after retry (env i))]) = (out, slept')"
      using Suc.prems e True by (simp add: backoff_Suc wait_after_def)
    from Suc.IH [OF this] True obtain n where n: "n < rest"
      "slept' = (slept @ [max (backoff i) (wait_after retry (env i))]) @
         map (\<lambda>j. max (backoff j) (wait_after retry (env j))) [Suc i ..< Suc i + n]"
      "\<forall>j \<in> {Suc i ..< Suc i + n}. goes_on retry (env j)"
      "out = (if att_cancelled (env (Suc i + n)) then SendCancelled else
        case att_result (env (Suc i + n)) of
          Interrupted \<Rightarrow> SendCancelled
        | Completed (Inr _) \<Rightarrow> Sent
        | Completed (Inl e) \<Rightarrow> if Suc n = rest \<or> retry e = None then SendFailed (Some e) else SendCancelled)"
      "Suc n = rest \<or> \<not> goes_on retry (env (Suc i + n))"
      by auto
    have all: "\<forall>j \<in> {i ..< i + Suc n}. goes_on retry (env j)"
    proof
      fix j assume "j \<in> {i ..< i + Suc n}"
      then have "j = i \<or> j \<in> {Suc i ..< Suc i + n}" by auto
      with n(3) True show "goes_on retry (env j)" by blast
    qed
    have up: "[i ..< Suc (i + n)] = i # [Suc i ..< Suc (i + n)]" by (simp add: upt_rec [of i])
    show ?thesis
      using n(1,2,4,5) all by (intro exI [of _ "Suc n"]) (auto simp: up simp del: upt_Suc split: attempt_result.splits sum.splits)
  next
    case False
    show ?thesis
      using Suc.prems False
      by (intro exI [of _ 0]) (auto simp: goes_on_def split: attempt_result.splits sum.splits if_splits)
  qed
qed

lemma attempts_bounds: "0 < attempts n" "attempts n \<le> Suc (unat n)"
  by (auto simp: attempts_def)

lemma send_with_retry_spec:
  assumes "send_with_retry retry env retry_max = (out, slept)"
  shows "length slept < attempts retry_max \<and> attempts retry_max \<le> Suc (unat retry_max) \<and>
    (\<forall>j < length slept. slept ! j = max (backoff j) (wait_after retry (env j)) \<and> goes_on retry (env j)) \<and>
    (out = Sent \<longleftrightarrow> \<not> att_cancelled (env (length slept)) \<and> att_result (env (length slept)) = Completed (Inr ())) \<and>
    (\<forall>e. out = SendFailed e \<longrightarrow> (\<exists>x. e = Some x \<and> att_result (env (length slept)) = Completed (Inl x) \<and>
      (retry x = None \<or> Suc (length slept) = attempts retry_max)))"
proof -
  have "send_loop retry env (attempts retry_max) 0 (backoff 0) None [] = (out, slept)"
    using assms by (simp add: send_with_retry_def backoff_def INITIAL_DELAY_def MAX_DELAY_def)
  from send_loop_spec [OF this, unfolded add_0] attempts_bounds [of retry_max] obtain n where n: "n < attempts retry_max"
    "slept = map (\<lambda>j. max (backoff j) (wait_after retry (env j))) [0 ..< n]"
    "\<forall>j \<in> {0 ..< n}. goes_on retry (env j)"
    "out = (if att_cancelled (env n) then SendCancelled else case att_result (env n) of
       Interrupted \<Rightarrow> SendCancelled | Completed (Inr _) \<Rightarrow> Sent
     | Completed (Inl e) \<Rightarrow> if Suc n = attempts retry_max \<or> retry e = None then SendFailed (Some e) else SendCancelled)"
    by auto
  have len: "length slept = n" by (simp add: n(2))
  have each: "\<forall>j < n. slept ! j = max (backoff j) (wait_after retry (env j)) \<and> goes_on retry (env j)"
    using n(2,3) by simp
  show ?thesis
    unfolding len using n(1) each n(4) attempts_bounds(2) [of retry_max]
    by (auto split: attempt_result.splits sum.splits if_splits)
qed

end
