(* ===== verification/Sample_Proxy.thy ===== *)
theory Sample_Proxy
  imports Proxy_Laws Routing Worker Client
begin

text \<open>
  A concrete forwarding configuration: both vendor endpoints from the command line, a header for
  one of them from the environment, and one more route from the configuration file.
\<close>

definition sample_env :: "str \<Rightarrow> env_lookup" where
  "sample_env v = (if v = ''TOKEN'' then EnvValue ''t0'' else EnvNotPresent)"

definition sample_cli :: proxy_cli_inputs where
  "sample_cli = \<lparr>anthropic_endpoint = Some ''https://a:4317'', anthropic_transport = None,
     anthropic_headers = ['' Authorization =env:TOKEN''], openai_endpoint = Some ''https://b'',
     openai_transport = Some ArgHttpProtobuf, openai_headers = [], cli_checkpoint_dir = None\<rparr>"

definition sample_route_config :: proxy_route_config where
  "sample_route_config = \<lparr>rc_name = ''lab'', rc_service_names = [''bench''], rc_signal_types = [SignalMetrics, SignalLogs, SignalLogs],
     rc_transport = None, rc_endpoint = ''http://lab:4317'', rc_headers = []\<rparr>"

definition sample_proxy_config :: proxy_config where
  "sample_proxy_config = \<lparr>pc_queue_capacity = Some 0, pc_timeout_ms = None, pc_retry_max = Some 2,
     pc_checkpoint_dir = None, pc_routes = [sample_route_config]\<rparr>"

definition sample_routes :: "proxy_route list" where
  "sample_routes =
    [\<lparr>pr_name = ''anthropic'', pr_service_names = [''claude-code''], pr_signals = [SignalLogs, SignalTraces, SignalMetrics],
       pr_transport = Grpc, pr_endpoint = ''https://a:4317'', pr_headers = [(''authorization'', ''t0'')]\<rparr>,
     \<lparr>pr_name = ''openai'', pr_service_names = DEFAULT_OPENAI_SERVICES, pr_signals = [SignalLogs, SignalTraces, SignalMetrics],
       pr_transport = HttpProtobuf, pr_endpoint = ''https://b'', pr_headers = []\<rparr>,
     \<lparr>pr_name = ''lab'', pr_service_names = [''bench''], pr_signals = [SignalLogs, SignalMetrics],
       pr_transport = Grpc, pr_endpoint = ''http://lab:4317'', pr_headers = []\<rparr>]"

definition sample_proxy_settings :: proxy_settings where
  "sample_proxy_settings = \<lparr>ps_queue_capacity = 1024, ps_timeout_ms = 5000, ps_retry_max = 2,
     ps_checkpoint_dir = ''/var/log/.otel-logger-proxy'', ps_routes = sample_routes\<rparr>"

lemma sample_trim: "trim '' Authorization '' = ''Authorization''"
  by (simp add: trim_def trim_front.simps whitespace_def starts_with_def)

lemma sample_lower: "to_ascii_lowercase ''Authorization'' = ''authorization''"
  by code_simp

lemma sample_headers:
  "merge_cli_headers [] ['' Authorization =env:TOKEN''] = Inr [(''authorization'', ''env:TOKEN'')]"
  by (simp add: merge_cli_headers_def merge_cli_header_def sample_trim sample_lower)

lemma sample_resolved_headers:
  "resolve_headers sample_env [(''authorization'', ''env:TOKEN'')] ''anthropic'' = Inr [(''authorization'', ''t0'')]"
  by code_simp

lemma sample_no_headers: "resolve_headers env [] route = Inr []" "merge_cli_headers hs [] = Inr hs"
  by (simp_all add: resolve_headers_def merge_cli_headers_def)

lemma sample_resolve:
  "resolve_proxy_settings sample_env sample_cli (Some sample_proxy_config) (Some (LogFile ''/var/log/x.jsonl'')) None =
     Inr (Some sample_proxy_settings)"
proof -
  have signals: "normalize_signals [SignalMetrics, SignalLogs, SignalLogs] = [SignalLogs, SignalMetrics]"
    "normalize_signals [] = ALL_SIGNALS" by code_simp+
  have routes: "resolve_routes sample_env sample_cli [sample_route_config] = Inr sample_routes"
    by (simp add: resolve_routes_def collect_route_def sample_route_config_def sample_cli_def build_vendor_route_def
      build_custom_route_def sample_headers sample_resolved_headers sample_no_headers signals sample_routes_def
      collect_vendor_def unwrap_or_def or_else_def ROUTE_ANTHROPIC_def ROUTE_OPENAI_def om_del_def
      DEFAULT_ANTHROPIC_SERVICES_def ALL_SIGNALS_def Let_def)
  have "\<exists>seen. try_fold claim_service (claims sample_routes) [] = Inr seen"
    by (simp add: claims_def sample_routes_def claim_service_def DEFAULT_OPENAI_SERVICES_def map_of_om_put Let_def)
  moreover have "default_checkpoint_dir (LogFile ''/var/log/x.jsonl'') = ''/var/log/.otel-logger-proxy''"
    by code_simp
  ultimately show ?thesis
    using routes by (auto simp: resolve_proxy_settings_def unwrap_or_def sample_proxy_config_def sample_proxy_settings_def
      resolve_checkpoint_dir_def sample_cli_def positive_or_def DEFAULT_PROXY_QUEUE_CAPACITY_def
      DEFAULT_PROXY_TIMEOUT_MS_def sample_routes_def Let_def)
qed

section \<open>A batch for two lanes\<close>

definition sample_resource_logs :: "str \<Rightarrow> resource_logs" where
  "sample_resource_logs svc = \<lparr>rl_resource = Some [KeyValue ''service.name'' (Some (AnyValue (Some (StringValue svc))))],
     rl_scope_logs = []\<rparr>"

definition sample_batch :: telemetry_record where
  "sample_batch = Logs [sample_resource_logs ''bench'', sample_resource_logs ''claude-code'', sample_resource_logs ''other'']"

definition sample_lanes :: "export_request bounded_fifo route_lane list" where
  "sample_lanes = map (\<lambda>r. \<lparr>ln_name = pr_name r, ln_route = r, ln_sender = fifo_new, ln_metrics = default_metrics\<rparr>) sample_routes"

lemma sample_lanes_routes: "map ln_route sample_lanes = ps_routes sample_proxy_settings"
  by (simp add: sample_lanes_def sample_proxy_settings_def comp_def)

text \<open>A lane whose only request fails twice and then succeeds, and the same lane at its end.\<close>

definition sample_attempts :: "nat \<Rightarrow> nat attempt" where
  "sample_attempts i = \<lparr>att_cancelled = False,
     att_result = (if i < 2 then Completed (Inl (if i = 0 then 0 else 1000000000)) else Completed (Inr ())), att_sleep_cancelled = False\<rparr>"

lemma sample_send: "send_with_retry Some sample_attempts 2 = (Sent, [200000000, 1000000000])"
proof -
  have "attempts 2 = Suc (Suc (Suc 0))" by (simp add: attempts_def)
  then show ?thesis
    by (simp add: send_with_retry_def sample_attempts_def INITIAL_DELAY_def MAX_DELAY_def unwrap_or_def)
qed

definition sample_request :: export_request where
  "sample_request = ExportLogs [sample_resource_logs ''bench'']"

definition sample_stopped :: "export_request bounded_fifo lane_state" where
  "sample_stopped = \<lparr>la_queue = \<lparr>bf_items = [], bf_closed = True\<rparr>,
     la_metrics = \<lparr>sent_total = 1, failed_total = 0, dropped_total = 0\<rparr>, la_phase = Stopped, la_notified = 1\<rparr>"

lemma sample_stopped_reachable:
  "lane_reachable (fifo_ops 4) (Some :: nat \<Rightarrow> nat option) 2 fifo_new sample_stopped"
proof -
  define s0 :: "export_request bounded_fifo lane_state" where
    "s0 = \<lparr>la_queue = fifo_new, la_metrics = default_metrics, la_phase = Running, la_notified = 0\<rparr>"
  define s1 where "s1 = lane_notify (fifo_ops 4) sample_request s0"
  define s2 where "s2 = worker_receive (fifo_ops 4) s1"
  define s3 where "s3 = worker_sent sample_request (Sent :: nat send_outcome) s2"
  define s4 where "s4 = s3\<lparr>la_phase := Closing None\<rparr>"
  define s5 where "s5 = worker_close (fifo_ops 4) None s4"
  note defs = s0_def s1_def s2_def s3_def s4_def s5_def lane_defs fifo_ops_def fifo_try_send_def fifo_recv_def fifo_new_def
    sample_request_def
  have "lane_reachable (fifo_ops 4) (Some :: nat \<Rightarrow> nat option) 2 fifo_new s0"
    unfolding s0_def by (rule lane_reachable.Start)
  then have "lane_reachable (fifo_ops 4) (Some :: nat \<Rightarrow> nat option) 2 fifo_new s1"
    unfolding s1_def by (rule lane_reachable.Step) (rule lane_step.Notify, simp add: sample_request_def)
  then have "lane_reachable (fifo_ops 4) (Some :: nat \<Rightarrow> nat option) 2 fifo_new s2"
    unfolding s2_def by (rule lane_reachable.Step) (rule lane_step.Receive, simp add: defs)
  then have "lane_reachable (fifo_ops 4) (Some :: nat \<Rightarrow> nat option) 2 fifo_new s3"
    unfolding s3_def by (rule lane_reachable.Step) (rule lane_step.SendDone [OF _ sample_send], simp add: defs)
  then have "lane_reachable (fifo_ops 4) (Some :: nat \<Rightarrow> nat option) 2 fifo_new s4"
    unfolding s4_def by (rule lane_reachable.Step) (rule lane_step.Shutdown, simp add: defs)
  then have "lane_reachable (fifo_ops 4) (Some :: nat \<Rightarrow> nat option) 2 fifo_new s5"
    unfolding s5_def by (rule lane_reachable.Step) (rule lane_step.Close, simp add: defs)
  moreover have "\<exists>env :: nat \<Rightarrow> nat attempt. \<exists>out slept. send_with_retry Some env 0 = (out, slept)" by simp
  then obtain env :: "nat \<Rightarrow> nat attempt" and out slept where "send_with_retry Some env 0 = (out, slept)" by blast
  then have "lane_step (fifo_ops 4) Some 2 s5 (drain_step (fifo_ops 4) None 0 False out s5)"
    by (rule lane_step.Drain [rotated]) (simp add: defs)
  moreover have "drain_step (fifo_ops 4) None 0 False out s5 = sample_stopped"
    by (simp add: defs sample_stopped_def count_sent_def count_abandoned_def default_metrics_def)
  ultimately show ?thesis by (metis lane_reachable.Step)
qed

section \<open>An HTTP client\<close>

definition sample_parse_url :: "str \<Rightarrow> parsed_url option" where
  "sample_parse_url s = Some \<lparr>url_scheme = ''https'', url_has_host = True, url_query = None, url_fragment = None,
     url_username = '''', url_password = None\<rparr>"

lemma sample_client:
  "route_client_build sample_parse_url (\<lambda>_. None) Some (\<lambda>_. True) Some (\<lambda>_. True) (sample_routes ! 1) 5000 =
     Inr (HttpRoute \<lparr>hc_urls = \<lparr>hu_logs = ''https://b/v1/logs'', hu_traces = ''https://b/v1/traces'',
       hu_metrics = ''https://b/v1/metrics''\<rparr>, hc_headers = [(''content-type'', ''application/x-protobuf'')], hc_timeout = 5000\<rparr>)"
  by (simp add: route_client_build_def http_build_def validate_proxy_endpoint_def sample_parse_url_def ok_or_def
      ensure_def signal_url_def sample_routes_def trim_end_slashes_def OTLP_HTTP_LOGS_PATH_def
      OTLP_HTTP_TRACES_PATH_def OTLP_HTTP_METRICS_PATH_def OTLP_HTTP_PROTOBUF_def Let_def)

end
