(* ===== verification/Pipeline.thy ===== *)
theory Pipeline
  imports Sink_Laws Worker
begin

text \<open>
  The sink, the router and the forwarding lanes together. The sink of \<^verbatim>\<open>src/src/sink.rs\<close>
  holds the router of \<^verbatim>\<open>src/src/forward/router.rs\<close>; a task that has saved and counted its
  batch notifies the router, and the worker of a lane (\<^verbatim>\<open>src/src/forward/worker.rs\<close>) shares
  the queue and the counters of that lane with it. The steps of all of them interleave.
\<close>

section \<open>The combined state\<close>

text \<open>The queue and the counters of a lane are those of the router; a worker adds where it is.\<close>

record ('d, 'q, 'l) pipeline =
  pl_sink :: "('d, 'q, 'l) sink_state"
  pl_workers :: "worker_phase list"

definition pl_lanes :: "('d, 'q, 'l) pipeline \<Rightarrow> 'l route_lane list" where
  "pl_lanes p = (case sk_proxy (ss_sink (pl_sink p)) of None \<Rightarrow> [] | Some rt \<Rightarrow> rt_lanes rt)"

definition worker_view :: "'l route_lane \<Rightarrow> worker_phase \<Rightarrow> 'l lane_state" where
  "worker_view lane ph = \<lparr>la_queue = ln_sender lane, la_metrics = ln_metrics lane, la_phase = ph, la_notified = 0\<rparr>"

definition put_lane :: "nat \<Rightarrow> 'l lane_state \<Rightarrow> 'l proxy_router \<Rightarrow> 'l proxy_router" where
  "put_lane i v rt = rt\<lparr>rt_lanes := (rt_lanes rt)[i := (rt_lanes rt ! i)\<lparr>ln_sender := la_queue v, ln_metrics := la_metrics v\<rparr>]\<rparr>"

definition put_worker :: "nat \<Rightarrow> 'l lane_state \<Rightarrow> ('d, 'q, 'l) pipeline \<Rightarrow> ('d, 'q, 'l) pipeline" where
  "put_worker i v p = \<lparr>
     pl_sink = (pl_sink p)\<lparr>ss_sink := (ss_sink (pl_sink p))\<lparr>sk_proxy := map_option (put_lane i v) (sk_proxy (ss_sink (pl_sink p)))\<rparr>\<rparr>,
     pl_workers = (pl_workers p)[i := la_phase v]\<rparr>"

text \<open>
  A step of the sink that leaves the lanes alone, the notification of a task, or a step of one
  worker: any step of \<open>lane_step\<close> but a notification, which is the only one that counts.
\<close>

inductive pipeline_step ::
    "('q, pretty_job) channel_ops \<Rightarrow> ('l, export_request) channel_ops \<Rightarrow> 'd sink_library \<Rightarrow> ('e \<Rightarrow> nat option) \<Rightarrow> u32 \<Rightarrow>
     ('d, 'q, 'l) pipeline \<Rightarrow> ('d, 'q, 'l) pipeline \<Rightarrow> bool"
  for qops :: "('q, pretty_job) channel_ops" and lops :: "('l, export_request) channel_ops" and lib :: "'d sink_library"
    and retry :: "'e \<Rightarrow> nat option" and retry_max :: u32 where
  SinkMoves: "sink_step qops lops lib (pl_sink p) s \<Longrightarrow> sk_proxy (ss_sink s) = sk_proxy (ss_sink (pl_sink p)) \<Longrightarrow>
    pipeline_step qops lops lib retry retry_max p (p\<lparr>pl_sink := s\<rparr>)"
| Notifies: "task_at (pl_sink p) i rcd TaskQueued \<Longrightarrow>
    pipeline_step qops lops lib retry retry_max p (p\<lparr>pl_sink := task_forward lops i rcd (pl_sink p)\<rparr>)"
| WorkerMoves: "i < length (pl_lanes p) \<Longrightarrow>
    lane_step lops retry retry_max (worker_view (pl_lanes p ! i) (pl_workers p ! i)) v \<Longrightarrow> la_notified v = 0 \<Longrightarrow>
    pipeline_step qops lops lib retry retry_max p (put_worker i v p)"

text \<open>The program starts one worker for each lane of the router that the sink gets.\<close>

definition pipeline_start :: "('d, 'q, 'l) sink \<Rightarrow> ('d, 'q, 'l) pipeline" where
  "pipeline_start sk = \<lparr>pl_sink = sink_start sk,
     pl_workers = (case sk_proxy sk of None \<Rightarrow> [] | Some rt \<Rightarrow> map (\<lambda>_. Running) (rt_lanes rt))\<rparr>"

inductive pipeline_reachable ::
    "('q, pretty_job) channel_ops \<Rightarrow> ('l, export_request) channel_ops \<Rightarrow> 'd sink_library \<Rightarrow> ('e \<Rightarrow> nat option) \<Rightarrow> u32 \<Rightarrow>
     ('d, 'q, 'l) pipeline \<Rightarrow> ('d, 'q, 'l) pipeline \<Rightarrow> bool"
  for qops :: "('q, pretty_job) channel_ops" and lops :: "('l, export_request) channel_ops" and lib :: "'d sink_library"
    and retry :: "'e \<Rightarrow> nat option" and retry_max :: u32 and p0 :: "('d, 'q, 'l) pipeline" where
  Begin: "pipeline_reachable qops lops lib retry retry_max p0 p0"
| More: "pipeline_reachable qops lops lib retry retry_max p0 p \<Longrightarrow> pipeline_step qops lops lib retry retry_max p p' \<Longrightarrow>
    pipeline_reachable qops lops lib retry retry_max p0 p'"

lemma pipeline_reachable_trans:
  "pipeline_reachable qops lops lib retry retry_max p1 p2 \<Longrightarrow> pipeline_reachable qops lops lib retry retry_max p0 p1 \<Longrightarrow>
     pipeline_reachable qops lops lib retry retry_max p0 p2"
  by (induction rule: pipeline_reachable.induct) (auto intro: pipeline_reachable.More)

section \<open>The sink alone\<close>

text \<open>Seen from the sink, a worker only changes what is in the router, as any reader of a queue may.\<close>

lemma pipeline_sink_step:
  assumes "pipeline_step qops lops lib retry retry_max p p'"
  shows "sink_step qops lops lib (pl_sink p) (pl_sink p')"
  using assms
proof (cases rule: pipeline_step.cases)
  case (WorkerMoves i v)
  let ?sk = "ss_sink (pl_sink p)"
  have "?sk\<lparr>sk_stdout := sk_stdout ?sk, sk_pretty_log := sk_pretty_log ?sk, sk_proxy := map_option (put_lane i v) (sk_proxy ?sk)\<rparr> =
      ?sk\<lparr>sk_proxy := map_option (put_lane i v) (sk_proxy ?sk)\<rparr>" by simp
  with WorkerMoves(1) Outputs [where s = "pl_sink p" and out = "sk_stdout ?sk" and pretty = "sk_pretty_log ?sk" and router = "map_option (put_lane i v) (sk_proxy ?sk)"]
  show ?thesis by (simp add: put_worker_def)
qed (auto intro: sink_step.Forward)

lemma pipeline_sink:
  "pipeline_reachable qops lops lib retry retry_max p0 p \<Longrightarrow> sink_reachable qops lops lib (pl_sink p0) (pl_sink p)"
  by (induction rule: pipeline_reachable.induct) (auto intro: sink_reachable.intros pipeline_sink_step)

section \<open>What a lane gets of a batch\<close>

definition lane_part :: "proxy_route \<Rightarrow> telemetry_record \<Rightarrow> export_request option" where
  "lane_part route rcd = (let part = part_of (\<lambda>s. s \<in> set (pr_service_names route)) rcd in
     if accepts_signal route (record_signal rcd) \<and> \<not> is_empty_request part then Some part else None)"

lemma lane_part_nonempty: "lane_part route rcd = Some r \<Longrightarrow> \<not> is_empty_request r"
  by (auto simp: lane_part_def Let_def split: if_splits)

lemma notify_lane_part:
  assumes "disjoint_routes routes" and "i < length routes" and "ln_route lane = routes ! i"
  shows "notify_lane ops rcd (build_matcher routes) lane =
    (case lane_part (routes ! i) rcd of None \<Rightarrow> lane | Some r \<Rightarrow> offer ops r lane)"
  using filter_record_eq [OF assms(1,2) refl, of rcd] assms(3) by (simp add: notify_lane_def lane_part_def Let_def)

lemma offer_view:
  "worker_view (offer ops r lane) ph = (lane_notify ops r (worker_view lane ph))\<lparr>la_notified := 0\<rparr>"
  "ln_route (offer ops r lane) = ln_route lane"
  by (cases "ch_try_send ops r (ln_sender lane)"; cases "fst (ch_try_send ops r (ln_sender lane))";
      simp add: offer_def worker_view_def lane_notify_def)+

text \<open>The acknowledged batches, and how many of them have a part for a route.\<close>

definition acknowledged :: "('d, 'q, 'l) sink_state \<Rightarrow> telemetry_record multiset" where
  "acknowledged s = count_tasks phase_acknowledged (ss_tasks s)"

definition acknowledged_for :: "proxy_route \<Rightarrow> ('d, 'q, 'l) sink_state \<Rightarrow> nat" where
  "acknowledged_for route s = size (filter_mset (\<lambda>rcd. lane_part route rcd \<noteq> None) (acknowledged s))"

lemma acknowledged_set:
  "task_at s i rcd p \<Longrightarrow> \<not> phase_acknowledged p \<Longrightarrow>
     acknowledged (set_task i rcd q s) = acknowledged s + (if phase_acknowledged q then {#rcd#} else {#})"
  using count_tasks_set [of s i rcd p phase_acknowledged q] by (simp add: acknowledged_def)

lemma acknowledged_fields [simp]: "acknowledged (s\<lparr>ss_sink := sk\<rparr>) = acknowledged s" "acknowledged (s\<lparr>ss_saved := rs\<rparr>) = acknowledged s"
  "acknowledged (s\<lparr>ss_ingested := rs\<rparr>) = acknowledged s" "acknowledged (s\<lparr>ss_locked := b\<rparr>) = acknowledged s"
  by (simp_all add: acknowledged_def)

lemma task_at_fields [simp]: "task_at (s\<lparr>ss_sink := sk\<rparr>) i rcd p = task_at s i rcd p" "task_at (s\<lparr>ss_saved := rs\<rparr>) i rcd p = task_at s i rcd p"
  "task_at (s\<lparr>ss_ingested := rs\<rparr>) i rcd p = task_at s i rcd p"
  by (simp_all add: task_at_def)

text \<open>Only the notification acknowledges a batch.\<close>

lemma sink_step_acknowledged:
  assumes "sink_step qops lops lib s s'"
  shows "acknowledged s' = acknowledged s \<or> (\<exists>i rcd. task_at s i rcd TaskQueued \<and> s' = task_forward lops i rcd s)"
  using assms
proof (induction rule: sink_step.induct)
  case (Forward s i rcd)
  then show ?case by blast
qed (simp_all add: acknowledged_set phase_acknowledged_def task_admit_def task_persist_def task_health_def task_ingest_def
    task_queue_def shutdown_close_def shutdown_flush_def acknowledged_def [of "_\<lparr>ss_tasks := _\<rparr>"] acknowledged_def [symmetric]
    split: prod.splits sum.splits)

lemma acknowledged_forward:
  assumes "task_at s i rcd TaskQueued"
  shows "acknowledged (task_forward lops i rcd s) = add_mset rcd (acknowledged s)"
  using assms by (simp add: task_forward_def acknowledged_set phase_acknowledged_def)

section \<open>The invariant of every lane\<close>

text \<open>
  For the lane of a route: every request in its queue or its worker's hands is the part of an
  acknowledged batch, and the counters account for the acknowledged batches that have one.
\<close>

context lane_channel
begin

definition comes_from :: "proxy_route \<Rightarrow> telemetry_record multiset \<Rightarrow> export_request \<Rightarrow> bool" where
  "comes_from route acks r \<longleftrightarrow> (\<exists>rcd \<in># acks. lane_part route rcd = Some r)"

definition lane_ok :: "proxy_route \<Rightarrow> telemetry_record multiset \<Rightarrow> 'q lane_state \<Rightarrow> bool" where
  "lane_ok route acks v \<longleftrightarrow>
     accounted (v\<lparr>la_notified := size (filter_mset (\<lambda>rcd. lane_part route rcd \<noteq> None) acks)\<rparr>) \<and>
     (\<forall>r \<in> set (waiting (la_queue v)) \<union> set (held (la_phase v)). comes_from route acks r)"

lemma comes_from_more: "comes_from route acks r \<Longrightarrow> comes_from route (add_mset rcd acks) r"
  by (auto simp: comes_from_def)

lemma lane_ok_other: "lane_ok route acks v \<Longrightarrow> lane_part route rcd = None \<Longrightarrow> lane_ok route (add_mset rcd acks) v"
  by (auto simp: lane_ok_def comes_from_more)

lemma lane_notify_requests:
  "set (waiting (la_queue (lane_notify ops r v))) \<subseteq> insert r (set (waiting (la_queue v)))"
  "la_phase (lane_notify ops r v) = la_phase v" "la_notified (lane_notify ops r v) = Suc (la_notified v)"
  using send_waiting [of r "la_queue v"]
  by (cases "ch_try_send ops r (la_queue v)"; cases "fst (ch_try_send ops r (la_queue v))"; auto simp: lane_notify_def)+

lemma lane_notify_count:
  "lane_notify ops r (v\<lparr>la_notified := n\<rparr>) = (lane_notify ops r v)\<lparr>la_notified := Suc n\<rparr>"
  by (auto simp: lane_notify_def split: prod.splits send_result.splits)

lemma lane_ok_notify:
  assumes "lane_ok route acks v" and "lane_part route rcd = Some r"
  shows "lane_ok route (add_mset rcd acks) ((lane_notify ops r v)\<lparr>la_notified := 0\<rparr>)"
proof -
  let ?n = "size (filter_mset (\<lambda>rcd. lane_part route rcd \<noteq> None) acks)"
  have "accounted (lane_notify ops r (v\<lparr>la_notified := ?n\<rparr>))"
    using accounted_notify assms lane_part_nonempty [OF assms(2)] by (simp add: lane_ok_def)
  moreover have "comes_from route (add_mset rcd acks) r" using assms(2) by (auto simp: comes_from_def)
  moreover have "comes_from route (add_mset rcd acks) q" if "q \<in> set (waiting (la_queue v)) \<union> set (held (la_phase v))" for q
    using assms(1) that by (auto simp: lane_ok_def intro: comes_from_more)
  ultimately show ?thesis
    using lane_notify_requests [of r v] assms(2) by (auto simp: lane_ok_def lane_notify_count)
qed

text \<open>A worker does not look at the count, and takes its requests from the queue.\<close>

lemma worker_ignores_count:
  "worker_receive ops (v\<lparr>la_notified := n\<rparr>) = (worker_receive ops v)\<lparr>la_notified := n\<rparr>"
  "worker_sent request out (v\<lparr>la_notified := n\<rparr>) = (worker_sent request out v)\<lparr>la_notified := n\<rparr>"
  "worker_close ops interrupted (v\<lparr>la_notified := n\<rparr>) = (worker_close ops interrupted v)\<lparr>la_notified := n\<rparr>"
  "drain_one request abandoned expired out (v\<lparr>la_notified := n\<rparr>) = (drain_one request abandoned expired out v)\<lparr>la_notified := n\<rparr>"
  "drain_step ops interrupted abandoned expired out (v\<lparr>la_notified := n\<rparr>) =
     (drain_step ops interrupted abandoned expired out v)\<lparr>la_notified := n\<rparr>"
  by (cases v; cases out; auto simp: lane_defs split: option.splits)+

lemma lane_step_ignores_count:
  assumes "lane_step ops retry retry_max v v'" and "la_notified v' = la_notified v"
  shows "lane_step ops retry retry_max (v\<lparr>la_notified := n\<rparr>) (v'\<lparr>la_notified := n\<rparr>)"
  using assms
proof (induction rule: lane_step.induct)
  case (Notify request s)
  then show ?case using lane_notify_requests(3) [of request s] by simp
next
  case (Shutdown s)
  then show ?case using lane_step.Shutdown [of "s\<lparr>la_notified := n\<rparr>" ops retry retry_max] by (cases s) simp
next
  case (Expire s interrupted abandoned)
  then show ?case using lane_step.Expire [of "s\<lparr>la_notified := n\<rparr>" interrupted abandoned ops retry retry_max] by (cases s) simp
qed (auto simp flip: worker_ignores_count intro: lane_step.intros)

lemma drain_one_requests: "held (la_phase (drain_one request abandoned expired out v)) = []" "la_queue (drain_one request abandoned expired out v) = la_queue v"
  by (cases out; simp add: drain_one_def)+

lemma lane_step_requests:
  assumes "lane_step ops retry retry_max v v'" and "la_notified v' = la_notified v"
  shows "set (waiting (la_queue v')) \<union> set (held (la_phase v')) \<subseteq> set (waiting (la_queue v)) \<union> set (held (la_phase v))"
  using assms
proof (induction rule: lane_step.induct)
  case (Notify request s)
  then show ?case using lane_notify_requests(3) [of request s] by simp
next
  case (Receive s)
  then show ?case using recv_some [of "la_queue s"] by (auto simp: worker_receive_def split: option.splits)
next
  case (SendDone s request env out slept)
  then show ?case by (cases out) (auto simp: worker_sent_def)
next
  case (Close s interrupted)
  then show ?case using close [of "la_queue s"] by (auto simp: worker_close_def)
next
  case (Drain s interrupted abandoned expired env out slept)
  then show ?case using recv_some [of "la_queue s"]
    by (auto simp: drain_step_def drain_one_requests split: option.splits)
qed auto

lemma lane_ok_step:
  assumes "lane_ok route acks v" and "lane_step ops retry retry_max v v'" and "la_notified v' = la_notified v"
  shows "lane_ok route acks v'"
  using assms(1) lane_step_requests [OF assms(2,3)] accounted_step [OF lane_step_ignores_count [OF assms(2,3)]]
  by (auto simp: lane_ok_def)

end

section \<open>The invariant of the pipeline\<close>

context lane_channel
begin

definition lanes_ok :: "proxy_route list \<Rightarrow> ('d, 'p, 'q) pipeline \<Rightarrow> bool" where
  "lanes_ok routes p \<longleftrightarrow> (\<exists>rt. sk_proxy (ss_sink (pl_sink p)) = Some rt \<and> rt_matcher rt = build_matcher routes \<and>
     map ln_route (rt_lanes rt) = routes \<and> length (pl_workers p) = length routes \<and>
     (\<forall>i < length routes. lane_ok (routes ! i) (acknowledged (pl_sink p)) (worker_view (rt_lanes rt ! i) (pl_workers p ! i))))"

lemma lanes_ok_keep:
  "lanes_ok routes p \<Longrightarrow> sk_proxy (ss_sink s) = sk_proxy (ss_sink (pl_sink p)) \<Longrightarrow> acknowledged s = acknowledged (pl_sink p) \<Longrightarrow>
     lanes_ok routes (p\<lparr>pl_sink := s\<rparr>)"
  by (simp add: lanes_ok_def)

lemma lane_ok_notify_lane:
  assumes "disjoint_routes routes" and "i < length routes" and "ln_route lane = routes ! i"
    and "lane_ok (routes ! i) acks (worker_view lane ph)"
  shows "lane_ok (routes ! i) (add_mset rcd acks) (worker_view (notify_lane ops rcd (build_matcher routes) lane) ph)"
  using assms(4) lane_ok_notify [of "routes ! i" acks "worker_view lane ph" rcd] lane_ok_other [of "routes ! i" acks _ rcd]
  by (simp add: notify_lane_part [OF assms(1-3)] offer_view split: option.splits)

lemma lanes_ok_forward:
  assumes "lanes_ok routes p" and "disjoint_routes routes" and "task_at (pl_sink p) i rcd TaskQueued"
  shows "lanes_ok routes (p\<lparr>pl_sink := task_forward ops i rcd (pl_sink p)\<rparr>)"
proof -
  obtain rt where rt: "sk_proxy (ss_sink (pl_sink p)) = Some rt" "rt_matcher rt = build_matcher routes"
    "map ln_route (rt_lanes rt) = routes" "length (pl_workers p) = length routes"
    "\<And>i. i < length routes \<Longrightarrow> lane_ok (routes ! i) (acknowledged (pl_sink p)) (worker_view (rt_lanes rt ! i) (pl_workers p ! i))"
    using assms(1) by (auto simp: lanes_ok_def)
  have len: "length (rt_lanes rt) = length routes" using arg_cong [OF rt(3), of length] by simp
  have route: "ln_route (rt_lanes rt ! j) = routes ! j" if "j < length routes" for j
    using arg_cong [OF rt(3), of "\<lambda>xs. xs ! j"] that len by simp
  have keep: "ln_route (notify_lane ops rcd m lane) = ln_route lane" for m lane
    by (simp add: notify_lane_def offer_view split: option.splits)
  then have "map (ln_route \<circ> notify_lane ops rcd m) (rt_lanes rt) = routes" for m
    using rt(3) by (simp add: comp_def)
  moreover have "sk_proxy (ss_sink (task_forward ops i rcd (pl_sink p))) = Some (notify ops rcd rt)"
    by (simp add: task_forward_def forward_def rt(1))
  ultimately show ?thesis
    using rt(2,4) lane_ok_notify_lane [OF assms(2) _ route rt(5)] len
    by (auto simp: lanes_ok_def notify_def acknowledged_forward [OF assms(3)])
qed

lemma lanes_ok_worker:
  assumes "lanes_ok routes p" and "i < length (pl_lanes p)"
    and "lane_step ops retry retry_max (worker_view (pl_lanes p ! i) (pl_workers p ! i)) v" and "la_notified v = 0"
  shows "lanes_ok routes (put_worker i v p)"
proof -
  obtain rt where rt: "sk_proxy (ss_sink (pl_sink p)) = Some rt" "rt_matcher rt = build_matcher routes"
    "map ln_route (rt_lanes rt) = routes" "length (pl_workers p) = length routes"
    "\<And>i. i < length routes \<Longrightarrow> lane_ok (routes ! i) (acknowledged (pl_sink p)) (worker_view (rt_lanes rt ! i) (pl_workers p ! i))"
    using assms(1) by (auto simp: lanes_ok_def)
  have len: "length (rt_lanes rt) = length routes" using arg_cong [OF rt(3), of length] by simp
  have lanes: "pl_lanes p = rt_lanes rt" by (simp add: pl_lanes_def rt(1))
  have i: "i < length routes" using assms(2) len by (simp add: lanes)
  have "map ln_route (rt_lanes (put_lane i v rt)) = routes"
    unfolding put_lane_def using map_update [of ln_route "rt_lanes rt" i "rt_lanes rt ! i"] rt(3) by (simp add: map_update)
  moreover have "lane_ok (routes ! i) (acknowledged (pl_sink p)) v"
    using lane_ok_step [OF rt(5) [OF i]] assms(3,4) by (simp add: lanes worker_view_def)
  moreover have "worker_view (rt_lanes (put_lane i v rt) ! j) ((pl_workers p)[i := la_phase v] ! j) =
      (if j = i then v else worker_view (rt_lanes rt ! j) (pl_workers p ! j))" if "j < length routes" for j
    using that i len rt(4) assms(4) by (cases v) (auto simp: put_lane_def worker_view_def)
  ultimately show ?thesis
    using rt i len unfolding lanes_ok_def put_worker_def
    by (intro exI [of _ "put_lane i v rt"]) (simp add: put_lane_def)
qed

lemma lanes_ok_step:
  assumes "pipeline_step qops ops lib retry retry_max p p'" and "lanes_ok routes p" and "disjoint_routes routes"
  shows "lanes_ok routes p'"
  using assms(1)
proof (cases rule: pipeline_step.cases)
  case (SinkMoves s)
  then show ?thesis
    using sink_step_acknowledged [OF SinkMoves(2)] lanes_ok_keep [OF assms(2)] lanes_ok_forward [OF assms(2,3)] by auto
next
  case (Notifies i rcd)
  then show ?thesis using lanes_ok_forward [OF assms(2,3)] by simp
next
  case (WorkerMoves i v)
  then show ?thesis using lanes_ok_worker [OF assms(2)] by simp
qed

definition fresh_lane :: "'q route_lane \<Rightarrow> bool" where
  "fresh_lane lane \<longleftrightarrow> waiting (ln_sender lane) = [] \<and> ln_metrics lane = default_metrics"

lemma lanes_ok_reachable:
  assumes "pipeline_reachable qops ops lib retry retry_max (pipeline_start sk) p"
    and "sk_proxy sk = Some (router_new lanes)" and "disjoint_routes (map ln_route lanes)" and "\<forall>lane \<in> set lanes. fresh_lane lane"
  shows "lanes_ok (map ln_route lanes) p"
  using assms(1)
proof (induction rule: pipeline_reachable.induct)
  case Begin
  have "acknowledged (sink_start sk) = {#}" by (simp add: acknowledged_def sink_start_def)
  then show ?case
    using assms(2,4) unfolding lanes_ok_def
    by (intro exI [of _ "router_new lanes"])
      (auto simp: pipeline_start_def sink_start_def router_new_def lane_ok_def accounted_def closed_after_run_def worker_view_def
        fresh_lane_def)
next
  case (More p p')
  then show ?case using lanes_ok_step assms(3) by blast
qed

text \<open>What the lanes of a started router look like from outside, in every reachable state.\<close>

lemma reachable_lane:
  assumes "pipeline_reachable qops ops lib retry retry_max (pipeline_start sk) p"
    and "sk_proxy sk = Some (router_new lanes)" and "disjoint_routes (map ln_route lanes)" and "\<forall>lane \<in> set lanes. fresh_lane lane"
    and "i < length lanes"
  shows "i < length (pl_lanes p)" "ln_route (pl_lanes p ! i) = ln_route (lanes ! i)"
    "lane_ok (ln_route (lanes ! i)) (acknowledged (pl_sink p)) (worker_view (pl_lanes p ! i) (pl_workers p ! i))"
proof -
  obtain rt where rt: "sk_proxy (ss_sink (pl_sink p)) = Some rt" "map ln_route (rt_lanes rt) = map ln_route lanes"
    "\<And>i. i < length lanes \<Longrightarrow> lane_ok (map ln_route lanes ! i) (acknowledged (pl_sink p)) (worker_view (rt_lanes rt ! i) (pl_workers p ! i))"
    using lanes_ok_reachable [OF assms(1-4)] by (auto simp: lanes_ok_def)
  have len: "length (rt_lanes rt) = length lanes" using arg_cong [OF rt(2), of length] by simp
  then show "i < length (pl_lanes p)" using assms(5) by (simp add: pl_lanes_def rt(1))
  show "ln_route (pl_lanes p ! i) = ln_route (lanes ! i)"
    using arg_cong [OF rt(2), of "\<lambda>xs. xs ! i"] assms(5) len by (simp add: pl_lanes_def rt(1))
  show "lane_ok (ln_route (lanes ! i)) (acknowledged (pl_sink p)) (worker_view (pl_lanes p ! i) (pl_workers p ! i))"
    using rt(3) [of i] assms(5) by (simp add: pl_lanes_def rt(1))
qed

lemma lane_requests:
  assumes "lane_ok route acks (worker_view lane ph)" and "r \<in> set (waiting (ln_sender lane)) \<union> set (held ph)"
  shows "\<exists>rcd \<in># acks. lane_part route rcd = Some r"
  using assms by (auto simp: lane_ok_def worker_view_def comes_from_def)

lemma lane_counts:
  assumes "lane_ok route acks (worker_view lane ph)"
  shows "of_nat (size (filter_mset (\<lambda>rcd. lane_part route rcd \<noteq> None) acks)) =
      counted (ln_metrics lane) + of_nat (in_hand ph) + of_nat (length (waiting (ln_sender lane)))"
    and "ph = Stopped \<Longrightarrow> waiting (ln_sender lane) = []" and "length (waiting (ln_sender lane)) \<le> capacity"
  using assms by (auto simp: lane_ok_def accounted_def closed_after_run_def worker_view_def)

end

section \<open>Acknowledged, saved and counted\<close>

lemma acknowledged_saved:
  assumes "tasks_ok s"
  shows "acknowledged s \<subseteq># mset (ss_ingested s)" and "sk_file (ss_sink s) \<noteq> None \<Longrightarrow> acknowledged s \<subseteq># mset (ss_saved s)"
proof -
  have "count_tasks phase_acknowledged ts \<subseteq># count_tasks P ts" if "\<And>p. phase_acknowledged p \<Longrightarrow> P p" for ts P
  proof -
    have "filter_mset (phase_acknowledged \<circ> snd) (mset ts) = filter_mset (phase_acknowledged \<circ> snd) (filter_mset (P \<circ> snd) (mset ts))"
      using that by (auto simp: filter_filter_mset intro: filter_mset_cong)
    then show ?thesis unfolding count_tasks_def by (metis image_mset_subseteq_mono multiset_filter_subset)
  qed
  then have "acknowledged s \<subseteq># count_tasks phase_ingested (ss_tasks s)" "acknowledged s \<subseteq># count_tasks phase_saved (ss_tasks s)"
    by (auto simp: acknowledged_def phase_acknowledged_def)
  then show "acknowledged s \<subseteq># mset (ss_ingested s)" "sk_file (ss_sink s) \<noteq> None \<Longrightarrow> acknowledged s \<subseteq># mset (ss_saved s)"
    using assms by (auto simp: tasks_ok_def)
qed

end
