(* ===== verification/Server.thy ===== *)
theory Server
  imports Prelude
begin

text \<open>
  Running the two listeners until a signal or an error, and stopping: \<^verbatim>\<open>run\<close> of
  \<^verbatim>\<open>src/src/server.rs\<close>, as a step relation. The listeners, the signals, the timer and the
  sink are its surroundings: when a listener task ends and with what, when a signal arrives, when
  the grace period is over and what the shutdown of the sink returns is left open. Waiting and
  racing (\<^verbatim>\<open>select!\<close>) may take any branch that is ready.
\<close>

section \<open>Listener tasks\<close>

text \<open>How a task ends: with its result, or without one when it panicked or was aborted.\<close>

datatype 'e join_outcome = Finished_with "'e + unit" | Panicked

datatype 'e task_state = TaskRunning | TaskEnded "'e join_outcome"

datatype 'e run_error = GrpcTask 'e | GrpcPanicked | HttpTask 'e | HttpPanicked | SinkShutdown 'e

definition join_result :: "('e \<Rightarrow> 'r) \<Rightarrow> 'r \<Rightarrow> 'e join_outcome \<Rightarrow> 'r + unit" where
  "join_result err panicked j = (case j of
       Finished_with (Inr _) \<Rightarrow> Inr ()
     | Finished_with (Inl e) \<Rightarrow> Inl (err e)
     | Panicked \<Rightarrow> Inl panicked)"

text \<open>The first error stays, later ones are only logged.\<close>

definition merge_task_result :: "'r + unit \<Rightarrow> 'r + unit \<Rightarrow> 'r + unit" where
  "merge_task_result result nxt = (case result of Inr _ \<Rightarrow> nxt | Inl e \<Rightarrow> Inl e)"

definition SHUTDOWN_GRACE :: nat where
  "SHUTDOWN_GRACE = 10 * 10 ^ 9"

section \<open>Running and stopping\<close>

datatype shutdown_signal = Interrupt | Terminate

definition signal_name :: "shutdown_signal \<Rightarrow> str" where
  "signal_name s = (case s of Interrupt \<Rightarrow> ''SIGINT'' | Terminate \<Rightarrow> ''SIGTERM'')"

text \<open>
  While draining, \<open>waited\<close> are the results of the tasks awaited so far in this phase, merged; the
  two flags say which tasks need no more waiting.
\<close>

datatype 'e run_phase =
    Serving
  | AwaitingTasks bool bool "'e run_error + unit" "'e run_error + unit"
  | ClosingSink "'e run_error + unit"
  | Returned "'e run_error + unit"

record 'e server_state =
  sv_phase :: "'e run_phase"
  sv_grpc :: "'e task_state"
  sv_http :: "'e task_state"
  sv_stopping :: bool   \<comment> \<open>the shutdown token\<close>
  sv_hard_exit :: bool
  sv_signals :: nat   \<comment> \<open>signals taken by the signal task\<close>
  sv_abandoned :: bool   \<comment> \<open>the listeners were aborted\<close>
  sv_sink_shutdowns :: nat

definition grpc_result :: "'e join_outcome \<Rightarrow> 'e run_error + unit" where
  "grpc_result = join_result GrpcTask GrpcPanicked"

definition http_result :: "'e join_outcome \<Rightarrow> 'e run_error + unit" where
  "http_result = join_result HttpTask HttpPanicked"

definition take_signal :: "'e server_state \<Rightarrow> 'e server_state" where
  "take_signal s = (if sv_signals s = 0 then s\<lparr>sv_signals := 1, sv_stopping := True\<rparr>
     else s\<lparr>sv_signals := 2, sv_hard_exit := True\<rparr>)"

definition listener_stopped :: "bool \<Rightarrow> 'e run_error + unit \<Rightarrow> 'e server_state \<Rightarrow> 'e server_state" where
  "listener_stopped is_grpc result s =
     s\<lparr>sv_stopping := True, sv_phase := AwaitingTasks is_grpc (\<not> is_grpc) result (Inr ())\<rparr>"

definition stop_requested :: "'e server_state \<Rightarrow> 'e server_state" where
  "stop_requested s = s\<lparr>sv_phase := AwaitingTasks False False (Inr ()) (Inr ())\<rparr>"

definition abandon_listeners :: "'e run_error + unit \<Rightarrow> 'e server_state \<Rightarrow> 'e server_state" where
  "abandon_listeners result s = s\<lparr>sv_abandoned := True, sv_phase := ClosingSink result\<rparr>"

definition sink_closed :: "'e run_error + unit \<Rightarrow> 'e + unit \<Rightarrow> 'e server_state \<Rightarrow> 'e server_state" where
  "sink_closed result closed s = s\<lparr>sv_sink_shutdowns := sv_sink_shutdowns s + 1,
     sv_phase := Returned (merge_task_result result (map_sum SinkShutdown id closed))\<rparr>"

inductive server_step :: "'e server_state \<Rightarrow> 'e server_state \<Rightarrow> bool" where
  GrpcEnds: "sv_grpc s = TaskRunning \<Longrightarrow> server_step s (s\<lparr>sv_grpc := TaskEnded r\<rparr>)"
| HttpEnds: "sv_http s = TaskRunning \<Longrightarrow> server_step s (s\<lparr>sv_http := TaskEnded r\<rparr>)"
| Signal: "sv_signals s < 2 \<Longrightarrow> (\<forall>r. sv_phase s \<noteq> ClosingSink r \<and> sv_phase s \<noteq> Returned r) \<Longrightarrow> server_step s (take_signal s)"
| GrpcFirst: "sv_phase s = Serving \<Longrightarrow> sv_grpc s = TaskEnded r \<Longrightarrow> server_step s (listener_stopped True (grpc_result r) s)"
| HttpFirst: "sv_phase s = Serving \<Longrightarrow> sv_http s = TaskEnded r \<Longrightarrow> server_step s (listener_stopped False (http_result r) s)"
| StopFirst: "sv_phase s = Serving \<Longrightarrow> sv_stopping s \<Longrightarrow> server_step s (stop_requested s)"
| AwaitGrpc: "sv_phase s = AwaitingTasks False http result waited \<Longrightarrow> sv_grpc s = TaskEnded r \<Longrightarrow>
    server_step s (s\<lparr>sv_phase := AwaitingTasks True http result (merge_task_result waited (grpc_result r))\<rparr>)"
| AwaitHttp: "sv_phase s = AwaitingTasks True False result waited \<Longrightarrow> sv_http s = TaskEnded r \<Longrightarrow>
    server_step s (s\<lparr>sv_phase := AwaitingTasks True True result (merge_task_result waited (http_result r))\<rparr>)"
| Drained: "sv_phase s = AwaitingTasks True True result waited \<Longrightarrow>
    server_step s (s\<lparr>sv_phase := ClosingSink (merge_task_result result waited)\<rparr>)"
| HardExit: "sv_phase s = AwaitingTasks grpc http result waited \<Longrightarrow> sv_hard_exit s \<Longrightarrow> server_step s (abandon_listeners result s)"
| GraceOver: "sv_phase s = AwaitingTasks grpc http result waited \<Longrightarrow> server_step s (abandon_listeners result s)"
| SinkClosed: "sv_phase s = ClosingSink result \<Longrightarrow> server_step s (sink_closed result closed s)"

definition server_start :: "'e server_state" where
  "server_start = \<lparr>sv_phase = Serving, sv_grpc = TaskRunning, sv_http = TaskRunning, sv_stopping = False, sv_hard_exit = False,
     sv_signals = 0, sv_abandoned = False, sv_sink_shutdowns = 0\<rparr>"

inductive server_reachable :: "'e server_state \<Rightarrow> bool" where
  Start: "server_reachable server_start"
| Step: "server_reachable s \<Longrightarrow> server_step s s' \<Longrightarrow> server_reachable s'"

inductive_cases server_stepE: "server_step s s'"


section \<open>What holds in every reachable state\<close>

fun pending_result :: "'e run_phase \<Rightarrow> ('e run_error + unit) option" where
  "pending_result Serving = None"
| "pending_result (AwaitingTasks _ _ result waited) = Some (merge_task_result result waited)"
| "pending_result (ClosingSink result) = Some result"
| "pending_result (Returned result) = Some result"

text \<open>What an error says of the task it names.\<close>

fun error_of :: "'e task_state \<Rightarrow> 'e task_state \<Rightarrow> 'e run_error \<Rightarrow> bool" where
  "error_of grpc http (GrpcTask e) = (grpc = TaskEnded (Finished_with (Inl e)))"
| "error_of grpc http GrpcPanicked = (grpc = TaskEnded Panicked)"
| "error_of grpc http (HttpTask e) = (http = TaskEnded (Finished_with (Inl e)))"
| "error_of grpc http HttpPanicked = (http = TaskEnded Panicked)"
| "error_of grpc http (SinkShutdown _) = True"

definition ended_well :: "'e task_state \<Rightarrow> bool" where
  "ended_well t \<longleftrightarrow> t = TaskEnded (Finished_with (Inr ()))"

text \<open>
  A result that is still without error stands for every task that has been waited for; it is an
  error that a task really had, or the shutdown of the sink, which comes last.
\<close>

fun waited_well :: "'e server_state \<Rightarrow> 'e run_phase \<Rightarrow> bool" where
  "waited_well s Serving = True"
| "waited_well s (AwaitingTasks grpc http result waited) =
     (merge_task_result result waited = Inr () \<longrightarrow> (grpc \<longrightarrow> ended_well (sv_grpc s)) \<and> (http \<longrightarrow> ended_well (sv_http s)))"
| "waited_well s (ClosingSink result) = (result = Inr () \<longrightarrow> sv_abandoned s \<or> ended_well (sv_grpc s) \<and> ended_well (sv_http s))"
| "waited_well s (Returned result) = (result = Inr () \<longrightarrow> sv_abandoned s \<or> ended_well (sv_grpc s) \<and> ended_well (sv_http s))"

definition results_named :: "'e server_state \<Rightarrow> 'e run_error + unit \<Rightarrow> bool" where
  "results_named s r \<longleftrightarrow> (\<forall>e. r = Inl e \<longrightarrow> error_of (sv_grpc s) (sv_http s) e)"

definition server_ok :: "'e server_state \<Rightarrow> bool" where
  "server_ok s \<longleftrightarrow> (sv_phase s \<noteq> Serving \<longrightarrow> sv_stopping s) \<and> (0 < sv_signals s \<longrightarrow> sv_stopping s) \<and>
     sv_sink_shutdowns s = (case sv_phase s of Returned _ \<Rightarrow> 1 | _ \<Rightarrow> 0) \<and> waited_well s (sv_phase s) \<and>
     (case sv_phase s of AwaitingTasks _ _ result waited \<Rightarrow> results_named s result \<and> results_named s waited
       | ClosingSink result \<Rightarrow> results_named s result | Returned result \<Rightarrow> results_named s result | Serving \<Rightarrow> True)"

lemma merge_Inr: "merge_task_result a b = Inr () \<longleftrightarrow> a = Inr () \<and> b = Inr ()"
  by (auto simp: merge_task_result_def split: sum.splits)

lemma merge_Inl: "merge_task_result a b = Inl e \<longleftrightarrow> a = Inl e \<or> a = Inr () \<and> b = Inl e"
  by (auto simp: merge_task_result_def split: sum.splits)

lemma results_Inr: "grpc_result r = Inr () \<longleftrightarrow> r = Finished_with (Inr ())" "http_result r = Inr () \<longleftrightarrow> r = Finished_with (Inr ())"
  by (auto simp: grpc_result_def http_result_def join_result_def split: join_outcome.splits sum.splits)

lemma results_Inl: "sv_grpc s = TaskEnded r \<Longrightarrow> results_named s (grpc_result r)" "sv_http s = TaskEnded r \<Longrightarrow> results_named s (http_result r)"
  by (auto simp: results_named_def grpc_result_def http_result_def join_result_def split: join_outcome.splits sum.splits)

lemma named_Inr [simp]: "results_named s (Inr ())"
  by (simp add: results_named_def)

lemma named_merge: "results_named s a \<Longrightarrow> results_named s b \<Longrightarrow> results_named s (merge_task_result a b)"
  by (auto simp: results_named_def merge_Inl)

lemma error_of_stays: "error_of TaskRunning http e \<Longrightarrow> error_of grpc http e" "error_of grpc TaskRunning e \<Longrightarrow> error_of grpc http e"
  by (cases e; simp)+

lemma named_stays:
  "results_named s r \<Longrightarrow> sv_grpc s = TaskRunning \<Longrightarrow> results_named (s\<lparr>sv_grpc := t\<rparr>) r"
  "results_named s r \<Longrightarrow> sv_http s = TaskRunning \<Longrightarrow> results_named (s\<lparr>sv_http := t\<rparr>) r"
proof -
  show "results_named s r \<Longrightarrow> sv_grpc s = TaskRunning \<Longrightarrow> results_named (s\<lparr>sv_grpc := t\<rparr>) r"
    by (fastforce simp: results_named_def dest: error_of_stays(1))
  show "results_named s r \<Longrightarrow> sv_http s = TaskRunning \<Longrightarrow> results_named (s\<lparr>sv_http := t\<rparr>) r"
    by (fastforce simp: results_named_def dest: error_of_stays(2))
qed

lemma named_fields [simp]: "results_named (s\<lparr>sv_phase := p\<rparr>) r = results_named s r" "results_named (s\<lparr>sv_stopping := b\<rparr>) r = results_named s r"
  "results_named (s\<lparr>sv_signals := n\<rparr>) r = results_named s r" "results_named (s\<lparr>sv_hard_exit := b\<rparr>) r = results_named s r"
  "results_named (s\<lparr>sv_abandoned := b\<rparr>) r = results_named s r" "results_named (s\<lparr>sv_sink_shutdowns := n\<rparr>) r = results_named s r"
  by (simp_all add: results_named_def)

lemma not_ended [simp]: "\<not> ended_well TaskRunning"
  by (simp add: ended_well_def)

lemma server_ok_step: "server_step s s' \<Longrightarrow> server_ok s \<Longrightarrow> server_ok s'"
proof (induction rule: server_step.induct)
  case (GrpcEnds s r)
  then show ?case by (cases "sv_phase s") (auto simp: server_ok_def intro: named_stays)
next
  case (HttpEnds s r)
  then show ?case by (cases "sv_phase s") (auto simp: server_ok_def intro: named_stays)
next
  case (Signal s)
  then show ?case by (cases "sv_phase s") (auto simp: server_ok_def take_signal_def)
next
  case (GrpcFirst s r)
  then show ?case using results_Inl(1) [OF GrpcFirst(2)]
    by (auto simp: server_ok_def listener_stopped_def merge_Inr results_Inr ended_well_def)
next
  case (HttpFirst s r)
  then show ?case using results_Inl(2) [OF HttpFirst(2)]
    by (auto simp: server_ok_def listener_stopped_def merge_Inr results_Inr ended_well_def)
next
  case (StopFirst s)
  then show ?case by (simp add: server_ok_def stop_requested_def)
next
  case (AwaitGrpc s http result waited r)
  then show ?case using results_Inl(1) [OF AwaitGrpc(2)]
    by (auto simp: server_ok_def merge_Inr results_Inr ended_well_def named_merge)
next
  case (AwaitHttp s result waited r)
  then show ?case using results_Inl(2) [OF AwaitHttp(2)]
    by (auto simp: server_ok_def merge_Inr results_Inr ended_well_def named_merge)
next
  case (Drained s result waited)
  then show ?case by (auto simp: server_ok_def named_merge)
next
  case (SinkClosed s result closed)
  have "results_named s (map_sum SinkShutdown id closed)" by (cases closed) (auto simp: results_named_def)
  with SinkClosed show ?case by (auto simp: server_ok_def sink_closed_def merge_Inr named_merge)
qed (auto simp: server_ok_def abandon_listeners_def)

lemma server_ok_reachable: "server_reachable s \<Longrightarrow> server_ok s"
proof (induction rule: server_reachable.induct)
  case Start
  then show ?case by (simp add: server_ok_def server_start_def)
qed (rule server_ok_step)

section \<open>It ends\<close>

fun phase_measure :: "'e run_phase \<Rightarrow> nat" where
  "phase_measure Serving = 6"
| "phase_measure (AwaitingTasks grpc http _ _) = 3 + (if grpc then 0 else 1) + (if http then 0 else 1)"
| "phase_measure (ClosingSink _) = 1"
| "phase_measure (Returned _) = 0"

definition server_measure :: "'e server_state \<Rightarrow> nat" where
  "server_measure s = phase_measure (sv_phase s) + (2 - sv_signals s) +
     (if sv_grpc s = TaskRunning then 1 else 0) + (if sv_http s = TaskRunning then 1 else 0)"

lemma server_step_measure: "server_step s s' \<Longrightarrow> server_measure s' < server_measure s"
  by (induction rule: server_step.induct)
    (auto simp: server_measure_def take_signal_def listener_stopped_def stop_requested_def abandon_listeners_def sink_closed_def)

inductive server_run :: "nat \<Rightarrow> 'e server_state \<Rightarrow> bool" where
  Idle: "server_run 0 server_start"
| More: "server_run n s \<Longrightarrow> server_step s s' \<Longrightarrow> server_run (Suc n) s'"

lemma server_run_measure: "server_run n s \<Longrightarrow> n + server_measure s \<le> 10"
proof (induction rule: server_run.induct)
  case Idle
  then show ?case by (simp add: server_measure_def server_start_def)
next
  case (More n s s')
  with server_step_measure [OF More(2)] show ?case by simp
qed

lemma server_run_reachable: "server_run n s \<Longrightarrow> server_reachable s"
  by (induction rule: server_run.induct) (auto intro: server_reachable.intros)

text \<open>Once it is stopping, whatever the listeners do, a step is left until it has returned.\<close>

lemma stopping_moves: "sv_stopping s \<Longrightarrow> (\<forall>r. sv_phase s \<noteq> Returned r) \<Longrightarrow> \<exists>s'. server_step s s'"
  by (cases "sv_phase s") (auto intro: StopFirst GraceOver SinkClosed)

section \<open>A concrete run\<close>

text \<open>The gRPC listener cannot bind; the other one is asked to stop and does; the sink is closed.\<close>

definition sample_run_end :: "str server_state" where
  "sample_run_end = \<lparr>sv_phase = Returned (Inl (GrpcTask ''bind'')), sv_grpc = TaskEnded (Finished_with (Inl ''bind'')),
     sv_http = TaskEnded (Finished_with (Inr ())), sv_stopping = True, sv_hard_exit = False, sv_signals = 0, sv_abandoned = False,
     sv_sink_shutdowns = 1\<rparr>"

lemma sample_server_run: "server_run 6 sample_run_end"
proof -
  let ?s = "\<lambda>p g h stop n. \<lparr>sv_phase = p, sv_grpc = g, sv_http = h, sv_stopping = stop, sv_hard_exit = False, sv_signals = 0,
    sv_abandoned = False, sv_sink_shutdowns = n\<rparr> :: str server_state"
  let ?g = "TaskEnded (Finished_with (Inl ''bind''))" and ?h = "TaskEnded (Finished_with (Inr ()))" and ?e = "Inl (GrpcTask ''bind'')"
  have go: "server_run (Suc n) s''" if "server_run n s" "server_step s s'" "s' = s''" for n s s' and s'' :: "str server_state"
    using that More by blast
  have 1: "server_run 1 (?s Serving ?g TaskRunning False 0)"
    using go [OF Idle GrpcEnds [where r = "Finished_with (Inl ''bind'')"]] by (simp add: server_start_def)
  have 2: "server_run 2 (?s (AwaitingTasks True False ?e (Inr ())) ?g TaskRunning True 0)"
    using go [OF 1 GrpcFirst [where r = "Finished_with (Inl ''bind'')"]]
    by (simp add: listener_stopped_def grpc_result_def join_result_def numeral_2_eq_2)
  have 3: "server_run 3 (?s (AwaitingTasks True False ?e (Inr ())) ?g ?h True 0)"
    using go [OF 2 HttpEnds [where r = "Finished_with (Inr ())"]] by (simp add: numeral_3_eq_3)
  have 4: "server_run 4 (?s (AwaitingTasks True True ?e (Inr ())) ?g ?h True 0)"
    using go [OF 3 AwaitHttp [where r = "Finished_with (Inr ())"]]
    by (simp add: http_result_def join_result_def merge_task_result_def eval_nat_numeral)
  have 5: "server_run 5 (?s (ClosingSink ?e) ?g ?h True 0)"
    using go [OF 4 Drained] by (simp add: merge_task_result_def eval_nat_numeral)
  show ?thesis
    using go [OF 5 SinkClosed [where closed = "Inr ()"]]
    by (simp add: sample_run_end_def sink_closed_def merge_task_result_def eval_nat_numeral)
qed


section \<open>An error that is dropped\<close>

text \<open>
  When the grace period ends before both listeners have, the results already waited for go away
  with the wait: after a signal the gRPC listener fails, the HTTP listener hangs, and the run
  returns without error.
\<close>

lemma drained_error_can_be_lost:
  "\<exists>s. server_reachable s \<and> sv_phase s = Returned (Inr ()) \<and> sv_grpc s = TaskEnded (Finished_with (Inl (e :: 'a)))"
proof -
  let ?g = "TaskEnded (Finished_with (Inl e))"
  let ?s = "\<lambda>p g ab n. \<lparr>sv_phase = p, sv_grpc = g, sv_http = TaskRunning, sv_stopping = True, sv_hard_exit = False, sv_signals = 1,
    sv_abandoned = ab, sv_sink_shutdowns = n\<rparr> :: 'a server_state"
  have go: "server_reachable s''" if "server_reachable s" "server_step s s'" "s' = s''" for s s' s'' :: "'a server_state"
    using that server_reachable.Step by blast
  have 1: "server_reachable (?s Serving TaskRunning False 0)"
    using go [OF server_reachable.Start Signal] by (simp add: server_start_def take_signal_def)
  have 2: "server_reachable (?s (AwaitingTasks False False (Inr ()) (Inr ())) TaskRunning False 0)"
    using go [OF 1 StopFirst] by (simp add: stop_requested_def)
  have 3: "server_reachable (?s (AwaitingTasks False False (Inr ()) (Inr ())) ?g False 0)"
    using go [OF 2 GrpcEnds [where r = "Finished_with (Inl e)"]] by simp
  have 4: "server_reachable (?s (AwaitingTasks True False (Inr ()) (Inl (GrpcTask e))) ?g False 0)"
    using go [OF 3 AwaitGrpc [where r = "Finished_with (Inl e)" and http = False and result = "Inr ()" and waited = "Inr ()"]]
    by (simp add: grpc_result_def join_result_def merge_task_result_def)
  have 5: "server_reachable (?s (ClosingSink (Inr ())) ?g True 0)"
    using go [OF 4 GraceOver [where grpc = True and http = False and result = "Inr ()"]] by (simp add: abandon_listeners_def)
  have 6: "server_reachable (?s (Returned (Inr ())) ?g True 1)"
    using go [OF 5 SinkClosed [where closed = "Inr ()"]] by (simp add: sink_closed_def merge_task_result_def)
  then show ?thesis by (intro exI [of _ "?s (Returned (Inr ())) ?g True 1"]) simp
qed

end
