(* ===== verification/Rust_Fmt.thy ===== *)
theory Rust_Fmt
  imports Rust_Str
begin

text \<open>
  The parts of Rust's \<^verbatim>\<open>std::fmt\<close> and \<^verbatim>\<open>char\<close> that the text output uses. A text under
  construction is the list of its characters, each a code point; \<^verbatim>\<open>str::chars\<close> decodes the
  UTF-8 bytes of a string.
\<close>

section \<open>Characters\<close>

type_synonym text_chars = "nat list"

definition ascii :: "string \<Rightarrow> text_chars" where
  "ascii s = map byte s"

text \<open>The number of continuation bytes behind a first byte, and the bits of the first byte.\<close>

definition utf8_tail :: "nat \<Rightarrow> nat" where
  "utf8_tail b = (if b < 192 then 0 else if b < 224 then 1 else if b < 240 then 2 else 3)"

definition utf8_head :: "nat \<Rightarrow> nat" where
  "utf8_head b = (if b < 192 then b else if b < 224 then b mod 32 else if b < 240 then b mod 16 else b mod 8)"

function chars :: "str \<Rightarrow> text_chars" where
  "chars [] = []"
| "chars (x # xs) = foldl (\<lambda>c y. 64 * c + byte y mod 64) (utf8_head (byte x)) (take (utf8_tail (byte x)) xs) #
     chars (drop (utf8_tail (byte x)) xs)"
  by pat_completeness auto
termination
  by (relation "measure length") auto

definition utf8_char :: "nat \<Rightarrow> str" where
  "utf8_char c = map char_of
     (if c < 128 then [c]
      else if c < 2048 then [192 + c div 64, 128 + c mod 64]
      else if c < 65536 then [224 + c div 4096, 128 + c div 64 mod 64, 128 + c mod 64]
      else [240 + c div 262144, 128 + c div 4096 mod 64, 128 + c div 64 mod 64, 128 + c mod 64])"

definition utf8 :: "text_chars \<Rightarrow> str" where
  "utf8 cs = concat (map utf8_char cs)"

section \<open>Integers\<close>

fun show_nat :: "nat \<Rightarrow> text_chars" where
  "show_nat n = (if n < 10 then [48 + n] else show_nat (n div 10) @ [48 + n mod 10])"

declare show_nat.simps [simp del]

definition show_int :: "int \<Rightarrow> text_chars" where
  "show_int i = (if i < 0 then 45 # show_nat (nat (- i)) else show_nat (nat i))"

definition hex_digit :: "nat \<Rightarrow> nat" where
  "hex_digit n = (if n < 10 then 48 + n else 87 + n)"

fun show_hex :: "nat \<Rightarrow> text_chars" where
  "show_hex n = (if n < 16 then [hex_digit n] else show_hex (n div 16) @ [hex_digit (n mod 16)])"

declare show_hex.simps [simp del]

text \<open>\<^verbatim>\<open>{:04x}\<close> and \<^verbatim>\<open>{:02x}\<close>: padded with zeros on the left.\<close>

definition pad_zeros :: "nat \<Rightarrow> text_chars \<Rightarrow> text_chars" where
  "pad_zeros n s = replicate (n - length s) 48 @ s"

definition show_bool :: "bool \<Rightarrow> text_chars" where
  "show_bool b = ascii (if b then ''true'' else ''false'')"

section \<open>Floating-point numbers\<close>

definition float_sign :: "f64 \<Rightarrow> text_chars" where
  "float_sign v = (if f64_neg v then [45] else [])"

text \<open>\<^verbatim>\<open>{:.p}\<close>: the value rounded to \<open>p\<close> decimal places, ties to even.\<close>

definition show_fixed :: "nat \<Rightarrow> f64 \<Rightarrow> text_chars" where
  "show_fixed p v =
     (if is_nan v then ascii ''NaN''
      else if is_infinite v then float_sign v @ ascii ''inf''
      else let n = nat (round_half_even (\<bar>f64_val v\<bar> * 10 ^ p));
        ds = pad_zeros (Suc p) (show_nat n) in
        float_sign v @ take (length ds - p) ds @ (if p = 0 then [] else 46 # drop (length ds - p) ds))"

text \<open>
  \<^verbatim>\<open>{}\<close>: the shortest decimal number that reads back as the value, the closest one of those,
  without an exponent. \<open>decimal_point q\<close> is the \<open>k\<close> with \<open>10 ^ (k - 1) \<le> q < 10 ^ k\<close>.
\<close>

definition decimal_point :: "rat \<Rightarrow> int" where
  "decimal_point q = (if 1 \<le> q then int (length (show_nat (nat \<lfloor>q\<rfloor>)))
     else case find (\<lambda>j. 1 \<le> q * 10 ^ Suc j) [0..<400] of Some j \<Rightarrow> - int j | None \<Rightarrow> 0)"

definition shortest_with :: "f64 \<Rightarrow> nat \<Rightarrow> nat option" where
  "shortest_with v n =
     (let q = \<bar>f64_val v\<bar>; e = decimal_point q - int n; low = \<lfloor>q / pow10 e\<rfloor>;
        reads = (\<lambda>d. f64_round (f64_neg v) ((if f64_neg v then - 1 else 1) * of_int d * pow10 e) = v);
        near = round_half_even (q / pow10 e) in
      if reads near then Some (nat near) else if reads low then Some (nat low)
      else if reads (low + 1) then Some (nat (low + 1)) else None)"

definition shortest_digits :: "f64 \<Rightarrow> nat \<times> nat" where
  "shortest_digits v = (case find (\<lambda>n. shortest_with v n \<noteq> None) [1..<18] of
       Some n \<Rightarrow> (n, the (shortest_with v n))
     | None \<Rightarrow> (1, 0))"

definition place_point :: "int \<Rightarrow> text_chars \<Rightarrow> text_chars" where
  "place_point k ds =
     (if k \<le> 0 then [48, 46] @ replicate (nat (- k)) 48 @ ds
      else if int (length ds) \<le> k then ds @ replicate (nat k - length ds) 48
      else take (nat k) ds @ 46 # drop (nat k) ds)"

definition show_f64 :: "f64 \<Rightarrow> text_chars" where
  "show_f64 v =
     (if is_nan v then ascii ''NaN''
      else if is_infinite v then float_sign v @ ascii ''inf''
      else if f64_mag v = 0 then float_sign v @ [48]
      else case shortest_digits v of (n, d) \<Rightarrow>
        let ds = show_nat d in
        float_sign v @ place_point (decimal_point \<bar>f64_val v\<bar> + int (length ds) - int n) (take n ds))"

text \<open>Division, for conversions between units.\<close>

definition f64_div :: "f64 \<Rightarrow> f64 \<Rightarrow> f64" where
  "f64_div x y = f64_round (f64_neg x \<noteq> f64_neg y) (f64_val x / f64_val y)"

section \<open>Joining\<close>

fun join_with :: "text_chars \<Rightarrow> text_chars list \<Rightarrow> text_chars" where
  "join_with sep [] = []"
| "join_with sep [x] = x"
| "join_with sep (x # y # xs) = x @ sep @ join_with sep (y # xs)"

section \<open>Facts\<close>

lemma byte_char_of [simp]: "byte (char_of n) = n mod 256"
  by (simp add: byte_def)

lemma byte_less: "byte c < 256"
  by (cases c) (simp add: byte_def)

lemma foldl_bytes: "foldl f a (map char_of bs) = foldl (\<lambda>c b. f c (char_of b)) a bs"
  by (induction bs arbitrary: a) simp_all

text \<open>A character that was encoded is decoded to itself, whatever follows.\<close>

lemma head_bits:
  assumes "a < n" and "(n, k) \<in> {(32, 192), (16, 224), (8, 240)}"
  shows "utf8_head (k + a) = a"
proof -
  have "(192 + a) mod 32 = a mod 32" "(224 + a) mod 16 = a mod 16" "(240 + a) mod 8 = a mod 8"
    using mod_mult_self1 [of a 6 32] mod_mult_self1 [of a 14 16] mod_mult_self1 [of a 30 8] by (simp_all add: add.commute)
  then show ?thesis using assms by (auto simp: utf8_head_def)
qed

lemma chars_step:
  "byte x = b \<Longrightarrow> utf8_tail b = length ys \<Longrightarrow> chars (x # ys @ s) = foldl (\<lambda>c y. 64 * c + byte y mod 64) (utf8_head b) ys # chars s"
  by simp

lemma tail_bits: "b < 64 \<Longrightarrow> byte (char_of (128 + b)) mod 64 = b"
  using mod_mult_self1 [of b 2 64] by (simp add: add.commute)

lemma chars_two: "a < 32 \<Longrightarrow> b < 64 \<Longrightarrow> chars (map char_of [192 + a, 128 + b] @ s) = (64 * a + b) # chars s"
  using chars_step [of "char_of (192 + a)" "192 + a" "[char_of (128 + b)]" s] head_bits [of a 32 192] tail_bits [of b]
  by (simp add: utf8_tail_def del: chars.simps)

lemma chars_three:
  "a < 16 \<Longrightarrow> b < 64 \<Longrightarrow> b' < 64 \<Longrightarrow> chars (map char_of [224 + a, 128 + b, 128 + b'] @ s) = (64 * (64 * a + b) + b') # chars s"
  using chars_step [of "char_of (224 + a)" "224 + a" "[char_of (128 + b), char_of (128 + b')]" s] head_bits [of a 16 224]
    tail_bits [of b] tail_bits [of b']
  by (simp add: utf8_tail_def del: chars.simps)

lemma chars_four:
  "a < 8 \<Longrightarrow> b < 64 \<Longrightarrow> b' < 64 \<Longrightarrow> b'' < 64 \<Longrightarrow>
     chars (map char_of [240 + a, 128 + b, 128 + b', 128 + b''] @ s) = (64 * (64 * (64 * a + b) + b') + b'') # chars s"
  using chars_step [of "char_of (240 + a)" "240 + a" "[char_of (128 + b), char_of (128 + b'), char_of (128 + b'')]" s]
    head_bits [of a 8 240] tail_bits [of b] tail_bits [of b'] tail_bits [of b'']
  by (simp add: utf8_tail_def del: chars.simps)

lemma six_bits: "64 * (c div 64) + c mod 64 = (c :: nat)"
  by (rule mult_div_mod_eq)

lemma chars_utf8_char: "c < 2097152 \<Longrightarrow> chars (utf8_char c @ s) = c # chars s"
proof -
  assume c: "c < 2097152"
  have d: "c div 4096 = c div 64 div 64" "c div 262144 = c div 64 div 64 div 64" by (simp_all flip: div_mult2_eq)
  have small: "n mod 64 < 64" for n :: nat by simp
  consider "c < 128" | "128 \<le> c" "c < 2048" | "2048 \<le> c" "c < 65536" | "65536 \<le> c" using c by linarith
  then show ?thesis
  proof cases
    case 1
    then show ?thesis using chars_step [of "char_of c" c "[]" s] by (simp add: utf8_char_def utf8_tail_def utf8_head_def)
  next
    case 2
    then have "utf8_char c = map char_of [192 + c div 64, 128 + c mod 64]" by (simp add: utf8_char_def)
    moreover have "c div 64 < 32" using 2 by linarith
    ultimately show ?thesis using chars_two [OF _ small] six_bits by metis
  next
    case 3
    then have "\<not> c < 128" "\<not> c < 2048" by simp_all
    with 3 have "utf8_char c = map char_of [224 + c div 64 div 64, 128 + c div 64 mod 64, 128 + c mod 64]"
      by (simp only: utf8_char_def d if_True if_False)
    moreover have "c div 4096 < 16" using 3 by linarith
    then have "c div 64 div 64 < 16" by (simp only: d)
    ultimately show ?thesis using chars_three [OF _ small small] six_bits by metis
  next
    case 4
    then have "\<not> c < 128" "\<not> c < 2048" "\<not> c < 65536" by simp_all
    then have "utf8_char c = map char_of [240 + c div 64 div 64 div 64, 128 + c div 64 div 64 mod 64, 128 + c div 64 mod 64, 128 + c mod 64]"
      by (simp only: utf8_char_def d if_False)
    moreover have "c div 262144 < 8" using c by linarith
    then have "c div 64 div 64 div 64 < 8" by (simp only: d)
    ultimately show ?thesis using chars_four [OF _ small small small] six_bits by metis
  qed
qed

lemma chars_utf8: "\<forall>c \<in> set cs. c < 2097152 \<Longrightarrow> chars (utf8 cs) = cs"
  by (induction cs) (simp_all add: utf8_def chars_utf8_char)

end
