(* ===== verification/Config_File.thy ===== *)
theory Config_File
  imports Settings Rust_Fmt
begin

text \<open>
  Reading the configuration file and writing it for \<^verbatim>\<open>otel-logger init\<close>
  (\<^verbatim>\<open>src/src/config.rs\<close>), and the beginning of \<^verbatim>\<open>src/src/main.rs\<close> up to the
  settings. The TOML parser is a library and an argument, and so are the texts of the template.
  Files are those of the disk in Storage; directories are not modelled, their creation only fails
  or not.
\<close>

section \<open>The environment\<close>

type_synonym environment = "(str \<times> str) list"

definition clear_empty_otel_logger_env :: "environment \<Rightarrow> environment" where
  "clear_empty_otel_logger_env vars =
     (let empty = map fst (filter (\<lambda>(key, val). val = [] \<and> starts_with key ''OTEL_LOGGER_'') vars)
      in filter (\<lambda>(key, _). key \<notin> set empty) vars)"

section \<open>Looking at a path\<close>

datatype load_error =
    InspectFailed str io_error
  | NoSuchConfig str
  | ReadFailed str io_error
  | NotUtf8 str
  | BadToml str "(nat \<times> nat) option"

text \<open>
  The parser works on the bytes of the text. Its errors carry the byte where the faulty span
  starts, which is the start of a character.
\<close>

record toml_library =
  tl_utf8 :: "u8 list \<Rightarrow> bool"
  tl_parse :: "u8 list \<Rightarrow> nat option + config"

definition empty_config :: config where
  "empty_config = \<lparr>cfg_grpc_addr = None, cfg_http_addr = None, cfg_max_inflight_requests = None,
     cfg_receive_timeout_ms = None, cfg_log_file = None, cfg_log_dir = None, cfg_log_keep_days = None,
     cfg_no_stdout = None, cfg_pretty_log = None, cfg_summary = None, cfg_color = None, cfg_proxy = None\<rparr>"

definition try_exists :: "str \<Rightarrow> disk \<Rightarrow> bool io_result \<times> disk" where
  "try_exists path d = (case disk_syscall d of
       (Fault e _, d) \<Rightarrow> (Inl e, d)
     | (NoFault, d) \<Rightarrow> (Inr (disk_files d path \<noteq> None), d))"

definition read_file :: "str \<Rightarrow> disk \<Rightarrow> u8 list io_result \<times> disk" where
  "read_file path d = (case disk_syscall d of
       (Fault e _, d) \<Rightarrow> (Inl e, d)
     | (NoFault, d) \<Rightarrow> (Inr (disk_bytes d path), d))"

text \<open>Line and column of a byte, both from one, the column in characters.\<close>

definition position_of :: "u8 list \<Rightarrow> nat \<Rightarrow> nat \<times> nat" where
  "position_of body start =
     (let before = take (min start (length body)) body;
          line_start = (case rposition (\<lambda>b. b = newline) before of None \<Rightarrow> 0 | Some i \<Rightarrow> i + 1)
      in (length (filter (\<lambda>b. b = newline) before) + 1,
          length (chars (map (char_of \<circ> unat) (drop line_start before))) + 1))"

definition load_from :: "toml_library \<Rightarrow> str \<Rightarrow> disk \<Rightarrow> (load_error + config) \<times> disk" where
  "load_from lib path d = (case read_file path d of
       (Inl e, d) \<Rightarrow> (Inl (ReadFailed path e), d)
     | (Inr body, d) \<Rightarrow>
         if \<not> tl_utf8 lib body then (Inl (NotUtf8 path), d)
         else (case tl_parse lib body of
             Inl start \<Rightarrow> (Inl (BadToml path (map_option (position_of body) start)), d)
           | Inr c \<Rightarrow> (Inr c, d)))"

definition load_with_home ::
    "toml_library \<Rightarrow> str option \<Rightarrow> str option \<Rightarrow> str option \<Rightarrow> disk \<Rightarrow> (load_error + config) \<times> disk" where
  "load_with_home lib explicit home default_path d = (case explicit of
       Some path \<Rightarrow>
         (let path = expand_user_path path home in
          case try_exists path d of
            (Inl e, d) \<Rightarrow> (Inl (InspectFailed path e), d)
          | (Inr present, d) \<Rightarrow> if present then load_from lib path d else (Inl (NoSuchConfig path), d))
     | None \<Rightarrow>
         (case default_path of
            Some path \<Rightarrow>
              (case try_exists path d of
                 (Inl e, d) \<Rightarrow> (Inl (InspectFailed path e), d)
               | (Inr present, d) \<Rightarrow> if present then load_from lib path d else (Inr empty_config, d))
          | None \<Rightarrow> (Inr empty_config, d)))"

definition config_load ::
    "toml_library \<Rightarrow> str option \<Rightarrow> str option \<Rightarrow> str option \<Rightarrow> disk \<Rightarrow> (load_error + config) \<times> disk" where
  "config_load lib explicit xdg home d = load_with_home lib explicit home (default_config_path xdg home) d"

section \<open>Writing the template\<close>

datatype init_profile = ProfileDefault | ProfileDaemon

datatype init_outcome = Created | Overwrote

datatype init_error =
    DryRunWithInit
  | NoDefaultPath
  | CreateParentFailed str io_error
  | AlreadyExists str
  | OpenConfigFailed str io_error
  | WriteConfigFailed str io_error

record template_texts =
  tt_header :: "u8 list"
  tt_daemon_note :: "u8 list"
  tt_default_storage :: "u8 list"
  tt_daemon_storage :: "u8 list"
  tt_default_output :: "u8 list"
  tt_daemon_output :: "u8 list"
  tt_tail :: "u8 list"

definition render_config_template :: "template_texts \<Rightarrow> init_profile \<Rightarrow> u8 list" where
  "render_config_template tt profile =
     (let (header_note, storage, output) = (case profile of
          ProfileDefault \<Rightarrow> ([], tt_default_storage tt, tt_default_output tt)
        | ProfileDaemon \<Rightarrow> (tt_daemon_note tt, tt_daemon_storage tt, tt_daemon_output tt))
      in concat [tt_header tt, header_note, storage, output, tt_tail tt])"

datatype open_error = FileExists | OtherOpenError io_error

text \<open>\<^verbatim>\<open>create(true).truncate(true)\<close> with \<open>force\<close>, else \<^verbatim>\<open>create_new(true)\<close>.\<close>

definition open_config :: "bool \<Rightarrow> str \<Rightarrow> disk \<Rightarrow> (open_error + file_handle) \<times> disk" where
  "open_config force path d = (case disk_syscall d of
       (Fault e _, d) \<Rightarrow> (Inl (OtherOpenError e), d)
     | (NoFault, d) \<Rightarrow>
         if \<not> force \<and> disk_files d path \<noteq> None then (Inl FileExists, d)
         else let d = d\<lparr>disk_files := (disk_files d)(path \<mapsto> [])\<rparr> in (Inr \<lparr>fh_path = path, fh_disk = d\<rparr>, d))"

definition write_opened :: "template_texts \<Rightarrow> str \<Rightarrow> bool \<Rightarrow> init_profile \<Rightarrow> disk \<Rightarrow> (init_error + init_outcome) \<times> disk" where
  "write_opened tt path force profile d =
     (let (seen, d) = try_exists path d; pre_existed = (case seen of Inl _ \<Rightarrow> False | Inr b \<Rightarrow> b) in
      case open_config force path d of
        (Inl FileExists, d) \<Rightarrow> (Inl (AlreadyExists path), d)
      | (Inl (OtherOpenError e), d) \<Rightarrow> (Inl (OpenConfigFailed path e), d)
      | (Inr f, d) \<Rightarrow> (case file_write_all (render_config_template tt profile) f of
            (Inl e, f) \<Rightarrow> (Inl (WriteConfigFailed path e), fh_disk f)
          | (Inr _, f) \<Rightarrow> (Inr (if force \<and> pre_existed then Overwrote else Created), fh_disk f)))"

definition write_with_profile :: "template_texts \<Rightarrow> str \<Rightarrow> bool \<Rightarrow> init_profile \<Rightarrow> disk \<Rightarrow> (init_error + init_outcome) \<times> disk" where
  "write_with_profile tt path force profile d = (case create_parent path d of
       (Inl e, d) \<Rightarrow> (Inl (CreateParentFailed path e), d)
     | (Inr _, d) \<Rightarrow> write_opened tt path force profile d)"

definition write_default :: "template_texts \<Rightarrow> str \<Rightarrow> bool \<Rightarrow> disk \<Rightarrow> (init_error + init_outcome) \<times> disk" where
  "write_default tt path force d = write_with_profile tt path force ProfileDefault d"

section \<open>The beginning of the program\<close>

definition run_init ::
    "template_texts \<Rightarrow> str option \<Rightarrow> str option \<Rightarrow> str option \<Rightarrow> bool \<Rightarrow> init_profile \<Rightarrow> disk \<Rightarrow> (init_error + init_outcome) \<times> disk" where
  "run_init tt xdg home path force profile d =
     (case (case path of Some p \<Rightarrow> Some (expand_user_path p home) | None \<Rightarrow> default_config_path xdg home) of
        None \<Rightarrow> (Inl NoDefaultPath, d)
      | Some dest \<Rightarrow> write_with_profile tt dest force profile d)"

datatype start_result =
    InitDone "init_error + init_outcome"
  | LoadFailed load_error
  | SettingsRefused settings_error
  | StartServer settings

text \<open>\<^verbatim>\<open>main\<close> up to the runtime; the command line is parsed.\<close>

definition main_start ::
    "toml_library \<Rightarrow> template_texts \<Rightarrow> u64 \<Rightarrow> (str \<Rightarrow> env_lookup) \<Rightarrow> str option \<Rightarrow> str option \<Rightarrow> cli \<Rightarrow> disk \<Rightarrow> start_result \<times> disk" where
  "main_start lib tt max_permits env xdg home cli d = (case cli_command cli of
       Some (Init path force daemon) \<Rightarrow>
         if cli_dry_run cli then (InitDone (Inl DryRunWithInit), d)
         else (let (r, d) = run_init tt xdg home (or_else path (cli_config cli)) force
                 (if daemon then ProfileDaemon else ProfileDefault) d in (InitDone r, d))
     | None \<Rightarrow> (case config_load lib (cli_config cli) xdg home d of
           (Inl e, d) \<Rightarrow> (LoadFailed e, d)
         | (Inr config, d) \<Rightarrow> (case merge_with_home max_permits env cli config home of
               Inl e \<Rightarrow> (SettingsRefused e, d)
             | Inr s \<Rightarrow> (StartServer s, d))))"

section \<open>Facts\<close>

lemma disk_syscall_files: "disk_syscall d = (x, d') \<Longrightarrow> disk_files d' = disk_files d"
  by (auto simp: disk_syscall_def split: list.splits)

lemma try_exists_spec:
  "try_exists path d = (r, d') \<Longrightarrow> disk_files d' = disk_files d \<and> (case r of Inl _ \<Rightarrow> True | Inr b \<Rightarrow> b \<longleftrightarrow> path \<in> dom (disk_files d))"
  by (auto simp: try_exists_def dest: disk_syscall_files split: prod.splits fault.splits)

lemma load_from_spec:
  "load_from lib path d = (r, d') \<Longrightarrow> disk_files d' = disk_files d \<and>
     (case r of Inl _ \<Rightarrow> True | Inr c \<Rightarrow> tl_parse lib (disk_bytes d path) = Inr c)"
  by (auto simp: load_from_def read_file_def disk_bytes_def dest: disk_syscall_files
      split: prod.splits fault.splits if_splits sum.splits)

text \<open>
  A configuration is what the file says; the empty one stands only for a default path at which
  there is known to be no file.
\<close>

lemma load_spec:
  assumes "load_with_home lib explicit home default_path d = (r, d')"
  shows "disk_files d' = disk_files d" and
    "r = Inr c \<Longrightarrow> (case explicit of
        Some path \<Rightarrow> expand_user_path path home \<in> dom (disk_files d) \<and> tl_parse lib (disk_bytes d (expand_user_path path home)) = Inr c
      | None \<Rightarrow> (case default_path of
          Some path \<Rightarrow> if path \<in> dom (disk_files d) then tl_parse lib (disk_bytes d path) = Inr c else c = empty_config
        | None \<Rightarrow> c = empty_config))"
  using assms unfolding load_with_home_def Let_def
  by (auto dest!: try_exists_spec load_from_spec simp: disk_bytes_def split: option.splits prod.splits sum.splits if_splits)

lemma open_config_spec:
  "open_config force path d = (r, d') \<Longrightarrow>
     (case r of Inl _ \<Rightarrow> disk_files d' = disk_files d
      | Inr f \<Rightarrow> fh_path f = path \<and> fh_disk f = d' \<and> disk_files d' = (disk_files d)(path \<mapsto> []) \<and>
          (force \<or> path \<notin> dom (disk_files d)))"
  by (auto simp: open_config_def Let_def dest: disk_syscall_files split: prod.splits fault.splits if_splits)

lemma write_all_spec:
  "file_write_all bs f = (r, f') \<Longrightarrow> \<exists>k. fh_path f' = fh_path f \<and>
     disk_files (fh_disk f') = (disk_files (fh_disk f))(fh_path f \<mapsto> file_bytes f @ take k bs) \<and> (r = Inr () \<longrightarrow> length bs \<le> k)"
  by (auto simp: file_write_all_def set_bytes_def file_bytes_def disk_bytes_def
      dest!: syscall_keeps split: prod.splits fault.splits intro: exI [of _ "length bs"])


text \<open>
  What \<open>init\<close> may do to the files: only the destination changes, it does not change without
  \<open>force\<close> when it is there, and a success leaves the whole template there.
\<close>

definition init_effect ::
    "str \<Rightarrow> bool \<Rightarrow> u8 list \<Rightarrow> (str \<rightharpoonup> u8 list) \<Rightarrow> init_error + init_outcome \<Rightarrow> (str \<rightharpoonup> u8 list) \<Rightarrow> bool" where
  "init_effect path force content files r files' \<longleftrightarrow>
     (\<forall>p. p \<noteq> path \<longrightarrow> files' p = files p) \<and>
     (\<not> force \<and> path \<in> dom files \<longrightarrow> files' = files \<and> (\<exists>e. r = Inl e)) \<and>
     (case r of Inl _ \<Rightarrow> True | Inr out \<Rightarrow> files' path = Some content \<and> (out = Overwrote \<longrightarrow> force))"

lemma write_opened_effect:
  assumes w: "write_opened tt path force profile d = (r, d')"
  shows "init_effect path force (render_config_template tt profile) (disk_files d) r (disk_files d')"
proof -
  obtain seen d1 where t: "try_exists path d = (seen, d1)" by fastforce
  have d1: "disk_files d1 = disk_files d" using try_exists_spec [OF t] by simp
  obtain o1 d2 where op: "open_config force path d1 = (o1, d2)" by fastforce
  note os = open_config_spec [OF op]
  show ?thesis
  proof (cases o1)
    case (Inl e)
    then have "\<exists>e'. r = Inl e'" "d' = d2"
      using w by (cases e; simp add: write_opened_def t op; blast)+
    then show ?thesis using os Inl d1 by (auto simp: init_effect_def)
  next
    case (Inr f)
    then have f: "fh_path f = path" "disk_files (fh_disk f) = (disk_files d)(path \<mapsto> [])" "force \<or> path \<notin> dom (disk_files d)"
      using os d1 by simp_all
    obtain q f' where fw: "file_write_all (render_config_template tt profile) f = (q, f')" by fastforce
    obtain k where k: "disk_files (fh_disk f') = (disk_files d)(path \<mapsto> take k (render_config_template tt profile))"
        "q = Inr () \<longrightarrow> length (render_config_template tt profile) \<le> k"
      using write_all_spec [OF fw] f by (auto simp: file_bytes_def disk_bytes_def)
    have "d' = fh_disk f'" "case q of Inl _ \<Rightarrow> \<exists>e. r = Inl e | Inr _ \<Rightarrow> \<exists>out. r = Inr out \<and> (out = Overwrote \<longrightarrow> force)"
      using w by (cases q; simp add: write_opened_def t op Inr fw split: if_splits; blast)+
    then show ?thesis using k f(3) by (cases q) (auto simp: init_effect_def)
  qed
qed

lemma write_with_profile_effect:
  assumes w: "write_with_profile tt path force profile d = (r, d')"
  shows "init_effect path force (render_config_template tt profile) (disk_files d) r (disk_files d')"
proof -
  have "(\<exists>e. r = Inl e) \<and> disk_files d' = disk_files d \<or>
      (\<exists>d1. disk_files d1 = disk_files d \<and> write_opened tt path force profile d1 = (r, d'))"
    using w unfolding write_with_profile_def create_parent_def create_private_dir_def
    by (auto dest: disk_syscall_files split: option.splits if_splits prod.splits fault.splits)
  then show ?thesis
  proof
    assume "(\<exists>e. r = Inl e) \<and> disk_files d' = disk_files d"
    then show ?thesis by (auto simp: init_effect_def)
  next
    assume "\<exists>d1. disk_files d1 = disk_files d \<and> write_opened tt path force profile d1 = (r, d')"
    then show ?thesis using write_opened_effect by metis
  qed
qed

text \<open>Without \<open>force\<close> a file that is there is kept, whatever fails.\<close>

lemma init_effect_keeps: "init_effect path False content files r files' \<Longrightarrow> files \<subseteq>\<^sub>m files'"
  unfolding init_effect_def map_le_def by metis

lemma run_init_cases:
  assumes "run_init tt xdg home path force profile d = (r, d')"
  shows "r = Inl NoDefaultPath \<and> d' = d \<or> (\<exists>dest. write_with_profile tt dest force profile d = (r, d'))"
  using assms by (cases path; cases "default_config_path xdg home"; simp add: run_init_def; blast)

lemma run_init_keeps: "run_init tt xdg home path False profile d = (r, d') \<Longrightarrow> disk_files d \<subseteq>\<^sub>m disk_files d'"
  using run_init_cases [of tt xdg home path False profile d r d'] write_with_profile_effect [of tt _ False profile d r d']
  by (auto dest: init_effect_keeps)

lemma main_start_files:
  assumes m: "main_start lib tt max_permits env xdg home cli d = (r, d')"
  shows "(\<forall>path daemon. cli_command cli \<noteq> Some (Init path True daemon)) \<or> cli_dry_run cli \<Longrightarrow> disk_files d \<subseteq>\<^sub>m disk_files d'"
    and "cli_command cli = None \<or> cli_dry_run cli \<Longrightarrow> disk_files d' = disk_files d"
proof -
  have "(disk_files d' = disk_files d \<and> (cli_command cli = None \<or> cli_dry_run cli)) \<or>
      (\<exists>path force daemon profile r'. cli_command cli = Some (Init path force daemon) \<and> \<not> cli_dry_run cli \<and>
        run_init tt xdg home (or_else path (cli_config cli)) force profile d = (r', d'))"
    using m load_spec(1) unfolding main_start_def config_load_def
    by (auto split: option.splits commands.splits if_splits prod.splits sum.splits)
  then show "(\<forall>path daemon. cli_command cli \<noteq> Some (Init path True daemon)) \<or> cli_dry_run cli \<Longrightarrow> disk_files d \<subseteq>\<^sub>m disk_files d'"
    and "cli_command cli = None \<or> cli_dry_run cli \<Longrightarrow> disk_files d' = disk_files d"
    by (metis map_le_refl run_init_keeps, auto)
qed

lemma main_start_init:
  assumes m: "main_start lib tt max_permits env xdg home cli d = (InitDone (Inr out), d')"
  shows "\<exists>dest profile. disk_files d' dest = Some (render_config_template tt profile) \<and>
      (\<forall>p. p \<noteq> dest \<longrightarrow> disk_files d' p = disk_files d p)"
proof -
  obtain path force profile where "run_init tt xdg home path force profile d = (Inr out, d')"
    using m unfolding main_start_def by (auto split: option.splits commands.splits if_splits prod.splits sum.splits)
  then obtain dest where "write_with_profile tt dest force profile d = (Inr out, d')"
    using run_init_cases by blast
  from write_with_profile_effect [OF this] show ?thesis
    unfolding init_effect_def by (intro exI [of _ dest] exI [of _ profile]) simp
qed

lemma main_start_settings:
  assumes "main_start lib tt max_permits env xdg home cli d = (StartServer s, d')"
  obtains c where "config_load lib (cli_config cli) xdg home d = (Inr c, d')" "merge_with_home max_permits env cli c home = Inr s"
  using assms unfolding main_start_def
  by (auto split: option.splits commands.splits if_splits prod.splits sum.splits)

lemma cleared_env:
  "(k, v) \<in> set (clear_empty_otel_logger_env vars) \<Longrightarrow> starts_with k ''OTEL_LOGGER_'' \<Longrightarrow> v \<noteq> []"
  "distinct (map fst vars) \<Longrightarrow> (k, v) \<in> set vars \<Longrightarrow> v \<noteq> [] \<or> \<not> starts_with k ''OTEL_LOGGER_'' \<Longrightarrow>
     (k, v) \<in> set (clear_empty_otel_logger_env vars)"
  by (force simp: clear_empty_otel_logger_env_def Let_def dest: eq_key_imp_eq_value)+

section \<open>Sample starts\<close>

text \<open>The file at the default path is read; and a new file is written for unattended runs.\<close>

definition sample_toml :: toml_library where
  "sample_toml = \<lparr>tl_utf8 = \<lambda>_. True, tl_parse = \<lambda>body. if body = [35] then Inr sample_file_config else Inl (Some 0)\<rparr>"

definition sample_config_disk :: disk where
  "sample_config_disk = \<lparr>disk_files = [''/h/.config/otel-logger/config.toml'' \<mapsto> [35]], disk_faults = []\<rparr>"

definition sample_template :: template_texts where
  "sample_template = \<lparr>tt_header = [1], tt_daemon_note = [2], tt_default_storage = [3], tt_daemon_storage = [4],
     tt_default_output = [5], tt_daemon_output = [6], tt_tail = [7]\<rparr>"

lemma sample_default_path: "default_config_path None (Some ''/h'') = Some ''/h/.config/otel-logger/config.toml''"
  by code_simp

lemma sample_load: "config_load sample_toml None None (Some ''/h'') sample_config_disk = (Inr sample_file_config, sample_config_disk)"
  unfolding config_load_def sample_default_path
  by (simp add: load_with_home_def load_from_def try_exists_def read_file_def disk_syscall_def disk_bytes_def
      sample_config_disk_def sample_toml_def)

lemma sample_start:
  "main_start sample_toml sample_template 100 env None (Some ''/h'') sample_cli_args sample_config_disk =
     (StartServer sample_settings, sample_config_disk)"
proof -
  have "cli_command sample_cli_args = None" "cli_config sample_cli_args = None" by (simp_all add: sample_cli_args_def)
  then show ?thesis by (simp add: main_start_def sample_load sample_merge)
qed

definition sample_init_cli :: cli where
  "sample_init_cli = sample_cli_args\<lparr>cli_command := Some (Init (Some ''/new'') False True)\<rparr>"

definition sample_init_disk :: disk where
  "sample_init_disk = \<lparr>disk_files = [''/h/.config/otel-logger/config.toml'' \<mapsto> [35], ''/new'' \<mapsto> [1, 2, 4, 6, 7]], disk_faults = []\<rparr>"

lemma sample_init:
  "main_start sample_toml sample_template 100 (\<lambda>_. EnvNotPresent) None (Some ''/h'') sample_init_cli sample_config_disk =
     (InitDone (Inr Created), sample_init_disk)"
proof -
  have p: "expand_user_path ''/new'' (Some ''/h'') = ''/new''" "path_parent ''/new'' = Some ''/''" by code_simp+
  have c: "cli_command sample_init_cli = Some (Init (Some ''/new'') False True)" "\<not> cli_dry_run sample_init_cli"
    by (simp_all add: sample_init_cli_def sample_cli_args_def)
  have "write_with_profile sample_template ''/new'' False ProfileDaemon sample_config_disk = (Inr Created, sample_init_disk)"
    by (simp add: write_with_profile_def write_opened_def try_exists_def open_config_def create_parent_def create_private_dir_def p
        disk_syscall_def file_write_all_def syscall_def set_bytes_def file_bytes_def disk_bytes_def Let_def
        sample_config_disk_def sample_init_disk_def render_config_template_def sample_template_def)
  then show ?thesis by (simp add: main_start_def run_init_def c p)
qed

end
