(* ===== verification/Program.thy ===== *)
theory Program
  imports Pipeline Server Config_File
begin

text \<open>
  The program as \<^verbatim>\<open>src/src/main.rs\<close> puts it together: after the settings are merged it
  starts the forwarding workers, probes the outputs and addresses for a dry run or opens the sink
  and serves, and at the end cancels and joins the workers. The listeners of
  \<^verbatim>\<open>src/src/server.rs\<close>, the sink, the router and the workers then run interleaved.
\<close>

section \<open>Binding\<close>

text \<open>The sockets of the operating system: binding while some are held, and the local address.\<close>

record ('b, 's) sockets =
  so_bind :: "'s list \<Rightarrow> str \<Rightarrow> 'b + 's"
  so_local_addr :: "'s \<Rightarrow> 'b + str"

datatype 'b bind_error = BindFailed str 'b | GrpcBindFailed str 'b | HttpBindFailed str 'b | NoLocalAddr 'b

definition bind_grpc :: "('b, 's) sockets \<Rightarrow> 's list \<Rightarrow> str \<Rightarrow> 'b bind_error + 's" where
  "bind_grpc so others addr = map_sum (GrpcBindFailed addr) id (so_bind so others addr)"

definition probe_bind :: "('b, 's) sockets \<Rightarrow> str \<Rightarrow> 'b bind_error + str" where
  "probe_bind so addr = and_then (map_sum (BindFailed addr) id (so_bind so [] addr)) (\<lambda>listener.
     map_sum NoLocalAddr id (so_local_addr so listener))"

text \<open>The first listener is held while the second one is bound.\<close>

definition probe_binds :: "('b, 's) sockets \<Rightarrow> str \<Rightarrow> str \<Rightarrow> 'b bind_error + str \<times> str" where
  "probe_binds so grpc_addr http_addr =
     and_then (map_sum (GrpcBindFailed grpc_addr) id (so_bind so [] grpc_addr)) (\<lambda>grpc_listener.
     and_then (map_sum NoLocalAddr id (so_local_addr so grpc_listener)) (\<lambda>grpc.
     and_then (map_sum (HttpBindFailed http_addr) id (so_bind so [grpc_listener] http_addr)) (\<lambda>http_listener.
     and_then (map_sum NoLocalAddr id (so_local_addr so http_listener)) (\<lambda>http. Inr (grpc, http)))))"

section \<open>From the settings to the running program\<close>

datatype 'e service_error = ListenerError 'e | StorageError io_error

record ('d, 'q, 'l, 'e) program =
  pg_server :: "'e service_error server_state"
  pg_pipeline :: "('d, 'q, 'l) pipeline"

datatype ('c, 'b) start_error =
    WorkersFailed "'c spawn_error"
  | ProbeFailed io_error
  | ProbeBindFailed "'b bind_error"
  | SinkFailed io_error

datatype ('d, 'q, 'l, 'e, 'b, 'c) start_outcome =
    StartFailed "('c, 'b) start_error"
  | DryRunDone str str
  | Serve "('d, 'q, 'l, 'e) program"

text \<open>Whether the warning about a redirected stdout is written.\<close>

definition warn_if_stdout_unrotated :: "settings \<Rightarrow> bool \<Rightarrow> bool" where
  "warn_if_stdout_unrotated st stdout_is_terminal = warns_unrotated_stdout st stdout_is_terminal"

text \<open>\<^verbatim>\<open>spawn_router\<close>, where forwarding is configured: the lanes, each with the client of its worker.\<close>

definition start_proxy ::
    "nat \<Rightarrow> (nat \<Rightarrow> 'l) \<Rightarrow> (proxy_route \<Rightarrow> 'c spawn_error + 'client) \<Rightarrow> settings \<Rightarrow>
     'c spawn_error + ('l route_lane \<times> 'client) list option" where
  "start_proxy max_permits new_channel build_client st = (case st_proxy st of
       None \<Rightarrow> Inr None
     | Some proxy_cfg \<Rightarrow> and_then (spawn_lanes max_permits new_channel build_client proxy_cfg) (\<lambda>handle. Inr (Some handle)))"

text \<open>
  The block of \<^verbatim>\<open>main\<close> from the settings on. At the end of a dry run the workers, which have had
  nothing to send, are cancelled and joined. \<open>Serve\<close> is where \<^verbatim>\<open>server::run\<close> begins.
\<close>

definition run_settings ::
    "nat \<Rightarrow> (nat \<Rightarrow> 'l) \<Rightarrow> (proxy_route \<Rightarrow> 'c spawn_error + 'client) \<Rightarrow> ('b, 's) sockets \<Rightarrow> 'd sink_library \<Rightarrow> 'd surroundings \<Rightarrow> 'q \<Rightarrow>
     str option \<Rightarrow> bool \<Rightarrow> (nat \<Rightarrow> time) \<Rightarrow> settings \<Rightarrow> disk \<Rightarrow> ('d, 'q, 'l, 'e, 'b, 'c) start_outcome \<times> disk" where
  "run_settings max_permits new_channel build_client so lib su tx no_color is_terminal clk st d =
     (case start_proxy max_permits new_channel build_client st of
        Inl e \<Rightarrow> (StartFailed (WorkersFailed e), d)
      | Inr proxy_handle \<Rightarrow>
          if st_dry_run st then
            (case probe_settings lib su st d of
               (Inl e, d) \<Rightarrow> (StartFailed (ProbeFailed e), d)
             | (Inr _, d) \<Rightarrow> (case probe_binds so (st_grpc_addr st) (st_http_addr st) of
                   Inl e \<Rightarrow> (StartFailed (ProbeBindFailed e), d)
                 | Inr (grpc, http) \<Rightarrow> (DryRunDone grpc http, d)))
          else
            let router = map_option (\<lambda>handle. router_new (map fst handle)) proxy_handle in
            (case sink_from_settings lib su tx no_color is_terminal clk st router d of
               (Inl e, d) \<Rightarrow> (StartFailed (SinkFailed e), d)
             | (Inr (sk, _), d) \<Rightarrow> (Serve \<lparr>pg_server = server_start, pg_pipeline = pipeline_start sk\<rparr>, d)))"

section \<open>The running program\<close>

fun worker_stopping :: "worker_phase \<Rightarrow> bool" where
  "worker_stopping Running = False"
| "worker_stopping (Sending _) = False"
| "worker_stopping _ = True"

definition server_returned :: "'e server_state \<Rightarrow> bool" where
  "server_returned s \<longleftrightarrow> (case sv_phase s of Returned _ \<Rightarrow> True | _ \<Rightarrow> False)"

text \<open>
  The server alone, up to the shutdown of the sink; the tasks of the batches, the writers and the
  workers, of which none is told to stop before the server has returned; and the shutdown of the
  sink, whose result ends the run of the server. Tasks go on when their connections are aborted.
\<close>

inductive program_step ::
    "('q, pretty_job) channel_ops \<Rightarrow> ('l, export_request) channel_ops \<Rightarrow> 'd sink_library \<Rightarrow> ('x \<Rightarrow> nat option) \<Rightarrow> u32 \<Rightarrow>
     ('d, 'q, 'l, 'e) program \<Rightarrow> ('d, 'q, 'l, 'e) program \<Rightarrow> bool"
  for qops :: "('q, pretty_job) channel_ops" and lops :: "('l, export_request) channel_ops" and lib :: "'d sink_library"
    and retry :: "'x \<Rightarrow> nat option" and retry_max :: u32 where
  ServerMoves: "server_step (pg_server g) s \<Longrightarrow> sv_sink_shutdowns s = sv_sink_shutdowns (pg_server g) \<Longrightarrow>
    program_step qops lops lib retry retry_max g (g\<lparr>pg_server := s\<rparr>)"
| TasksMove: "pipeline_step qops lops lib retry retry_max (pg_pipeline g) p \<Longrightarrow>
    sk_admission (ss_sink (pl_sink p)) = sk_admission (ss_sink (pl_sink (pg_pipeline g))) \<Longrightarrow>
    ss_locked (pl_sink p) = ss_locked (pl_sink (pg_pipeline g)) \<Longrightarrow>
    \<forall>i < length (pl_workers p). worker_stopping (pl_workers p ! i) \<longrightarrow>
      worker_stopping (pl_workers (pg_pipeline g) ! i) \<or> server_returned (pg_server g) \<Longrightarrow>
    program_step qops lops lib retry retry_max g (g\<lparr>pg_pipeline := p\<rparr>)"
| SinkCloses: "sv_phase (pg_server g) = ClosingSink result \<Longrightarrow> \<not> ss_locked (pl_sink (pg_pipeline g)) \<Longrightarrow>
    list_all (\<lambda>t. \<not> in_flight (snd t)) (ss_tasks (pl_sink (pg_pipeline g))) \<Longrightarrow>
    program_step qops lops lib retry retry_max g
      (g\<lparr>pg_pipeline := (pg_pipeline g)\<lparr>pl_sink := shutdown_close (pl_sink (pg_pipeline g))\<rparr>\<rparr>)"
| SinkFlushes: "sv_phase (pg_server g) = ClosingSink result \<Longrightarrow> ss_locked (pl_sink (pg_pipeline g)) \<Longrightarrow>
    program_step qops lops lib retry retry_max g
      \<lparr>pg_server = sink_closed result (map_sum StorageError id (fst (sink_flush (ss_sink (pl_sink (pg_pipeline g)))))) (pg_server g),
       pg_pipeline = (pg_pipeline g)\<lparr>pl_sink := shutdown_flush (pl_sink (pg_pipeline g))\<rparr>\<rparr>"

inductive program_reachable ::
    "('q, pretty_job) channel_ops \<Rightarrow> ('l, export_request) channel_ops \<Rightarrow> 'd sink_library \<Rightarrow> ('x \<Rightarrow> nat option) \<Rightarrow> u32 \<Rightarrow>
     ('d, 'q, 'l, 'e) program \<Rightarrow> ('d, 'q, 'l, 'e) program \<Rightarrow> bool"
  for qops :: "('q, pretty_job) channel_ops" and lops :: "('l, export_request) channel_ops" and lib :: "'d sink_library"
    and retry :: "'x \<Rightarrow> nat option" and retry_max :: u32 and g0 :: "('d, 'q, 'l, 'e) program" where
  Begin: "program_reachable qops lops lib retry retry_max g0 g0"
| More: "program_reachable qops lops lib retry retry_max g0 g \<Longrightarrow> program_step qops lops lib retry retry_max g g' \<Longrightarrow>
    program_reachable qops lops lib retry retry_max g0 g'"

text \<open>The result of the block that \<^verbatim>\<open>main\<close> runs: that of the server, once the workers have been joined.\<close>

definition main_returns :: "('d, 'q, 'l, 'e) program \<Rightarrow> 'e service_error run_error + unit \<Rightarrow> bool" where
  "main_returns g r \<longleftrightarrow> sv_phase (pg_server g) = Returned r \<and> list_all (\<lambda>ph. ph = Stopped) (pl_workers (pg_pipeline g))"

section \<open>The parts of a run\<close>

lemma flush_proxy: "sk_proxy (snd (sink_flush sk)) = sk_proxy sk"
  by (auto simp: sink_flush_def split: option.splits prod.splits)

lemma step_pipeline:
  assumes "program_step qops lops lib retry retry_max g g'"
  shows "pg_pipeline g' = pg_pipeline g \<or> pipeline_step qops lops lib retry retry_max (pg_pipeline g) (pg_pipeline g')"
  using assms
proof (cases rule: program_step.cases)
  case (SinkCloses result)
  then show ?thesis using SinkMoves [OF sink_step.Close, of "pg_pipeline g" qops lops lib retry retry_max] by (simp add: shutdown_close_def)
next
  case (SinkFlushes result)
  then show ?thesis using flush_proxy [of "ss_sink (pl_sink (pg_pipeline g))"] SinkMoves [OF sink_step.Flush, of "pg_pipeline g" qops lops lib retry retry_max] by (simp add: shutdown_flush_def)
qed auto

lemma run_pipeline:
  "program_reachable qops lops lib retry retry_max g0 g \<Longrightarrow>
     pipeline_reachable qops lops lib retry retry_max (pg_pipeline g0) (pg_pipeline g)"
proof (induction rule: program_reachable.induct)
  case (More g g')
  then show ?case using step_pipeline pipeline_reachable.More by metis
qed (rule pipeline_reachable.Begin)

lemma step_server:
  assumes "program_step qops lops lib retry retry_max g g'"
  shows "pg_server g' = pg_server g \<or> server_step (pg_server g) (pg_server g')"
  using assms by (cases rule: program_step.cases) (auto intro: SinkClosed)

lemma run_server:
  "program_reachable qops lops lib retry retry_max g0 g \<Longrightarrow> server_reachable (pg_server g0) \<Longrightarrow> server_reachable (pg_server g)"
proof (induction rule: program_reachable.induct)
  case (More g g')
  then show ?case using step_server server_reachable.Step by metis
qed

lemma acknowledged_grows:
  "program_reachable qops lops lib retry retry_max g0 g \<Longrightarrow>
     acknowledged (pl_sink (pg_pipeline g0)) \<subseteq># acknowledged (pl_sink (pg_pipeline g))"
proof (induction rule: program_reachable.induct)
  case (More g g')
  have "acknowledged (pl_sink (pg_pipeline g)) \<subseteq># acknowledged (pl_sink (pg_pipeline g'))"
    using step_pipeline [OF More.hyps(2)]
  proof
    assume "pipeline_step qops lops lib retry retry_max (pg_pipeline g) (pg_pipeline g')"
    from sink_step_acknowledged [OF pipeline_sink_step [OF this]] show ?thesis
      by (auto simp: acknowledged_forward)
  qed simp
  with More.IH show ?case by (rule subset_mset.trans)
qed simp

section \<open>The order of the shutdown\<close>

text \<open>
  When the server has returned the sink is closed and not locked, and before that no worker stops.
  The sink is locked and its admission closed only while the server waits for it.
\<close>

definition in_order :: "('d, 'q, 'l, 'e) program \<Rightarrow> bool" where
  "in_order g \<longleftrightarrow> tasks_ok (pl_sink (pg_pipeline g)) \<and>
     (ss_locked (pl_sink (pg_pipeline g)) \<longrightarrow> (\<exists>result. sv_phase (pg_server g) = ClosingSink result)) \<and>
     (server_returned (pg_server g) \<longrightarrow> closed (pl_sink (pg_pipeline g)) \<and> \<not> ss_locked (pl_sink (pg_pipeline g))) \<and>
     (\<forall>i < length (pl_workers (pg_pipeline g)). worker_stopping (pl_workers (pg_pipeline g) ! i) \<longrightarrow> server_returned (pg_server g))"

lemma server_step_returned:
  assumes "server_step s s'"
  shows "server_returned s \<Longrightarrow> server_returned s'"
    and "sv_sink_shutdowns s' = sv_sink_shutdowns s \<Longrightarrow> server_returned s' = server_returned s"
  using assms
  by (induction rule: server_step.induct; auto simp: server_returned_def take_signal_def listener_stopped_def stop_requested_def
      abandon_listeners_def sink_closed_def split: if_splits)+

lemma server_step_closing:
  "server_step s s' \<Longrightarrow> sv_sink_shutdowns s' = sv_sink_shutdowns s \<Longrightarrow> sv_phase s = ClosingSink result \<Longrightarrow> sv_phase s' = ClosingSink result"
  by (induction rule: server_step.induct) (auto simp: take_signal_def sink_closed_def split: if_splits)

lemma pipeline_step_workers: "pipeline_step qops lops lib retry retry_max p p' \<Longrightarrow> length (pl_workers p') = length (pl_workers p)"
  by (induction rule: pipeline_step.induct) (simp_all add: put_worker_def)

lemma in_order_step:
  assumes "program_step qops lops lib retry retry_max g g'" and "in_order g"
  shows "in_order g'"
  using assms(1)
proof (cases rule: program_step.cases)
  case (ServerMoves s)
  then show ?thesis using assms(2) server_step_returned(2) [OF ServerMoves(2,3)] server_step_closing [OF ServerMoves(2,3)]
    by (auto simp: in_order_def)
next
  case (TasksMove p)
  note k = pipeline_sink_step [OF TasksMove(2)]
  have "tasks_ok (pl_sink p)" using tasks_ok_step [OF k] assms(2) by (simp add: in_order_def)
  moreover have "closed (pl_sink p) \<and> \<not> ss_locked (pl_sink p)" if "server_returned (pg_server g)"
    using closed_step [OF k] TasksMove(4) assms(2) that by (simp add: in_order_def)
  ultimately show ?thesis
    using TasksMove(1,4,5) pipeline_step_workers [OF TasksMove(2)] assms(2) by (auto simp: in_order_def)
next
  case (SinkCloses result)
  have "\<not> server_returned (pg_server g)" using SinkCloses(2) by (simp add: server_returned_def)
  then show ?thesis
    using SinkCloses tasks_ok_step [OF sink_step.Close [OF SinkCloses(4,3)]] assms(2)
    by (auto simp: in_order_def)
next
  case (SinkFlushes result)
  let ?s = "pl_sink (pg_pipeline g)"
  have ok: "tasks_ok ?s" using assms(2) by (simp add: in_order_def)
  then have "closed ?s" using SinkFlushes(3) by (auto simp: tasks_ok_def closed_def)
  then have "closed (shutdown_flush ?s)" using closed_step [OF sink_step.Flush [OF SinkFlushes(3)]] by blast
  moreover have "\<not> server_returned (pg_server g)" using SinkFlushes(2) by (simp add: server_returned_def)
  ultimately show ?thesis
    using SinkFlushes(1) tasks_ok_step [OF sink_step.Flush [OF SinkFlushes(3)] ok] assms(2)
    by (simp add: in_order_def server_returned_def sink_closed_def shutdown_flush_def)
qed

lemma in_order_start: "in_order \<lparr>pg_server = server_start, pg_pipeline = pipeline_start sk\<rparr>"
  by (auto simp: in_order_def server_returned_def server_start_def pipeline_start_def sink_start_def tasks_ok_def split: option.splits)

lemma in_order_reachable:
  "program_reachable qops lops lib retry retry_max \<lparr>pg_server = server_start, pg_pipeline = pipeline_start sk\<rparr> g \<Longrightarrow> in_order g"
  by (induction rule: program_reachable.induct) (auto intro: in_order_start in_order_step)

text \<open>What a start makes of the settings.\<close>

lemma spawned_lanes:
  assumes "spawn_lanes max_permits new_channel build_client ps = Inr handle"
  shows "map ln_route (map fst handle) = ps_routes ps"
    and "lane \<in> set (map fst handle) \<Longrightarrow> ln_metrics lane = default_metrics \<and> ln_sender lane = new_channel (max (unat (ps_queue_capacity ps)) 1)"
proof -
  have l: "list_all2 (\<lambda>route y. ln_route (fst y) = route \<and> ln_metrics (fst y) = default_metrics \<and> ln_sender (fst y) = new_channel (max (unat (ps_queue_capacity ps)) 1))
      (ps_routes ps) handle"
    using assms by (auto simp: spawn_lanes_def Let_def try_map_Inr and_then_def split: if_splits sum.splits elim!: list_all2_mono)
  show "map ln_route (map fst handle) = ps_routes ps"
    using l by (auto simp: list_all2_conv_all_nth intro: nth_equalityI)
  show "lane \<in> set (map fst handle) \<Longrightarrow> ln_metrics lane = default_metrics \<and> ln_sender lane = new_channel (max (unat (ps_queue_capacity ps)) 1)"
    using l by (fastforce simp: list_all2_conv_all_nth in_set_conv_nth)
qed

lemma started:
  assumes "run_settings max_permits new_channel build_client so lib su tx no_color is_terminal clk st d = (Serve g, d')"
  obtains proxy_handle sk pretty where "start_proxy max_permits new_channel build_client st = Inr proxy_handle" "\<not> st_dry_run st"
    "sink_from_settings lib su tx no_color is_terminal clk st (map_option (\<lambda>handle. router_new (map fst handle)) proxy_handle) d =
      (Inr (sk, pretty), d')" "g = \<lparr>pg_server = server_start, pg_pipeline = pipeline_start sk\<rparr>"
  using assms unfolding run_settings_def Let_def by (auto split: sum.splits if_splits prod.splits)

lemma opened_proxy:
  "sink_from_settings lib su tx no_color is_terminal clk st proxy d = (Inr (sk, pretty), d') \<Longrightarrow> sk_proxy sk = proxy"
  by (auto simp: sink_from_settings_def Let_def split: sum.splits option.splits prod.splits)

section \<open>The lanes of a running program\<close>

text \<open>Settings with forwarding: the router of the running program has a fresh lane for each route.\<close>

lemma started_proxy:
  assumes "run_settings max_permits (\<lambda>_. fifo_new) build_client so lib su tx no_color is_terminal clk st d = (Serve g0, d')"
    and "st_proxy st = Some ps"
  obtains sk lanes pretty where "g0 = \<lparr>pg_server = server_start, pg_pipeline = pipeline_start sk\<rparr>"
    "sk_proxy sk = Some (router_new lanes)" "map ln_route lanes = ps_routes ps" "\<forall>lane \<in> set lanes. fifo_lane.fresh_lane lane"
    "sink_from_settings lib su tx no_color is_terminal clk st (Some (router_new lanes)) d = (Inr (sk, pretty), d')"
proof -
  obtain proxy_handle sk pretty where s: "start_proxy max_permits (\<lambda>_. fifo_new) build_client st = Inr proxy_handle"
    "sink_from_settings lib su tx no_color is_terminal clk st (map_option (\<lambda>handle. router_new (map fst handle)) proxy_handle) d =
      (Inr (sk, pretty), d')" "g0 = \<lparr>pg_server = server_start, pg_pipeline = pipeline_start sk\<rparr>"
    using started [OF assms(1)] by metis
  obtain handle where h: "proxy_handle = Some handle" "spawn_lanes max_permits (\<lambda>_. fifo_new) build_client ps = Inr handle"
    using s(1) assms(2) by (auto simp: start_proxy_def and_then_def split: sum.splits)
  have "fifo_lane.fresh_lane lane" if "lane \<in> set (map fst handle)" for lane
    using spawned_lanes(2) [OF h(2) that] by (auto simp: fifo_lane.fresh_lane_def fifo_new_def)
  then show thesis using that [OF s(3)] opened_proxy [OF s(2)] spawned_lanes(1) [OF h(2)] s(2) by (simp add: h(1))
qed

lemma running_lane:
  assumes "run_settings max_permits (\<lambda>_. fifo_new) build_client so lib su tx no_color is_terminal clk st d = (Serve g0, d')"
    and "st_proxy st = Some ps" and "disjoint_routes (ps_routes ps)"
    and "program_reachable qops (fifo_ops cap) lib retry retry_max g0 g" and "i < length (ps_routes ps)"
  shows "fifo_lane.lane_ok cap (ps_routes ps ! i) (acknowledged (pl_sink (pg_pipeline g)))
    (worker_view (pl_lanes (pg_pipeline g) ! i) (pl_workers (pg_pipeline g) ! i))"
proof -
  obtain sk lanes where g0: "g0 = \<lparr>pg_server = server_start, pg_pipeline = pipeline_start sk\<rparr>"
    "sk_proxy sk = Some (router_new lanes)" "map ln_route lanes = ps_routes ps" "\<forall>lane \<in> set lanes. fifo_lane.fresh_lane lane"
    using started_proxy [OF assms(1,2)] by metis
  have i: "i < length lanes" "ln_route (lanes ! i) = ps_routes ps ! i"
    using arg_cong [OF g0(3), of length] arg_cong [OF g0(3), of "\<lambda>xs. xs ! i"] assms(5) by simp_all
  have "pipeline_reachable qops (fifo_ops cap) lib retry retry_max (pipeline_start sk) (pg_pipeline g)"
    using run_pipeline [OF assms(4)] by (simp add: g0(1))
  from fifo_lane.reachable_lane(3) [OF this g0(2) _ g0(4) i(1)] assms(3) g0(3) i(2) show ?thesis by simp
qed

section \<open>Dry runs\<close>

lemma probe_binds_Inr:
  "probe_binds so grpc_addr http_addr = Inr (g, h) \<longleftrightarrow> (\<exists>a b. so_bind so [] grpc_addr = Inr a \<and> so_bind so [a] http_addr = Inr b \<and>
     so_local_addr so a = Inr g \<and> so_local_addr so b = Inr h)"
  by (auto simp: probe_binds_def and_then_def map_sum_def split: sum.splits)

lemma dry_run_outcome:
  assumes "st_dry_run st" and "run_settings max_permits new_channel build_client so lib su tx no_color is_terminal clk st d = (r, d')"
  shows "same_contents d d'" and "r \<noteq> Serve g"
    and "r = DryRunDone grpc http \<Longrightarrow> probe_binds so (st_grpc_addr st) (st_http_addr st) = Inr (grpc, http)"
proof -
  obtain q d1 where p: "probe_settings lib su st d = (q, d1)" by (cases "probe_settings lib su st d")
  have "d' = d \<or> d' = d1" using assms p by (auto simp: run_settings_def Let_def split: sum.splits)
  with probe_settings_contents [OF p] show "same_contents d d'" by (auto simp: same_contents_def)
  show "r \<noteq> Serve g" and "r = DryRunDone grpc http \<Longrightarrow> probe_binds so (st_grpc_addr st) (st_http_addr st) = Inr (grpc, http)"
    using assms p by (auto simp: run_settings_def Let_def split: sum.splits)
qed

end
