(* ===== verification/Program_Ends.thy ===== *)
theory Program_Ends
  imports Program
begin

text \<open>
  The program can end from every state it can get into: the server stops, the tasks under way run
  to their end, the sink is closed and the workers drain their queues. So no part waits for
  another that waits for it.
\<close>

section \<open>Runs of a program\<close>

lemma program_trans:
  "program_reachable qops lops lib retry retry_max g1 g2 \<Longrightarrow> program_reachable qops lops lib retry retry_max g0 g1 \<Longrightarrow>
     program_reachable qops lops lib retry retry_max g0 g2"
  by (induction rule: program_reachable.induct) (auto intro: program_reachable.More)

lemma one_step: "program_step qops lops lib retry retry_max g g' \<Longrightarrow> program_reachable qops lops lib retry retry_max g g'"
  by (rule program_reachable.More [OF program_reachable.Begin])

text \<open>Every lane has one worker.\<close>

lemma lanes_workers_step:
  assumes "pipeline_step qops lops lib retry retry_max p p'" and "length (pl_lanes p) = length (pl_workers p)"
  shows "length (pl_lanes p') = length (pl_workers p')"
  using assms
  by (induction rule: pipeline_step.induct)
    (auto simp: pl_lanes_def task_forward_def forward_def notify_def put_worker_def put_lane_def split: option.splits)

lemma lanes_workers:
  "pipeline_reachable qops lops lib retry retry_max p0 p \<Longrightarrow> length (pl_lanes p0) = length (pl_workers p0) \<Longrightarrow>
     length (pl_lanes p) = length (pl_workers p)"
  by (induction rule: pipeline_reachable.induct) (auto intro: lanes_workers_step)

lemma lanes_workers_start: "length (pl_lanes (pipeline_start sk)) = length (pl_workers (pipeline_start sk))"
  by (simp add: pl_lanes_def pipeline_start_def sink_start_def split: option.splits)

section \<open>The server gets to closing the sink\<close>

lemma server_stops:
  assumes "server_ok (pg_server g)" and "\<not> server_returned (pg_server g)"
  shows "\<exists>g' result. program_reachable qops lops lib retry retry_max g g' \<and> pg_pipeline g' = pg_pipeline g \<and>
    sv_phase (pg_server g') = ClosingSink result"
proof -
  let ?go = "program_reachable qops lops lib retry retry_max"
  have close: "\<exists>g' result. ?go h g' \<and> pg_pipeline g' = pg_pipeline h \<and> sv_phase (pg_server g') = ClosingSink result"
    if "sv_phase (pg_server h) = AwaitingTasks grpc http result waited" for h grpc http result waited
  proof -
    have "?go h (h\<lparr>pg_server := abandon_listeners result (pg_server h)\<rparr>)"
      by (rule one_step, rule ServerMoves [OF GraceOver [OF that]]) (simp add: abandon_listeners_def)
    then show ?thesis by (intro exI conjI, assumption) (simp_all add: abandon_listeners_def)
  qed
  have stop: "\<exists>g' result. ?go h g' \<and> pg_pipeline g' = pg_pipeline h \<and> sv_phase (pg_server g') = ClosingSink result"
    if "sv_phase (pg_server h) = Serving" "sv_stopping (pg_server h)" for h
  proof -
    let ?h = "h\<lparr>pg_server := stop_requested (pg_server h)\<rparr>"
    have "?go h ?h" by (rule one_step, rule ServerMoves [OF StopFirst [OF that]]) (simp add: stop_requested_def)
    moreover obtain g' result where "?go ?h g'" "pg_pipeline g' = pg_pipeline ?h" "sv_phase (pg_server g') = ClosingSink result"
      using close [of ?h False False "Inr ()" "Inr ()"] by (auto simp: stop_requested_def)
    ultimately show ?thesis using program_trans by fastforce
  qed
  show ?thesis
  proof (cases "sv_phase (pg_server g)")
    case Serving
    show ?thesis
    proof (cases "sv_stopping (pg_server g)")
      case False
      then have n: "sv_signals (pg_server g) = 0" using assms(1) by (auto simp: server_ok_def)
      let ?h = "g\<lparr>pg_server := take_signal (pg_server g)\<rparr>"
      have "server_step (pg_server g) (take_signal (pg_server g))" by (rule Signal) (simp_all add: n Serving)
      then have "?go g ?h" by (rule one_step [OF ServerMoves]) (simp add: take_signal_def n)
      moreover obtain g' result where "?go ?h g'" "pg_pipeline g' = pg_pipeline ?h" "sv_phase (pg_server g') = ClosingSink result"
        using stop [of ?h] Serving by (auto simp: take_signal_def n)
      ultimately show ?thesis using program_trans by fastforce
    qed (rule stop [OF Serving])
  next
    case (AwaitingTasks grpc http result waited)
    then show ?thesis by (rule close)
  next
    case (ClosingSink result)
    then show ?thesis using program_reachable.Begin by blast
  next
    case (Returned r)
    with assms(2) show ?thesis by (simp add: server_returned_def)
  qed
qed

section \<open>The tasks under way end\<close>

fun phase_left :: "task_phase \<Rightarrow> nat" where
  "phase_left TaskAdmitted = 5"
| "phase_left (TaskPersisted _) = 4"
| "phase_left TaskSaved = 3"
| "phase_left (TaskIngested _) = 2"
| "phase_left TaskQueued = 1"
| "phase_left _ = 0"

definition tasks_left :: "('d, 'q, 'l) sink_state \<Rightarrow> nat" where
  "tasks_left s = sum_list (map (phase_left \<circ> snd) (ss_tasks s))"

lemma phase_left_flight: "0 < phase_left ph \<longleftrightarrow> in_flight ph"
  by (cases ph) simp_all

lemma tasks_left_less:
  assumes "task_at s i rcd ph" and "phase_left ph' < phase_left ph" and "ss_tasks s' = ss_tasks s"
  shows "tasks_left (set_task i rcd ph' s') < tasks_left s"
proof -
  have i: "i < length (ss_tasks s)" "ss_tasks s ! i = (rcd, ph)" using assms(1) by (simp_all add: task_at_def)
  then have "phase_left ph \<le> tasks_left s"
    using elem_le_sum_list [of i "map (phase_left \<circ> snd) (ss_tasks s)"] by (simp add: tasks_left_def)
  then show ?thesis using i assms(2,3) by (simp add: tasks_left_def set_task_def map_update sum_list_update)
qed

text \<open>A step of the sink that leaves the lanes, the admission and its lock alone is a step of the program.\<close>

definition quiet :: "('d, 'q, 'l) sink_state \<Rightarrow> ('d, 'q, 'l) sink_state \<Rightarrow> bool" where
  "quiet s s' \<longleftrightarrow> sk_admission (ss_sink s') = sk_admission (ss_sink s) \<and> ss_locked s' = ss_locked s"

lemma quiet_sink_step:
  assumes "sink_step qops lops lib (pl_sink (pg_pipeline g)) s" and "sk_proxy (ss_sink s) = sk_proxy (ss_sink (pl_sink (pg_pipeline g)))"
    and "quiet (pl_sink (pg_pipeline g)) s"
  shows "program_step qops lops lib retry retry_max g (g\<lparr>pg_pipeline := (pg_pipeline g)\<lparr>pl_sink := s\<rparr>\<rparr>)"
  by (rule TasksMove [OF SinkMoves [OF assms(1,2)]]) (use assms(3) in \<open>simp_all add: quiet_def\<close>)

lemma forward_step:
  assumes "task_at (pl_sink (pg_pipeline g)) i rcd TaskQueued"
  shows "program_step qops lops lib retry retry_max g
    (g\<lparr>pg_pipeline := (pg_pipeline g)\<lparr>pl_sink := task_forward lops i rcd (pl_sink (pg_pipeline g))\<rparr>\<rparr>)"
  by (rule TasksMove [OF Notifies [OF assms]]) (simp_all add: task_forward_def forward_def)

lemma quiet_ops:
  "quiet s (task_persist lib su i rcd s)" "sk_proxy (ss_sink (task_persist lib su i rcd s)) = sk_proxy (ss_sink s)"
  "quiet s (task_health now i rcd result s)" "sk_proxy (ss_sink (task_health now i rcd result s)) = sk_proxy (ss_sink s)"
  "quiet s (task_ingest i rcd s)" "sk_proxy (ss_sink (task_ingest i rcd s)) = sk_proxy (ss_sink s)"
  "quiet s (task_queue qops lib i rcd want s)" "sk_proxy (ss_sink (task_queue qops lib i rcd want s)) = sk_proxy (ss_sink s)"
  "quiet s (task_forward lops i rcd s)"
  by (auto simp: quiet_def task_forward_def forward_def task_persist_def write_jsonl_def task_health_def note_health_def task_ingest_def ingest_record_def
      task_queue_def queue_pretty_def Let_def split: prod.splits option.splits sum.splits)

lemma ops_left:
  "task_at s i rcd TaskAdmitted \<Longrightarrow> tasks_left (task_persist lib su i rcd s) < tasks_left s"
  "task_at s i rcd (TaskPersisted result) \<Longrightarrow> tasks_left (task_health now i rcd result s) < tasks_left s"
  "task_at s i rcd TaskSaved \<Longrightarrow> tasks_left (task_ingest i rcd s) < tasks_left s"
  "task_at s i rcd (TaskIngested want) \<Longrightarrow> tasks_left (task_queue qops lib i rcd want s) < tasks_left s"
  "task_at s i rcd TaskQueued \<Longrightarrow> tasks_left (task_forward lops i rcd s) < tasks_left s"
  by (auto simp: task_persist_def task_health_def task_ingest_def task_queue_def task_forward_def
      intro!: tasks_left_less split: prod.splits sum.splits)

lemma task_moves:
  assumes at: "task_at (pl_sink (pg_pipeline g)) i rcd ph" and "in_flight ph"
  shows "\<exists>s. program_step qops lops lib retry retry_max g (g\<lparr>pg_pipeline := (pg_pipeline g)\<lparr>pl_sink := s\<rparr>\<rparr>) \<and>
    quiet (pl_sink (pg_pipeline g)) s \<and> tasks_left s < tasks_left (pl_sink (pg_pipeline g))"
proof (cases ph)
  case TaskAdmitted
  note a = at [unfolded TaskAdmitted]
  show ?thesis by (rule exI, rule conjI, rule quiet_sink_step [OF Persist [OF a]]) (simp_all add: quiet_ops ops_left a)
next
  case (TaskPersisted result)
  note a = at [unfolded TaskPersisted]
  show ?thesis by (rule exI, rule conjI, rule quiet_sink_step [OF Health [OF a]]) (simp_all add: quiet_ops ops_left a)
next
  case TaskSaved
  note a = at [unfolded TaskSaved]
  show ?thesis by (rule exI, rule conjI, rule quiet_sink_step [OF Ingest [OF a]]) (simp_all add: quiet_ops ops_left a)
next
  case (TaskIngested want)
  note a = at [unfolded TaskIngested]
  show ?thesis by (rule exI, rule conjI, rule quiet_sink_step [OF Queue [OF a]]) (simp_all add: quiet_ops ops_left a)
next
  case TaskQueued
  note a = at [unfolded TaskQueued]
  show ?thesis by (rule exI, rule conjI, rule forward_step [OF a])
    (simp_all add: ops_left a quiet_ops)
qed (use assms(2) in simp_all)

lemma tasks_end:
  "\<exists>g'. program_reachable qops lops lib retry retry_max g g' \<and> pg_server g' = pg_server g \<and>
     quiet (pl_sink (pg_pipeline g)) (pl_sink (pg_pipeline g')) \<and> list_all (\<lambda>t. \<not> in_flight (snd t)) (ss_tasks (pl_sink (pg_pipeline g')))"
proof (induction "tasks_left (pl_sink (pg_pipeline g))" arbitrary: g rule: less_induct)
  case less
  show ?case
  proof (cases "list_all (\<lambda>t. \<not> in_flight (snd t)) (ss_tasks (pl_sink (pg_pipeline g)))")
    case True
    then show ?thesis using program_reachable.Begin by (intro exI [of _ g]) (simp add: quiet_def)
  next
    case False
    then obtain i rcd ph where "task_at (pl_sink (pg_pipeline g)) i rcd ph" "in_flight ph"
      by (auto simp: list_all_length task_at_def) (metis surjective_pairing)
    from task_moves [OF this, where qops = qops and lops = lops and lib = lib and retry = retry and retry_max = retry_max]
    obtain s where s: "program_step qops lops lib retry retry_max g (g\<lparr>pg_pipeline := (pg_pipeline g)\<lparr>pl_sink := s\<rparr>\<rparr>)"
      "quiet (pl_sink (pg_pipeline g)) s" "tasks_left s < tasks_left (pl_sink (pg_pipeline g))" by blast
    let ?h = "g\<lparr>pg_pipeline := (pg_pipeline g)\<lparr>pl_sink := s\<rparr>\<rparr>"
    obtain g' where "program_reachable qops lops lib retry retry_max ?h g'" "pg_server g' = pg_server ?h"
      "quiet s (pl_sink (pg_pipeline g'))" "list_all (\<lambda>t. \<not> in_flight (snd t)) (ss_tasks (pl_sink (pg_pipeline g')))"
      using less [of ?h] s(3) by auto
    then show ?thesis using program_trans [OF _ one_step [OF s(1)]] s(2) by (intro exI [of _ g']) (simp add: quiet_def)
  qed
qed

text \<open>Then the sink is closed and flushed, and the server returns.\<close>

lemma sink_shuts_down:
  assumes "in_order g" and "sv_phase (pg_server g) = ClosingSink result"
  shows "\<exists>g' r. program_reachable qops lops lib retry retry_max g g' \<and> sv_phase (pg_server g') = Returned r"
proof -
  let ?go = "program_reachable qops lops lib retry retry_max"
  have flush: "\<exists>g' r. ?go h g' \<and> sv_phase (pg_server g') = Returned r"
    if "sv_phase (pg_server h) = ClosingSink result" "ss_locked (pl_sink (pg_pipeline h))" for h
    using one_step [OF SinkFlushes [OF that, of qops lops lib retry retry_max]] by (intro exI conjI, assumption) (simp add: sink_closed_def)
  show ?thesis
  proof (cases "ss_locked (pl_sink (pg_pipeline g))")
    case False
    obtain h where h: "?go g h" "pg_server h = pg_server g" "quiet (pl_sink (pg_pipeline g)) (pl_sink (pg_pipeline h))"
      "list_all (\<lambda>t. \<not> in_flight (snd t)) (ss_tasks (pl_sink (pg_pipeline h)))"
      using tasks_end by blast
    let ?h = "h\<lparr>pg_pipeline := (pg_pipeline h)\<lparr>pl_sink := shutdown_close (pl_sink (pg_pipeline h))\<rparr>\<rparr>"
    have "?go g ?h"
      by (rule program_reachable.More [OF h(1) SinkCloses]) (use h False assms(2) in \<open>simp_all add: quiet_def\<close>)
    moreover obtain g' r where "?go ?h g'" "sv_phase (pg_server g') = Returned r"
      using flush [of ?h] h(2) assms(2) by (auto simp: shutdown_close_def)
    ultimately show ?thesis using program_trans by fast
  qed (rule flush [OF assms(2)])
qed

section \<open>The workers stop\<close>

context lane_channel
begin

definition worker_left :: "'q lane_state \<Rightarrow> nat" where
  "worker_left v = (let n = length (waiting (la_queue v)) in case la_phase v of
       Running \<Rightarrow> n + 5
     | Sending _ \<Rightarrow> n + 6
     | Closing i \<Rightarrow> n + (if i = None then 2 else 3)
     | Draining _ _ _ \<Rightarrow> drain_left v
     | Stopped \<Rightarrow> 0)"

lemma worker_moves:
  assumes "la_phase v \<noteq> Stopped"
  shows "\<exists>v'. lane_step ops (retry :: 'e \<Rightarrow> nat option) retry_max v v' \<and> la_notified v' = la_notified v \<and> worker_left v' < worker_left v"
proof (cases "la_phase v")
  case Running
  then show ?thesis using lane_step.Shutdown [OF Running, of ops retry retry_max]
    by (intro exI [of _ "v\<lparr>la_phase := Closing None\<rparr>"]) (simp add: worker_left_def)
next
  case (Sending request)
  obtain out slept where out: "send_with_retry retry (\<lambda>_. undefined) retry_max = (out, slept)"
    by (cases "send_with_retry retry (\<lambda>_. undefined) retry_max")
  show ?thesis
    using lane_step.SendDone [OF Sending out, of ops] Sending
    by (intro exI [of _ "worker_sent request out v"]) (cases out; simp add: worker_left_def worker_sent_def)
next
  case (Closing i)
  then show ?thesis using lane_step.Close [OF Closing, of ops retry retry_max] close [of "la_queue v"]
    by (intro exI [of _ "worker_close ops i v"]) (auto simp: worker_left_def worker_close_def drain_left_def)
next
  case (Draining i n e)
  obtain out slept where out: "send_with_retry retry (\<lambda>_. undefined) 0 = (out, slept)"
    by (cases "send_with_retry retry (\<lambda>_. undefined) 0")
  have round: "drain_step ops i n e out v = drain_round ops out v" by (simp add: drain_round_def Draining)
  have less: "draining (drain_round ops out v) \<and> drain_left (drain_round ops out v) < drain_left v"
    by (rule drain_round_progress) (auto simp: draining_def Draining)
  have "worker_left w = drain_left w" if "draining w" for w
    using that by (auto simp: draining_def worker_left_def drain_left_def)
  moreover have "draining v" by (simp add: draining_def Draining)
  moreover have "la_notified (drain_step ops i n e out v) = la_notified v"
    by (cases out) (auto simp: drain_step_def drain_one_def split: option.splits)
  ultimately show ?thesis
    using lane_step.Drain [OF Draining out, of ops retry_max] less
    by (intro exI [of _ "drain_step ops i n e out v"]) (simp add: round)
qed (use assms in simp)

definition workers_left :: "('d, 'p, 'q) pipeline \<Rightarrow> nat" where
  "workers_left p = (\<Sum>i < length (pl_workers p). worker_left (worker_view (pl_lanes p ! i) (pl_workers p ! i)))"

lemma put_worker_view:
  assumes "length (pl_lanes p) = length (pl_workers p)" and "i < length (pl_workers p)" and "j < length (pl_workers p)"
    and "la_notified v = 0"
  shows "worker_view (pl_lanes (put_worker i v p) ! j) (pl_workers (put_worker i v p) ! j) =
    (if j = i then v else worker_view (pl_lanes p ! j) (pl_workers p ! j))"
proof -
  obtain rt where rt: "sk_proxy (ss_sink (pl_sink p)) = Some rt" using assms(1,2) by (cases "sk_proxy (ss_sink (pl_sink p))") (auto simp: pl_lanes_def)
  then show ?thesis using assms by (cases v) (auto simp: put_worker_def pl_lanes_def put_lane_def worker_view_def)
qed

lemma workers_left_put:
  assumes "length (pl_lanes p) = length (pl_workers p)" and "i < length (pl_workers p)" and "la_notified v = 0"
    and "worker_left v < worker_left (worker_view (pl_lanes p ! i) (pl_workers p ! i))"
  shows "workers_left (put_worker i v p) < workers_left p"
proof -
  have len: "length (pl_workers (put_worker i v p)) = length (pl_workers p)" by (simp add: put_worker_def)
  show ?thesis
    unfolding workers_left_def len using assms(2,4) put_worker_view [OF assms(1,2) _ assms(3)]
    by (intro sum_strict_mono_ex1) auto
qed

lemma workers_stop:
  "length (pl_lanes (pg_pipeline g)) = length (pl_workers (pg_pipeline g)) \<Longrightarrow> server_returned (pg_server g) \<Longrightarrow>
     \<exists>g'. program_reachable qops ops lib (retry :: 'e \<Rightarrow> nat option) retry_max g g' \<and> pg_server g' = pg_server g \<and>
       list_all (\<lambda>ph. ph = Stopped) (pl_workers (pg_pipeline g'))"
proof (induction "workers_left (pg_pipeline g)" arbitrary: g rule: less_induct)
  case less
  let ?p = "pg_pipeline g"
  show ?case
  proof (cases "list_all (\<lambda>ph. ph = Stopped) (pl_workers ?p)")
    case True
    then show ?thesis using program_reachable.Begin by blast
  next
    case False
    then obtain i where i: "i < length (pl_workers ?p)" "pl_workers ?p ! i \<noteq> Stopped" by (auto simp: list_all_length)
    then obtain v where v: "lane_step ops retry retry_max (worker_view (pl_lanes ?p ! i) (pl_workers ?p ! i)) v" "la_notified v = 0"
      "worker_left v < worker_left (worker_view (pl_lanes ?p ! i) (pl_workers ?p ! i))"
      using worker_moves [of "worker_view (pl_lanes ?p ! i) (pl_workers ?p ! i)" retry retry_max] by (auto simp: worker_view_def)
    let ?h = "g\<lparr>pg_pipeline := put_worker i v ?p\<rparr>"
    have step: "pipeline_step qops ops lib retry retry_max ?p (put_worker i v ?p)"
      by (rule WorkerMoves) (use less.prems(1) i(1) v in simp_all)
    have go: "program_step qops ops lib retry retry_max g ?h"
      by (rule TasksMove [OF step]) (simp_all add: put_worker_def less.prems(2))
    have "workers_left (put_worker i v ?p) < workers_left ?p"
      using workers_left_put [OF less.prems(1) i(1) v(2,3)] .
    then obtain g' where g': "program_reachable qops ops lib retry retry_max ?h g'" "pg_server g' = pg_server ?h"
      "list_all (\<lambda>ph. ph = Stopped) (pl_workers (pg_pipeline g'))"
      using less.hyps [of ?h] lanes_workers_step [OF step less.prems(1)] less.prems(2) by auto
    show ?thesis using program_trans [OF g'(1) one_step [OF go]] g'(2,3) by (intro exI [of _ g']) simp
  qed
qed

section \<open>The program ends\<close>

lemma program_ends:
  assumes "program_reachable qops ops lib (retry :: 'e \<Rightarrow> nat option) retry_max
      \<lparr>pg_server = server_start, pg_pipeline = pipeline_start sk\<rparr> g"
  shows "\<exists>g' r. program_reachable qops ops lib retry retry_max g g' \<and> main_returns g' r"
proof -
  let ?g0 = "\<lparr>pg_server = server_start, pg_pipeline = pipeline_start sk\<rparr>"
  let ?go = "program_reachable qops ops lib retry retry_max"
  have from_start: "in_order h" "length (pl_lanes (pg_pipeline h)) = length (pl_workers (pg_pipeline h))" "server_ok (pg_server h)"
    if "?go ?g0 h" for h
    using in_order_reachable [OF that] lanes_workers [OF run_pipeline [OF that]] lanes_workers_start [of sk]
      server_ok_reachable [OF run_server [OF that]] server_reachable.Start by simp_all
  have join: "\<exists>g' r. ?go g g' \<and> main_returns g' r" if h: "?go g h" "sv_phase (pg_server h) = Returned r" for h r
  proof -
    have "server_returned (pg_server h)" by (simp add: server_returned_def h(2))
    then obtain g' where "?go h g'" "pg_server g' = pg_server h" "list_all (\<lambda>ph. ph = Stopped) (pl_workers (pg_pipeline g'))"
      using workers_stop [of h] from_start(2) [OF program_trans [OF h(1) assms]] by blast
    then show ?thesis using program_trans [OF _ h(1)] h(2) by (intro exI [of _ g'] exI [of _ r]) (simp add: main_returns_def)
  qed
  show ?thesis
  proof (cases "server_returned (pg_server g)")
    case True
    then show ?thesis using join [OF program_reachable.Begin] by (auto simp: server_returned_def split: run_phase.splits)
  next
    case False
    obtain h result where h: "?go g h" "sv_phase (pg_server h) = ClosingSink result"
      using server_stops [OF from_start(3) [OF assms] False] by blast
    obtain g' r where "?go h g'" "sv_phase (pg_server g') = Returned r"
      using sink_shuts_down [OF from_start(1) [OF program_trans [OF h(1) assms]] h(2)] by blast
    then show ?thesis using join program_trans h(1) by blast
  qed
qed

end

end
