(* ===== verification/Sample_Program.thy ===== *)
theory Sample_Program
  imports Program_Ends Sample_Proxy Sample_Sink
begin

text \<open>
  A concrete start with forwarding: the settings of a command line and a file with three routes,
  an empty disk, and a batch that is saved and forwarded.
\<close>

definition sample_forward_cli :: cli where
  "sample_forward_cli = sample_cli_args\<lparr>cli_log_file := Some ''/var/log/x.jsonl'', cli_log_dir := None, cli_pretty_log := None,
     cli_proxy_anthropic_endpoint := anthropic_endpoint sample_cli, cli_proxy_anthropic_transport := anthropic_transport sample_cli,
     cli_proxy_anthropic_headers := anthropic_headers sample_cli, cli_proxy_openai_endpoint := openai_endpoint sample_cli,
     cli_proxy_openai_transport := openai_transport sample_cli, cli_proxy_openai_headers := openai_headers sample_cli,
     cli_proxy_checkpoint_dir := cli_checkpoint_dir sample_cli\<rparr>"

definition sample_forward_config :: config where
  "sample_forward_config = sample_file_config\<lparr>cfg_proxy := Some sample_proxy_config\<rparr>"

definition sample_forward_settings :: settings where
  "sample_forward_settings = sample_settings\<lparr>st_log_sink := Some (LogFile ''/var/log/x.jsonl''), st_pretty_log_dir := None,
     st_proxy := Some sample_proxy_settings\<rparr>"

lemma sample_forward_merge:
  "merge_with_home 100 sample_env sample_forward_cli sample_forward_config None = Inr sample_forward_settings"
proof -
  have path: "expand_user_path ''/var/log/x.jsonl'' None = ''/var/log/x.jsonl''" by code_simp
  have sink: "resolve_log_sink sample_forward_cli sample_forward_config None = Inr (Some (LogFile ''/var/log/x.jsonl''))"
    by (simp add: resolve_log_sink_def sample_forward_cli_def sample_forward_config_def sample_cli_args_def sample_file_config_def path
        unwrap_or_def Let_def)
  have inputs: "proxy_inputs sample_forward_cli = sample_cli"
    by (simp add: proxy_inputs_def sample_forward_cli_def sample_cli_args_def)
  have "resolve_max_inflight 100 sample_forward_cli sample_forward_config = Inr 4"
    by (simp add: resolve_max_inflight_def sample_forward_cli_def sample_forward_config_def sample_cli_args_def sample_file_config_def
        unwrap_or_def ensure_def Let_def)
  moreover have "resolve_receive_timeout sample_forward_cli sample_forward_config = Inr (2 * 10 ^ 9)"
    by (simp add: resolve_receive_timeout_def sample_forward_cli_def sample_cli_args_def from_millis_def ensure_def Let_def)
  moreover have "cfg_proxy sample_forward_config = Some sample_proxy_config" by (simp add: sample_forward_config_def)
  moreover have "cli_pretty_log sample_forward_cli = None" "cfg_pretty_log sample_forward_config = None"
    by (simp_all add: sample_forward_cli_def sample_forward_config_def sample_file_config_def)
  ultimately show ?thesis
    by (simp add: merge_with_home_def sink inputs sample_resolve resolve_pretty_log_dir_def unwrap_or_def)
      (simp add: sample_forward_settings_def sample_settings_def sample_forward_cli_def sample_forward_config_def sample_cli_args_def
        sample_file_config_def unwrap_or_def DEFAULT_HTTP_ADDR_def)
qed

definition sample_empty_disk :: disk where
  "sample_empty_disk = \<lparr>disk_files = Map.empty, disk_faults = []\<rparr>"

definition sample_log :: "u8 list \<Rightarrow> file_handle transactional_append" where
  "sample_log bytes = \<lparr>ta_file = \<lparr>fh_path = ''/var/log/x.jsonl'', fh_disk = \<lparr>disk_files = [''/var/log/x.jsonl'' \<mapsto> bytes], disk_faults = []\<rparr>\<rparr>,
     ta_rollback = None\<rparr>"

definition sample_forward_sink :: "export_request bounded_fifo route_lane list \<Rightarrow> sample_sink" where
  "sample_forward_sink lanes = sample_opened\<lparr>sk_file := Some (JsonlFile (sample_log [])), sk_proxy := Some (router_new lanes)\<rparr>"

lemma sample_log_opens: "\<exists>d. open_log_file ''/var/log/x.jsonl'' sample_empty_disk = (Inr (sample_log []), d)"
proof -
  have "path_parent ''/var/log/x.jsonl'' = Some ''/var/log''" by code_simp
  then show ?thesis
    by (simp add: open_log_file_def create_parent_def create_private_dir_def file_eval sample_empty_disk_def sample_log_def Let_def)
qed

lemma sample_pretty_opens: "\<exists>w d. open_pretty_log sample_lib sample_surroundings ''/d'' sample_empty_disk = (Inr w, d)"
  by (simp add: open_pretty_log_def create_private_dir_def daily_at_date_def file_eval sample_empty_disk_def Let_def)

lemma sample_spawns: "spawn_lanes 1000000 (\<lambda>_. fifo_new) (\<lambda>_. Inr ()) sample_proxy_settings = Inr (map (\<lambda>lane. (lane, ())) sample_lanes)"
  by (simp add: spawn_lanes_def sample_proxy_settings_def sample_routes_def sample_lanes_def and_then_def Let_def)

abbreviation sample_started :: "(str, pretty_job bounded_fifo, export_request bounded_fifo, str) program" where
  "sample_started \<equiv> \<lparr>pg_server = server_start, pg_pipeline = pipeline_start (sample_forward_sink sample_lanes)\<rparr>"

lemma sample_serves:
  "\<exists>d. run_settings 1000000 (\<lambda>_. fifo_new) (\<lambda>_. Inr ()) so sample_lib sample_surroundings fifo_new None False (\<lambda>_. 0)
     sample_forward_settings sample_empty_disk = (Serve sample_started, d)"
proof -
  obtain d where "open_log_file ''/var/log/x.jsonl'' sample_empty_disk = (Inr (sample_log []), d)" using sample_log_opens by blast
  then have "sink_from_settings sample_lib sample_surroundings fifo_new None False (\<lambda>_. 0) sample_forward_settings
      (Some (router_new sample_lanes)) sample_empty_disk = (Inr (sample_forward_sink sample_lanes, None), d)"
    by (simp add: sink_from_settings_def sample_forward_settings_def sample_settings_def open_jsonl_def sample_forward_sink_def
        sample_opened_def enabled_for_stdout_def Let_def)
  moreover have "st_proxy sample_forward_settings = Some sample_proxy_settings" "\<not> st_dry_run sample_forward_settings"
    by (simp_all add: sample_forward_settings_def sample_settings_def)
  moreover have "map (fst \<circ> (\<lambda>lane. (lane, ()))) sample_lanes = sample_lanes" by (simp add: comp_def)
  ultimately show ?thesis
    by (simp add: run_settings_def start_proxy_def sample_spawns and_then_def)
qed

section \<open>A batch on its way\<close>

text \<open>From a sink at rest a batch that can be written gets to the lanes.\<close>

lemma batch_forwarded:
  fixes g0 g :: "('d, 'q, 'l, 'e) program"
  assumes r: "program_reachable qops lops lib retry retry_max g0 g" and s: "s = pl_sink (pg_pipeline g)"
    and at: "ss_tasks s = []" "sk_admission (ss_sink s)" "\<not> ss_locked s" "sk_file (ss_sink s) \<noteq> None"
    and w: "write_jsonl lib su rcd (ss_sink s) = (Inr (), sk)"
  shows "\<exists>g'. program_reachable qops lops lib retry retry_max g0 g' \<and> pg_server g' = pg_server g \<and>
    pl_workers (pg_pipeline g') = pl_workers (pg_pipeline g) \<and> ss_tasks (pl_sink (pg_pipeline g')) = [(rcd, TaskDone (Inr ()))] \<and>
    ss_saved (pl_sink (pg_pipeline g')) = ss_saved s @ [rcd] \<and>
    sk_proxy (ss_sink (pl_sink (pg_pipeline g'))) = map_option (notify lops rcd) (sk_proxy (ss_sink s))"
proof -
  let ?go = "program_reachable qops lops lib retry retry_max g0"
  let ?with = "\<lambda>s. g\<lparr>pg_pipeline := (pg_pipeline g)\<lparr>pl_sink := s\<rparr>\<rparr>"
  have go: "?go (?with s'')" if "?go (?with s')" "sink_step qops lops lib s' s''" "sk_proxy (ss_sink s'') = sk_proxy (ss_sink s')" "quiet s' s''" for s' s''
    using program_reachable.More [OF that(1) quiet_sink_step [of qops lops lib "?with s'" s'']] that(2-4) by simp
  define s1 where "s1 = s\<lparr>ss_tasks := [(rcd, TaskWaiting)]\<rparr>"
  define s2 where "s2 = task_admit 0 rcd s1"
  define s3 where "s3 = task_persist lib su 0 rcd s2"
  define s4 where "s4 = task_health 0 0 rcd (Inr ()) s3"
  define s5 where "s5 = task_ingest 0 rcd s4"
  obtain want sk5 where i5: "ingest_record rcd (ss_sink s4) = (want, sk5)" by (cases "ingest_record rcd (ss_sink s4)")
  define s6 where "s6 = task_queue qops lib 0 rcd (want \<and> sk_summary_enabled sk5) s5"
  have t1: "task_at s1 0 rcd TaskWaiting" by (simp add: s1_def task_at_def)
  have s2: "s2 = s\<lparr>ss_tasks := [(rcd, TaskAdmitted)]\<rparr>" by (simp add: s2_def s1_def task_admit_def set_task_def at)
  have t2: "task_at s2 0 rcd TaskAdmitted" by (simp add: s2 task_at_def)
  have s3: "s3 = s\<lparr>ss_tasks := [(rcd, TaskPersisted (Inr ()))], ss_sink := sk, ss_saved := ss_saved s @ [rcd]\<rparr>"
    using at(4) by (auto simp: s3_def s2 task_persist_def set_task_def w)
  have t3: "task_at s3 0 rcd (TaskPersisted (Inr ()))" by (simp add: s3 task_at_def)
  have s4: "ss_tasks s4 = [(rcd, TaskSaved)]" "ss_saved s4 = ss_saved s @ [rcd]" by (simp_all add: s4_def s3 task_health_def set_task_def)
  have t4: "task_at s4 0 rcd TaskSaved" by (simp add: s4 task_at_def)
  have s5: "ss_tasks s5 = [(rcd, TaskIngested (want \<and> sk_summary_enabled sk5))]" "ss_saved s5 = ss_saved s @ [rcd]"
    by (simp_all add: s5_def task_ingest_def set_task_def i5 s4)
  have t5: "task_at s5 0 rcd (TaskIngested (want \<and> sk_summary_enabled sk5))" by (simp add: s5 task_at_def)
  have s6: "ss_tasks s6 = [(rcd, TaskQueued)]" "ss_saved s6 = ss_saved s @ [rcd]" by (simp_all add: s6_def task_queue_def set_task_def s5)
  have t6: "task_at s6 0 rcd TaskQueued" by (simp add: s6 task_at_def)
  have p1: "sk_proxy (ss_sink s2) = sk_proxy (ss_sink s)" by (simp add: s2)
  have p3: "sk_proxy (ss_sink s3) = sk_proxy (ss_sink s2)" unfolding s3_def by (rule quiet_ops)
  have p4: "sk_proxy (ss_sink s4) = sk_proxy (ss_sink s3)" unfolding s4_def by (rule quiet_ops)
  have p5: "sk_proxy (ss_sink s5) = sk_proxy (ss_sink s4)" unfolding s5_def by (rule quiet_ops)
  have p6: "sk_proxy (ss_sink s6) = sk_proxy (ss_sink s5)" unfolding s6_def by (rule quiet_ops)
  have "?go (?with s)" using r by (simp add: s)
  then have "?go (?with s1)"
    by (rule go) (use Arrive [of qops lops lib s rcd] at in \<open>simp_all add: s1_def quiet_def\<close>)
  then have "?go (?with s2)"
    by (rule go) (use Admit [OF t1, of qops lops lib] at in \<open>simp_all add: s2_def [symmetric] quiet_def\<close>, simp_all add: s1_def s2 at)
  then have "?go (?with s3)"
    by (rule go) (use Persist [OF t2, of qops lops lib su] p3 in \<open>simp_all add: s3_def quiet_ops\<close>)
  then have "?go (?with s4)"
    by (rule go) (use Health [OF t3, of qops lops lib 0] p4 in \<open>simp_all add: s4_def quiet_ops\<close>)
  then have "?go (?with s5)"
    by (rule go) (use Ingest [OF t4, of qops lops lib] p5 in \<open>simp_all add: s5_def quiet_ops\<close>)
  then have "?go (?with s6)"
    by (rule go) (use Queue [OF t5, of qops lops lib] p6 in \<open>simp_all add: s6_def quiet_ops\<close>)
  then have "?go (?with (task_forward lops 0 rcd s6))"
    using program_reachable.More [OF _ forward_step [of "?with s6" 0 rcd qops lops lib retry retry_max]] t6 by simp
  then show ?thesis
    using p1 p3 p4 p5 p6 s6 by (intro exI [of _ "?with (task_forward lops 0 rcd s6)"]) (simp add: task_forward_def forward_def set_task_def)
qed

definition sample_part :: export_request where
  "sample_part = ExportLogs [sample_resource_logs ''bench'']"

lemma sample_lane_part: "lane_part (sample_routes ! 2) sample_batch = Some sample_part"
  by (simp add: lane_part_def part_of_def sample_batch_def sample_routes_def sample_part_def sample_resource_logs_def
      extract_service_name_def accepts_signal_def)

lemma sample_disjoint: "disjoint_routes sample_routes"
  using resolved_settings [OF sample_resolve] by (auto simp: disjoint_routes_def sample_proxy_settings_def)

lemma sample_notified:
  "bf_items (ln_sender (rt_lanes (notify (fifo_ops 1024) sample_batch (router_new sample_lanes)) ! 2)) = [sample_part]"
proof -
  have l: "map ln_route sample_lanes = sample_routes" by (simp add: sample_lanes_def comp_def)
  have i: "2 < length sample_lanes" "2 < length sample_routes" by (simp_all add: sample_lanes_def sample_routes_def)
  have "ln_route (sample_lanes ! 2) = sample_routes ! 2" using arg_cong [OF l, of "\<lambda>xs. xs ! 2"] i(1) by simp
  moreover have "ln_sender (sample_lanes ! 2) = fifo_new" using i by (simp add: sample_lanes_def)
  ultimately show ?thesis
    using notify_lane_part [OF sample_disjoint i(2), of "sample_lanes ! 2" "fifo_ops 1024" sample_batch]
    by (simp add: notify_def router_new_def l i(1) sample_lane_part offer_def fifo_ops_def fifo_try_send_def fifo_new_def)
qed

lemma sample_forwarded:
  "\<exists>g. program_reachable (fifo_ops 256) (fifo_ops 1024) sample_lib (Some :: nat \<Rightarrow> nat option) 2 sample_started g \<and>
     acknowledged (pl_sink (pg_pipeline g)) = {#sample_batch#} \<and> ss_saved (pl_sink (pg_pipeline g)) = [sample_batch] \<and>
     bf_items (ln_sender (pl_lanes (pg_pipeline g) ! 2)) = [sample_part]"
proof -
  have "ta_append file_ops [65, 10] (sample_log []) = (Inr (), sample_log [65, 10])"
    by (simp add: file_eval sample_log_def)
  from sample_write [OF _ this, of "sample_forward_sink sample_lanes" sample_batch]
  obtain sk where w: "write_jsonl sample_lib sample_surroundings sample_batch (sample_forward_sink sample_lanes) = (Inr (), sk)"
    by (auto simp: sample_forward_sink_def)
  have start: "pl_sink (pg_pipeline sample_started) = sink_start (sample_forward_sink sample_lanes)" by (simp add: pipeline_start_def)
  from batch_forwarded [OF program_reachable.Begin [of "fifo_ops 256" "fifo_ops 1024" sample_lib "Some :: nat \<Rightarrow> nat option" 2 sample_started] refl,
      unfolded start, of sample_surroundings sample_batch sk] w
  obtain g where g: "program_reachable (fifo_ops 256) (fifo_ops 1024) sample_lib (Some :: nat \<Rightarrow> nat option) 2 sample_started g"
    "ss_tasks (pl_sink (pg_pipeline g)) = [(sample_batch, TaskDone (Inr ()))]" "ss_saved (pl_sink (pg_pipeline g)) = [sample_batch]"
    "sk_proxy (ss_sink (pl_sink (pg_pipeline g))) = Some (notify (fifo_ops 1024) sample_batch (router_new sample_lanes))"
    by (auto simp: sink_start_def sample_forward_sink_def sample_opened_def)
  then show ?thesis
    using sample_notified count_tasks_simps(2) [of phase_acknowledged "[]" sample_batch "TaskDone (Inr ())"]
    by (intro exI [of _ g]) (simp add: pl_lanes_def acknowledged_def phase_acknowledged_def)
qed

section \<open>A dry run\<close>

definition sample_sockets :: "(nat, str) sockets" where
  "sample_sockets = \<lparr>so_bind = \<lambda>others addr. if addr \<in> set others then Inl 98 else Inr addr, so_local_addr = Inr\<rparr>"

lemma sample_dry_run:
  "\<exists>d. run_settings 1000000 (\<lambda>_. fifo_new :: export_request bounded_fifo) (\<lambda>_. Inr ()) sample_sockets sample_lib sample_surroundings fifo_new None False (\<lambda>_. 0)
     (sample_forward_settings\<lparr>st_dry_run := True\<rparr>) sample_empty_disk =
     (DryRunDone ''127.0.0.1:4317'' ''0.0.0.0:4318'', d)"
proof -
  have "path_parent ''/var/log/x.jsonl'' = Some ''/var/log''" by code_simp
  then have "\<exists>d. probe_settings sample_lib sample_surroundings (sample_forward_settings\<lparr>st_dry_run := True\<rparr>) sample_empty_disk = (Inr (), d)"
    by (simp add: probe_settings_def probe_jsonl_def probe_log_file_def create_parent_def create_private_dir_def append_file_probe_def
        open_file_def disk_syscall_def sample_empty_disk_def sample_forward_settings_def sample_settings_def Let_def)
  then obtain d where "probe_settings sample_lib sample_surroundings (sample_forward_settings\<lparr>st_dry_run := True\<rparr>) sample_empty_disk = (Inr (), d)"
    by blast
  moreover have "probe_binds sample_sockets ''127.0.0.1:4317'' ''0.0.0.0:4318'' = Inr (''127.0.0.1:4317'', ''0.0.0.0:4318'')"
    by (simp add: probe_binds_def sample_sockets_def and_then_def)
  moreover have "st_proxy sample_forward_settings = Some sample_proxy_settings" "st_grpc_addr sample_forward_settings = ''127.0.0.1:4317''"
    "st_http_addr sample_forward_settings = ''0.0.0.0:4318''"
    by (simp_all add: sample_forward_settings_def sample_settings_def)
  ultimately show ?thesis
    by (simp add: run_settings_def start_proxy_def sample_spawns and_then_def)
qed

end
