(* ===== verification/Format.thy ===== *)
theory Format
  imports Rust_Fmt Aggregator
begin

text \<open>
  The human-readable text of batches and totals, \<^verbatim>\<open>src/src/format.rs\<close>. A text is the list
  of its characters. How a time is printed comes from a library, and so do the tables of upper case
  letters: both are arguments.
\<close>

section \<open>Quoting\<close>

definition needs_escape :: "nat \<Rightarrow> bool" where
  "needs_escape code \<longleftrightarrow> code < 32 \<or> code = 127 \<or> (128 \<le> code \<and> code \<le> 159) \<or>
     code = 1564 \<or> code = 8206 \<or> code = 8207 \<or> (8234 \<le> code \<and> code \<le> 8238) \<or> (8294 \<le> code \<and> code \<le> 8297)"

definition escape_char :: "nat \<Rightarrow> text_chars" where
  "escape_char c =
     (if c = 92 then [92, 92]
      else if c = 34 then [92, 34]
      else if c = 10 then [92, 110]
      else if c = 13 then [92, 114]
      else if c = 9 then [92, 116]
      else if needs_escape c then [92, 117, 123] @ pad_zeros 4 (show_hex c) @ [125]
      else [c])"

definition quote_for_pretty :: "text_chars \<Rightarrow> text_chars" where
  "quote_for_pretty s =
     (if s \<noteq> [] \<and> \<not> list_ex (\<lambda>c. c = 32 \<or> c = 34 \<or> c = 61 \<or> needs_escape c) s then s
      else [34] @ concat (map escape_char s) @ [34])"

section \<open>Values\<close>

definition hex :: "u8 list \<Rightarrow> text_chars" where
  "hex bytes = concat (map (\<lambda>b. pad_zeros 2 (show_hex (unat b))) bytes)"

definition hex_id :: "u8 list \<Rightarrow> text_chars" where
  "hex_id bytes = (if bytes = [] then ascii ''-'' else hex bytes)"

definition scalar_to_string :: "otlp_value \<Rightarrow> text_chars" where
  "scalar_to_string v = (case v of
       BoolValue b \<Rightarrow> show_bool b
     | IntValue i \<Rightarrow> show_int (sint i)
     | DoubleValue d \<Rightarrow> show_f64 d
     | BytesValue bs \<Rightarrow> ascii ''0x'' @ hex bs
     | _ \<Rightarrow> [])"

fun pretty_any_value :: "any_value \<Rightarrow> text_chars" and format_attr :: "key_value \<Rightarrow> text_chars" where
  "pretty_any_value (AnyValue None) = quote_for_pretty []"
| "pretty_any_value (AnyValue (Some v)) = (case v of
       StringValue s \<Rightarrow> quote_for_pretty (chars s)
     | ArrayValue vs \<Rightarrow> ascii ''['' @ join_with (ascii '', '') (map pretty_any_value vs) @ ascii '']''
     | KvlistValue kvs \<Rightarrow> ascii ''{'' @ join_with (ascii '', '') (map format_attr kvs) @ ascii ''}''
     | StringValueStrindex _ \<Rightarrow> quote_for_pretty []
     | _ \<Rightarrow> scalar_to_string v)"
| "format_attr (KeyValue k v) = quote_for_pretty (chars k) @ ascii ''='' @
     (case v of None \<Rightarrow> quote_for_pretty [] | Some a \<Rightarrow> pretty_any_value a)"

definition format_attrs :: "key_value list \<Rightarrow> text_chars" where
  "format_attrs attrs = ascii ''{'' @ join_with (ascii '', '') (map format_attr attrs) @ ascii ''}''"

fun any_value_to_string :: "any_value \<Rightarrow> text_chars" where
  "any_value_to_string (AnyValue None) = []"
| "any_value_to_string (AnyValue (Some v)) = (case v of
       StringValue s \<Rightarrow> chars s
     | ArrayValue vs \<Rightarrow> ascii ''['' @ join_with (ascii '', '') (map any_value_to_string vs) @ ascii '']''
     | KvlistValue kvs \<Rightarrow> format_attrs kvs
     | StringValueStrindex _ \<Rightarrow> []
     | _ \<Rightarrow> scalar_to_string v)"

definition pretty_service_name :: "resource option \<Rightarrow> text_chars" where
  "pretty_service_name r =
     (case Option.bind (Option.bind r (find (\<lambda>kv. kv_key kv = ''service.name''))) kv_value of
        Some v \<Rightarrow> any_value_to_string v
      | None \<Rightarrow> ascii ''unknown'')"

definition format_number_point :: "number_data_point \<Rightarrow> text_chars" where
  "format_number_point dp =
     (let v = (case nd_value dp of
          Some (AsDouble d) \<Rightarrow> show_f64 d
        | Some (AsInt i) \<Rightarrow> show_int (sint i)
        | None \<Rightarrow> ascii ''?'') in
      if nd_attributes dp = [] then v else v @ ascii '' '' @ format_attrs (nd_attributes dp))"

definition format_duration_ns :: "u64 \<Rightarrow> text_chars" where
  "format_duration_ns ns =
     (let n = f64_of_int (uint ns) in
      if ns = 0 then ascii ''0ns''
      else if ns < 1000 then show_nat (unat ns) @ ascii ''ns''
      else if ns < 999995 then show_fixed 2 (f64_div n (f64_of_int 1000)) @ [181, 115]
      else if ns < 999995000 then show_fixed 2 (f64_div n (f64_of_int 1000000)) @ ascii ''ms''
      else show_fixed 3 (f64_div n (f64_of_int 1000000000)) @ ascii ''s'')"

definition format_cost :: "f64 \<Rightarrow> text_chars" where
  "format_cost cost =
     (if f64_eq cost f64_zero then ascii ''$0''
      else if f64_lt cost (f64_round False (1 / 100)) then ascii ''$'' @ show_fixed 6 cost
      else ascii ''$'' @ show_fixed 4 cost)"

record text_library =
  tl_rfc3339 :: "int \<Rightarrow> nat \<Rightarrow> text_chars option"   \<comment> \<open>seconds and nanoseconds of a time\<close>
  tl_to_uppercase :: "str \<Rightarrow> text_chars"

definition format_unix_nanos :: "text_library \<Rightarrow> u64 \<Rightarrow> text_chars" where
  "format_unix_nanos lib nanos =
     (if nanos = 0 then ascii ''-''
      else case tl_rfc3339 lib (uint nanos div 10 ^ 9) (unat nanos mod 10 ^ 9) of
        Some t \<Rightarrow> t
      | None \<Rightarrow> show_nat (unat nanos))"

definition severity_of_number :: "i32 \<Rightarrow> string" where
  "severity_of_number n = (let i = sint n in
     if 1 \<le> i \<and> i \<le> 4 then ''TRACE''
     else if 5 \<le> i \<and> i \<le> 8 then ''DEBUG''
     else if 9 \<le> i \<and> i \<le> 12 then ''INFO''
     else if 13 \<le> i \<and> i \<le> 16 then ''WARN''
     else if 17 \<le> i \<and> i \<le> 20 then ''ERROR''
     else if 21 \<le> i \<and> i \<le> 24 then ''FATAL''
     else ''UNSPECIFIED'')"

definition severity_label :: "text_library \<Rightarrow> i32 \<Rightarrow> str \<Rightarrow> text_chars" where
  "severity_label lib number txt = (if txt \<noteq> '''' then tl_to_uppercase lib txt else ascii (severity_of_number number))"

section \<open>Colours\<close>

definition colour :: "string \<Rightarrow> text_chars" where
  "colour code = [27, 91] @ ascii code @ ascii ''m''"

definition RESET :: text_chars where "RESET = colour ''0''"
definition DIM :: text_chars where "DIM = colour ''2''"
definition BOLD :: text_chars where "BOLD = colour ''1''"
definition RED :: text_chars where "RED = colour ''31''"
definition GREEN :: text_chars where "GREEN = colour ''32''"
definition YELLOW :: text_chars where "YELLOW = colour ''33''"
definition BLUE :: text_chars where "BLUE = colour ''34''"
definition MAGENTA :: text_chars where "MAGENTA = colour ''35''"
definition CYAN :: text_chars where "CYAN = colour ''36''"

definition paint :: "bool \<Rightarrow> text_chars \<Rightarrow> text_chars \<Rightarrow> text_chars" where
  "paint color code t = (if color then code @ t @ RESET else t)"

definition dim :: "bool \<Rightarrow> text_chars \<Rightarrow> text_chars" where
  "dim color t = paint color DIM t"

definition bold :: "bool \<Rightarrow> text_chars \<Rightarrow> text_chars" where
  "bold color t = paint color BOLD t"

definition paint_severity :: "bool \<Rightarrow> text_chars \<Rightarrow> text_chars" where
  "paint_severity color severity =
     (let escaped = quote_for_pretty severity in
      if severity = ascii ''ERROR'' \<or> severity = ascii ''FATAL'' then paint color RED escaped
      else if severity = ascii ''WARN'' then paint color YELLOW escaped
      else if severity = ascii ''INFO'' then paint color GREEN escaped
      else if severity = ascii ''DEBUG'' then paint color BLUE escaped
      else if severity = ascii ''TRACE'' then paint color MAGENTA escaped
      else escaped)"

section \<open>Batches\<close>

text \<open>Every line is its parts and a newline.\<close>

definition line :: "text_chars list \<Rightarrow> text_chars" where
  "line parts = concat parts @ [10]"

definition scope_text :: "str option \<Rightarrow> text_chars" where
  "scope_text scope = quote_for_pretty (case scope of None \<Rightarrow> [] | Some s \<Rightarrow> chars s)"

definition attrs_line :: "bool \<Rightarrow> key_value list \<Rightarrow> text_chars" where
  "attrs_line color attrs = (if attrs = [] then []
     else line [ascii ''        '', dim color (ascii ''attrs:''), ascii '' '', format_attrs attrs])"

definition event_line :: "text_library \<Rightarrow> bool \<Rightarrow> span_event \<Rightarrow> text_chars" where
  "event_line lib color ev = line [ascii ''        '',
     dim color (ascii ''event @'' @ format_unix_nanos lib (ev_time_unix_nano ev)), ascii '' '',
     bold color (quote_for_pretty (chars (ev_name ev))), ascii '' '', format_attrs (ev_attributes ev)]"

definition paint_status :: "bool \<Rightarrow> i32 option \<Rightarrow> text_chars" where
  "paint_status color status = (let code = (case status of None \<Rightarrow> 0 | Some c \<Rightarrow> c) in
     if code = 1 then paint color GREEN (ascii ''OK'')
     else if code = 2 then paint color RED (ascii ''ERROR'')
     else dim color (ascii ''UNSET''))"

definition render_span :: "text_library \<Rightarrow> bool \<Rightarrow> text_chars \<Rightarrow> str option \<Rightarrow> span \<Rightarrow> text_chars" where
  "render_span lib color service scope sp =
     line [paint color MAGENTA (ascii ''[trace]''), ascii '' '', dim color (format_unix_nanos lib (sp_start_time_unix_nano sp)),
       ascii '' service='', bold color (quote_for_pretty service), ascii '' scope='', scope_text scope,
       ascii '' span='', bold color (quote_for_pretty (chars (sp_name sp))),
       ascii '' dur='', format_duration_ns (saturating_sub (sp_end_time_unix_nano sp) (sp_start_time_unix_nano sp)),
       ascii '' status='', paint_status color (sp_status sp),
       ascii '' trace='', hex_id (sp_trace_id sp), ascii '' span_id='', hex_id (sp_span_id sp)]
     @ attrs_line color (sp_attributes sp) @ concat (map (event_line lib color) (sp_events sp))"

definition render_traces :: "text_library \<Rightarrow> bool \<Rightarrow> traces_request \<Rightarrow> text_chars" where
  "render_traces lib color req = concat (map (\<lambda>rs. let service = pretty_service_name (rs_resource rs) in
     concat (map (\<lambda>ss. concat (map (render_span lib color service (ss_scope ss)) (ss_spans ss))) (rs_scope_spans rs))) req)"

definition metric_summary :: "metric_data option \<Rightarrow> text_chars" where
  "metric_summary d = (case d of
       Some (Sum _ points) \<Rightarrow> ascii ''sum=['' @ join_with (ascii '', '') (map format_number_point points) @ ascii '']''
     | Some (Gauge points) \<Rightarrow> ascii ''gauge=['' @ join_with (ascii '', '') (map format_number_point points) @ ascii '']''
     | Some (Histogram _ points) \<Rightarrow> ascii ''hist=['' @ join_with (ascii '', '') (map (\<lambda>dp.
           ascii ''count='' @ show_nat (unat (hd_count dp)) @ ascii '' sum='' @
           (case hd_sum dp of None \<Rightarrow> [] | Some v \<Rightarrow> show_f64 v)) points) @ ascii '']''
     | Some (ExponentialHistogram n) \<Rightarrow> ascii ''exp_hist=points='' @ show_nat n
     | Some (Summary n) \<Rightarrow> ascii ''summary=points='' @ show_nat n
     | None \<Rightarrow> ascii ''no_data'')"

definition render_metric :: "bool \<Rightarrow> text_chars \<Rightarrow> str option \<Rightarrow> metric \<Rightarrow> text_chars" where
  "render_metric color service scope m =
     line [paint color CYAN (ascii ''[metric]''), ascii '' service='', bold color (quote_for_pretty service),
       ascii '' scope='', scope_text scope, ascii '' name='', bold color (quote_for_pretty (chars (mt_name m))),
       (if mt_unit m = '''' then [] else ascii '' unit='' @ quote_for_pretty (chars (mt_unit m))),
       ascii '' '', metric_summary (mt_data m), ascii '' '',
       (if mt_description m = '''' then []
        else dim color (ascii ''('' @ quote_for_pretty (chars (mt_description m)) @ ascii '')''))]"

definition render_metrics :: "bool \<Rightarrow> metrics_request \<Rightarrow> text_chars" where
  "render_metrics color req = concat (map (\<lambda>rm. let service = pretty_service_name (rm_resource rm) in
     concat (map (\<lambda>sm. concat (map (render_metric color service (sm_scope sm)) (sm_metrics sm))) (rm_scope_metrics rm))) req)"

definition render_log :: "text_library \<Rightarrow> bool \<Rightarrow> text_chars \<Rightarrow> str option \<Rightarrow> log_record \<Rightarrow> text_chars" where
  "render_log lib color service scope lr =
     line [paint color YELLOW (ascii ''[log]''), ascii '' '', dim color (format_unix_nanos lib (lr_time_unix_nano lr)),
       ascii '' service='', bold color (quote_for_pretty service), ascii '' scope='', scope_text scope,
       ascii '' severity='', paint_severity color (severity_label lib (lr_severity_number lr) (lr_severity_text lr)),
       ascii '' body='', (case lr_body lr of None \<Rightarrow> quote_for_pretty [] | Some v \<Rightarrow> pretty_any_value v)]
     @ attrs_line color (lr_attributes lr)"

definition render_logs :: "text_library \<Rightarrow> bool \<Rightarrow> logs_request \<Rightarrow> text_chars" where
  "render_logs lib color req = concat (map (\<lambda>rl. let service = pretty_service_name (rl_resource rl) in
     concat (map (\<lambda>sl. concat (map (render_log lib color service (sl_scope sl)) (sl_log_records sl))) (rl_scope_logs rl))) req)"

definition render :: "text_library \<Rightarrow> telemetry_record \<Rightarrow> bool \<Rightarrow> text_chars" where
  "render lib rcd color = (case rcd of
       Traces req \<Rightarrow> render_traces lib color req
     | Metrics req \<Rightarrow> render_metrics color req
     | Logs req \<Rightarrow> render_logs lib color req)"

section \<open>Totals\<close>

definition stats_text :: "bool \<Rightarrow> model_stats \<Rightarrow> text_chars list" where
  "stats_text bold_requests s =
     [ascii ''requests='', bold bold_requests (show_nat (unat (request_count s))), ascii '' input='', show_nat (unat (input_tokens s)),
      ascii '' output='', show_nat (unat (output_tokens s)), ascii '' cache_read='', show_nat (unat (cache_read_tokens s)),
      ascii '' cache_create='', show_nat (unat (cache_creation_tokens s)),
      ascii '' reasoning='', show_nat (unat (reasoning_output_tokens s)), ascii '' cost='', format_cost (cost_usd s),
      ascii '' duration='', format_duration_ns (saturating_mul (duration_ms s) 1000000)]"

definition bucket_line :: "bool \<Rightarrow> bucket_stats \<Rightarrow> text_chars" where
  "bucket_line color b = line ([ascii ''        '', dim color (ascii ''breakdown''),
     ascii '' provider='', bold color (quote_for_pretty (chars (bs_provider b))),
     ascii '' model='', bold color (quote_for_pretty (chars (bs_model b))),
     ascii '' effort='', bold color (quote_for_pretty (chars (bs_effort b))), ascii '': ''] @ stats_text False (bs_stats b))"

definition render_summary :: "usage_snapshot \<Rightarrow> bool \<Rightarrow> text_chars" where
  "render_summary snap color = concat (map (\<lambda>(agent, stats).
     line ([paint color CYAN (ascii ''[stats:'' @ quote_for_pretty (chars agent) @ ascii '']''), ascii '' '']
       @ stats_text color (as_total stats) @ [ascii '' since='', dim color (chars (us_started_at snap))])
     @ concat (map (\<lambda>e. bucket_line color (snd e)) (as_buckets stats))) (us_agents snap))"

end
