(* ===== verification/Format_Laws.thy ===== *)
theory Format_Laws
  imports Format
begin

text \<open>
  What the human-readable text guarantees whatever telemetry sends: no control character reaches
  the terminal, no line is forged, quoting loses nothing, and the text stays linear in the input.
\<close>

section \<open>Clean text\<close>

text \<open>
  Characters a terminal only shows: no C0 and C1 controls, no delete, and none of the controls
  that turn the direction of the text around them.
\<close>

definition direction_controls :: "nat set" where
  "direction_controls = {1564, 8206, 8207} \<union> {8234..8238} \<union> {8294..8297}"

definition terminal_safe :: "nat \<Rightarrow> bool" where
  "terminal_safe c \<longleftrightarrow> 32 \<le> c \<and> c \<notin> {127..159} \<and> c \<notin> direction_controls"

lemma terminal_safe_iff: "terminal_safe c \<longleftrightarrow> \<not> needs_escape c"
  by (auto simp: terminal_safe_def direction_controls_def needs_escape_def)

definition clean_text :: "text_chars \<Rightarrow> bool" where
  "clean_text t \<longleftrightarrow> (\<forall>c \<in> set t. terminal_safe c)"

lemma clean_text_iff: "clean_text t \<longleftrightarrow> (\<forall>c \<in> set t. \<not> needs_escape c)"
  by (simp add: clean_text_def terminal_safe_iff)

named_theorems clean_intros "pieces of text without control characters"

lemma clean_simps [simp]: "clean_text []" "clean_text (c # t) \<longleftrightarrow> \<not> needs_escape c \<and> clean_text t"
  "clean_text (s @ t) \<longleftrightarrow> clean_text s \<and> clean_text t" "clean_text (concat ts) \<longleftrightarrow> (\<forall>t \<in> set ts. clean_text t)"
  by (auto simp: clean_text_iff)

lemma printable: "32 \<le> c \<Longrightarrow> c < 127 \<Longrightarrow> \<not> needs_escape c"
  by (simp add: needs_escape_def)

lemma clean_ascii: "list_all (\<lambda>c. 32 \<le> byte c \<and> byte c < 127) s \<Longrightarrow> clean_text (ascii s)"
  by (induction s) (simp_all add: ascii_def printable)

lemma clean_sub: "clean_text t \<Longrightarrow> set s \<subseteq> set t \<Longrightarrow> clean_text s"
  by (auto simp: clean_text_iff)

lemma clean_take_drop [clean_intros]: "clean_text t \<Longrightarrow> clean_text (take n t)" "clean_text t \<Longrightarrow> clean_text (drop n t)"
  by (rule clean_sub, assumption, rule set_take_subset, rule clean_sub, assumption, rule set_drop_subset)

lemma clean_join [clean_intros]: "clean_text sep \<Longrightarrow> \<forall>t \<in> set ts. clean_text t \<Longrightarrow> clean_text (join_with sep ts)"
  by (induction sep ts rule: join_with.induct) auto

lemma clean_nat [clean_intros]: "clean_text (show_nat n)"
  by (induction n rule: show_nat.induct) (subst show_nat.simps, auto simp: needs_escape_def)

lemma clean_int [clean_intros]: "clean_text (show_int i)"
  by (simp add: show_int_def clean_nat needs_escape_def)

lemma clean_hex_digit: "n < 16 \<Longrightarrow> \<not> needs_escape (hex_digit n)"
  by (auto simp: hex_digit_def needs_escape_def)

lemma clean_hex [clean_intros]: "clean_text (show_hex n)"
  by (induction n rule: show_hex.induct) (subst show_hex.simps, auto simp: clean_hex_digit)

lemma clean_pad [clean_intros]: "clean_text t \<Longrightarrow> clean_text (pad_zeros n t)"
  by (simp add: pad_zeros_def) (simp add: clean_text_iff needs_escape_def)

lemma clean_zeros: "clean_text (replicate n 48)"
  by (simp add: clean_text_iff needs_escape_def)

lemma clean_words: "clean_text (ascii ''NaN'')" "clean_text (ascii ''inf'')" "clean_text (ascii ''true'')" "clean_text (ascii ''false'')"
  by (simp_all add: clean_ascii byte_def)

lemma clean_sign: "clean_text (float_sign v)"
  by (simp add: float_sign_def needs_escape_def)

lemma clean_fixed [clean_intros]: "clean_text (show_fixed p v)"
  by (auto simp: show_fixed_def Let_def clean_words clean_sign needs_escape_def [of 46] intro!: clean_intros)

lemma clean_place: "clean_text ds \<Longrightarrow> clean_text (place_point k ds)"
  by (auto simp: place_point_def clean_zeros needs_escape_def [of 46] needs_escape_def [of 48] intro: clean_intros)

lemma clean_f64 [clean_intros]: "clean_text (show_f64 v)"
  by (auto simp: show_f64_def Let_def clean_words clean_sign needs_escape_def [of 48] intro!: clean_intros clean_place split: prod.splits)

lemma clean_bytes [clean_intros]: "clean_text (hex bs)"
  by (auto simp: hex_def intro: clean_intros)

lemma clean_escape: "clean_text (escape_char c)"
  by (auto simp: escape_char_def intro: clean_intros) (simp_all add: needs_escape_def)

lemma clean_quote [clean_intros]: "clean_text (quote_for_pretty s)"
  by (auto simp: quote_for_pretty_def clean_escape needs_escape_def [of 34] list_ex_iff) (auto simp: clean_text_iff)

lemma clean_scalar [clean_intros]: "clean_text (scalar_to_string v)"
  by (cases v) (auto simp: scalar_to_string_def show_bool_def clean_words clean_ascii byte_def intro: clean_intros)

lemma clean_punctuation [simp]: "clean_text (ascii ''['')" "clean_text (ascii '']'')" "clean_text (ascii ''{'')" "clean_text (ascii ''}'')"
  "clean_text (ascii '', '')" "clean_text (ascii ''='')" "clean_text (ascii ''-'')" "clean_text (ascii '' '')" "clean_text (ascii ''?'')"
  by (simp_all add: clean_ascii byte_def)

lemma clean_values: "clean_text (pretty_any_value v)" "clean_text (format_attr kv)"
proof (induction v and kv rule: pretty_any_value_format_attr.induct)
  case (2 v)
  then show ?case by (cases v) (auto intro!: clean_intros)
next
  case (3 k v)
  then show ?case by (cases v) (auto intro!: clean_intros)
qed (simp add: clean_quote)

lemma clean_attrs [clean_intros]: "clean_text (format_attrs attrs)"
  by (auto simp: format_attrs_def clean_values intro!: clean_intros)

section \<open>Lines of text\<close>

text \<open>Text that is shown: clean characters, and with colours the nine colour codes.\<close>

definition colour_codes :: "text_chars set" where
  "colour_codes = {RESET, DIM, BOLD, RED, GREEN, YELLOW, BLUE, MAGENTA, CYAN}"

inductive shown :: "bool \<Rightarrow> text_chars \<Rightarrow> bool" for color :: bool where
  Nothing: "shown color []"
| Plain: "terminal_safe c \<Longrightarrow> shown color t \<Longrightarrow> shown color (c # t)"
| Colour: "color \<Longrightarrow> code \<in> colour_codes \<Longrightarrow> shown color t \<Longrightarrow> shown color (code @ t)"

lemma shown_append [intro]: "shown color s \<Longrightarrow> shown color t \<Longrightarrow> shown color (s @ t)"
  by (induction rule: shown.induct) (auto intro: shown.intros)

lemma shown_clean [intro]: "clean_text t \<Longrightarrow> shown color t"
  by (induction t) (auto intro: shown.intros simp: terminal_safe_iff)

lemma clean_shown: "shown color t \<Longrightarrow> \<not> color \<Longrightarrow> clean_text t"
  by (induction rule: shown.induct) (auto simp: terminal_safe_iff)

lemma shown_concat: "\<forall>t \<in> set ts. shown color t \<Longrightarrow> shown color (concat ts)"
  by (induction ts) (auto intro: shown.intros)

lemma shown_paint [intro]: "code \<in> colour_codes \<Longrightarrow> shown color t \<Longrightarrow> shown color (paint color code t)"
proof -
  assume code: "code \<in> colour_codes" and t: "shown color t"
  have "shown color (code @ t @ RESET)" if color
  proof (rule shown.Colour [OF that code])
    have "shown color (RESET @ [])" using that by (intro shown.intros) (simp_all add: colour_codes_def)
    with t show "shown color (t @ RESET)" by auto
  qed
  moreover have "paint color code t = t" if "\<not> color" using that by (simp add: paint_def)
  moreover have "paint color code t = code @ t @ RESET" if color using that by (simp add: paint_def)
  ultimately show "shown color (paint color code t)" using t by metis
qed

lemma shown_dim_bold [intro]: "shown color t \<Longrightarrow> shown color (dim color t)" "shown color t \<Longrightarrow> shown color (bold color t)"
  by (auto simp: dim_def bold_def colour_codes_def)

text \<open>A text of \<open>n\<close> lines, each ended by the only newline in it.\<close>

definition lines_shown :: "bool \<Rightarrow> nat \<Rightarrow> text_chars \<Rightarrow> bool" where
  "lines_shown color n t \<longleftrightarrow> (\<exists>ls. t = concat (map (\<lambda>l. l @ [10]) ls) \<and> list_all (shown color) ls \<and> length ls = n)"

lemma lines_shown_Nil [simp]: "lines_shown color 0 []"
  by (simp add: lines_shown_def)

lemma lines_shown_line: "\<forall>t \<in> set parts. shown color t \<Longrightarrow> lines_shown color 1 (line parts)"
  unfolding lines_shown_def by (intro exI [of _ "[concat parts]"]) (simp add: line_def shown_concat)

lemma lines_shown_append: "lines_shown color m s \<Longrightarrow> lines_shown color n t \<Longrightarrow> lines_shown color (m + n) (s @ t)"
proof -
  assume "lines_shown color m s" "lines_shown color n t"
  then obtain ls ks where "s = concat (map (\<lambda>l. l @ [10]) ls)" "list_all (shown color) ls" "length ls = m"
    "t = concat (map (\<lambda>l. l @ [10]) ks)" "list_all (shown color) ks" "length ks = n" by (auto simp: lines_shown_def)
  then show ?thesis unfolding lines_shown_def by (intro exI [of _ "ls @ ks"]) simp
qed

lemma lines_shown_concat:
  "\<forall>x \<in> set xs. lines_shown color (n x) (f x) \<Longrightarrow> lines_shown color (sum_list (map n xs)) (concat (map f xs))"
  by (induction xs) (auto intro: lines_shown_append)


section \<open>Batches and totals\<close>

text \<open>The number of lines of a batch, from its structure alone.\<close>

definition span_lines :: "span \<Rightarrow> nat" where
  "span_lines sp = 1 + (if sp_attributes sp = [] then 0 else 1) + length (sp_events sp)"

definition log_lines :: "log_record \<Rightarrow> nat" where
  "log_lines lr = 1 + (if lr_attributes lr = [] then 0 else 1)"

definition batch_lines :: "telemetry_record \<Rightarrow> nat" where
  "batch_lines rcd = (case rcd of
       Traces req \<Rightarrow> \<Sum>rs\<leftarrow>req. \<Sum>ss\<leftarrow>rs_scope_spans rs. \<Sum>sp\<leftarrow>ss_spans ss. span_lines sp
     | Metrics req \<Rightarrow> \<Sum>rm\<leftarrow>req. \<Sum>sm\<leftarrow>rm_scope_metrics rm. length (sm_metrics sm)
     | Logs req \<Rightarrow> \<Sum>rl\<leftarrow>req. \<Sum>sl\<leftarrow>rl_scope_logs rl. \<Sum>lr\<leftarrow>sl_log_records sl. log_lines lr)"

definition times_clean :: "text_library \<Rightarrow> bool" where
  "times_clean lib \<longleftrightarrow> (\<forall>secs nanos t. tl_rfc3339 lib secs nanos = Some t \<longrightarrow> clean_text t)"

lemmas shown_simps = shown_clean shown_paint shown_dim_bold

lemma clean_duration [clean_intros]: "clean_text (format_duration_ns ns)"
  by (auto simp: format_duration_ns_def Let_def clean_ascii byte_def needs_escape_def intro!: clean_intros)

lemma clean_cost [clean_intros]: "clean_text (format_cost c)"
  by (auto simp: format_cost_def clean_ascii byte_def intro!: clean_intros)

lemma clean_hex_id [clean_intros]: "clean_text (hex_id bs)"
  by (auto simp: hex_id_def intro: clean_intros)

lemma clean_time [clean_intros]: "times_clean lib \<Longrightarrow> clean_text (format_unix_nanos lib n)"
  by (auto simp: format_unix_nanos_def times_clean_def clean_ascii byte_def intro: clean_intros split: option.splits)

lemma clean_point [clean_intros]: "clean_text (format_number_point dp)"
  by (auto simp: format_number_point_def Let_def intro!: clean_intros split: option.splits number_value.splits)

lemma clean_summary [clean_intros]: "clean_text (metric_summary d)"
proof -
  have c: "clean_text (ascii ''sum=['')" "clean_text (ascii ''gauge=['')" "clean_text (ascii ''hist=['')" "clean_text (ascii ''count='')"
    "clean_text (ascii '' sum='')" "clean_text (ascii ''exp_hist=points='')" "clean_text (ascii ''summary=points='')" "clean_text (ascii ''no_data'')"
    by (simp_all add: clean_ascii byte_def)
  show ?thesis
    by (auto simp: metric_summary_def c intro!: clean_intros split: option.splits metric_data.splits)
qed

lemma shown_severity [intro]: "shown color (paint_severity color s)"
proof -
  have "shown color (quote_for_pretty s)" for s by (simp add: shown_clean clean_quote)
  then show ?thesis by (simp add: paint_severity_def Let_def shown_paint colour_codes_def)
qed

lemma shown_status [intro]: "shown color (paint_status color st)"
  by (simp add: paint_status_def Let_def shown_simps colour_codes_def clean_ascii byte_def)

lemma attrs_line_shown: "lines_shown color (if attrs = [] then 0 else 1) (attrs_line color attrs)"
  by (simp add: attrs_line_def lines_shown_line [unfolded One_nat_def] shown_simps clean_intros clean_ascii byte_def)

lemma event_line_shown: "times_clean lib \<Longrightarrow> lines_shown color 1 (event_line lib color ev)"
  unfolding event_line_def
  by (rule lines_shown_line) (simp add: shown_simps clean_intros clean_ascii byte_def)

lemma scope_clean [clean_intros]: "clean_text (scope_text scope)"
  by (simp add: scope_text_def clean_quote)


lemma render_span_shown:
  assumes "times_clean lib"
  shows "lines_shown color (span_lines sp) (render_span lib color service scope sp)"
proof -
  have "lines_shown color (sum_list (map (\<lambda>_. 1) (sp_events sp))) (concat (map (event_line lib color) (sp_events sp)))"
    by (rule lines_shown_concat) (simp add: event_line_shown [OF assms, unfolded One_nat_def])
  then have events: "lines_shown color (length (sp_events sp)) (concat (map (event_line lib color) (sp_events sp)))"
    by (simp add: sum_list_triv)
  show ?thesis
    unfolding span_lines_def render_span_def add.assoc
    by (intro lines_shown_append events attrs_line_shown lines_shown_line)
      (simp add: shown_simps shown_status clean_intros assms clean_ascii byte_def colour_codes_def)
qed

lemma render_metric_shown: "lines_shown color 1 (render_metric color service scope m)"
  unfolding render_metric_def
  by (rule lines_shown_line) (simp add: shown_simps clean_intros clean_ascii byte_def colour_codes_def)

lemma render_log_shown:
  assumes "times_clean lib"
  shows "lines_shown color (log_lines lr) (render_log lib color service scope lr)"
  unfolding log_lines_def render_log_def
  by (intro lines_shown_append attrs_line_shown lines_shown_line)
    (simp add: shown_simps shown_severity clean_intros clean_values assms clean_ascii byte_def colour_codes_def split: option.split)

lemma render_shown:
  assumes "times_clean lib"
  shows "lines_shown color (batch_lines rcd) (render lib rcd color)"
proof (cases rcd)
  case (Traces req)
  show ?thesis
    unfolding Traces render_def render_traces_def batch_lines_def telemetry_record.case Let_def
    by (intro lines_shown_concat ballI render_span_shown assms)
next
  case (Metrics req)
  have "lines_shown color (length ms) (concat (map (render_metric color service scope) ms))" for service scope ms
    using lines_shown_concat [of ms color "\<lambda>_. 1" "render_metric color service scope"]
    by (simp add: render_metric_shown [unfolded One_nat_def] sum_list_triv)
  then show ?thesis
    unfolding Metrics render_def render_metrics_def batch_lines_def telemetry_record.case Let_def
    by (intro lines_shown_concat ballI)
next
  case (Logs req)
  show ?thesis
    unfolding Logs render_def render_logs_def batch_lines_def telemetry_record.case Let_def
    by (intro lines_shown_concat ballI render_log_shown assms)
qed

lemma stats_text_shown: "t \<in> set (stats_text b s) \<Longrightarrow> b \<longrightarrow> color \<Longrightarrow> shown color t"
proof -
  assume t: "t \<in> set (stats_text b s)" and b: "b \<longrightarrow> color"
  have "shown color (bold b u)" if "clean_text u" for u
    using b that shown_dim_bold(2) [of color u] by (cases b) (auto simp: bold_def paint_def [of False])
  with t show ?thesis
    by (auto simp: stats_text_def shown_clean clean_intros clean_ascii byte_def)
qed

lemma render_summary_shown:
  assumes "clean_text (chars (us_started_at snap))"
  shows "lines_shown color (\<Sum>(agent, stats)\<leftarrow>us_agents snap. 1 + length (as_buckets stats)) (render_summary snap color)"
proof -
  have bucket: "lines_shown color 1 (bucket_line color b)" for b
    unfolding bucket_line_def
    by (rule lines_shown_line) (auto simp: shown_simps clean_intros clean_ascii byte_def intro: stats_text_shown)
  have "lines_shown color (length bs) (concat (map (\<lambda>e. bucket_line color (snd e)) bs))" for bs :: "(str \<times> bucket_stats) list"
    using lines_shown_concat [of bs color "\<lambda>_. 1"] bucket by (simp add: sum_list_triv)
  then show ?thesis
    unfolding render_summary_def case_prod_unfold
    by (intro lines_shown_concat ballI lines_shown_append lines_shown_line)
      (auto simp: shown_simps clean_intros assms clean_ascii byte_def colour_codes_def intro: stats_text_shown)
qed


section \<open>Quoting loses nothing\<close>

definition hex_val :: "nat \<Rightarrow> nat" where
  "hex_val c = (if c < 58 then c - 48 else c - 87)"

definition hex_number :: "text_chars \<Rightarrow> nat" where
  "hex_number t = foldl (\<lambda>n c. 16 * n + hex_val c) 0 t"

function unescape :: "text_chars \<Rightarrow> text_chars option" where
  "unescape t = (case t of
       [] \<Rightarrow> None
     | c # r \<Rightarrow>
         if c = 34 then (if r = [] then Some [] else None)
         else if c \<noteq> 92 then map_option (Cons c) (unescape r)
         else (case r of
             [] \<Rightarrow> None
           | d # r' \<Rightarrow>
               if d = 92 \<or> d = 34 then map_option (Cons d) (unescape r')
               else if d = 110 then map_option (Cons 10) (unescape r')
               else if d = 114 then map_option (Cons 13) (unescape r')
               else if d = 116 then map_option (Cons 9) (unescape r')
               else map_option (Cons (hex_number (takeWhile (\<lambda>x. x \<noteq> 125) (drop 1 r'))))
                 (unescape (drop 1 (dropWhile (\<lambda>x. x \<noteq> 125) (drop 1 r'))))))"
  by pat_completeness auto
termination
proof (relation "measure length", goal_cases)
  case (7 t c r d r')
  have "length (dropWhile (\<lambda>x. x \<noteq> 125) (drop 1 r')) \<le> length r'"
    by (rule order_trans [OF length_dropWhile_le]) simp
  with 7 show ?case by simp
qed auto

declare unescape.simps [simp del]

definition unquote :: "text_chars \<Rightarrow> text_chars option" where
  "unquote t = (case t of c # r \<Rightarrow> if c = 34 then unescape r else Some t | [] \<Rightarrow> None)"

lemma hex_val_digit: "n < 16 \<Longrightarrow> hex_val (hex_digit n) = n"
  by (auto simp: hex_val_def hex_digit_def)

lemma hex_number_snoc: "hex_number (t @ [c]) = 16 * hex_number t + hex_val c"
  by (simp add: hex_number_def)

lemma hex_number_show: "hex_number (show_hex n) = n"
proof (induction n rule: show_hex.induct)
  case (1 n)
  show ?case
  proof (cases "n < 16")
    case True
    then show ?thesis by (subst show_hex.simps) (simp add: hex_number_def hex_val_digit)
  next
    case False
    with 1 show ?thesis by (subst show_hex.simps) (simp add: hex_number_snoc hex_val_digit)
  qed
qed

lemma hex_number_pad: "hex_number (pad_zeros k t) = hex_number t"
proof -
  have "foldl (\<lambda>n c. 16 * n + hex_val c) 0 (replicate m 48) = 0" for m by (induction m) (simp_all add: hex_val_def)
  then show ?thesis by (simp add: hex_number_def pad_zeros_def)
qed

lemma no_brace: "125 \<notin> set (pad_zeros k (show_hex n))"
proof -
  have "c \<in> set (show_hex n) \<Longrightarrow> c < 103" for c
    by (induction n rule: show_hex.induct) (subst (asm) show_hex.simps, auto simp: hex_digit_def split: if_splits)
  then show ?thesis by (fastforce simp: pad_zeros_def)
qed

lemma unescape_char: "unescape (escape_char c @ t) = map_option (Cons c) (unescape t)"
proof -
  have plain: "unescape (escape_char c @ t) = map_option (Cons c) (unescape t)"
    if "c \<in> {92, 34, 10, 13, 9} \<or> \<not> needs_escape c"
    using that by (subst unescape.simps) (auto simp: escape_char_def)
  have hexed: "unescape ([92, 117, 123] @ pad_zeros 4 (show_hex c) @ 125 # t) = map_option (Cons c) (unescape t)"
  proof -
    have all: "\<forall>x \<in> set (pad_zeros 4 (show_hex c)). x \<noteq> 125" using no_brace [of 4 c] by auto
    have "takeWhile (\<lambda>x. x \<noteq> 125) (pad_zeros 4 (show_hex c) @ 125 # t) = pad_zeros 4 (show_hex c)"
      "dropWhile (\<lambda>x. x \<noteq> 125) (pad_zeros 4 (show_hex c) @ 125 # t) = 125 # t"
      using all by (simp_all add: takeWhile_append2 dropWhile_append2)
    then show ?thesis by (subst unescape.simps) (simp add: hex_number_pad hex_number_show)
  qed
  show ?thesis
  proof (cases "c \<in> {92, 34, 10, 13, 9} \<or> \<not> needs_escape c")
    case False
    with hexed show ?thesis by (simp add: escape_char_def)
  qed (rule plain)
qed

lemma unescape_quoted: "unescape (concat (map escape_char s) @ [34]) = Some s"
proof (induction s)
  case Nil
  then show ?case by (subst unescape.simps) simp
next
  case (Cons c s)
  then show ?case using unescape_char [of c "concat (map escape_char s) @ [34]"] by simp
qed

lemma unquote_quote: "unquote (quote_for_pretty s) = Some s"
proof (cases "s \<noteq> [] \<and> \<not> list_ex (\<lambda>c. c = 32 \<or> c = 34 \<or> c = 61 \<or> needs_escape c) s")
  case True
  then have "quote_for_pretty s = s" by (simp add: quote_for_pretty_def)
  with True show ?thesis by (cases s) (auto simp: unquote_def)
next
  case False
  then have "quote_for_pretty s = [34] @ concat (map escape_char s) @ [34]" unfolding quote_for_pretty_def by (rule if_not_P)
  then show ?thesis by (simp add: unquote_def unescape_quoted)
qed

section \<open>Nested values stay linear\<close>

text \<open>The size of a value: its characters, and one for every node.\<close>

fun any_size :: "any_value \<Rightarrow> nat" and attr_size :: "key_value \<Rightarrow> nat" where
  "any_size (AnyValue None) = 1"
| "any_size (AnyValue (Some v)) = (case v of
       StringValue s \<Rightarrow> 1 + length (chars s)
     | ArrayValue vs \<Rightarrow> 1 + sum_list (map any_size vs)
     | KvlistValue kvs \<Rightarrow> 1 + sum_list (map attr_size kvs)
     | StringValueStrindex _ \<Rightarrow> 1
     | _ \<Rightarrow> 1 + length (scalar_to_string v))"
| "attr_size (KeyValue k v) = 1 + length (chars k) + (case v of None \<Rightarrow> 1 | Some a \<Rightarrow> any_size a)"

lemma show_hex_short: "c < 65536 \<Longrightarrow> length (pad_zeros 4 (show_hex c)) \<le> 4"
proof -
  assume c: "c < 65536"
  have step: "c < 16 * k \<Longrightarrow> length (show_hex c) \<le> 1 + length (show_hex (c div 16))" for c k :: nat
    by (subst show_hex.simps) simp
  have "length (show_hex n) = 1" if "n < 16" for n using that by (subst show_hex.simps) simp
  then have "length (show_hex c) \<le> 4"
    using c step [of c 4096] step [of "c div 16" 256] step [of "c div 16 div 16" 16]
      less_mult_imp_div_less [of c 4096 16] less_mult_imp_div_less [of "c div 16" 256 16]
      less_mult_imp_div_less [of "c div 16 div 16" 16 16] by fastforce
  then show ?thesis by (simp add: pad_zeros_def)
qed

lemma escape_short: "length (escape_char c) \<le> 8"
  using show_hex_short [of c] by (auto simp: escape_char_def needs_escape_def)

lemma quote_short: "length (quote_for_pretty s) \<le> 8 * length s + 2"
proof -
  have "length (concat (map escape_char s)) \<le> 8 * length s"
  proof (induction s)
    case (Cons c s)
    then show ?case using escape_short [of c] by simp
  qed simp
  then show ?thesis by (simp add: quote_for_pretty_def)
qed

lemma join_length: "length (join_with sep ts) \<le> (\<Sum>t\<leftarrow>ts. length t + length sep)"
  by (induction sep ts rule: join_with.induct) auto

lemma join_bound: "\<forall>x \<in> set xs. length (f x) + 2 \<le> 8 * g x \<Longrightarrow> length (join_with (ascii '', '') (map f xs)) \<le> 8 * sum_list (map g xs)"
proof -
  assume "\<forall>x \<in> set xs. length (f x) + 2 \<le> 8 * g x"
  then have "(\<Sum>t\<leftarrow>map f xs. length t + length (ascii '', '')) \<le> 8 * sum_list (map g xs)"
    by (induction xs) (auto simp: ascii_def)
  with join_length [of "ascii '', ''" "map f xs"] show ?thesis by linarith
qed

lemma value_bounds: "length (pretty_any_value v) + 2 \<le> 8 * any_size v" "length (format_attr kv) + 2 \<le> 8 * attr_size kv"
proof (induction v and kv rule: pretty_any_value_format_attr.induct)
  case 1
  show ?case using quote_short [of "[]"] by simp
next
  case (2 v)
  show ?case
  proof (cases v)
    case (StringValue s)
    then show ?thesis using quote_short [of "chars s"] by simp
  next
    case (ArrayValue vs)
    then show ?thesis using join_bound [of vs pretty_any_value any_size] 2 by (simp add: ascii_def)
  next
    case (KvlistValue kvs)
    then show ?thesis using join_bound [of kvs format_attr attr_size] 2 by (simp add: ascii_def)
  next
    case (StringValueStrindex i)
    then show ?thesis using quote_short [of "[]"] by simp
  qed simp_all
next
  case (3 k v)
  then show ?case using quote_short [of "chars k"] quote_short [of "[]"] by (cases v) (auto simp: ascii_def)
qed

lemma attrs_bound: "length (format_attrs attrs) \<le> 8 * sum_list (map attr_size attrs) + 2"
  using join_bound [of attrs format_attr attr_size] value_bounds(2) by (simp add: format_attrs_def ascii_def)

end
