(* ===== verification/Pretty_Output.thy ===== *)
theory Pretty_Output
  imports Sink_Laws Format_Laws
begin

text \<open>
  Where human-readable output goes (\<^verbatim>\<open>src/src/sink.rs\<close>): the target of a writer task, one
  round of the task with the summary taken just before the write, what is logged about failures,
  and the outcome of the final drain. The daily file of \<^verbatim>\<open>--pretty-log\<close> is the writer of
  \<^verbatim>\<open>Storage\<close>; stdout is a stream whose writes may fail.
\<close>

section \<open>Writing a batch\<close>

text \<open>An \<^verbatim>\<open>io::Write\<close>: the first argument of a write is what the call reads from the clock.\<close>

record ('c, 'w) write_ops =
  wr_write_all :: "'c \<Rightarrow> u8 list \<Rightarrow> 'w \<Rightarrow> unit io_result \<times> 'w"
  wr_flush :: "'w \<Rightarrow> unit io_result \<times> 'w"

text \<open>
  \<^verbatim>\<open>write_all\<close> on the daily writer: its \<^verbatim>\<open>write\<close> takes everything at once, and without
  bytes there is no call at all.
\<close>

definition daily_write_all :: "('d \<Rightarrow> str) \<Rightarrow> 'd \<Rightarrow> u8 list \<Rightarrow> 'd daily_writer \<Rightarrow> unit io_result \<times> 'd daily_writer" where
  "daily_write_all show_date today bytes w = (if bytes = [] then (Inr (), w) else append_at show_date bytes today w)"

definition daily_ops :: "('d \<Rightarrow> str) \<Rightarrow> ('d, 'd daily_writer) write_ops" where
  "daily_ops show_date = \<lparr>wr_write_all = daily_write_all show_date, wr_flush = daily_flush\<rparr>"

definition write_pretty_to ::
    "('c, 'w) write_ops \<Rightarrow> 'c \<Rightarrow> 'c \<Rightarrow> str \<Rightarrow> str option \<Rightarrow> 'w \<Rightarrow> unit io_result \<times> 'w" where
  "write_pretty_to ops now now' rendered summary w =
     (case wr_write_all ops now (text_bytes rendered) w of
        (Inl e, w) \<Rightarrow> (Inl e, w)
      | (Inr _, w) \<Rightarrow>
          (case (case summary of None \<Rightarrow> (Inr (), w) | Some summary \<Rightarrow> wr_write_all ops now' (text_bytes summary) w) of
             (Inl e, w) \<Rightarrow> (Inl e, w)
           | (Inr _, w) \<Rightarrow> wr_flush ops w))"

datatype ('o, 'd) pretty_target = TargetStdout 'o | TargetFile "'d daily_writer"

fun target_name :: "('o, 'd) pretty_target \<Rightarrow> str" where
  "target_name (TargetStdout _) = ''stdout''"
| "target_name (TargetFile _) = ''pretty-log''"

fun target_is_stdout :: "('o, 'd) pretty_target \<Rightarrow> bool" where
  "target_is_stdout (TargetStdout _) = True"
| "target_is_stdout (TargetFile _) = False"

definition write_blocking ::
    "('d, 'o) write_ops \<Rightarrow> ('d \<Rightarrow> str) \<Rightarrow> 'd \<Rightarrow> 'd \<Rightarrow> str \<Rightarrow> str option \<Rightarrow> ('o, 'd) pretty_target \<Rightarrow>
     unit io_result \<times> ('o, 'd) pretty_target" where
  "write_blocking out show_date now now' rendered summary target = (case target of
       TargetStdout handle \<Rightarrow> map_prod id TargetStdout (write_pretty_to out now now' rendered summary handle)
     | TargetFile roller \<Rightarrow> map_prod id TargetFile (write_pretty_to (daily_ops show_date) now now' rendered summary roller))"

section \<open>Diagnostics\<close>

datatype log_level = LevelError | LevelWarn | LevelInfo

text \<open>A line about the health of an output; JSONL persistence names no destination.\<close>

record 'e health_line =
  hl_level :: log_level
  hl_destination :: "str option"
  hl_error :: "'e option"
  hl_failed_batches :: "u64 option"
  hl_failing_for_secs :: "nat option"

definition as_secs :: "nat \<Rightarrow> nat" where
  "as_secs ns = ns div 1000000000"

definition log_health :: "str \<Rightarrow> health_report \<Rightarrow> 'e option \<Rightarrow> 'e health_line option" where
  "log_health destination report error = (case report of
       Silent \<Rightarrow> None
     | Started \<Rightarrow> Some \<lparr>hl_level = LevelError, hl_destination = Some destination, hl_error = error,
         hl_failed_batches = None, hl_failing_for_secs = None\<rparr>
     | Ongoing failures elapsed \<Rightarrow> Some \<lparr>hl_level = LevelWarn, hl_destination = Some destination, hl_error = error,
         hl_failed_batches = Some failures, hl_failing_for_secs = Some (as_secs elapsed)\<rparr>
     | Recovered failures elapsed \<Rightarrow> Some \<lparr>hl_level = LevelInfo, hl_destination = Some destination, hl_error = None,
         hl_failed_batches = Some failures, hl_failing_for_secs = Some (as_secs elapsed)\<rparr>)"

definition log_jsonl_health :: "health_report \<Rightarrow> 'e option \<Rightarrow> 'e health_line option" where
  "log_jsonl_health report error = (case report of
       Silent \<Rightarrow> None
     | Started \<Rightarrow> Some \<lparr>hl_level = LevelError, hl_destination = None, hl_error = error,
         hl_failed_batches = None, hl_failing_for_secs = None\<rparr>
     | Ongoing failures elapsed \<Rightarrow> Some \<lparr>hl_level = LevelWarn, hl_destination = None, hl_error = error,
         hl_failed_batches = Some failures, hl_failing_for_secs = Some (as_secs elapsed)\<rparr>
     | Recovered failures elapsed \<Rightarrow> Some \<lparr>hl_level = LevelInfo, hl_destination = None, hl_error = None,
         hl_failed_batches = Some failures, hl_failing_for_secs = Some (as_secs elapsed)\<rparr>)"

text \<open>The destination, the failed batches, and the seconds of the outage and since the last failure.\<close>

definition report_unresolved_at_shutdown ::
    "str \<Rightarrow> nat \<Rightarrow> pretty_writer_state \<Rightarrow> (str \<times> u64 \<times> nat \<times> nat) option" where
  "report_unresolved_at_shutdown destination now s = (case unresolved now (health s) of
       None \<Rightarrow> None
     | Some (failures, elapsed, since_last_failure) \<Rightarrow>
         Some (destination, failures, as_secs elapsed, as_secs since_last_failure))"

fun drop_reason_name :: "drop_reason \<Rightarrow> str" where
  "drop_reason_name WriterStopped = ''writer_stopped''"
| "drop_reason_name QueueFull = ''queue_full''"
| "drop_reason_name ByteBudget = ''byte_budget''"

text \<open>
  The final drain: the synchronisation was answered, its channel or the one-shot channel was
  closed, or the deadline came first. Only the last two are logged.
\<close>

datatype drain_outcome = Drained | WriterGone | DeadlineOver

datatype drain_warning = StoppedBeforeShutdown u64 | NotDrained

definition drain_report :: "drain_outcome \<Rightarrow> 'q pretty_output \<Rightarrow> drain_warning option" where
  "drain_report drained po = (case drained of
       Drained \<Rightarrow> None
     | WriterGone \<Rightarrow> Some (StoppedBeforeShutdown (po_dropped po))
     | DeadlineOver \<Rightarrow> Some NotDrained)"

section \<open>A round of the writer task\<close>

definition EPIPE :: nat where
  "EPIPE = 32"

definition outcome_of :: "unit io_result \<Rightarrow> write_outcome" where
  "outcome_of r = (case r of Inr _ \<Rightarrow> Written | Inl (IoError code) \<Rightarrow> if code = EPIPE then BrokenPipe else OtherError)"

definition error_of_write :: "unit io_result \<Rightarrow> io_error option" where
  "error_of_write r = (case r of Inl e \<Rightarrow> Some e | Inr _ \<Rightarrow> None)"

text \<open>What a round reads from its surroundings: the date of each write, the time after them, the totals.\<close>

record 'd round_input =
  ri_date :: 'd
  ri_date' :: 'd
  ri_now :: nat
  ri_snapshot :: usage_snapshot

definition job_summary :: "bool \<Rightarrow> 'd round_input \<Rightarrow> pretty_job \<Rightarrow> str option" where
  "job_summary color inp job = (if pj_want_summary job then Some (utf8 (render_summary (ri_snapshot inp) color)) else None)"

definition writer_round ::
    "('d, 'o) write_ops \<Rightarrow> ('d \<Rightarrow> str) \<Rightarrow> bool \<Rightarrow> 'd round_input \<Rightarrow> pretty_job \<Rightarrow>
     pretty_writer_state \<times> ('o, 'd) pretty_target \<Rightarrow> io_error health_line option \<times> pretty_writer_state \<times> ('o, 'd) pretty_target" where
  "writer_round out show_date color inp job = (\<lambda>(s, target).
     if should_write s \<and> pj_rendered job \<noteq> [] then
       (case write_blocking out show_date (ri_date inp) (ri_date' inp) (pj_rendered job) (job_summary color inp job) target of
          (result, target) \<Rightarrow> (case record_result (target_is_stdout target) (outcome_of result) (ri_now inp) s of
             (report, s) \<Rightarrow> (log_health (target_name target) report (error_of_write result), s, target)))
     else (None, s, target))"

definition writer_rounds ::
    "('d, 'o) write_ops \<Rightarrow> ('d \<Rightarrow> str) \<Rightarrow> bool \<Rightarrow> ('d round_input \<times> pretty_job) list \<Rightarrow>
     pretty_writer_state \<times> ('o, 'd) pretty_target \<Rightarrow> pretty_writer_state \<times> ('o, 'd) pretty_target" where
  "writer_rounds out show_date color rounds st = fold (\<lambda>(inp, job) st. snd (writer_round out show_date color inp job st)) rounds st"

section \<open>What a daily file of human-readable output holds\<close>

lemma text_bytes_append [simp]: "text_bytes (s @ t) = text_bytes s @ text_bytes t" "text_bytes [] = []"
  by (simp_all add: text_bytes_def)

lemma utf8_append [simp]: "utf8 (s @ t) = utf8 s @ utf8 t" "utf8 [] = []"
  by (simp_all add: utf8_def)

text \<open>A text that ends its last line is kept by the recovery of a file.\<close>

definition shown_bytes :: "bool \<Rightarrow> u8 list \<Rightarrow> bool" where
  "shown_bytes color bytes \<longleftrightarrow> (\<exists>n t. bytes = text_bytes (utf8 t) \<and> lines_shown color n t)"

lemma shown_bytes_intro: "lines_shown color n t \<Longrightarrow> shown_bytes color (text_bytes (utf8 t))"
  by (auto simp: shown_bytes_def)

lemma shown_bytes_Nil [simp]: "shown_bytes color []"
  using shown_bytes_intro [OF lines_shown_Nil] by simp

lemma shown_bytes_append: "shown_bytes color xs \<Longrightarrow> shown_bytes color ys \<Longrightarrow> shown_bytes color (xs @ ys)"
  unfolding shown_bytes_def by (metis lines_shown_append text_bytes_append(1) utf8_append(1))

lemma shown_bytes_complete:
  assumes "shown_bytes color bytes"
  shows "complete_lines bytes = bytes"
proof -
  obtain ls where t: "bytes = text_bytes (utf8 (concat (map (\<lambda>l. l @ [10]) ls)))" using assms by (auto simp: shown_bytes_def lines_shown_def)
  show ?thesis
  proof (cases ls rule: rev_cases)
    case (snoc xs l)
    have "text_bytes (utf8 [10]) = [newline]" by (simp add: utf8_def utf8_char_def text_bytes_def newline_def byte_def)
    then have "bytes = text_bytes (utf8 (concat (map (\<lambda>l. l @ [10]) xs) @ l)) @ [newline]"
      by (simp add: t snoc)
    then show ?thesis by (simp only: complete_lines_newline)
  qed (simp add: t)
qed

text \<open>The chunks of a round are its text and its summary; each is written as a whole or not at all.\<close>

definition round_chunks :: "bool \<Rightarrow> 'd round_input \<times> pretty_job \<Rightarrow> u8 list list" where
  "round_chunks color r = map text_bytes (pj_rendered (snd r) # (case job_summary color (fst r) (snd r) of None \<Rightarrow> [] | Some s \<Rightarrow> [s]))"

definition whole_chunks :: "('d \<Rightarrow> str) \<Rightarrow> (str \<Rightarrow> u8 list) \<Rightarrow> u8 list list \<Rightarrow> 'd daily_writer \<Rightarrow> 'd daily_writer \<Rightarrow> bool" where
  "whole_chunks show_date base chunks w0 w \<longleftrightarrow> dw_wf show_date w \<and> dw_dir w = dw_dir w0 \<and> dw_prefix w = dw_prefix w0 \<and>
     dw_suffix w = dw_suffix w0 \<and> (\<exists>written. subseq (map fst written) chunks \<and> (\<forall>p. dw_stored w p = base p @
       bytes_for (daily_path show_date (dw_dir w0) (dw_prefix w0) (dw_suffix w0)) p written))"

lemma whole_chunks_skip: "whole_chunks show_date base chunks w0 w \<Longrightarrow> whole_chunks show_date base (chunks @ rest) w0 w"
  unfolding whole_chunks_def by (metis list_emb_prefix)

lemma whole_chunks_write:
  assumes "whole_chunks show_date base chunks w0 w" and "complete_lines bytes = bytes"
    and "daily_write_all show_date date bytes w = (r, w')"
  shows "whole_chunks show_date base (chunks @ [bytes]) w0 w'"
proof (cases "bytes = []")
  case True
  then show ?thesis using assms whole_chunks_skip by (auto simp: daily_write_all_def)
next
  case False
  then have app: "append_at show_date bytes date w = (r, w')" using assms(3) by (simp add: daily_write_all_def)
  obtain written where W: "dw_wf show_date w" "subseq (map fst written) chunks" "dw_dir w = dw_dir w0" "dw_prefix w = dw_prefix w0"
    "dw_suffix w = dw_suffix w0"
    "\<And>p. dw_stored w p = base p @ bytes_for (daily_path show_date (dw_dir w0) (dw_prefix w0) (dw_suffix w0)) p written"
    using assms(1) by (auto simp: whole_chunks_def)
  note A = append_at_spec [OF W(1) assms(2) app]
  have sub: "subseq (map fst (written @ (if r = Inr () then [(bytes, date)] else []))) (chunks @ [bytes])"
    using W(2) by (auto simp: list_emb_append2 intro: list_emb_append_mono)
  show ?thesis
    unfolding whole_chunks_def using A W sub
    by (intro conjI exI [of _ "written @ (if r = Inr () then [(bytes, date)] else [])"]) (auto simp: bytes_for_def)
qed

lemma whole_chunks_flush:
  "whole_chunks show_date base chunks w0 w \<Longrightarrow> daily_flush w = (r, w') \<Longrightarrow> whole_chunks show_date base chunks w0 w'"
  using daily_flush_same [of w r w' show_date] by (simp add: whole_chunks_def)

lemma whole_chunks_pretty:
  assumes "whole_chunks show_date base chunks w0 w" and "complete_lines (text_bytes rendered) = text_bytes rendered"
    and "\<forall>s. summary = Some s \<longrightarrow> complete_lines (text_bytes s) = text_bytes s"
    and "write_pretty_to (daily_ops show_date) now now' rendered summary w = (r, w')"
  shows "whole_chunks show_date base
    (chunks @ map text_bytes (rendered # (case summary of None \<Rightarrow> [] | Some s \<Rightarrow> [s]))) w0 w'"
proof -
  let ?more = "case summary of None \<Rightarrow> [] | Some s \<Rightarrow> [text_bytes s]"
  have eq: "chunks @ map text_bytes (rendered # (case summary of None \<Rightarrow> [] | Some s \<Rightarrow> [s])) = (chunks @ [text_bytes rendered]) @ ?more"
    by (simp split: option.split)
  obtain q1 w1 where a: "daily_write_all show_date now (text_bytes rendered) w = (q1, w1)" by fastforce
  have 1: "whole_chunks show_date base (chunks @ [text_bytes rendered]) w0 w1" by (rule whole_chunks_write [OF assms(1,2) a])
  show ?thesis
  proof (cases q1)
    case (Inl e)
    then have "w' = w1" using assms(4) a by (simp add: write_pretty_to_def daily_ops_def)
    with whole_chunks_skip [OF 1] show ?thesis unfolding eq by simp
  next
    case (Inr u)
    obtain q2 w2 where b: "(case summary of None \<Rightarrow> (Inr (), w1) | Some s \<Rightarrow> daily_write_all show_date now' (text_bytes s) w1) = (q2, w2)"
      by fastforce
    have ops: "wr_write_all (daily_ops show_date) = daily_write_all show_date" "wr_flush (daily_ops show_date) = daily_flush"
      by (simp_all add: daily_ops_def)
    have 2: "whole_chunks show_date base ((chunks @ [text_bytes rendered]) @ ?more) w0 w2"
      using 1 b whole_chunks_write [OF 1, of "text_bytes (the summary)" now' q2 w2] assms(3) by (auto split: option.splits)
    obtain q3 w3 where c: "daily_flush w2 = (q3, w3)" by fastforce
    have "w' = w2 \<or> w' = w3" using assms(4) [unfolded write_pretty_to_def ops a Inr] b c by (cases q2) simp_all
    with 2 whole_chunks_flush [OF 2 c] show ?thesis unfolding eq by blast
  qed
qed

text \<open>Texts of batches and summaries, as the sink and the writer make them, end their last lines.\<close>

definition job_rendered :: "text_library \<Rightarrow> bool \<Rightarrow> pretty_job \<Rightarrow> bool" where
  "job_rendered lib color job \<longleftrightarrow> pj_rendered job = [] \<or> (\<exists>rcd. pj_rendered job = utf8 (render lib rcd color))"

definition round_clean :: "text_library \<Rightarrow> bool \<Rightarrow> 'd round_input \<times> pretty_job \<Rightarrow> bool" where
  "round_clean lib color r \<longleftrightarrow> job_rendered lib color (snd r) \<and> clean_text (chars (us_started_at (ri_snapshot (fst r))))"

lemma round_texts:
  assumes "times_clean lib" and "round_clean lib color r"
  shows "shown_bytes color (text_bytes (pj_rendered (snd r)))"
    and "job_summary color (fst r) (snd r) = Some s \<Longrightarrow> shown_bytes color (text_bytes s)"
  using assms shown_bytes_intro [OF render_shown [OF assms(1)]] shown_bytes_intro [OF render_summary_shown]
  by (auto simp: round_clean_def job_rendered_def job_summary_def split: if_splits)

lemma writer_round_file:
  assumes "times_clean lib" and "round_clean lib color r" and "whole_chunks show_date base chunks w0 w"
    and "snd (writer_round out show_date color (fst r) (snd r) (s, TargetFile w)) = (s', target')"
  shows "\<exists>w'. target' = TargetFile w' \<and> whole_chunks show_date base (chunks @ round_chunks color r) w0 w'"
proof (cases "should_write s \<and> pj_rendered (snd r) \<noteq> []")
  case False
  then show ?thesis using assms(4) whole_chunks_skip [OF assms(3)] by (auto simp: writer_round_def)
next
  case True
  note T = round_texts [OF assms(1,2)]
  obtain q w' where p: "write_pretty_to (daily_ops show_date) (ri_date (fst r)) (ri_date' (fst r)) (pj_rendered (snd r))
      (job_summary color (fst r) (snd r)) w = (q, w')" by fastforce
  have "whole_chunks show_date base (chunks @ round_chunks color r) w0 w'"
    unfolding round_chunks_def
    by (rule whole_chunks_pretty [OF assms(3) _ _ p]) (use T shown_bytes_complete in \<open>blast+\<close>)
  moreover have "target' = TargetFile w'"
    using assms(4) True p by (auto simp: writer_round_def write_blocking_def split: prod.splits)
  ultimately show ?thesis by blast
qed

lemma writer_rounds_file:
  assumes "times_clean lib"
  shows "\<forall>r \<in> set rounds. round_clean lib color r \<Longrightarrow> whole_chunks show_date base chunks w0 w \<Longrightarrow>
    \<exists>s' w'. writer_rounds out show_date color rounds (s, TargetFile w) = (s', TargetFile w') \<and>
      whole_chunks show_date base (chunks @ concat (map (round_chunks color) rounds)) w0 w'"
proof (induction rounds arbitrary: s w chunks)
  case Nil
  then show ?case by (simp add: writer_rounds_def)
next
  case (Cons r rounds)
  obtain s1 t1 where one: "snd (writer_round out show_date color (fst r) (snd r) (s, TargetFile w)) = (s1, t1)" by fastforce
  obtain w1 where w1: "t1 = TargetFile w1" "whole_chunks show_date base (chunks @ round_chunks color r) w0 w1"
    using writer_round_file [OF assms _ Cons.prems(2) one] Cons.prems(1) by auto
  have "writer_rounds out show_date color (r # rounds) (s, TargetFile w) = writer_rounds out show_date color rounds (s1, TargetFile w1)"
    using one w1(1) by (simp add: writer_rounds_def case_prod_beta')
  then show ?case using Cons.IH [OF _ w1(2), of s1] Cons.prems(1) by simp
qed

text \<open>The bytes of chosen chunks of clean rounds are again a text of whole, safe lines.\<close>

lemma chunks_shown:
  assumes "times_clean lib" and "\<forall>r \<in> set rounds. round_clean lib color r"
    and "bytes \<in> set (concat (map (round_chunks color) rounds))"
  shows "shown_bytes color bytes"
proof -
  obtain r where r: "r \<in> set rounds" "bytes \<in> set (round_chunks color r)" using assms(3) by auto
  have clean: "round_clean lib color r" using assms(2) r(1) by blast
  show ?thesis
    using r(2) round_texts [OF assms(1) clean] by (auto simp: round_chunks_def split: option.splits)
qed

lemma chosen_shown: "\<forall>x \<in> set xs. shown_bytes color (fst x) \<Longrightarrow> shown_bytes color (concat (map fst (filter P xs)))"
  by (induction xs) (auto intro: shown_bytes_append)

lemma bytes_for_shown:
  assumes "times_clean lib" and "\<forall>r \<in> set rounds. round_clean lib color r"
    and "subseq (map fst written) (concat (map (round_chunks color) rounds))"
  shows "shown_bytes color (bytes_for path_of p written)"
  unfolding bytes_for_def
proof (rule chosen_shown, rule ballI)
  fix x assume "x \<in> set written"
  then have "fst x \<in> set (concat (map (round_chunks color) rounds))"
    using assms(3) list_emb_set [of "(=)"] by (metis image_eqI list.set_map)
  from chunks_shown [OF assms(1,2) this] show "shown_bytes color (fst x)" .
qed

lemma opened_pretty_log:
  assumes "open_pretty_log lib su dir d = (Inr w, d')"
  shows "whole_chunks (sl_show_date lib) (\<lambda>p. complete_lines (disk_bytes d p)) [] w w \<and> dw_dir w = dir \<and>
    dw_prefix w = PRETTY_LOG_PREFIX \<and> dw_suffix w = Some PRETTY_LOG_SUFFIX"
proof -
  obtain q d1 where c: "create_private_dir dir d = (q, d1)" by fastforce
  have keep: "disk_bytes d1 = disk_bytes d" using create_keeps(1) [OF c] by (simp add: fun_eq_iff disk_bytes_def)
  have "daily_at_date (sl_show_date lib) dir PRETTY_LOG_PREFIX (Some PRETTY_LOG_SUFFIX) (su_local_date su) d1 = (Inr w, d')"
    using assms c by (cases q) (auto simp: open_pretty_log_def)
  from daily_at_date_wf [OF this] show ?thesis
    by (auto simp: whole_chunks_def keep bytes_for_def intro!: exI [of _ "[]"])
qed

section \<open>A concrete output\<close>

definition sample_text_library :: text_library where
  "sample_text_library = \<lparr>tl_rfc3339 = \<lambda>_ _. Some (ascii ''2025-01-01T00:00:00Z''), tl_to_uppercase = ascii\<rparr>"

lemma sample_times_clean: "times_clean sample_text_library"
  by (simp add: times_clean_def sample_text_library_def clean_ascii byte_def)

text \<open>A log line that tries to clear the screen and to start a line of its own.\<close>

definition hostile_log :: log_record where
  "hostile_log = \<lparr>lr_time_unix_nano = 5, lr_severity_number = 9, lr_severity_text = '''',
     lr_body = Some (AnyValue (Some (StringValue (map char_of [27 :: nat, 91, 50, 74, 10])))), lr_attributes = [], lr_event_name = ''''\<rparr>"

definition hostile_batch :: telemetry_record where
  "hostile_batch = Logs [\<lparr>rl_resource = None, rl_scope_logs = [\<lparr>sl_scope = None, sl_log_records = [hostile_log]\<rparr>]\<rparr>]"

definition sample_round :: "str round_input \<times> pretty_job" where
  "sample_round = (\<lparr>ri_date = ''2025-01-01'', ri_date' = ''2025-01-02'', ri_now = 0,
       ri_snapshot = \<lparr>us_started_at = ''2025-01-01T00:00:00Z'', us_last_updated = None, us_agents = []\<rparr>\<rparr>,
     \<lparr>pj_rendered = utf8 (render sample_text_library hostile_batch False), pj_want_summary = True, pj_sync = None\<rparr>)"

definition sample_stdout :: "(str, u8 list) write_ops" where
  "sample_stdout = \<lparr>wr_write_all = \<lambda>_ bytes w. (Inr (), w @ bytes), wr_flush = Pair (Inr ())\<rparr>"

lemma sample_round_clean: "round_clean sample_text_library False sample_round"
proof -
  have "chars ''2025-01-01T00:00:00Z'' = ascii ''2025-01-01T00:00:00Z''" by code_simp
  then show ?thesis by (auto simp: round_clean_def job_rendered_def sample_round_def clean_ascii byte_def)
qed

end
