(* ===== verification/Diagnostics.thy ===== *)
theory Diagnostics
  imports Channel Storage Rust_Fmt "HOL-Library.Sublist"
begin

text \<open>
  The writer of diagnostic lines of \<^verbatim>\<open>src/src/diagnostics.rs\<close>: lines are queued without
  waiting, a thread writes them to stderr, and what could not be queued or written is counted and
  reported in a line of its own. The bounded channel is a library and an argument; what a write of
  stderr returns is given call by call, and a write succeeds when nothing else is given.
\<close>

section \<open>Writing\<close>

datatype write_call = Wrote nat | WriteInterrupted | WriteFailed_here

record err_stream =
  es_bytes :: "u8 list"
  es_calls :: "write_call list"

text \<open>
  The result is the number of bytes written before a failure. A call never reports more bytes than
  it was given.
\<close>

fun write_calls :: "u8 list \<Rightarrow> nat \<Rightarrow> u8 list \<Rightarrow> write_call list \<Rightarrow> nat option \<times> err_stream" where
  "write_calls buf written bytes [] =
     (None, \<lparr>es_bytes = bytes @ drop written buf, es_calls = []\<rparr>)"
| "write_calls buf written bytes (c # cs) =
     (if length buf \<le> written then (None, \<lparr>es_bytes = bytes, es_calls = c # cs\<rparr>)
      else case c of
        Wrote n \<Rightarrow>
          if n = 0 then (Some written, \<lparr>es_bytes = bytes, es_calls = cs\<rparr>)
          else write_calls buf (min (length buf) (written + n)) (bytes @ take n (drop written buf)) cs
      | WriteInterrupted \<Rightarrow> write_calls buf written bytes cs
      | WriteFailed_here \<Rightarrow> (Some written, \<lparr>es_bytes = bytes, es_calls = cs\<rparr>))"

definition write_counting :: "u8 list \<Rightarrow> err_stream \<Rightarrow> nat option \<times> err_stream" where
  "write_counting buf out = write_calls buf 0 (es_bytes out) (es_calls out)"

text \<open>Whether the line was written, the stream, and whether the stream now ends in a torn line.\<close>

definition write_diagnostic :: "u8 list \<Rightarrow> err_stream \<Rightarrow> bool \<Rightarrow> bool \<times> err_stream \<times> bool" where
  "write_diagnostic line out torn =
     (case (if torn then write_counting [newline] out else (None, out)) of
        (Some _, out) \<Rightarrow> (False, out, torn)
      | (None, out) \<Rightarrow> (case write_counting line out of
            (None, out) \<Rightarrow> (True, out, False)
          | (Some written, out) \<Rightarrow> (False, out, 0 < written)))"

text \<open>The report of lost lines. The characters outside ASCII are given as code points.\<close>

definition dropped_note :: "str \<Rightarrow> u64 \<Rightarrow> u8 list" where
  "dropped_note now lost = text_bytes (now @ ''  WARN '' @ utf8 (show_nat (unat lost)) @
     '' diagnostic log line(s) were dropped while stderr was not writable or not keeping up / stderr '' @
     utf8 [12395, 26360, 12369, 12394, 12356, 12539, 36861, 12356, 12388, 12363, 12394, 12356, 38291, 12395, 12289,
       35386, 26029, 12525, 12464, 12434, 32] @ utf8 (show_nat (unat lost)) @
     utf8 [32, 34892, 25448, 12390, 12414, 12375, 12383, 10])"

section \<open>The queue and the thread\<close>

datatype diag_message = DiagLine "u8 list" | DiagFlush nat

datatype diag_phase = DiagIdle | DiagReceived "u8 list" | DiagHolding "u8 list" u64

text \<open>
  The last four fields are histories: the lines handed in, the lines written, the counts reported
  and the flushes answered.
\<close>

record 'q diag_state =
  dg_queue :: 'q
  dg_dropped :: u64
  dg_out :: err_stream
  dg_torn :: bool
  dg_phase :: diag_phase
  dg_offered :: "u8 list list"
  dg_written :: "u8 list list"
  dg_reported :: "u64 list"
  dg_flushed :: "nat list"

text \<open>Every write of the logging library is one line; a line that does not fit is counted.\<close>

definition diag_write :: "('q, diag_message) channel_ops \<Rightarrow> u8 list \<Rightarrow> 'q diag_state \<Rightarrow> 'q diag_state" where
  "diag_write ops buf s = (case ch_try_send ops (DiagLine buf) (dg_queue s) of
       (SendOk, q) \<Rightarrow> s\<lparr>dg_queue := q, dg_offered := dg_offered s @ [buf]\<rparr>
     | (_, q) \<Rightarrow> s\<lparr>dg_queue := q, dg_dropped := dg_dropped s + 1, dg_offered := dg_offered s @ [buf]\<rparr>)"

text \<open>The thread receives a message. For a line it then takes the count of lost lines, in a step of its own.\<close>

definition diag_take :: "diag_message \<Rightarrow> 'q \<Rightarrow> 'q diag_state \<Rightarrow> 'q diag_state" where
  "diag_take m q s = (case m of
       DiagLine l \<Rightarrow> s\<lparr>dg_queue := q, dg_phase := DiagReceived l\<rparr>
     | DiagFlush n \<Rightarrow> s\<lparr>dg_queue := q, dg_flushed := dg_flushed s @ [n]\<rparr>)"

definition diag_count :: "u8 list \<Rightarrow> 'q diag_state \<Rightarrow> 'q diag_state" where
  "diag_count l s = s\<lparr>dg_phase := DiagHolding l (dg_dropped s), dg_dropped := 0\<rparr>"

text \<open>The report first, then the line; what cannot be written is counted again.\<close>

definition write_note :: "u8 list \<Rightarrow> u64 \<Rightarrow> 'q diag_state \<Rightarrow> bool \<times> 'q diag_state" where
  "write_note note lost s =
     (if lost = 0 then (True, s)
      else let (ok, out, torn) = write_diagnostic note (dg_out s) (dg_torn s) in
        (ok, s\<lparr>dg_out := out, dg_torn := torn, dg_reported := dg_reported s @ (if ok then [lost] else [])\<rparr>))"

definition write_held :: "u8 list \<Rightarrow> 'q diag_state \<Rightarrow> bool \<times> 'q diag_state" where
  "write_held l s =
     (let (ok, out, torn) = write_diagnostic l (dg_out s) (dg_torn s) in
      (ok, s\<lparr>dg_out := out, dg_torn := torn, dg_written := dg_written s @ (if ok then [l] else [])\<rparr>))"

definition diag_emit :: "u8 list \<Rightarrow> u8 list \<Rightarrow> u64 \<Rightarrow> 'q diag_state \<Rightarrow> 'q diag_state" where
  "diag_emit note l lost s =
     (case write_note note lost (s\<lparr>dg_phase := DiagIdle\<rparr>) of
        (False, s) \<Rightarrow> s\<lparr>dg_dropped := dg_dropped s + saturating_add lost 1\<rparr>
      | (True, s) \<Rightarrow> (case write_held l s of
            (True, s) \<Rightarrow> s
          | (False, s) \<Rightarrow> s\<lparr>dg_dropped := dg_dropped s + 1\<rparr>))"

text \<open>
  Fewer than two to the 64 lines are handed in. The guard's flush is a message it tries to send
  until there is room, or its time is up.
\<close>

inductive diag_step :: "('q, diag_message) channel_ops \<Rightarrow> 'q diag_state \<Rightarrow> 'q diag_state \<Rightarrow> bool"
  for ops :: "('q, diag_message) channel_ops" where
  Write: "length (dg_offered s) + 1 < 2 ^ 64 \<Longrightarrow> diag_step ops s (diag_write ops buf s)"
| AskFlush: "diag_step ops s (s\<lparr>dg_queue := snd (ch_try_send ops (DiagFlush n) (dg_queue s))\<rparr>)"
| Take: "dg_phase s = DiagIdle \<Longrightarrow> ch_recv ops (dg_queue s) = Some (m, q) \<Longrightarrow> diag_step ops s (diag_take m q s)"
| Count: "dg_phase s = DiagReceived l \<Longrightarrow> diag_step ops s (diag_count l s)"
| Emit: "dg_phase s = DiagHolding l lost \<Longrightarrow> diag_step ops s (diag_emit (dropped_note now lost) l lost s)"

definition diag_start :: "'q \<Rightarrow> write_call list \<Rightarrow> 'q diag_state" where
  "diag_start q calls = \<lparr>dg_queue = q, dg_dropped = 0, dg_out = \<lparr>es_bytes = [], es_calls = calls\<rparr>, dg_torn = False,
     dg_phase = DiagIdle, dg_offered = [], dg_written = [], dg_reported = [], dg_flushed = []\<rparr>"

inductive diag_reachable :: "('q, diag_message) channel_ops \<Rightarrow> 'q diag_state \<Rightarrow> 'q diag_state \<Rightarrow> bool"
  for ops :: "('q, diag_message) channel_ops" and s0 :: "'q diag_state" where
  Start: "diag_reachable ops s0 s0"
| Step: "diag_reachable ops s0 s \<Longrightarrow> diag_step ops s s' \<Longrightarrow> diag_reachable ops s0 s'"

section \<open>Lines stay whole\<close>

lemma write_calls_bytes:
  "write_calls buf written bytes calls = (r, out) \<Longrightarrow> written \<le> length buf \<Longrightarrow>
     (case r of None \<Rightarrow> es_bytes out = bytes @ drop written buf
      | Some n \<Rightarrow> written \<le> n \<and> n < length buf \<and> es_bytes out = bytes @ take (n - written) (drop written buf))"
proof (induction buf written bytes calls arbitrary: r out rule: write_calls.induct)
  case (2 buf written bytes c cs)
  show ?case
  proof (cases "length buf \<le> written")
    case True
    then show ?thesis using 2 by auto
  next
    case False
    show ?thesis
    proof (cases c)
      case (Wrote n)
      show ?thesis
      proof (cases "n = 0")
        case False
        define w where "w = min (length buf) (written + n)"
        have IH: "case r of None \<Rightarrow> es_bytes out = (bytes @ take n (drop written buf)) @ drop w buf
          | Some k \<Rightarrow> w \<le> k \<and> k < length buf \<and> es_bytes out = (bytes @ take n (drop written buf)) @ take (k - w) (drop w buf)"
          using 2(1) [OF \<open>\<not> length buf \<le> written\<close> Wrote False, of r out] 2(3) False \<open>\<not> length buf \<le> written\<close>
          unfolding w_def by (cases r) (simp_all add: Wrote)
        have "drop written buf = take n (drop written buf) @ drop w buf"
          using append_take_drop_id [of n "drop written buf"]
          by (cases "written + n \<le> length buf") (simp_all add: w_def min_def add.commute)
        moreover have "take n (drop written buf) @ take (k - w) (drop w buf) = take (k - written) (drop written buf)" if "w \<le> k" "k < length buf" for k
        proof -
          have "w = written + n" using that by (auto simp: w_def min_def split: if_splits)
          then show ?thesis using that take_add [of n "k - w" "drop written buf"]
            by (simp add: add.commute)
        qed
        moreover have "written \<le> w" using 2(4) by (simp add: w_def)
        ultimately show ?thesis using IH by (cases r) auto
      qed (use 2 \<open>\<not> length buf \<le> written\<close> in \<open>auto simp: Wrote\<close>)
    qed (use 2 False in auto)
  qed
qed auto

text \<open>A line written in full stands on a line of its own when the stream was not torn.\<close>

definition starts_line :: "u8 list \<Rightarrow> bool" where
  "starts_line bs \<longleftrightarrow> complete_lines bs = bs"

definition ends_line :: "u8 list \<Rightarrow> bool" where
  "ends_line l \<longleftrightarrow> (\<exists>t. l = t @ [newline])"

lemma starts_line_ends: "ends_line l \<Longrightarrow> starts_line (bs @ l)"
  unfolding starts_line_def ends_line_def by (metis append.assoc complete_lines_newline(1))

text \<open>The lines stand in the stream in this order, each from the start of a line and undisturbed.\<close>

inductive stand_in :: "u8 list list \<Rightarrow> u8 list \<Rightarrow> bool" where
  None_yet: "stand_in [] bs"
| One_more: "stand_in ls a \<Longrightarrow> starts_line a \<Longrightarrow> stand_in (ls @ [l]) (a @ l @ b)"

lemma stand_in_more: "stand_in ls bs \<Longrightarrow> stand_in ls (bs @ c)"
proof (erule stand_in.cases)
  fix ls' a l b
  assume *: "ls = ls' @ [l]" "bs = a @ l @ b" "stand_in ls' a" "starts_line a"
  show "stand_in ls (bs @ c)" using stand_in.One_more [OF *(3,4), of l "b @ c"] by (simp add: *(1,2))
qed (simp add: stand_in.None_yet)

definition stream_ok :: "u8 list \<Rightarrow> bool \<Rightarrow> bool" where
  "stream_ok bs torn \<longleftrightarrow> torn \<or> starts_line bs"

lemma write_counting_bytes:
  "write_counting buf out = (r, out') \<Longrightarrow>
     (case r of None \<Rightarrow> es_bytes out' = es_bytes out @ buf
      | Some n \<Rightarrow> n < length buf \<and> es_bytes out' = es_bytes out @ take n buf)"
  unfolding write_counting_def by (drule write_calls_bytes) (auto split: option.splits)

lemma write_diagnostic_spec:
  assumes w: "write_diagnostic line out torn = (ok, out', torn')"
    and ok: "stream_ok (es_bytes out) torn" and l: "ends_line line"
  shows "stream_ok (es_bytes out') torn'"
    and "ok \<Longrightarrow> \<exists>a. es_bytes out' = es_bytes out @ a @ line \<and> starts_line (es_bytes out @ a)"
    and "\<exists>c. es_bytes out' = es_bytes out @ c"
proof -
  obtain r1 o1 where first: "(if torn then write_counting [newline] out else (None, out)) = (r1, o1)"
    by (cases "if torn then write_counting [newline] out else (None, out)")
  obtain r2 o2 where second: "write_counting line o1 = (r2, o2)" by (cases "write_counting line o1")
  have f: "case r1 of None \<Rightarrow> starts_line (es_bytes o1) \<and> es_bytes o1 = es_bytes out @ (if torn then [newline] else [])
      | Some n \<Rightarrow> es_bytes o1 = es_bytes out \<and> torn"
    using first ok write_counting_bytes [of "[newline]" out r1 o1]
    by (cases torn; cases r1) (auto simp: stream_ok_def starts_line_def)
  note g = write_counting_bytes [OF second]
  have r: "(ok, out', torn') = (case r1 of Some _ \<Rightarrow> (False, o1, torn)
      | None \<Rightarrow> (case r2 of None \<Rightarrow> (True, o2, False) | Some n \<Rightarrow> (False, o2, 0 < n)))"
    using w unfolding write_diagnostic_def first by (cases r1) (simp_all add: second)
  show "stream_ok (es_bytes out') torn'"
  proof (cases r1)
    case None
    then show ?thesis using r f g starts_line_ends [OF l, of "es_bytes o1"]
      by (cases r2) (auto simp: stream_ok_def)
  qed (use r f in \<open>simp add: stream_ok_def\<close>)
  show "ok \<Longrightarrow> \<exists>a. es_bytes out' = es_bytes out @ a @ line \<and> starts_line (es_bytes out @ a)"
  proof (rule exI [of _ "if torn then [newline] else []"])
    assume ok
    then have "r1 = None" "r2 = None" "out' = o2" using r by (simp_all split: option.splits)
    then show "es_bytes out' = es_bytes out @ (if torn then [newline] else []) @ line \<and>
        starts_line (es_bytes out @ (if torn then [newline] else []))"
      using f g by (cases torn) auto
  qed
  show "\<exists>c. es_bytes out' = es_bytes out @ c"
    using r f g by (cases r1; cases r2) simp_all
qed

lemma dropped_note_ends: "ends_line (dropped_note now lost)"
  unfolding dropped_note_def ends_line_def text_bytes_def utf8_def utf8_char_def
  by (simp add: newline_def byte_def)

section \<open>Every line is accounted for\<close>

fun line_of_message :: "diag_message \<Rightarrow> u8 list list" where
  "line_of_message (DiagLine l) = [l]"
| "line_of_message (DiagFlush n) = []"

definition queued_lines :: "diag_message list \<Rightarrow> u8 list list" where
  "queued_lines ms = concat (map line_of_message ms)"

lemma queued_simps [simp]:
  "queued_lines [] = []" "queued_lines (m # ms) = line_of_message m @ queued_lines ms"
  "queued_lines (xs @ ys) = queued_lines xs @ queued_lines ys"
  by (simp_all add: queued_lines_def)

definition held_line :: "'q diag_state \<Rightarrow> u8 list list" where
  "held_line s = (case dg_phase s of DiagIdle \<Rightarrow> [] | DiagReceived l \<Rightarrow> [l] | DiagHolding l _ \<Rightarrow> [l])"

definition held_count :: "'q diag_state \<Rightarrow> nat" where
  "held_count s = (case dg_phase s of DiagHolding _ lost \<Rightarrow> unat lost | _ \<Rightarrow> 0)"

text \<open>
  Every line handed in is queued, held by the thread, written, counted as lost or reported as lost;
  and the lines that are not lost keep their order.
\<close>

definition lines_counted :: "diag_message list \<Rightarrow> 'q diag_state \<Rightarrow> bool" where
  "lines_counted ms s \<longleftrightarrow>
     length (dg_offered s) = length (queued_lines ms) + length (held_line s) + length (dg_written s)
       + held_count s + unat (dg_dropped s) + sum_list (map unat (dg_reported s)) \<and>
     length (dg_offered s) < 2 ^ 64 \<and>
     subseq (dg_written s @ held_line s @ queued_lines ms) (dg_offered s)"

definition lines_stand :: "'q diag_state \<Rightarrow> bool" where
  "lines_stand s \<longleftrightarrow> stream_ok (es_bytes (dg_out s)) (dg_torn s) \<and> stand_in (dg_written s) (es_bytes (dg_out s))"

lemma unat_next: "unat (w :: u64) + 1 < 2 ^ 64 \<Longrightarrow> unat (w + 1) = unat w + 1"
  by (simp add: unat_word_ariths)

lemma write_note_frame:
  "write_note note lost s = (ok, s') \<Longrightarrow>
     dg_queue s' = dg_queue s \<and> dg_dropped s' = dg_dropped s \<and> dg_phase s' = dg_phase s \<and>
     dg_offered s' = dg_offered s \<and> dg_written s' = dg_written s \<and>
     dg_reported s' = dg_reported s @ (if ok \<and> lost \<noteq> 0 then [lost] else []) \<and> (lost = 0 \<longrightarrow> ok)"
  by (auto simp: write_note_def Let_def split: if_splits prod.splits)

lemma write_held_frame:
  "write_held l s = (ok, s') \<Longrightarrow>
     dg_queue s' = dg_queue s \<and> dg_dropped s' = dg_dropped s \<and> dg_phase s' = dg_phase s \<and>
     dg_offered s' = dg_offered s \<and> dg_written s' = dg_written s @ (if ok then [l] else []) \<and>
     dg_reported s' = dg_reported s"
  by (auto simp: write_held_def Let_def split: if_splits prod.splits)

lemma write_note_stands:
  assumes "write_note note lost s = (ok, s')" "ends_line note" "lines_stand s"
  shows "lines_stand s'"
proof (cases "lost = 0")
  case False
  obtain ok' out torn where w: "write_diagnostic note (dg_out s) (dg_torn s) = (ok', out, torn)" by (metis prod_cases3)
  note d = write_diagnostic_spec [OF w _ assms(2)]
  obtain c where c: "es_bytes out = es_bytes (dg_out s) @ c" using d(3) assms(3) by (auto simp: lines_stand_def)
  have "s' = s\<lparr>dg_out := out, dg_torn := torn, dg_reported := dg_reported s @ (if ok' then [lost] else [])\<rparr>"
    using assms(1) False by (auto simp: write_note_def w)
  then show ?thesis using d(1) assms(3) c by (simp add: lines_stand_def stand_in_more)
qed (use assms in \<open>simp add: write_note_def\<close>)

lemma write_held_stands:
  assumes "write_held l s = (ok, s')" "ends_line l" "lines_stand s"
  shows "lines_stand s'"
proof -
  obtain ok' out torn where w: "write_diagnostic l (dg_out s) (dg_torn s) = (ok', out, torn)" by (metis prod_cases3)
  note d = write_diagnostic_spec [OF w _ assms(2)]
  have old: "stream_ok (es_bytes (dg_out s)) (dg_torn s)" "stand_in (dg_written s) (es_bytes (dg_out s))"
    using assms(3) by (simp_all add: lines_stand_def)
  obtain c where c: "es_bytes out = es_bytes (dg_out s) @ c" using d(3) old(1) by auto
  have s': "s' = s\<lparr>dg_out := out, dg_torn := torn, dg_written := dg_written s @ (if ok' then [l] else [])\<rparr>"
    using assms(1) by (auto simp: write_held_def w)
  have "stand_in (dg_written s @ (if ok' then [l] else [])) (es_bytes out)"
  proof (cases ok')
    case True
    then obtain a where a: "es_bytes out = (es_bytes (dg_out s) @ a) @ l @ []" "starts_line (es_bytes (dg_out s) @ a)"
      using d(2) old(1) by auto
    show ?thesis using One_more [OF stand_in_more [OF old(2)] a(2), of l "[]"] True by (simp add: a(1))
  qed (simp add: c stand_in_more old(2))
  then show ?thesis using d(1) old(1) by (simp add: s' lines_stand_def)
qed

lemma diag_emit_counted:
  assumes s: "lines_counted ms s" "dg_phase s = DiagHolding l lost" and e: "s' = diag_emit note l lost s"
  shows "lines_counted ms s' \<and> dg_queue s' = dg_queue s \<and> dg_offered s' = dg_offered s"
proof -
  have total: "length (dg_offered s) = length (queued_lines ms) + 1 + length (dg_written s)
       + unat lost + unat (dg_dropped s) + sum_list (map unat (dg_reported s))" "length (dg_offered s) < 2 ^ 64"
    and sub: "subseq (dg_written s @ [l] @ queued_lines ms) (dg_offered s)"
    using s by (simp_all add: lines_counted_def held_line_def held_count_def)
  have sub': "subseq (dg_written s @ queued_lines ms) (dg_offered s)"
    by (rule subseq_order.trans [OF _ sub]) (intro list_emb_append_mono subseq_order.refl list_emb_append2)
  obtain ok1 s1 where n: "write_note note lost (s\<lparr>dg_phase := DiagIdle\<rparr>) = (ok1, s1)" by fastforce
  obtain ok2 s2 where h: "write_held l s1 = (ok2, s2)" by fastforce
  note f1 = write_note_frame [OF n, simplified] and f2 = write_held_frame [OF h]
  have sat: "unat (saturating_add lost 1) = unat lost + 1"
    using total by (simp add: unat_saturating_add)
  consider "\<not> ok1" | "ok1" "ok2" | "ok1" "\<not> ok2" by blast
  then show ?thesis
  proof cases
    case 1
    then have e1: "s' = s1\<lparr>dg_dropped := dg_dropped s1 + saturating_add lost 1\<rparr>" by (simp add: e diag_emit_def n)
    have "unat (dg_dropped s + saturating_add lost 1) = unat (dg_dropped s) + (unat lost + 1)"
      using total sat by (simp add: unat_word_ariths)
    then show ?thesis using f1 1 total sub' by (simp add: e1 lines_counted_def held_line_def held_count_def)
  next
    case 2
    then have e1: "s' = s2" by (simp add: e diag_emit_def n h)
    then show ?thesis using f1 f2 2 total sub by (auto simp: lines_counted_def held_line_def held_count_def)
  next
    case 3
    then have e1: "s' = s2\<lparr>dg_dropped := dg_dropped s2 + 1\<rparr>" by (simp add: e diag_emit_def n h)
    have "unat (dg_dropped s + 1) = unat (dg_dropped s) + 1" using total by (intro unat_next) simp
    then show ?thesis using f1 f2 3 total sub' by (auto simp: e1 lines_counted_def held_line_def held_count_def)
  qed
qed

lemma diag_emit_stands:
  assumes "lines_stand s" "ends_line l" "ends_line note"
  shows "lines_stand (diag_emit note l lost s)"
proof -
  obtain ok1 s1 where n: "write_note note lost (s\<lparr>dg_phase := DiagIdle\<rparr>) = (ok1, s1)" by fastforce
  obtain ok2 s2 where h: "write_held l s1 = (ok2, s2)" by fastforce
  have 1: "lines_stand s1" using write_note_stands [OF n assms(3)] assms(1) by (simp add: lines_stand_def)
  have 2: "lines_stand s2" by (rule write_held_stands [OF h assms(2) 1])
  show ?thesis using 1 2 by (cases ok1; cases ok2) (simp_all add: diag_emit_def n h lines_stand_def)
qed

locale diag_channel = channel ops waiting capacity
  for ops :: "('q, diag_message) channel_ops" and waiting :: "'q \<Rightarrow> diag_message list" and capacity :: nat
begin

lemma diag_write_counted:
  assumes s: "lines_counted (waiting (dg_queue s)) s" and room: "length (dg_offered s) + 1 < 2 ^ 64"
  shows "lines_counted (waiting (dg_queue (diag_write ops buf s))) (diag_write ops buf s)"
proof -
  obtain r q where r: "ch_try_send ops (DiagLine buf) (dg_queue s) = (r, q)" by fastforce
  have w: "waiting q = waiting (dg_queue s) @ (if r = SendOk then [DiagLine buf] else [])"
    using send_waiting [of "DiagLine buf" "dg_queue s"] r by simp
  show ?thesis
  proof (cases "r = SendOk")
    case True
    have "subseq ((dg_written s @ held_line s @ queued_lines (waiting (dg_queue s))) @ [buf]) (dg_offered s @ [buf])"
      using s by (intro list_emb_append_mono) (simp_all add: lines_counted_def)
    then show ?thesis using s room w True r
      by (simp add: diag_write_def lines_counted_def held_line_def held_count_def)
  next
    case False
    have "subseq (dg_written s @ held_line s @ queued_lines (waiting (dg_queue s))) (dg_offered s @ [buf])"
      using s by (intro list_emb_prefix) (simp add: lines_counted_def)
    moreover have "unat (dg_dropped s + 1) = unat (dg_dropped s) + 1"
      using s room by (intro unat_next) (simp add: lines_counted_def)
    moreover have "diag_write ops buf s = s\<lparr>dg_queue := q, dg_dropped := dg_dropped s + 1, dg_offered := dg_offered s @ [buf]\<rparr>"
      using False r by (cases r) (simp_all add: diag_write_def)
    ultimately show ?thesis using s room w False
      by (simp add: lines_counted_def held_line_def held_count_def)
  qed
qed

lemma diag_take_counted:
  assumes s: "lines_counted (waiting (dg_queue s)) s" "dg_phase s = DiagIdle" and r: "ch_recv ops (dg_queue s) = Some (m, q)"
  shows "lines_counted (waiting (dg_queue (diag_take m q s))) (diag_take m q s)"
  using s recv_some [OF r] by (cases m) (simp_all add: lines_counted_def diag_take_def held_line_def held_count_def)

lemma diag_flush_queued:
  "queued_lines (waiting (snd (ch_try_send ops (DiagFlush n) q))) = queued_lines (waiting q)"
  by (simp add: send_waiting)

end

interpretation diag_fifo: diag_channel "fifo_ops cap" bf_items cap for cap
  by unfold_locales

lemma diag_step_counted:
  assumes "diag_channel ops waiting cap" "diag_step ops s s'" "lines_counted (waiting (dg_queue s)) s"
  shows "lines_counted (waiting (dg_queue s')) s'"
  using assms(2)
proof cases
  case (Write buf)
  then show ?thesis using diag_channel.diag_write_counted [OF assms(1,3)] by simp
next
  case (AskFlush n)
  then show ?thesis using assms(3) diag_channel.diag_flush_queued [OF assms(1), of n "dg_queue s"]
    by (simp add: lines_counted_def held_line_def held_count_def)
next
  case (Take m q)
  then show ?thesis using diag_channel.diag_take_counted [OF assms(1,3)] by simp
next
  case (Count l)
  then show ?thesis using assms(3) by (simp add: diag_count_def lines_counted_def held_line_def held_count_def)
next
  case (Emit l lost now)
  then show ?thesis using diag_emit_counted [OF assms(3) Emit(2) Emit(1)] by simp
qed

text \<open>
  Lines that end in a newline stand undisturbed. The lines in the queue and in the thread's hands
  are among the lines handed in.
\<close>

lemma diag_step_offered: "diag_step ops s s' \<Longrightarrow> \<exists>ls. dg_offered s' = dg_offered s @ ls"
proof (induction rule: diag_step.induct)
  case (Write s buf)
  then show ?case by (auto simp: diag_write_def split: prod.splits send_result.splits)
next
  case (Take s m q)
  then show ?case by (cases m) (simp_all add: diag_take_def)
next
  case (Count s l)
  then show ?case by (simp add: diag_count_def)
next
  case (Emit s l lost now)
  obtain ok1 s1 where n: "write_note (dropped_note now lost) lost (s\<lparr>dg_phase := DiagIdle\<rparr>) = (ok1, s1)" by fastforce
  obtain ok2 s2 where h: "write_held l s1 = (ok2, s2)" by fastforce
  show ?case using write_note_frame [OF n] write_held_frame [OF h]
    by (cases ok1; cases ok2) (simp_all add: diag_emit_def n h)
qed simp

lemma diag_step_stands:
  assumes "diag_step ops s s'" "lines_stand s" "\<forall>l \<in> set (held_line s). ends_line l"
  shows "lines_stand s'"
  using assms(1)
proof cases
  case (Write buf)
  then show ?thesis using assms(2)
    by (auto simp: diag_write_def lines_stand_def split: prod.splits send_result.splits)
next
  case (Take m q)
  then show ?thesis using assms(2) by (cases m) (simp_all add: diag_take_def lines_stand_def)
next
  case (Count l)
  then show ?thesis using assms(2) by (simp add: diag_count_def lines_stand_def)
next
  case (Emit l lost now)
  then show ?thesis using diag_emit_stands [OF assms(2) _ dropped_note_ends] assms(3) by (simp add: held_line_def)
qed (use assms(2) in \<open>simp add: lines_stand_def\<close>)

lemma diag_reachable_ok:
  assumes "diag_channel ops waiting cap" "waiting q0 = []" "diag_reachable ops (diag_start q0 calls) s"
  shows "lines_counted (waiting (dg_queue s)) s"
    and "(\<forall>l \<in> set (dg_offered s). ends_line l) \<Longrightarrow> lines_stand s"
proof -
  have "lines_counted (waiting (dg_queue s)) s \<and> ((\<forall>l \<in> set (dg_offered s). ends_line l) \<longrightarrow> lines_stand s)"
    using assms(3)
  proof induction
    case Start
    show ?case
      by (simp add: diag_start_def lines_counted_def held_line_def held_count_def assms(2) lines_stand_def
          stream_ok_def starts_line_def None_yet)
  next
    case (Step s s')
    have "set (held_line s) \<subseteq> set (dg_offered s)"
      using Step(3) list_emb_set [of "(=)" "dg_written s @ held_line s @ queued_lines (waiting (dg_queue s))" "dg_offered s"]
      by (auto simp: lines_counted_def)
    moreover have "set (dg_offered s) \<subseteq> set (dg_offered s')" using diag_step_offered [OF Step(2)] by auto
    ultimately show ?case
      using diag_step_counted [OF assms(1) Step(2)] diag_step_stands [OF Step(2)] Step(3) by blast
  qed
  then show "lines_counted (waiting (dg_queue s)) s"
    and "(\<forall>l \<in> set (dg_offered s). ends_line l) \<Longrightarrow> lines_stand s" by blast+
qed

section \<open>A sample run\<close>

text \<open>Two lines, the first cut short by the stream, the second reported after it.\<close>

definition sample_line :: "u8 list" where
  "sample_line = [65, newline]"

definition sample_diag :: "diag_message bounded_fifo diag_state" where
  "sample_diag = diag_emit (dropped_note [] 1) sample_line 1 (diag_count sample_line (diag_take (DiagLine sample_line) fifo_new
     (diag_write (fifo_ops 4) sample_line (diag_emit (dropped_note [] 0) sample_line 0
       (diag_count sample_line (diag_take (DiagLine sample_line) fifo_new (diag_write (fifo_ops 4) sample_line
         (diag_start fifo_new [Wrote 1, WriteFailed_here, Wrote 1]))))))))"

lemmas sample_diag_defs = diag_start_def diag_write_def diag_take_def diag_count_def fifo_ops_def fifo_try_send_def fifo_recv_def
  fifo_new_def

lemma sample_diag_reachable: "diag_reachable (fifo_ops 4) (diag_start fifo_new [Wrote 1, WriteFailed_here, Wrote 1]) sample_diag"
proof -
  let ?s0 = "diag_start (fifo_new :: diag_message bounded_fifo) [Wrote 1, WriteFailed_here, Wrote 1]"
  let ?s1 = "diag_write (fifo_ops 4) sample_line ?s0"
  let ?s2 = "diag_take (DiagLine sample_line) fifo_new ?s1"
  let ?s3 = "diag_count sample_line ?s2"
  let ?s4 = "diag_emit (dropped_note [] 0) sample_line 0 ?s3"
  let ?s5 = "diag_write (fifo_ops 4) sample_line ?s4"
  let ?s6 = "diag_take (DiagLine sample_line) fifo_new ?s5"
  let ?s7 = "diag_count sample_line ?s6"
  have 1: "diag_step (fifo_ops 4) ?s0 ?s1" by (rule Write) (simp add: diag_start_def)
  have 2: "diag_step (fifo_ops 4) ?s1 ?s2" by (rule Take) (simp_all add: sample_diag_defs)
  have 3: "diag_step (fifo_ops 4) ?s2 ?s3" by (rule Count) (simp add: sample_diag_defs)
  have 4: "diag_step (fifo_ops 4) ?s3 ?s4" by (rule Emit) (simp add: sample_diag_defs)
  have s4: "dg_offered ?s4 = [sample_line] \<and> dg_dropped ?s4 = 1 \<and> dg_phase ?s4 = DiagIdle \<and> dg_queue ?s4 = fifo_new"
    by (simp add: sample_diag_defs diag_emit_def write_note_def write_held_def write_diagnostic_def write_counting_def sample_line_def)
  have 5: "diag_step (fifo_ops 4) ?s4 ?s5" by (rule Write) (use s4 in simp)
  have s5: "dg_phase ?s5 = DiagIdle \<and> dg_dropped ?s5 = 1 \<and> dg_queue ?s5 = fifo_new\<lparr>bf_items := [DiagLine sample_line]\<rparr>"
    using s4 by (simp add: diag_write_def fifo_ops_def fifo_try_send_def fifo_new_def)
  have 6: "diag_step (fifo_ops 4) ?s5 ?s6"
    by (rule Take) (use s5 in \<open>simp_all add: fifo_ops_def fifo_recv_def fifo_new_def\<close>)
  have 7: "diag_step (fifo_ops 4) ?s6 ?s7" by (rule Count) (simp add: diag_take_def)
  have s7: "dg_phase ?s7 = DiagHolding sample_line 1" using s5 by (simp add: diag_take_def diag_count_def)
  have 8: "diag_step (fifo_ops 4) ?s7 sample_diag" unfolding sample_diag_def by (rule Emit) (rule s7)
  show ?thesis by (rule Step [OF Step [OF Step [OF Step [OF Step [OF Step [OF Step [OF Step [OF Start 1] 2] 3] 4] 5] 6] 7] 8])
qed

lemma sample_diag_written: "dg_written sample_diag = [sample_line] \<and> dg_reported sample_diag = [1]"
  unfolding sample_diag_def
  by (simp add: sample_diag_defs diag_emit_def write_note_def write_held_def write_diagnostic_def write_counting_def sample_line_def)

lemma sample_diag_lines: "\<forall>l \<in> set (dg_offered sample_diag). ends_line l"
  unfolding sample_diag_def
  by (simp add: sample_diag_defs diag_emit_def write_note_def write_held_def write_diagnostic_def write_counting_def sample_line_def ends_line_def)

end
