(* ===== verification/Diagnostic_Guard.thy ===== *)
theory Diagnostic_Guard
  imports Diagnostics
begin

text \<open>
  The guard of the diagnostics thread (\<^verbatim>\<open>DiagnosticGuard\<close> of
  \<^verbatim>\<open>src/src/diagnostics.rs\<close>): when it is dropped at the end of the program it asks the
  thread for a flush and waits for the answer, both up to a deadline, while the thread works and
  other threads may still log. The clock is in nanoseconds and may advance at any time.
\<close>

section \<open>The guard\<close>

definition QUEUE_CAPACITY :: nat where
  "QUEUE_CAPACITY = 1024"

definition FLUSH_TIMEOUT :: nat where
  "FLUSH_TIMEOUT = 10 ^ 9"

definition FLUSH_PAUSE :: nat where
  "FLUSH_PAUSE = 5 * 10 ^ 6"

datatype guard_phase =
    GuardHeld
  | FlushTrying
  | FlushSleeping nat   \<comment> \<open>up to this time at least\<close>
  | FlushAwaiting nat   \<comment> \<open>up to this time at most\<close>
  | FlushAnswered
  | FlushGivenUp

text \<open>
  The flush of the guard is number 0. The last two fields are histories: the lines handed in before
  the drop and the pauses made.
\<close>

record 'q guard_state =
  gd_diag :: "'q diag_state"
  gd_now :: nat
  gd_phase :: guard_phase
  gd_deadline :: nat
  gd_before :: nat
  gd_pauses :: nat

definition guard_drop :: "'q guard_state \<Rightarrow> 'q guard_state" where
  "guard_drop s = s\<lparr>gd_phase := FlushTrying, gd_deadline := gd_now s + FLUSH_TIMEOUT,
     gd_before := length (dg_offered (gd_diag s))\<rparr>"

text \<open>One round of the loop; \<^verbatim>\<open>recv_timeout\<close> gets what is left of the time, which may be nothing.\<close>

definition guard_try :: "('q, diag_message) channel_ops \<Rightarrow> 'q guard_state \<Rightarrow> 'q guard_state" where
  "guard_try ops s = (case ch_try_send ops (DiagFlush 0) (dg_queue (gd_diag s)) of
       (SendOk, q) \<Rightarrow> s\<lparr>gd_diag := (gd_diag s)\<lparr>dg_queue := q\<rparr>, gd_phase := FlushAwaiting (gd_now s + (gd_deadline s - gd_now s))\<rparr>
     | (SendFull, q) \<Rightarrow>
         if gd_deadline s \<le> gd_now s then s\<lparr>gd_phase := FlushGivenUp\<rparr>
         else s\<lparr>gd_phase := FlushSleeping (gd_now s + FLUSH_PAUSE), gd_pauses := gd_pauses s + 1\<rparr>
     | (SendClosed, q) \<Rightarrow> s\<lparr>gd_phase := FlushGivenUp\<rparr>)"

inductive guard_step :: "('q, diag_message) channel_ops \<Rightarrow> 'q guard_state \<Rightarrow> 'q guard_state \<Rightarrow> bool"
  for ops :: "('q, diag_message) channel_ops" where
  Logs: "length (dg_offered (gd_diag s)) + 1 < 2 ^ 64 \<Longrightarrow> guard_step ops s (s\<lparr>gd_diag := diag_write ops buf (gd_diag s)\<rparr>)"
| ThreadTakes: "dg_phase (gd_diag s) = DiagIdle \<Longrightarrow> ch_recv ops (dg_queue (gd_diag s)) = Some (m, q) \<Longrightarrow>
    guard_step ops s (s\<lparr>gd_diag := diag_take m q (gd_diag s)\<rparr>)"
| ThreadCounts: "dg_phase (gd_diag s) = DiagReceived l \<Longrightarrow> guard_step ops s (s\<lparr>gd_diag := diag_count l (gd_diag s)\<rparr>)"
| ThreadEmits: "dg_phase (gd_diag s) = DiagHolding l lost \<Longrightarrow>
    guard_step ops s (s\<lparr>gd_diag := diag_emit (dropped_note now lost) l lost (gd_diag s)\<rparr>)"
| Dropped: "gd_phase s = GuardHeld \<Longrightarrow> guard_step ops s (guard_drop s)"
| Tries: "gd_phase s = FlushTrying \<Longrightarrow> guard_step ops s (guard_try ops s)"
| Wakes: "gd_phase s = FlushSleeping until \<Longrightarrow> until \<le> gd_now s \<Longrightarrow> guard_step ops s (s\<lparr>gd_phase := FlushTrying\<rparr>)"
| Hears: "gd_phase s = FlushAwaiting until \<Longrightarrow> 0 \<in> set (dg_flushed (gd_diag s)) \<Longrightarrow> guard_step ops s (s\<lparr>gd_phase := FlushAnswered\<rparr>)"
| TimesOut: "gd_phase s = FlushAwaiting until \<Longrightarrow> until \<le> gd_now s \<Longrightarrow> guard_step ops s (s\<lparr>gd_phase := FlushGivenUp\<rparr>)"
| Ticks: "gd_now s \<le> now \<Longrightarrow> guard_step ops s (s\<lparr>gd_now := now\<rparr>)"

definition guard_start :: "'q \<Rightarrow> write_call list \<Rightarrow> nat \<Rightarrow> 'q guard_state" where
  "guard_start q calls now = \<lparr>gd_diag = diag_start q calls, gd_now = now, gd_phase = GuardHeld, gd_deadline = 0,
     gd_before = 0, gd_pauses = 0\<rparr>"

inductive guard_reachable :: "('q, diag_message) channel_ops \<Rightarrow> 'q guard_state \<Rightarrow> 'q guard_state \<Rightarrow> bool"
  for ops :: "('q, diag_message) channel_ops" and s0 :: "'q guard_state" where
  GuardStart: "guard_reachable ops s0 s0"
| GuardStep: "guard_reachable ops s0 s \<Longrightarrow> guard_step ops s s' \<Longrightarrow> guard_reachable ops s0 s'"

definition guard_done :: "guard_phase \<Rightarrow> bool" where
  "guard_done ph \<longleftrightarrow> ph \<in> {FlushAnswered, FlushGivenUp}"

section \<open>The time it takes\<close>

text \<open>
  No pause begins at the deadline or later, and each takes its time; the wait ends at the deadline,
  or at once when it has passed.
\<close>

definition guard_timely :: "'q guard_state \<Rightarrow> bool" where
  "guard_timely s \<longleftrightarrow> (case gd_phase s of
       GuardHeld \<Rightarrow> gd_pauses s = 0
     | FlushSleeping until \<Rightarrow> until < gd_deadline s + FLUSH_PAUSE \<and> gd_pauses s * FLUSH_PAUSE + gd_deadline s \<le> until + FLUSH_TIMEOUT
     | FlushTrying \<Rightarrow> gd_pauses s * FLUSH_PAUSE + gd_deadline s \<le> gd_now s + FLUSH_TIMEOUT
     | FlushAwaiting until \<Rightarrow> until \<le> gd_deadline s \<or> until \<le> gd_now s
     | _ \<Rightarrow> True) \<and>
     gd_pauses s * FLUSH_PAUSE < FLUSH_TIMEOUT + FLUSH_PAUSE"

lemma guard_timely_step: "guard_step ops s s' \<Longrightarrow> guard_timely s \<Longrightarrow> guard_timely s'"
proof (induction rule: guard_step.induct)
  case (Tries s)
  then show ?case
    by (auto simp: guard_try_def guard_timely_def split: prod.splits send_result.splits)
next
  case (Ticks s now)
  then show ?case by (auto simp: guard_timely_def split: guard_phase.splits)
qed (auto simp: guard_timely_def guard_drop_def split: guard_phase.splits)

lemma guard_timely_reachable: "guard_reachable ops (guard_start q calls now) s \<Longrightarrow> guard_timely s"
proof (induction rule: guard_reachable.induct)
  case GuardStart
  show ?case by (simp add: guard_start_def guard_timely_def FLUSH_TIMEOUT_def)
qed (blast intro: guard_timely_step)

lemma pauses_bound: "guard_timely s \<Longrightarrow> gd_pauses s \<le> 200"
  by (simp add: guard_timely_def FLUSH_TIMEOUT_def FLUSH_PAUSE_def)

lemma guard_try_late:
  "gd_deadline s \<le> gd_now s \<Longrightarrow> gd_phase (guard_try ops s) \<in> {FlushAwaiting (gd_now s), FlushGivenUp}"
  by (auto simp: guard_try_def split: prod.splits send_result.splits)

text \<open>Once the deadline and one pause are over, the guard ends within three steps of its own.\<close>

lemma guard_ends:
  assumes "guard_timely s" and "gd_phase s \<noteq> GuardHeld" and "gd_deadline s + FLUSH_PAUSE \<le> gd_now s"
  shows "\<exists>n \<le> 3. \<exists>s'. (guard_step ops ^^ n) s s' \<and> guard_done (gd_phase s') \<and> gd_now s' = gd_now s"
proof -
  have waited: "\<exists>s'. guard_step ops s1 s' \<and> guard_done (gd_phase s') \<and> gd_now s' = gd_now s1"
    if "gd_phase s1 = FlushAwaiting until" "until \<le> gd_now s1" for s1 until
    using TimesOut [OF that] by (intro exI) (auto simp: guard_done_def)
  have tried: "\<exists>n \<le> 2. \<exists>s'. (guard_step ops ^^ n) s1 s' \<and> guard_done (gd_phase s') \<and> gd_now s' = gd_now s1"
    if ph: "gd_phase s1 = FlushTrying" and late: "gd_deadline s1 \<le> gd_now s1" for s1
  proof -
    let ?s = "guard_try ops s1"
    have st: "guard_step ops s1 ?s" by (rule Tries [OF ph])
    have now: "gd_now ?s = gd_now s1" by (simp add: guard_try_def split: prod.splits send_result.splits)
    consider "gd_phase ?s = FlushAwaiting (gd_now s1)" | "guard_done (gd_phase ?s)"
      using guard_try_late [OF late, of ops] by (auto simp: guard_done_def)
    then show ?thesis
    proof cases
      case 1
      obtain s' where "guard_step ops ?s s'" "guard_done (gd_phase s')" "gd_now s' = gd_now ?s" using waited [OF 1] now by auto
      then show ?thesis using st now by (intro exI [of _ 2]) (auto simp: numeral_2_eq_2)
    next
      case 2
      then show ?thesis using st now by (intro exI [of _ 1]) auto
    qed
  qed
  show ?thesis
  proof (cases "gd_phase s")
    case FlushTrying
    have "gd_deadline s \<le> gd_now s" using assms(3) by simp
    from tried [OF FlushTrying this] obtain n s'
      where "n \<le> 2" "(guard_step ops ^^ n) s s'" "guard_done (gd_phase s')" "gd_now s' = gd_now s" by blast
    then show ?thesis by (intro exI [of _ n] conjI exI [of _ s']) simp_all
  next
    case (FlushSleeping until)
    have "until \<le> gd_now s" using assms(1,3) FlushSleeping by (simp add: guard_timely_def)
    then have st: "guard_step ops s (s\<lparr>gd_phase := FlushTrying\<rparr>)" by (rule Wakes [OF FlushSleeping])
    obtain n s' where n: "n \<le> 2" "(guard_step ops ^^ n) (s\<lparr>gd_phase := FlushTrying\<rparr>) s'" "guard_done (gd_phase s')" "gd_now s' = gd_now s"
      using tried [of "s\<lparr>gd_phase := FlushTrying\<rparr>"] assms(3) by auto
    have "(guard_step ops ^^ Suc n) s s'" by (rule relpowp_Suc_I2 [OF st n(2)])
    then show ?thesis using n by (intro exI [of _ "Suc n"] conjI exI [of _ s']) simp_all
  next
    case (FlushAwaiting until)
    have "until \<le> gd_now s" using assms(1,3) FlushAwaiting by (auto simp: guard_timely_def)
    from waited [OF FlushAwaiting this] show ?thesis by (intro exI [of _ 1]) auto
  qed (use assms(2) in \<open>auto simp: guard_done_def intro!: exI [of _ 0]\<close>)
qed

section \<open>What an answer means\<close>

text \<open>The lines behind the flush in the queue; when it is not there, all that wait and the one in hand.\<close>

fun after_flush :: "diag_message list \<Rightarrow> diag_message list" where
  "after_flush [] = []"
| "after_flush (m # ms) = (if m = DiagFlush 0 then ms else after_flush ms)"

lemma after_flush_last: "after_flush (ms @ [m]) = (if DiagFlush 0 \<in> set ms then after_flush ms @ [m] else [])"
  by (induction ms) auto

lemma after_flush_length: "length (queued_lines (after_flush ms)) \<le> length (queued_lines ms)"
  by (induction ms) auto

definition lines_behind :: "diag_message list \<Rightarrow> 'q diag_state \<Rightarrow> nat" where
  "lines_behind ms d = (if DiagFlush 0 \<in> set ms then length (queued_lines (after_flush ms))
     else length (held_line d) + length (queued_lines ms))"

definition flush_count :: "diag_message list \<Rightarrow> 'q diag_state \<Rightarrow> nat" where
  "flush_count ms d = count_list ms (DiagFlush 0) + count_list (dg_flushed d) 0"

text \<open>
  The flush is sent once and answered once, and the lines that came before it are never behind it.
\<close>

definition guard_ok :: "diag_message list \<Rightarrow> 'q guard_state \<Rightarrow> bool" where
  "guard_ok ms s \<longleftrightarrow> lines_counted ms (gd_diag s) \<and>
     flush_count ms (gd_diag s) \<le> 1 \<and>
     (gd_phase s = GuardHeld \<or> gd_phase s = FlushTrying \<or> (\<exists>until. gd_phase s = FlushSleeping until) \<longrightarrow> flush_count ms (gd_diag s) = 0) \<and>
     (gd_phase s = FlushAnswered \<longrightarrow> 0 \<in> set (dg_flushed (gd_diag s))) \<and>
     gd_before s \<le> length (dg_offered (gd_diag s)) \<and>
     (0 < flush_count ms (gd_diag s) \<longrightarrow> gd_before s + lines_behind ms (gd_diag s) \<le> length (dg_offered (gd_diag s)))"

lemma no_flush: "count_list ms (DiagFlush 0) = 0 \<longleftrightarrow> DiagFlush 0 \<notin> set ms" "count_list ns n = 0 \<longleftrightarrow> n \<notin> set ns"
  by (simp_all add: count_list_0_iff)

lemma line_is_no_flush [simp]: "count_list (ms @ [DiagLine l]) (DiagFlush 0) = count_list ms (DiagFlush 0)"
  by simp

text \<open>What each step of the diagnostics does to the queue, the hand and the histories.\<close>

definition diag_same :: "'q diag_state \<Rightarrow> 'q diag_state \<Rightarrow> bool" where
  "diag_same d d' \<longleftrightarrow> dg_flushed d' = dg_flushed d \<and> dg_offered d' = dg_offered d \<and> dg_queue d' = dg_queue d \<and>
     length (held_line d') \<le> length (held_line d)"

lemma diag_count_same: "dg_phase d = DiagReceived l \<Longrightarrow> diag_same d (diag_count l d)"
  by (simp add: diag_same_def diag_count_def held_line_def)

lemma write_note_flushed: "dg_flushed (snd (write_note report lost d)) = dg_flushed d"
  by (simp add: write_note_def Let_def split: prod.splits)

lemma write_held_flushed: "dg_flushed (snd (write_held l d)) = dg_flushed d"
  by (simp add: write_held_def Let_def split: prod.splits)

lemma diag_emit_same:
  assumes "dg_phase d = DiagHolding l lost"
  shows "diag_same d (diag_emit report l lost d)"
proof -
  obtain ok1 d1 where n: "write_note report lost (d\<lparr>dg_phase := DiagIdle\<rparr>) = (ok1, d1)" by fastforce
  obtain ok2 d2 where h: "write_held l d1 = (ok2, d2)" by fastforce
  have "dg_flushed d1 = dg_flushed d" "dg_flushed d2 = dg_flushed d1"
    using write_note_flushed [of report lost "d\<lparr>dg_phase := DiagIdle\<rparr>"] write_held_flushed [of l d1] n h by simp_all
  then show ?thesis
    using write_note_frame [OF n] write_held_frame [OF h] assms
    by (cases ok1; cases ok2) (simp_all add: diag_same_def diag_emit_def n h held_line_def)
qed

lemma guard_ok_same:
  assumes "guard_ok ms s" "diag_same (gd_diag s) d" "lines_counted ms d"
  shows "guard_ok ms (s\<lparr>gd_diag := d\<rparr>)"
  using assms by (auto simp: guard_ok_def diag_same_def flush_count_def lines_behind_def)

text \<open>Steps of the guard that neither send nor hear.\<close>

lemma guard_ok_phase:
  "guard_ok ms s \<Longrightarrow> gd_phase s = FlushSleeping until \<or> gd_phase s = FlushTrying \<Longrightarrow> guard_ok ms (s\<lparr>gd_phase := FlushTrying\<rparr>)"
  "guard_ok ms s \<Longrightarrow> gd_phase s = FlushTrying \<Longrightarrow> guard_ok ms (s\<lparr>gd_phase := FlushSleeping until, gd_pauses := p\<rparr>)"
  "guard_ok ms s \<Longrightarrow> guard_ok ms (s\<lparr>gd_phase := FlushGivenUp\<rparr>)"
  "guard_ok ms s \<Longrightarrow> guard_ok ms (s\<lparr>gd_now := now\<rparr>)"
  "guard_ok ms s \<Longrightarrow> gd_phase s = GuardHeld \<Longrightarrow> guard_ok ms (guard_drop s)"
  "guard_ok ms s \<Longrightarrow> 0 \<in> set (dg_flushed (gd_diag s)) \<Longrightarrow> guard_ok ms (s\<lparr>gd_phase := FlushAnswered\<rparr>)"
  by (auto simp: guard_ok_def guard_drop_def)

context diag_channel
begin

definition guard_ok_here :: "'q guard_state \<Rightarrow> bool" where
  "guard_ok_here s \<longleftrightarrow> guard_ok (waiting (dg_queue (gd_diag s))) s"

lemma guard_logs:
  assumes "guard_ok_here s" and "length (dg_offered (gd_diag s)) + 1 < 2 ^ 64"
  shows "guard_ok_here (s\<lparr>gd_diag := diag_write ops buf (gd_diag s)\<rparr>)"
proof -
  obtain r q where r: "ch_try_send ops (DiagLine buf) (dg_queue (gd_diag s)) = (r, q)" by fastforce
  have w: "waiting q = waiting (dg_queue (gd_diag s)) @ (if r = SendOk then [DiagLine buf] else [])"
    using send_waiting [of "DiagLine buf" "dg_queue (gd_diag s)"] r by simp
  have d: "dg_queue (diag_write ops buf (gd_diag s)) = q" "dg_offered (diag_write ops buf (gd_diag s)) = dg_offered (gd_diag s) @ [buf]"
    "dg_flushed (diag_write ops buf (gd_diag s)) = dg_flushed (gd_diag s)" "held_line (diag_write ops buf (gd_diag s)) = held_line (gd_diag s)"
    by (cases r; simp add: diag_write_def r held_line_def)+
  have c: "lines_counted (waiting q) (diag_write ops buf (gd_diag s))"
    using diag_write_counted [OF _ assms(2), of buf] assms(1) d(1) by (simp add: guard_ok_here_def guard_ok_def)
  have f: "flush_count (waiting q) (diag_write ops buf (gd_diag s)) = flush_count (waiting (dg_queue (gd_diag s))) (gd_diag s)"
    by (simp add: flush_count_def d w)
  have "lines_behind (waiting q) (diag_write ops buf (gd_diag s)) \<le> lines_behind (waiting (dg_queue (gd_diag s))) (gd_diag s) + 1"
    by (cases "DiagFlush 0 \<in> set (waiting (dg_queue (gd_diag s)))")
      (simp_all add: lines_behind_def d w after_flush_last)
  then show ?thesis using assms(1) c f by (auto simp: guard_ok_here_def guard_ok_def d)
qed

lemma guard_takes:
  assumes "guard_ok_here s" and "dg_phase (gd_diag s) = DiagIdle" and "ch_recv ops (dg_queue (gd_diag s)) = Some (m, q)"
  shows "guard_ok_here (s\<lparr>gd_diag := diag_take m q (gd_diag s)\<rparr>)"
proof -
  have w: "waiting (dg_queue (gd_diag s)) = m # waiting q" using recv_some [OF assms(3)] by simp
  have d: "dg_queue (diag_take m q (gd_diag s)) = q" "dg_offered (diag_take m q (gd_diag s)) = dg_offered (gd_diag s)"
    by (cases m; simp add: diag_take_def)+
  have c: "lines_counted (waiting q) (diag_take m q (gd_diag s))"
    using diag_take_counted [OF _ assms(2,3)] assms(1) d(1) by (simp add: guard_ok_here_def guard_ok_def)
  have f: "flush_count (waiting q) (diag_take m q (gd_diag s)) = flush_count (waiting (dg_queue (gd_diag s))) (gd_diag s)"
    by (cases m) (simp_all add: flush_count_def w diag_take_def)
  have fl: "set (dg_flushed (gd_diag s)) \<subseteq> set (dg_flushed (diag_take m q (gd_diag s)))"
    by (cases m) (simp_all add: diag_take_def subset_insertI)
  have "lines_behind (waiting q) (diag_take m q (gd_diag s)) \<le> lines_behind (waiting (dg_queue (gd_diag s))) (gd_diag s)"
    using assms(2) after_flush_length [of "waiting q"] by (cases m) (auto simp: lines_behind_def w diag_take_def held_line_def)
  then show ?thesis using assms(1) c f fl by (auto simp: guard_ok_here_def guard_ok_def d)
qed

lemma guard_tries:
  assumes "guard_ok_here s" and "gd_phase s = FlushTrying"
  shows "guard_ok_here (guard_try ops s)"
proof -
  obtain r q where r: "ch_try_send ops (DiagFlush 0) (dg_queue (gd_diag s)) = (r, q)" by fastforce
  have w: "waiting q = waiting (dg_queue (gd_diag s)) @ (if r = SendOk then [DiagFlush 0] else [])"
    using send_waiting [of "DiagFlush 0" "dg_queue (gd_diag s)"] r by simp
  show ?thesis
  proof (cases r)
    case SendOk
    have none: "flush_count (waiting (dg_queue (gd_diag s))) (gd_diag s) = 0" using assms by (simp add: guard_ok_here_def guard_ok_def)
    then have "DiagFlush 0 \<notin> set (waiting (dg_queue (gd_diag s)))" by (simp add: flush_count_def no_flush)
    then have "lines_behind (waiting q) ((gd_diag s)\<lparr>dg_queue := q\<rparr>) = 0"
      by (simp add: lines_behind_def w SendOk after_flush_last)
    then show ?thesis using assms none SendOk w
      by (simp add: guard_ok_here_def guard_ok_def guard_try_def r flush_count_def lines_counted_def held_line_def held_count_def)
  next
    case SendFull
    then show ?thesis using assms guard_ok_phase(2,3) by (auto simp: guard_ok_here_def guard_try_def r)
  next
    case SendClosed
    then show ?thesis using assms guard_ok_phase(3) by (simp add: guard_ok_here_def guard_try_def r)
  qed
qed

lemma guard_ok_step: "guard_step ops s s' \<Longrightarrow> guard_ok_here s \<Longrightarrow> guard_ok_here s'"
proof (induction rule: guard_step.induct)
  case (ThreadCounts s l)
  have "lines_counted (waiting (dg_queue (gd_diag s))) (diag_count l (gd_diag s))"
    using ThreadCounts by (simp add: guard_ok_here_def guard_ok_def diag_count_def lines_counted_def held_line_def held_count_def)
  then show ?case using guard_ok_same [OF _ diag_count_same [OF ThreadCounts(1)]] ThreadCounts(2)
    by (simp add: guard_ok_here_def diag_count_def)
next
  case (ThreadEmits s l lost now)
  note e = diag_emit_counted [OF _ ThreadEmits(1) refl, of "waiting (dg_queue (gd_diag s))" "dropped_note now lost"]
  show ?case using guard_ok_same [OF _ diag_emit_same [OF ThreadEmits(1)]] ThreadEmits(2) e
    by (simp add: guard_ok_here_def guard_ok_def [THEN iffD1, THEN conjunct1])
next
  case (Dropped s)
  then show ?case using guard_ok_phase(5) by (simp add: guard_ok_here_def guard_drop_def)
qed (simp_all add: guard_logs guard_takes guard_tries, simp_all add: guard_ok_here_def guard_ok_phase)

lemma guard_ok_reachable:
  assumes "waiting q0 = []" and "guard_reachable ops (guard_start q0 calls now) s"
  shows "guard_ok_here s"
  using assms(2)
proof induction
  case GuardStart
  show ?case
    by (simp add: guard_ok_here_def guard_ok_def guard_start_def diag_start_def assms(1) lines_counted_def held_line_def
        held_count_def flush_count_def)
qed (blast intro: guard_ok_step)

lemma answered_flush:
  assumes "guard_ok_here s" and "gd_phase s = FlushAnswered"
  shows "gd_before s \<le> length (dg_written (gd_diag s)) + held_count (gd_diag s) + unat (dg_dropped (gd_diag s))
    + sum_list (map unat (dg_reported (gd_diag s)))"
proof -
  have "0 < count_list (dg_flushed (gd_diag s)) 0" and "flush_count (waiting (dg_queue (gd_diag s))) (gd_diag s) \<le> 1"
    using assms by (auto simp: guard_ok_here_def guard_ok_def no_flush(2) simp flip: neq0_conv)
  then have "DiagFlush 0 \<notin> set (waiting (dg_queue (gd_diag s)))" "0 < flush_count (waiting (dg_queue (gd_diag s))) (gd_diag s)"
    unfolding no_flush(1) [symmetric] flush_count_def by linarith+
  then show ?thesis using assms(1) by (simp add: guard_ok_here_def guard_ok_def lines_behind_def lines_counted_def)
qed

end

text \<open>A run with the guard is a run of the diagnostics.\<close>

lemma guard_diag_step: "guard_step ops s s' \<Longrightarrow> gd_diag s' = gd_diag s \<or> diag_step ops (gd_diag s) (gd_diag s')"
proof (induction rule: guard_step.induct)
  case (Tries s)
  show ?case using AskFlush [of ops "gd_diag s" 0]
    by (auto simp: guard_try_def split: prod.splits send_result.splits)
qed (auto simp: guard_drop_def intro: diag_step.intros)

lemma guard_diag_reachable:
  "guard_reachable ops (guard_start q calls now) s \<Longrightarrow> diag_reachable ops (diag_start q calls) (gd_diag s)"
proof (induction rule: guard_reachable.induct)
  case GuardStart
  show ?case by (simp add: guard_start_def diag_reachable.Start)
next
  case (GuardStep s s')
  then show ?case using guard_diag_step [OF GuardStep(2)] diag_reachable.Step by metis
qed

section \<open>A sample end\<close>

text \<open>A line is logged, the guard is dropped, the thread writes the line and answers.\<close>

definition sample_asked :: "diag_message bounded_fifo guard_state" where
  "sample_asked = guard_try (fifo_ops 4) (guard_drop
     (guard_start fifo_new [] 0\<lparr>gd_diag := diag_write (fifo_ops 4) sample_line (diag_start fifo_new [])\<rparr>))"

definition sample_emitted :: "diag_message bounded_fifo diag_state" where
  "sample_emitted = diag_emit (dropped_note [] 0) sample_line 0 (diag_count sample_line
     (diag_take (DiagLine sample_line) \<lparr>bf_items = [DiagFlush 0], bf_closed = False\<rparr> (gd_diag sample_asked)))"

definition sample_answered :: "diag_message bounded_fifo guard_state" where
  "sample_answered = sample_asked\<lparr>gd_diag := diag_take (DiagFlush 0) fifo_new sample_emitted, gd_phase := FlushAnswered\<rparr>"

lemma sample_asked_eq: "sample_asked = \<lparr>gd_diag = (diag_start \<lparr>bf_items = [DiagLine sample_line, DiagFlush 0], bf_closed = False\<rparr> [])
     \<lparr>dg_offered := [sample_line]\<rparr>, gd_now = 0, gd_phase = FlushAwaiting FLUSH_TIMEOUT, gd_deadline = FLUSH_TIMEOUT, gd_before = 1, gd_pauses = 0\<rparr>"
  by (simp add: sample_asked_def guard_try_def guard_drop_def guard_start_def sample_diag_defs)

lemma sample_emitted_eq:
  "dg_queue sample_emitted = \<lparr>bf_items = [DiagFlush 0], bf_closed = False\<rparr>" "dg_phase sample_emitted = DiagIdle"
  "dg_written sample_emitted = [sample_line]" "dg_flushed sample_emitted = []" "dg_dropped sample_emitted = 0" "dg_reported sample_emitted = []"
  by (simp_all add: sample_emitted_def sample_asked_eq sample_diag_defs diag_emit_def write_note_def write_held_def
      write_diagnostic_def write_counting_def sample_line_def)

lemma sample_answered_reachable: "guard_reachable (fifo_ops 4) (guard_start fifo_new [] 0) sample_answered"
proof -
  let ?s0 = "guard_start (fifo_new :: diag_message bounded_fifo) [] 0"
  let ?s1 = "?s0\<lparr>gd_diag := diag_write (fifo_ops 4) sample_line (gd_diag ?s0)\<rparr>"
  let ?s2 = "guard_drop ?s1"
  let ?d4 = "diag_take (DiagLine sample_line) \<lparr>bf_items = [DiagFlush 0], bf_closed = False\<rparr> (gd_diag sample_asked)"
  let ?s4 = "sample_asked\<lparr>gd_diag := ?d4\<rparr>"
  let ?s5 = "?s4\<lparr>gd_diag := diag_count sample_line (gd_diag ?s4)\<rparr>"
  let ?s6 = "?s5\<lparr>gd_diag := diag_emit (dropped_note [] 0) sample_line 0 (gd_diag ?s5)\<rparr>"
  let ?s7 = "?s6\<lparr>gd_diag := diag_take (DiagFlush 0) fifo_new (gd_diag ?s6)\<rparr>"
  have 1: "guard_step (fifo_ops 4) ?s0 ?s1" by (rule Logs) (simp add: guard_start_def diag_start_def)
  have 2: "guard_step (fifo_ops 4) ?s1 ?s2" by (rule Dropped) (simp add: guard_start_def)
  have 3: "guard_step (fifo_ops 4) ?s2 sample_asked"
    using Tries [of ?s2 "fifo_ops 4"] by (simp add: guard_drop_def sample_asked_def guard_start_def)
  have 4: "guard_step (fifo_ops 4) sample_asked ?s4"
    by (rule ThreadTakes) (simp_all add: sample_asked_eq diag_start_def fifo_ops_def fifo_recv_def)
  have 5: "guard_step (fifo_ops 4) ?s4 ?s5" by (rule ThreadCounts) (simp add: diag_take_def)
  have 6: "guard_step (fifo_ops 4) ?s5 ?s6" 
    by (rule ThreadEmits) (simp add: diag_count_def diag_take_def sample_asked_eq diag_start_def)
  have d6: "gd_diag ?s6 = sample_emitted" by (simp add: sample_emitted_def)
  have 7: "guard_step (fifo_ops 4) ?s6 ?s7"
    by (rule ThreadTakes) (unfold d6, simp_all add: sample_emitted_eq fifo_ops_def fifo_recv_def fifo_new_def)
  have 8: "guard_step (fifo_ops 4) ?s7 (?s7\<lparr>gd_phase := FlushAnswered\<rparr>)"
    by (rule Hears [where until = FLUSH_TIMEOUT]) (simp_all add: sample_asked_eq diag_take_def)
  have "?s7\<lparr>gd_phase := FlushAnswered\<rparr> = sample_answered" by (simp add: sample_answered_def sample_emitted_def)
  then show ?thesis
    using GuardStep [OF GuardStep [OF GuardStep [OF GuardStep [OF GuardStep [OF GuardStep [OF GuardStep [OF GuardStep
      [OF GuardStart 1] 2] 3] 4] 5] 6] 7] 8] by simp
qed

lemma sample_answered_eq: "gd_phase sample_answered = FlushAnswered" "gd_before sample_answered = 1"
  "dg_written (gd_diag sample_answered) = [sample_line]" "gd_diag sample_answered = diag_take (DiagFlush 0) fifo_new sample_emitted"
  by (simp_all add: sample_answered_def sample_asked_eq diag_take_def sample_emitted_eq)

end
