(* ===== verification/Proto_Json.thy ===== *)
theory Proto_Json
  imports F64
begin

text \<open>
  The serializer of \<^verbatim>\<open>src/src/proto_json.rs\<close> that keeps non-finite numbers in the JSON lines.
  A value is what it hands to a serializer of \<^verbatim>\<open>serde\<close>: one constructor per method of the
  trait. The wrapper is a rewriting of that value, and the JSON writer behind it is a parameter.
\<close>

section \<open>What a value hands to a serializer\<close>

datatype int_width = W8 | W16 | W32 | W64 | W128

datatype ser =
    SBool bool
  | SInt int_width int
  | SUint int_width nat
  | SF32 u32
  | SF64 f64
  | SChar nat
  | SStr str
  | SBytes "u8 list"
  | SNone
  | SSome ser
  | SUnit
  | SUnitStruct str
  | SUnitVariant str nat str
  | SNewtypeStruct str ser
  | SNewtypeVariant str nat str ser
  | SSeq "nat option" "ser list"
  | STuple nat "ser list"
  | STupleStruct str nat "ser list"
  | STupleVariant str nat str nat "ser list"
  | SMap "nat option" "ser_call list"
  | SStruct str nat "ser_call list"
  | SStructVariant str nat str nat "ser_call list"
and ser_call =
    SKey ser
  | SValue ser
  | SField str ser
  | SSkip str

section \<open>The wrapper\<close>

definition f32_is_finite :: "u32 \<Rightarrow> bool" where
  "f32_is_finite x = (unat x mod 2 ^ 31 < 255 * 2 ^ 23)"

text \<open>
  \<^verbatim>\<open>f64::from\<close> on a value that is not finite: the sign and the fraction move up, the exponent
  is all ones.
\<close>

definition f64_from_f32 :: "u32 \<Rightarrow> f64" where
  "f64_from_f32 x = f64_of_bits (2 ^ 31 \<le> unat x) (f64_inf_mag + unat x mod 2 ^ 23 * 2 ^ 29)"

definition serialize_f64 :: "f64 \<Rightarrow> ser" where
  "serialize_f64 v =
     (if is_nan v then SStr ''NaN''
      else if is_infinite v then SStr (if f64_lt f64_zero v then ''Infinity'' else ''-Infinity'')
      else SF64 v)"

definition serialize_f32 :: "u32 \<Rightarrow> ser" where
  "serialize_f32 v = (if f32_is_finite v then SF32 v else serialize_f64 (f64_from_f32 v))"

fun non_finite :: "ser \<Rightarrow> ser" and non_finite_call :: "ser_call \<Rightarrow> ser_call" where
  "non_finite (SF64 v) = serialize_f64 v"
| "non_finite (SF32 v) = serialize_f32 v"
| "non_finite (SSome v) = SSome (non_finite v)"
| "non_finite (SNewtypeStruct n v) = SNewtypeStruct n (non_finite v)"
| "non_finite (SNewtypeVariant n i x v) = SNewtypeVariant n i x (non_finite v)"
| "non_finite (SSeq l vs) = SSeq l (map non_finite vs)"
| "non_finite (STuple l vs) = STuple l (map non_finite vs)"
| "non_finite (STupleStruct n l vs) = STupleStruct n l (map non_finite vs)"
| "non_finite (STupleVariant n i x l vs) = STupleVariant n i x l (map non_finite vs)"
| "non_finite (SMap l cs) = SMap l (map non_finite_call cs)"
| "non_finite (SStruct n l cs) = SStruct n l (map non_finite_call cs)"
| "non_finite (SStructVariant n i x l cs) = SStructVariant n i x l (map non_finite_call cs)"
| "non_finite v = v"
| "non_finite_call (SKey v) = SKey (non_finite v)"
| "non_finite_call (SValue v) = SValue (non_finite v)"
| "non_finite_call (SField k v) = SField k (non_finite v)"
| "non_finite_call (SSkip k) = SSkip k"

definition json_to_vec :: "(ser \<Rightarrow> 'e + u8 list) \<Rightarrow> ser \<Rightarrow> 'e + u8 list" where
  "json_to_vec write v = write (non_finite v)"

section \<open>What it changes\<close>

text \<open>The numbers of a value.\<close>

fun numbers :: "ser \<Rightarrow> (u32 + f64) list" and call_numbers :: "ser_call \<Rightarrow> (u32 + f64) list" where
  "numbers (SF64 v) = [Inr v]"
| "numbers (SF32 v) = [Inl v]"
| "numbers (SSome v) = numbers v"
| "numbers (SNewtypeStruct n v) = numbers v"
| "numbers (SNewtypeVariant n i x v) = numbers v"
| "numbers (SSeq l vs) = concat (map numbers vs)"
| "numbers (STuple l vs) = concat (map numbers vs)"
| "numbers (STupleStruct n l vs) = concat (map numbers vs)"
| "numbers (STupleVariant n i x l vs) = concat (map numbers vs)"
| "numbers (SMap l cs) = concat (map call_numbers cs)"
| "numbers (SStruct n l cs) = concat (map call_numbers cs)"
| "numbers (SStructVariant n i x l cs) = concat (map call_numbers cs)"
| "numbers v = []"
| "call_numbers (SKey v) = numbers v"
| "call_numbers (SValue v) = numbers v"
| "call_numbers (SField k v) = numbers v"
| "call_numbers (SSkip k) = []"

fun number_finite :: "u32 + f64 \<Rightarrow> bool" where
  "number_finite (Inl v) = f32_is_finite v"
| "number_finite (Inr v) = is_finite v"

lemma serialize_f64_cases:
  "serialize_f64 v = (if is_finite v then SF64 v else serialize_f64 v)"
  by (auto simp: serialize_f64_def is_finite_def is_nan_def is_infinite_def)

lemma serialize_f64_string: "\<not> is_finite v \<Longrightarrow> \<exists>s. serialize_f64 v = SStr s"
  by (auto simp: serialize_f64_def is_finite_def is_nan_def is_infinite_def)

lemma f64_from_f32_class:
  assumes "\<not> f32_is_finite x"
  shows "\<not> is_finite (f64_from_f32 x)"
    and "is_nan (f64_from_f32 x) \<longleftrightarrow> 255 * 2 ^ 23 < unat x mod 2 ^ 31"
    and "f64_neg (f64_from_f32 x) \<longleftrightarrow> 2 ^ 31 \<le> unat x"
proof -
  define m where "m = f64_inf_mag + unat x mod 2 ^ 23 * 2 ^ 29"
  have m: "f64_inf_mag \<le> m" "m < 2 ^ 63" by (simp_all add: m_def f64_inf_mag_def)
  have v: "unat (f64_from_f32 x) = (if 2 ^ 31 \<le> unat x then 2 ^ 63 else 0) + m"
    using m(2) unfolding f64_from_f32_def f64_of_bits_def m_def [symmetric] unsigned_of_nat
    by (simp add: take_bit_nat_eq_self)
  then have mag: "f64_mag (f64_from_f32 x) = m" using m(2) by (simp add: f64_mag_def)
  then show "\<not> is_finite (f64_from_f32 x)" using m by (simp add: is_finite_def)
  define v where "v = unat x mod 2 ^ 31"
  have "255 * 2 ^ 23 \<le> v" "v < 256 * 2 ^ 23" using assms by (simp_all add: f32_is_finite_def v_def)
  then obtain r where r: "v = 255 * 2 ^ 23 + r" "r < 2 ^ 23" using le_Suc_ex by fastforce
  have "unat x mod 2 ^ 23 = v mod 2 ^ 23" unfolding v_def by (rule mod_mod_cancel [symmetric]) (simp add: le_imp_power_dvd)
  also have "\<dots> = r" using r(2) unfolding r(1) by (simp only: mod_mult_self3 mod_less)
  finally have "m = f64_inf_mag + r * 2 ^ 29" by (simp add: m_def)
  then show "is_nan (f64_from_f32 x) \<longleftrightarrow> 255 * 2 ^ 23 < unat x mod 2 ^ 31"
    unfolding v_def [symmetric] r(1) by (simp add: is_nan_def mag)
  show "f64_neg (f64_from_f32 x) \<longleftrightarrow> 2 ^ 31 \<le> unat x" using m(2) by (simp add: f64_neg_def v)
qed

lemma serialize_finite:
  "is_finite v \<Longrightarrow> serialize_f64 v = SF64 v" "f32_is_finite w \<Longrightarrow> serialize_f32 w = SF32 w"
  by (simp_all add: serialize_f64_def serialize_f32_def is_finite_def is_nan_def is_infinite_def)

text \<open>A value of finite numbers reaches the writer unchanged.\<close>

lemma non_finite_unchanged:
  "list_all number_finite (numbers v) \<Longrightarrow> non_finite v = v"
  "list_all number_finite (call_numbers c) \<Longrightarrow> non_finite_call c = c"
  by (induction v and c rule: non_finite_non_finite_call.induct)
    (auto simp: serialize_finite list_all_iff map_idI)

text \<open>No number that the writer would drop is left, and finite numbers stay where they are.\<close>

lemma numbers_kept:
  "numbers (non_finite v) = filter number_finite (numbers v)"
  "call_numbers (non_finite_call c) = filter number_finite (call_numbers c)"
proof (induction v and c rule: non_finite_non_finite_call.induct)
  case (1 v)
  then show ?case using serialize_f64_string [of v] by (auto simp: serialize_finite)
next
  case (2 v)
  then show ?case using serialize_f64_string [of "f64_from_f32 v"] f64_from_f32_class(1) [of v]
    by (cases "f32_is_finite v") (auto simp: serialize_f32_def)
qed (simp_all add: filter_concat o_def cong: map_cong)

lemma non_finite_idem:
  "non_finite (non_finite v) = non_finite v"
  by (rule non_finite_unchanged(1)) (simp add: numbers_kept list_all_iff)

end
