(* ===== verification/Template.thy ===== *)
theory Template
  imports Config_File
begin

text \<open>
  The texts of the configuration template (\<^verbatim>\<open>src/src/config.rs\<close>), line by line, and what
  a flat TOML document says: assignments of strings, truth values and numbers to the keys of
  \<^verbatim>\<open>Config\<close>, blank lines and comments. The comment lines that are not ASCII are a parameter,
  numbered from the top of the source. The TOML library reads more than flat documents; what is
  proved of the template only relies on its reading those as they are defined here.
\<close>

section \<open>The texts\<close>

definition dquoted :: "str \<Rightarrow> str" where
  "dquoted s = [CHR 0x22] @ s @ [CHR 0x22]"

definition CONFIG_HEADER :: "(nat \<Rightarrow> str) \<Rightarrow> str list" where
  "CONFIG_HEADER note = [
     CHR ''#'' # note 0,
     ''#'',
     CHR ''#'' # note 1,
     CHR ''#'' # note 2,
     ''#'',
     CHR ''#'' # note 3,
     ''#'',
     CHR ''#'' # note 4,
     CHR ''#'' # note 5]"

definition DAEMON_HEADER_NOTE :: "(nat \<Rightarrow> str) \<Rightarrow> str list" where
  "DAEMON_HEADER_NOTE note = [
     ''#'',
     CHR ''#'' # note 6,
     CHR ''#'' # note 7,
     CHR ''#'' # note 8,
     CHR ''#'' # note 9,
     CHR ''#'' # note 10]"

definition DEFAULT_STORAGE_SECTION :: "(nat \<Rightarrow> str) \<Rightarrow> str list" where
  "DEFAULT_STORAGE_SECTION note = [
     [],
     CHR ''#'' # note 11,
     CHR ''#'' # note 12,
     CHR ''#'' # note 13,
     CHR ''#'' # note 14,
     ''log-file = '' @ dquoted ''/var/log/otel-logger/otel-logger.jsonl'',
     [],
     CHR ''#'' # note 15,
     CHR ''#'' # note 16,
     CHR ''#'' # note 17,
     CHR ''#'' # note 18,
     CHR ''#'' # note 19,
     ''# log-dir = '' @ dquoted ''/var/log/otel-logger'',
     ''# log-keep-days = 10'']"

definition DAEMON_STORAGE_SECTION :: "(nat \<Rightarrow> str) \<Rightarrow> str list" where
  "DAEMON_STORAGE_SECTION note = [
     [],
     CHR ''#'' # note 20,
     CHR ''#'' # note 21,
     CHR ''#'' # note 22,
     CHR ''#'' # note 23,
     ''log-dir = '' @ dquoted ''/var/log/otel-logger'',
     ''log-keep-days = 10'',
     [],
     CHR ''#'' # note 24,
     CHR ''#'' # note 25,
     CHR ''#'' # note 26,
     ''# log-file = '' @ dquoted ''/var/log/otel-logger/otel-logger.jsonl'']"

definition DEFAULT_OUTPUT_SECTION :: "(nat \<Rightarrow> str) \<Rightarrow> str list" where
  "DEFAULT_OUTPUT_SECTION note = [
     [],
     CHR ''#'' # note 27,
     CHR ''#'' # note 28,
     CHR ''#'' # note 29,
     CHR ''#'' # note 30,
     ''no-stdout = false'',
     [],
     CHR ''#'' # note 31,
     CHR ''#'' # note 32,
     CHR ''#'' # note 33,
     CHR ''#'' # note 34,
     CHR ''#'' # note 35,
     ''# pretty-log = true'',
     [],
     CHR ''#'' # note 36,
     CHR ''#'' # note 37,
     CHR ''#'' # note 38,
     ''summary = false'']"

definition DAEMON_OUTPUT_SECTION :: "(nat \<Rightarrow> str) \<Rightarrow> str list" where
  "DAEMON_OUTPUT_SECTION note = [
     [],
     CHR ''#'' # note 39,
     CHR ''#'' # note 40,
     CHR ''#'' # note 41,
     ''no-stdout = true'',
     [],
     CHR ''#'' # note 42,
     CHR ''#'' # note 43,
     CHR ''#'' # note 44,
     CHR ''#'' # note 45,
     ''# pretty-log = true'',
     [],
     CHR ''#'' # note 46,
     CHR ''#'' # note 47,
     CHR ''#'' # note 48,
     ''summary = false'']"

definition COMMON_CONFIG_TAIL :: "(nat \<Rightarrow> str) \<Rightarrow> str list" where
  "COMMON_CONFIG_TAIL note = [
     [],
     CHR ''#'' # note 49,
     CHR ''#'' # note 50,
     CHR ''#'' # note 51,
     ''color = '' @ dquoted ''auto'',
     [],
     CHR ''#'' # note 52,
     ''# grpc-addr = '' @ dquoted ''0.0.0.0:4317'',
     ''# http-addr = '' @ dquoted ''0.0.0.0:4318'',
     [],
     CHR ''#'' # note 53,
     CHR ''#'' # note 54,
     CHR ''#'' # note 55,
     ''# max-inflight-requests = 8'',
     ''# receive-timeout-ms = 5000'',
     [],
     ''# ------------------------------------------------------------'',
     CHR ''#'' # note 56,
     ''# ------------------------------------------------------------'',
     ''#'',
     CHR ''#'' # note 57,
     CHR ''#'' # note 58,
     CHR ''#'' # note 59,
     CHR ''#'' # note 60,
     ''#'',
     CHR ''#'' # note 61,
     CHR ''#'' # note 62,
     CHR ''#'' # note 63,
     ''#                                           '' @ dquoted ''codex-app-server'' @ '', '' @ dquoted ''codex_mcp_server'' @ '','',
     ''#                                           '' @ dquoted ''Codex Desktop'' @ '', '' @ dquoted ''codex-exec-server'' @ '']'',
     ''#'',
     CHR ''#'' # note 64,
     CHR ''#'' # note 65,
     ''#'',
     ''# [proxy]'',
     CHR ''#'' # note 66,
     CHR ''#'' # note 67,
     CHR ''#'' # note 68,
     CHR ''#'' # note 69,
     ''#'',
     ''# [[proxy.routes]]'',
     ''# name = '' @ dquoted ''anthropic'',
     CHR ''#'' # note 70,
     ''# transport = '' @ dquoted ''grpc'' @ ''                    # '' @ dquoted ''grpc'' @ '' | '' @ dquoted ''http-protobuf'',
     ''# endpoint = '' @ dquoted ''https://collector.example.com:4317'',
     ''# [proxy.routes.headers]'',
     CHR ''#'' # note 71,
     ''#'',
     ''# [[proxy.routes]]'',
     ''# name = '' @ dquoted ''openai'',
     ''# transport = '' @ dquoted ''http-protobuf'',
     ''# endpoint = '' @ dquoted ''https://collector.example.com'',
     ''# [proxy.routes.headers]'',
     ''# Authorization = '' @ dquoted ''env:OPENAI_PROXY_TOKEN'']"

definition section_text :: "str list \<Rightarrow> u8 list" where
  "section_text lines = concat (map (\<lambda>l. text_bytes l @ [10]) lines)"

text \<open>Each text ends with the newline of its last line.\<close>

definition source_texts :: "(nat \<Rightarrow> str) \<Rightarrow> template_texts" where
  "source_texts note = \<lparr>tt_header = section_text (CONFIG_HEADER note),
     tt_daemon_note = section_text (DAEMON_HEADER_NOTE note),
     tt_default_storage = section_text (DEFAULT_STORAGE_SECTION note),
     tt_daemon_storage = section_text (DAEMON_STORAGE_SECTION note),
     tt_default_output = section_text (DEFAULT_OUTPUT_SECTION note),
     tt_daemon_output = section_text (DAEMON_OUTPUT_SECTION note),
     tt_tail = section_text (COMMON_CONFIG_TAIL note)\<rparr>"

section \<open>Flat documents\<close>

fun byte_lines :: "u8 list \<Rightarrow> str list" where
  "byte_lines [] = []"
| "byte_lines (b # bs) =
     (if b = 10 then [] # byte_lines bs
      else case byte_lines bs of [] \<Rightarrow> [[char_of (unat b)]] | l # ls \<Rightarrow> (char_of (unat b) # l) # ls)"

datatype flat_value = FlatStr str | FlatBool bool | FlatInt nat

text \<open>A string without escapes, and a number that fits 64 bits with sign, without leading zeros.\<close>

definition plain_char :: "char \<Rightarrow> bool" where
  "plain_char ch = (32 \<le> byte ch \<and> byte ch < 127 \<and> ch \<noteq> CHR 0x22 \<and> ch \<noteq> CHR 0x5C)"

definition flat_value :: "str \<Rightarrow> flat_value option" where
  "flat_value s =
     (if s = ''true'' then Some (FlatBool True)
      else if s = ''false'' then Some (FlatBool False)
      else if all_digits s \<and> (s = ''0'' \<or> hd s \<noteq> CHR ''0'') \<and> digits_val s < 2 ^ 63 then Some (FlatInt (digits_val s))
      else if 2 \<le> length s \<and> hd s = CHR 0x22 \<and> last s = CHR 0x22 \<and> list_all plain_char (butlast (tl s))
        then Some (FlatStr (butlast (tl s)))
      else None)"

definition color_name :: "str \<Rightarrow> color_mode option" where
  "color_name s = map_of [(''auto'', ColorAuto), (''always'', ColorAlways), (''never'', ColorNever)] s"

text \<open>The value a field gets: one of its type, and only once; a key that \<open>Config\<close> does not have is refused.\<close>

definition once :: "'a option \<Rightarrow> 'b option \<Rightarrow> ('b \<Rightarrow> 'c) \<Rightarrow> 'c option" where
  "once present given update = (if present = None then map_option update given else None)"

definition flat_str :: "flat_value \<Rightarrow> str option" where
  "flat_str v = (case v of FlatStr s \<Rightarrow> Some s | _ \<Rightarrow> None)"

definition flat_bool :: "flat_value \<Rightarrow> bool option" where
  "flat_bool v = (case v of FlatBool b \<Rightarrow> Some b | _ \<Rightarrow> None)"

definition flat_nat :: "nat \<Rightarrow> flat_value \<Rightarrow> ('w::len) word option" where
  "flat_nat bits v = (case v of FlatInt n \<Rightarrow> if n < 2 ^ bits then Some (word_of_nat n) else None | _ \<Rightarrow> None)"

definition assign_key :: "str \<Rightarrow> flat_value \<Rightarrow> config \<Rightarrow> config option" where
  "assign_key key v c =
     (if key = ''max-inflight-requests'' then once (cfg_max_inflight_requests c) (flat_nat 64 v) (\<lambda>n. c\<lparr>cfg_max_inflight_requests := Some n\<rparr>)
      else if key = ''receive-timeout-ms'' then once (cfg_receive_timeout_ms c) (flat_nat 64 v) (\<lambda>n. c\<lparr>cfg_receive_timeout_ms := Some n\<rparr>)
      else if key = ''log-file'' then once (cfg_log_file c) (flat_str v) (\<lambda>s. c\<lparr>cfg_log_file := Some s\<rparr>)
      else if key = ''log-dir'' then once (cfg_log_dir c) (flat_str v) (\<lambda>s. c\<lparr>cfg_log_dir := Some s\<rparr>)
      else if key = ''log-keep-days'' then once (cfg_log_keep_days c) (flat_nat 32 v) (\<lambda>n. c\<lparr>cfg_log_keep_days := Some n\<rparr>)
      else if key = ''no-stdout'' then once (cfg_no_stdout c) (flat_bool v) (\<lambda>b. c\<lparr>cfg_no_stdout := Some b\<rparr>)
      else if key = ''pretty-log'' then once (cfg_pretty_log c) (flat_bool v) (\<lambda>b. c\<lparr>cfg_pretty_log := Some b\<rparr>)
      else if key = ''summary'' then once (cfg_summary c) (flat_bool v) (\<lambda>b. c\<lparr>cfg_summary := Some b\<rparr>)
      else if key = ''color'' then once (cfg_color c) (Option.bind (flat_str v) color_name) (\<lambda>m. c\<lparr>cfg_color := Some m\<rparr>)
      else None)"

text \<open>TOML forbids control characters other than tabs in comments.\<close>

definition comment_char :: "char \<Rightarrow> bool" where
  "comment_char ch = (byte ch = 9 \<or> (32 \<le> byte ch \<and> byte ch \<noteq> 127))"

definition flat_line :: "str \<Rightarrow> config \<Rightarrow> config option" where
  "flat_line l c = (case l of
       [] \<Rightarrow> Some c
     | ch # text \<Rightarrow>
         if ch = CHR ''#'' then if list_all comment_char text then Some c else None
         else (case strip_prefix '' = '' (dropWhile (\<lambda>ch. ch \<noteq> CHR '' '') l) of
             None \<Rightarrow> None
           | Some text \<Rightarrow> (case flat_value text of
                 None \<Rightarrow> None
               | Some v \<Rightarrow> assign_key (takeWhile (\<lambda>ch. ch \<noteq> CHR '' '') l) v c)))"

fun flat_lines :: "str list \<Rightarrow> config \<Rightarrow> config option" where
  "flat_lines [] c = Some c"
| "flat_lines (l # ls) c = (case flat_line l c of None \<Rightarrow> None | Some c \<Rightarrow> flat_lines ls c)"

definition flat_toml :: "u8 list \<Rightarrow> config option" where
  "flat_toml body = flat_lines (byte_lines body) empty_config"

definition reads_flat_toml :: "toml_library \<Rightarrow> bool" where
  "reads_flat_toml lib \<longleftrightarrow> (\<forall>body c. tl_utf8 lib body \<and> flat_toml body = Some c \<longrightarrow> tl_parse lib body = Inr c)"

section \<open>What the template says\<close>

text \<open>The comment texts of the source have no control characters.\<close>

definition clean_notes :: "(nat \<Rightarrow> str) \<Rightarrow> bool" where
  "clean_notes note \<longleftrightarrow> (\<forall>k. list_all comment_char (note k))"

definition template_config :: "bool \<Rightarrow> config" where
  "template_config daemon = empty_config\<lparr>
     cfg_log_file := (if daemon then None else Some ''/var/log/otel-logger/otel-logger.jsonl''),
     cfg_log_dir := (if daemon then Some ''/var/log/otel-logger'' else None),
     cfg_log_keep_days := (if daemon then Some 10 else None),
     cfg_no_stdout := Some daemon, cfg_summary := Some False, cfg_color := Some ColorAuto\<rparr>"

lemma byte_lines_line: "list_all (\<lambda>ch. byte ch \<noteq> 10) l \<Longrightarrow> byte_lines (text_bytes l @ 10 # rest) = l # byte_lines rest"
proof (induction l)
  case (Cons ch l)
  have "unat (word_of_nat (byte ch) :: u8) = byte ch" unfolding byte_def by (simp add: unat_of_nat)
  then have "(word_of_nat (byte ch) :: u8) \<noteq> 10" "char_of (unat (word_of_nat (byte ch) :: u8)) = ch"
    using Cons.prems by (auto simp: byte_def)
  then show ?case using Cons by (simp add: text_bytes_def)
qed (simp add: text_bytes_def)

lemma byte_lines_section:
  "list_all (list_all (\<lambda>ch. byte ch \<noteq> 10)) ls \<Longrightarrow> byte_lines (section_text ls @ rest) = ls @ byte_lines rest"
  by (induction ls) (simp_all add: section_text_def byte_lines_line)

lemma flat_lines_append: "flat_lines (xs @ ys) c = Option.bind (flat_lines xs c) (flat_lines ys)"
  by (induction xs arbitrary: c) (simp_all split: option.splits)

lemma comment_chars: "list_all comment_char l \<Longrightarrow> list_all (\<lambda>ch. byte ch \<noteq> 10) l"
  by (auto simp: comment_char_def list_all_iff)

lemma clean_note [simp]: "clean_notes note \<Longrightarrow> list_all comment_char (note k)" "clean_notes note \<Longrightarrow> list_all (\<lambda>ch. byte ch \<noteq> 10) (note k)"
  by (auto simp: clean_notes_def intro: comment_chars)

lemma flat_line_comment [simp]: "flat_line (CHR ''#'' # text) c = (if list_all comment_char text then Some c else None)"
  by (simp add: flat_line_def)

lemma flat_line_blank [simp]: "flat_line [] c = Some c"
  by (simp add: flat_line_def)

lemmas section_defs = CONFIG_HEADER_def DAEMON_HEADER_NOTE_def DEFAULT_STORAGE_SECTION_def DAEMON_STORAGE_SECTION_def
  DEFAULT_OUTPUT_SECTION_def DAEMON_OUTPUT_SECTION_def COMMON_CONFIG_TAIL_def

lemma template_lines_clean:
  assumes "clean_notes note" and "ls \<in> {CONFIG_HEADER note, DAEMON_HEADER_NOTE note, DEFAULT_STORAGE_SECTION note,
    DAEMON_STORAGE_SECTION note, DEFAULT_OUTPUT_SECTION note, DAEMON_OUTPUT_SECTION note, COMMON_CONFIG_TAIL note}"
  shows "list_all (list_all (\<lambda>ch. byte ch \<noteq> 10)) ls"
  using assms(2) by (auto simp: section_defs dquoted_def byte_def clean_note(2) [OF assms(1), unfolded byte_def])

definition template_lines :: "(nat \<Rightarrow> str) \<Rightarrow> bool \<Rightarrow> str list" where
  "template_lines note daemon = CONFIG_HEADER note @ (if daemon then DAEMON_HEADER_NOTE note else []) @
     (if daemon then DAEMON_STORAGE_SECTION note else DEFAULT_STORAGE_SECTION note) @
     (if daemon then DAEMON_OUTPUT_SECTION note else DEFAULT_OUTPUT_SECTION note) @ COMMON_CONFIG_TAIL note"

lemma section_text_append [simp]: "section_text (xs @ ys) = section_text xs @ section_text ys" "section_text [] = []"
  by (simp_all add: section_text_def)

lemma template_text:
  "render_config_template (source_texts note) (if daemon then ProfileDaemon else ProfileDefault) = section_text (template_lines note daemon)"
  by (simp add: render_config_template_def source_texts_def template_lines_def)

lemmas flat_reading = flat_line_def strip_prefix_def starts_with_def flat_value_def all_digits_def is_ascii_digit_def byte_def
  digits_val_def digit_val_def dquoted_def plain_char_def assign_key_def flat_str_def flat_bool_def flat_nat_def color_name_def

lemma once_None [simp]: "once None (Some v) f = Some (f v)"
  by (simp add: once_def)

lemma flat_sections:
  assumes "clean_notes note"
  shows "flat_lines (CONFIG_HEADER note) c = Some c"
    and "flat_lines (DAEMON_HEADER_NOTE note) c = Some c"
    and "cfg_log_file c = None \<Longrightarrow> flat_lines (DEFAULT_STORAGE_SECTION note) c =
      Some (c\<lparr>cfg_log_file := Some ''/var/log/otel-logger/otel-logger.jsonl''\<rparr>)"
    and "cfg_log_dir c = None \<Longrightarrow> cfg_log_keep_days c = None \<Longrightarrow> flat_lines (DAEMON_STORAGE_SECTION note) c =
      Some (c\<lparr>cfg_log_dir := Some ''/var/log/otel-logger'', cfg_log_keep_days := Some 10\<rparr>)"
    and "cfg_no_stdout c = None \<Longrightarrow> cfg_summary c = None \<Longrightarrow> flat_lines (DEFAULT_OUTPUT_SECTION note) c =
      Some (c\<lparr>cfg_no_stdout := Some False, cfg_summary := Some False\<rparr>)"
    and "cfg_no_stdout c = None \<Longrightarrow> cfg_summary c = None \<Longrightarrow> flat_lines (DAEMON_OUTPUT_SECTION note) c =
      Some (c\<lparr>cfg_no_stdout := Some True, cfg_summary := Some False\<rparr>)"
    and "cfg_color c = None \<Longrightarrow> flat_lines (COMMON_CONFIG_TAIL note) c = Some (c\<lparr>cfg_color := Some ColorAuto\<rparr>)"
  using clean_note(1) [OF assms]
  by (simp_all add: section_defs flat_reading comment_char_def)

lemma template_lines_newline_free:
  "clean_notes note \<Longrightarrow> list_all (list_all (\<lambda>ch. byte ch \<noteq> 10)) (template_lines note daemon)"
  by (simp add: template_lines_def template_lines_clean)

lemma template_reads:
  assumes "clean_notes note"
  shows "flat_toml (section_text (template_lines note daemon)) = Some (template_config daemon)"
proof -
  have "byte_lines (section_text (template_lines note daemon)) = template_lines note daemon"
    using byte_lines_section [OF template_lines_newline_free [OF assms], of daemon "[]"] by simp
  then show ?thesis
    using flat_sections [OF assms]
    by (simp add: flat_toml_def template_lines_def flat_lines_append template_config_def empty_config_def)
qed

section \<open>Starting with what the template says\<close>

definition bare_cli :: "str option \<Rightarrow> bool \<Rightarrow> cli" where
  "bare_cli path dry_run = \<lparr>cli_command = None, cli_config = path, cli_grpc_addr = None, cli_http_addr = None,
     cli_max_inflight_requests = None, cli_receive_timeout_ms = None, cli_log_file = None, cli_log_dir = None,
     cli_log_keep_days = None, cli_no_stdout = None, cli_pretty_log = None, cli_summary = None, cli_color = None,
     cli_dry_run = dry_run, cli_proxy_anthropic_endpoint = None, cli_proxy_anthropic_transport = None,
     cli_proxy_anthropic_headers = [], cli_proxy_openai_endpoint = None, cli_proxy_openai_transport = None,
     cli_proxy_openai_headers = [], cli_proxy_checkpoint_dir = None\<rparr>"

definition template_settings :: "bool \<Rightarrow> bool \<Rightarrow> settings" where
  "template_settings daemon dry_run = \<lparr>st_grpc_addr = DEFAULT_GRPC_ADDR, st_http_addr = DEFAULT_HTTP_ADDR,
     st_max_inflight_requests = 8, st_receive_timeout = 5 * 10 ^ 9,
     st_log_sink = Some (if daemon then LogDirectory ''/var/log/otel-logger'' 10 else LogFile ''/var/log/otel-logger/otel-logger.jsonl''),
     st_no_stdout = daemon, st_pretty_log_dir = None, st_summary = False, st_color = ColorAuto,
     st_dry_run = dry_run, st_proxy = None\<rparr>"

lemma no_proxy: "resolve_proxy_settings env (proxy_inputs (bare_cli path dry_run)) None sink home = Inr None"
  by (simp add: resolve_proxy_settings_def proxy_inputs_def bare_cli_def unwrap_or_def default_proxy_config_def
    resolve_routes_def build_vendor_route_def collect_vendor_def om_del_def Let_def)

lemma absolute_path: "expand_user_path (CHR ''/'' # p) home = CHR ''/'' # p"
  by (simp add: expand_absolute starts_with_def)

lemma template_merges:
  assumes "8 \<le> max_permits"
  shows "merge_with_home max_permits env (bare_cli path dry_run) (template_config daemon) home = Inr (template_settings daemon dry_run)"
proof -
  have sink: "resolve_log_sink (bare_cli path dry_run) (template_config daemon) home = Inr (st_log_sink (template_settings daemon dry_run))"
    by (cases daemon) (simp_all add: resolve_log_sink_def bare_cli_def template_config_def empty_config_def
      template_settings_def unwrap_or_def absolute_path non_empty_config_path_def Let_def)
  have "cfg_proxy (template_config daemon) = None" by (simp add: template_config_def empty_config_def)
  moreover have "resolve_max_inflight max_permits (bare_cli path dry_run) (template_config daemon) = Inr 8"
    using assms by (simp add: resolve_max_inflight_def bare_cli_def template_config_def empty_config_def unwrap_or_def ensure_def
        DEFAULT_MAX_INFLIGHT_REQUESTS_def)
  moreover have "resolve_receive_timeout (bare_cli path dry_run) (template_config daemon) = Inr (5 * 10 ^ 9)"
    by (simp add: resolve_receive_timeout_def bare_cli_def template_config_def empty_config_def ensure_def DEFAULT_RECEIVE_TIMEOUT_def)
  ultimately show ?thesis
    by (simp add: merge_with_home_def sink no_proxy resolve_pretty_log_dir_def)
      (simp add: template_settings_def bare_cli_def template_config_def empty_config_def unwrap_or_def)
qed

text \<open>Where \<open>init\<close> writes is where a start looks that is given the same path.\<close>

definition config_destination :: "str option \<Rightarrow> str option \<Rightarrow> str option \<Rightarrow> str option" where
  "config_destination xdg home path = (case path of Some p \<Rightarrow> Some (expand_user_path p home) | None \<Rightarrow> default_config_path xdg home)"

lemma init_leaves_template:
  assumes "main_start lib tt max_permits env xdg home cli d = (InitDone (Inr out), d')"
    and "cli_command cli = Some (Init path force daemon)"
  obtains dest where "config_destination xdg home (or_else path (cli_config cli)) = Some dest"
    "disk_files d' dest = Some (render_config_template tt (if daemon then ProfileDaemon else ProfileDefault))"
proof -
  let ?profile = "if daemon then ProfileDaemon else ProfileDefault"
  have r: "run_init tt xdg home (or_else path (cli_config cli)) force ?profile d = (Inr out, d')"
    using assms unfolding main_start_def by (auto simp: Let_def split: if_splits prod.splits)
  obtain dest where dest: "config_destination xdg home (or_else path (cli_config cli)) = Some dest"
      "write_with_profile tt dest force ?profile d = (Inr out, d')"
    using r by (auto simp: run_init_def config_destination_def split: option.splits)
  show thesis using that [OF dest(1)] write_with_profile_effect [OF dest(2)] by (simp add: init_effect_def)
qed

lemma load_destination:
  assumes "config_destination xdg home path = Some dest" and "disk_files d dest = Some body" and "disk_faults d = []"
    and "tl_utf8 lib body" and "tl_parse lib body = Inr c"
  shows "config_load lib path xdg home d = (Inr c, d)"
  using assms
  by (cases path) (simp_all add: config_destination_def config_load_def load_with_home_def load_from_def try_exists_def
    read_file_def disk_syscall_def disk_bytes_def)

section \<open>A sample\<close>

text \<open>A library that reads flat documents and nothing else.\<close>

definition flat_library :: toml_library where
  "flat_library = \<lparr>tl_utf8 = \<lambda>_. True, tl_parse = \<lambda>body. case flat_toml body of None \<Rightarrow> Inl None | Some c \<Rightarrow> Inr c\<rparr>"

definition sample_note :: "nat \<Rightarrow> str" where
  "sample_note k = '' see the manual''"

definition template_disk :: disk where
  "template_disk = \<lparr>disk_files = [''/new'' \<mapsto> render_config_template (source_texts sample_note) ProfileDaemon], disk_faults = []\<rparr>"

lemma flat_library_reads: "reads_flat_toml flat_library" "tl_utf8 flat_library body" "clean_notes sample_note"
  by (simp_all add: reads_flat_toml_def flat_library_def clean_notes_def sample_note_def comment_char_def byte_def)

lemma sample_template_written:
  "main_start flat_library (source_texts sample_note) 100 env None None (sample_cli_args\<lparr>cli_command := Some (Init (Some ''/new'') False True)\<rparr>)
     \<lparr>disk_files = Map.empty, disk_faults = []\<rparr> = (InitDone (Inr Created), template_disk)"
proof -
  have p: "expand_user_path ''/new'' None = ''/new''" "path_parent ''/new'' = Some ''/''" by code_simp+
  have "write_with_profile (source_texts sample_note) ''/new'' False ProfileDaemon \<lparr>disk_files = Map.empty, disk_faults = []\<rparr> =
      (Inr Created, template_disk)"
    by (simp add: write_with_profile_def write_opened_def try_exists_def open_config_def create_parent_def create_private_dir_def p
        disk_syscall_def file_write_all_def syscall_def set_bytes_def file_bytes_def disk_bytes_def Let_def template_disk_def)
  then show ?thesis by (simp add: main_start_def run_init_def sample_cli_args_def p)
qed

end
