(* ===== verification/Command_Line.thy ===== *)
theory Command_Line
  imports Config_File
begin

text \<open>
  The declarations of the command line (\<^verbatim>\<open>Cli\<close> and \<^verbatim>\<open>Commands\<close> of
  \<^verbatim>\<open>src/src/cli.rs\<close>) as data: what may be given under which name, which environment
  variable stands in for it, and whether the help may show that variable's value. The parser that
  reads arguments by them is a library; only what it shows of the environment is used here.
\<close>

section \<open>The declarations\<close>

datatype arg_kind =
    Flag
  | OneValue
  | OptionalBool   \<comment> \<open>behind an equals sign; \<^verbatim>\<open>true\<close> when the value is missing\<close>
  | Values char   \<comment> \<open>any number, separated by this character\<close>

record arg_decl =
  ad_long :: str
  ad_short :: "char option"
  ad_env :: "str option"
  ad_hide_env_values :: bool
  ad_kind :: arg_kind

definition declared :: "str \<Rightarrow> char option \<Rightarrow> str option \<Rightarrow> bool \<Rightarrow> arg_kind \<Rightarrow> arg_decl" where
  "declared long short env hide kind = \<lparr>ad_long = long, ad_short = short, ad_env = env, ad_hide_env_values = hide, ad_kind = kind\<rparr>"

definition receiver_args :: "arg_decl list" where
  "receiver_args = [
     declared ''config'' None (Some ''OTEL_LOGGER_CONFIG'') False OneValue,
     declared ''grpc-addr'' None (Some ''OTEL_LOGGER_GRPC_ADDR'') False OneValue,
     declared ''http-addr'' None (Some ''OTEL_LOGGER_HTTP_ADDR'') False OneValue,
     declared ''max-inflight-requests'' None (Some ''OTEL_LOGGER_MAX_INFLIGHT_REQUESTS'') False OneValue,
     declared ''receive-timeout-ms'' None (Some ''OTEL_LOGGER_RECEIVE_TIMEOUT_MS'') False OneValue,
     declared ''log-file'' None (Some ''OTEL_LOGGER_LOG_FILE'') False OneValue,
     declared ''log-dir'' None (Some ''OTEL_LOGGER_LOG_DIR'') False OneValue,
     declared ''log-keep-days'' None (Some ''OTEL_LOGGER_LOG_KEEP_DAYS'') False OneValue,
     declared ''no-stdout'' None (Some ''OTEL_LOGGER_NO_STDOUT'') False OptionalBool,
     declared ''pretty-log'' None (Some ''OTEL_LOGGER_PRETTY_LOG'') False OptionalBool,
     declared ''summary'' None (Some ''OTEL_LOGGER_SUMMARY'') False OptionalBool,
     declared ''color'' None (Some ''OTEL_LOGGER_COLOR'') False OneValue,
     declared ''dry-run'' (Some CHR ''n'') None False Flag]"

definition proxy_args :: "arg_decl list" where
  "proxy_args = [
     declared ''proxy-anthropic-endpoint'' None (Some ''OTEL_LOGGER_PROXY_ANTHROPIC_ENDPOINT'') True OneValue,
     declared ''proxy-anthropic-transport'' None (Some ''OTEL_LOGGER_PROXY_ANTHROPIC_TRANSPORT'') False OneValue,
     declared ''proxy-anthropic-header'' None (Some ''OTEL_LOGGER_PROXY_ANTHROPIC_HEADERS'') True (Values (CHR '','')),
     declared ''proxy-openai-endpoint'' None (Some ''OTEL_LOGGER_PROXY_OPENAI_ENDPOINT'') True OneValue,
     declared ''proxy-openai-transport'' None (Some ''OTEL_LOGGER_PROXY_OPENAI_TRANSPORT'') False OneValue,
     declared ''proxy-openai-header'' None (Some ''OTEL_LOGGER_PROXY_OPENAI_HEADERS'') True (Values (CHR '','')),
     declared ''proxy-checkpoint-dir'' None (Some ''OTEL_LOGGER_PROXY_CHECKPOINT_DIR'') False OneValue]"

definition init_args :: "arg_decl list" where
  "init_args = [
     declared ''path'' (Some CHR ''p'') None False OneValue,
     declared ''force'' (Some CHR ''f'') None False Flag,
     declared ''daemon'' None None False Flag]"

section \<open>The environment of the options\<close>

text \<open>The variables that the options read, and the values that the help prints.\<close>

definition env_names :: "arg_decl list \<Rightarrow> str list" where
  "env_names args = List.map_filter ad_env args"

definition shown_in_help :: "arg_decl list \<Rightarrow> environment \<Rightarrow> (str \<times> str) list" where
  "shown_in_help args vars = filter (\<lambda>(name, _). \<exists>a \<in> set args. ad_env a = Some name \<and> \<not> ad_hide_env_values a) vars"

lemma names_are_own: "distinct (map ad_long (receiver_args @ proxy_args))" "distinct (env_names (receiver_args @ proxy_args))"
  by code_simp+

lemma env_names_prefixed: "list_all (\<lambda>name. starts_with name ''OTEL_LOGGER_'') (env_names (receiver_args @ proxy_args))"
  by code_simp

text \<open>
  After the start of \<^verbatim>\<open>main\<close> no option sees an empty variable, so an empty one is the same
  as none.
\<close>

lemma declared_env_not_empty:
  assumes "name \<in> set (env_names (receiver_args @ proxy_args))" and "(name, val) \<in> set (clear_empty_otel_logger_env vars)"
  shows "val \<noteq> []"
  using cleared_env(1) [OF assms(2)] env_names_prefixed assms(1) by (simp add: list_all_iff)

text \<open>The help never shows the endpoints and headers of the upstreams, which may hold credentials.\<close>

definition secret_names :: "str list" where
  "secret_names = [''OTEL_LOGGER_PROXY_ANTHROPIC_ENDPOINT'', ''OTEL_LOGGER_PROXY_ANTHROPIC_HEADERS'',
     ''OTEL_LOGGER_PROXY_OPENAI_ENDPOINT'', ''OTEL_LOGGER_PROXY_OPENAI_HEADERS'']"

lemma secrets_hidden:
  "\<forall>a \<in> set (receiver_args @ proxy_args). \<forall>name \<in> set secret_names. ad_env a = Some name \<longrightarrow> ad_hide_env_values a"
  by code_simp

lemma help_hides_secrets:
  "shown_in_help (receiver_args @ proxy_args) (map (\<lambda>(name, val). (name, if name \<in> set secret_names then secret else val)) vars) =
   shown_in_help (receiver_args @ proxy_args) vars"
proof (induction vars)
  case (Cons var vars)
  obtain name val where v: "var = (name, val)" by fastforce
  have "name \<in> set secret_names \<Longrightarrow> \<not> (\<exists>a \<in> set (receiver_args @ proxy_args). ad_env a = Some name \<and> \<not> ad_hide_env_values a)"
    using secrets_hidden by blast
  then show ?case using Cons by (simp only: shown_in_help_def v list.map filter.simps prod.case split: if_split) auto
qed (simp add: shown_in_help_def)

end
