(* ===== verification/Spec2Isabelle.thy ===== *)
theory Spec2Isabelle
  imports Sample_Batches Sample_Disk Sample_Receiver Sample_Proxy Sample_Program Pretty_Output Server Diagnostic_Guard Proto_Json Template Command_Line
begin

text \<open>
  A verification development for otel-logger, a program that receives OTLP telemetry of coding
  agents (Claude Code, Codex), appends it to JSON-lines files, forwards it to upstream collectors,
  and keeps running totals of the tokens and costs it reports. All paths below are under
  \<^verbatim>\<open>src/src/\<close>.

  \<^bold>\<open>The program and how its parts interact.\<close>
  \<^verbatim>\<open>main.rs\<close> parses the command line, writes a configuration template (\<^verbatim>\<open>init\<close>)
  or loads the configuration and merges it into settings (\<^verbatim>\<open>config.rs\<close>, \<^verbatim>\<open>cli.rs\<close>).
  \<^verbatim>\<open>server.rs\<close> runs an HTTP and a gRPC listener until a signal. A handler
  (\<^verbatim>\<open>http.rs\<close>, \<^verbatim>\<open>grpc.rs\<close>) takes a permit (\<^verbatim>\<open>admission.rs\<close>), reads
  and decodes a batch, and hands it with the permit to the sink. The sink (\<^verbatim>\<open>sink.rs\<close>) persists
  it in the log file (\<^verbatim>\<open>storage.rs\<close>), and only then counts it (\<^verbatim>\<open>aggregator.rs\<close>),
  queues its text (\<^verbatim>\<open>format.rs\<close>) for the human-readable outputs, and offers it to the lanes of
  the forwarding router (\<^verbatim>\<open>forward/router.rs\<close>), whose workers (\<^verbatim>\<open>forward/worker.rs\<close>)
  send it upstream (\<^verbatim>\<open>forward/client.rs\<close>). Diagnostics go through a queue of their own
  (\<^verbatim>\<open>diagnostics.rs\<close>).

  \<^bold>\<open>Theories.\<close> Each models one component with the names of the code, or holds its laws.

  \<^item> Prelude: machine integers as words, saturating arithmetic, ordered maps (\<^verbatim>\<open>BTreeMap\<close> as
    a sorted association list), the locales \<open>step_invariant\<close> and \<open>trace_step\<close> that lift a step over
    nested loops. Results: \<^verbatim>\<open>?\<close> and fallible loops (locale \<open>fallible_step\<close>). F64: binary64 on
    bit patterns with exact rational rounding. Rust_Str, Rust_Fmt: the parts of \<^verbatim>\<open>str\<close>,
    \<^verbatim>\<open>char\<close> and \<^verbatim>\<open>fmt\<close> that are used, UTF-8 and shortest float printing
    included. Otlp: the received messages as data.
  \<^item> Model_Stats, Aggregator: \<^verbatim>\<open>aggregator.rs\<close>, from the totals and bucket keys to
    \<^verbatim>\<open>ingest_logs\<close>, \<^verbatim>\<open>ingest_traces\<close>, \<^verbatim>\<open>ingest_metrics\<close> and
    \<^verbatim>\<open>snapshot\<close>; the write lock makes each of them one step. Ingest_Loops states what a
    property needs of one record, span and metric to hold after any batches (locales
    \<open>ingest_trace\<close>, \<open>ingest_invariant\<close>); Buckets, Claude_Usage, Codex_Usage, Aggregator_Laws
    interpret them.
  \<^item> Storage: transactional append, tail repair and daily rotation, over the locale
    \<open>append_storage\<close> of what a file must do, interpreted on a disk on which every system call may
    fail after part of its work. Write_Health: when a failing output is reported. Retention: which
    daily files a cleanup removes.
  \<^item> Channel: the bounded channel of the library as a parameter with its documented laws (locale
    \<open>channel\<close>), interpreted by a bounded first-in first-out queue. Pretty_Queue, Worker and
    Diagnostics extend it (\<open>pretty_channel\<close>, \<open>lane_channel\<close>, \<open>diag_channel\<close>).
  \<^item> Proxy_Settings, Proxy_Laws, Paths, Settings, Config_File: \<^verbatim>\<open>config.rs\<close>,
    \<^verbatim>\<open>cli.rs\<close>, \<^verbatim>\<open>path.rs\<close> and the start of \<^verbatim>\<open>main.rs\<close>. Template: the texts
    that \<^verbatim>\<open>init\<close> writes, and what a flat TOML document says, which is all that is assumed of
    the TOML library about them. Command_Line: the declarations of the options with their variables.
  \<^item> Routing, Worker, Client: the three files of \<^verbatim>\<open>forward\<close>.
  \<^item> Sink, Sink_Laws: \<^verbatim>\<open>sink.rs\<close> as a step relation over any number of batches under way, with
    the shutdown; Admission: the receive limits; Receiver, Receiver_Laws: the handlers of both
    protocols composed with limits and sink; Server: the run of the listeners and its end.
  \<^item> Pretty_Queue: the queue, budget and writer of an output. Format, Format_Laws: its text.
    Pretty_Output: the rounds of the writer over its target, standard output or daily files, with
    their health reports. Diagnostics: the writer of diagnostic lines; Diagnostic_Guard: the guard
    that waits for it at the end. Proto_Json: the JSON serializer that keeps numbers JSON cannot
    express.
  \<^item> Pipeline: the sink composed with the workers of its lanes, which share the queues of the
    router. Program, Program_Ends: the whole of \<^verbatim>\<open>main.rs\<close> from the settings to the
    return: opening, binding (\<^verbatim>\<open>server.rs\<close>), the dry run, and the server, the sink and the
    workers as one step relation with the order of the end; from every state the end can be reached.
  \<^item> Sample_Batches, Sample_Disk, Sample_Sink, Sample_Proxy, Sample_Receiver, Sample_Program:
    concrete inputs on which the hypotheses of the properties are met.

  \<^bold>\<open>State.\<close> A struct is a record with the fields of the code, an enum a datatype, an error a
  constructor with the data its message shows, \<^verbatim>\<open>Result\<close> a sum with the error on the left.
  Code between two points at which others can run is one definition; concurrent parts (the tasks of
  the sink, the outputs, the lanes, the receiver, the server, the diagnostics thread and its guard,
  the program as a whole) are
  \<open>inductive\<close> step relations over those definitions, in which any enabled step may come next, with
  the reachable states as a second relation. Histories (batches saved, counted, acknowledged; lines
  handed in, written) are extra fields that no step reads.

  \<^bold>\<open>What the properties show.\<close> Usage totals: Claude's logs and metrics are never both counted,
  in whatever order they arrive; totals are the sums of their buckets; costs stay finite. Storage:
  what is acknowledged is in the file, whole and in order, whatever system call fails, after a crash
  too. Sink and receiver: batches are saved before they are counted, counted exactly once, and the
  answer a client gets is true; limits bound the work; after the shutdown nothing is accepted.
  Outputs: queues stay within their budget and account for what they drop; a daily file of the
  human-readable output holds whole texts in their order. Forwarding: only what is saved is
  forwarded; every request is sent, failed, dropped, queued or in hand; retries follow the schedule
  and OTLP's rules; routes are disjoint and headers safe. Server: it returns, with the sink closed
  once and true errors. Program: server, sink and workers end in this order, and can always end; a
  dry run serves nothing and changes no contents; the guard of the diagnostics waits a bounded time.
  Text: no control character reaches the terminal, no line is forged, quoting is reversible, size is
  linear. Start: no file is overwritten unasked, no configuration is skipped because it could not be
  read, and what \<^verbatim>\<open>init\<close> writes is what the program starts with.

  \<^bold>\<open>Bounds and termination.\<close> Loops over data are structural or have a measure; the retry
  loop and the drain of a worker are bounded by the attempts and the queue. No definition uses fuel.
  Counters are words at the width of the code; a statement about their exact value says while they
  fit, or bounds what happened so far below two to the 64.

  \<^bold>\<open>Parameters.\<close> Not in the repository, and arguments of the definitions that use them: the
  TOML, protobuf, JSON, URL and header libraries, the calendar and the clock, the table of
  upper-case letters, the channel and the semaphore, the transport of the clients, what a body read
  from a connection ends with. Hypotheses state only documented behaviour of them, and the samples
  show they can hold.

  \<^bold>\<open>Not modelled.\<close> Panics, of a worker, of the diagnostics thread or in a blocking write, and
  the abort of tasks by them; how the argument parser reads arguments by the declarations (its
  record is an input); the comment lines of the configuration template that are not ASCII (any text
  without control characters stands for them); file modes, and the removal of bytes from the
  modelled disk by a cleanup (only which files it removes); when exactly the deadline of the last
  drain of an output fires (each of its outcomes is a value); how the libraries accept connections,
  route requests, decompress bodies and register signal handlers; the wording of log messages; and
  of \<^verbatim>\<open>main.rs\<close> the choice of worker threads and the set-up of the log subscriber.
\<close>

section \<open>Usage totals: Claude Code\<close>

text \<open>
  (C5) Claude reports its usage both as logs and as metrics. After any sequence of batches whose
  samples fit into the counters, every counter of every (model, effort) key, summed over its
  buckets, is what the specification says of the samples alone: the requests, plus the usage of
  the logs if any log reported usage for the key, and the usage of the metrics otherwise. Nothing
  is counted twice and nothing is lost, whichever arrives first.
\<close>

theorem claude_usage_counted_once:
  assumes "samples_fit (claude_samples rs)"
  shows "key_sum c k (claude_buckets (ingest_run rs (aggregator_new clk))) = spec_total (claude_samples rs) c k"
  using claude_inv_run [OF assms, of clk] by (simp add: claude_inv_def buckets_rel_def)

lemma claude_usage_counted_once_witness:
  "key_sum InputTokens (ClaudeUsageKey ''opus'' ''unknown'')
     (claude_buckets (ingest_run claude_batches (aggregator_new (\<lambda>_. 0)))) = 7"
  using claude_usage_counted_once [OF claude_batches_fit] claude_batches_opus by simp



text \<open>
  (C13) As long as the samples fit, the Claude total of every counter is the sum of its buckets:
  taking metric usage back and renaming models never makes the two differ.
\<close>

theorem claude_total_is_sum_of_buckets:
  assumes "samples_fit (claude_samples rs)"
  shows "ctr c (as_total (claude_agent (ingest_run rs (aggregator_new clk)))) =
    all_sum c (claude_buckets (ingest_run rs (aggregator_new clk)))"
  using claude_inv_run [OF assms, of clk] by (simp add: claude_inv_def buckets_rel_def)

lemma claude_total_is_sum_of_buckets_witness:
  "ctr InputTokens (as_total (claude_agent (ingest_run claude_batches (aggregator_new (\<lambda>_. 0))))) =
    all_sum InputTokens (claude_buckets (ingest_run claude_batches (aggregator_new (\<lambda>_. 0))))"
  by (rule claude_total_is_sum_of_buckets [OF claude_batches_fit])

section \<open>Usage totals: Codex\<close>

text \<open>
  (C12) After any sequence of received batches, in any order, the Codex total of every counter
  is the sum of its buckets, unless the counter has reached the largest value it can hold.
\<close>

theorem codex_total_is_sum_of_buckets:
  "ctr c (as_total (codex_agent (ingest_run rs (aggregator_new clk)))) = ctr_max \<or>
   ctr c (as_total (codex_agent (ingest_run rs (aggregator_new clk)))) =
     all_sum c (as_buckets (codex_agent (ingest_run rs (aggregator_new clk))))"
  using codex_inv_run [of c rs clk] ctr_le_max [of c "as_total (codex_agent (ingest_run rs (aggregator_new clk)))"]
  by (auto simp: codex_inv_def codex_exact_def)

text \<open>
  What is remembered as provisional for late sessions is really booked: as long as the
  counter is not saturated, a bucket holds at least what all conversations together have pending
  in it, so a late session never moves usage of another conversation.
\<close>

theorem codex_pending_is_booked:
  "ctr c (as_total (codex_agent (ingest_run rs (aggregator_new clk)))) = ctr_max \<or>
   pending_at c (codex_pending_sse (ingest_run rs (aggregator_new clk))) b
     \<le> bucket_val c (as_buckets (codex_agent (ingest_run rs (aggregator_new clk)))) b"
  using codex_inv_run [of c rs clk] ctr_le_max [of c "as_total (codex_agent (ingest_run rs (aggregator_new clk)))"]
  by (auto simp: codex_inv_def codex_exact_def)

text \<open>
  The source (logs or metrics) that first reports tokens of a Codex model stays its source,
  whatever arrives later.
\<close>

theorem codex_token_source_is_kept:
  assumes "codex_token_sources g k = Some s"
  shows "codex_token_sources (ingest_run rs g) k = Some s"
  using source.run_inv [of k s g rs] assms by (simp add: source_is_def)

lemma codex_token_source_is_kept_witness:
  "codex_token_sources (ingest_run [claude_request_log ''opus'' 7]
     ((aggregator_new (\<lambda>_. 0))\<lparr>codex_token_sources := [''gpt'' \<mapsto> CodexLogs]\<rparr>)) ''gpt'' = Some CodexLogs"
  by (rule codex_token_source_is_kept) simp

section \<open>Usage totals: values, keys, shortcuts\<close>

text \<open>
  (C31) Whatever telemetry sends (NaN, infinities, negative or huge costs), every accumulated cost,
  total or per bucket, is a finite number and not negative.
\<close>

theorem costs_are_finite:
  "om_all (\<lambda>a. cost_ok (as_total a) \<and> om_all (\<lambda>e. cost_ok (bs_stats e)) (as_buckets a))
     (agents (ingest_run rs (aggregator_new clk)))"
  using cost_inv_run [of rs clk] by (simp add: cost_inv_def agent_cost_def [abs_def] buckets_cost_def [abs_def])

text \<open>
  Reading a floating-point sum as a counter never wraps or clamps: a positive result is the
  integral part of the value, which was finite and below 2^64; and every value from 0 up to 2^63
  is read exactly.
\<close>

theorem finite_u64_from_f64_exact:
  "(0 < unat (finite_u64_from_f64 v) \<longrightarrow>
      is_finite v \<and> 0 \<le> f64_val v \<and> f64_val v < 2 ^ 64 \<and> unat (finite_u64_from_f64 v) = nat \<lfloor>f64_val v\<rfloor>) \<and>
   (is_finite v \<and> 0 \<le> f64_val v \<and> f64_val v < 2 ^ 63 \<longrightarrow> unat (finite_u64_from_f64 v) = nat \<lfloor>f64_val v\<rfloor>)"
proof -
  define top where "top = f64_of_int (2 ^ 64 - 1)"
  have top: "\<not> is_nan top" "2 ^ 63 \<le> f64_val top" "f64_val top \<le> 2 ^ 64"
    using f64_of_u64_max_bounds by (simp_all add: top_def f64_of_int_def not_nan_f64_round)
  have guard: "f64_le f64_zero v \<and> f64_lt v top \<longleftrightarrow> 0 \<le> f64_val v \<and> f64_val v < f64_val top" if "is_finite v"
    using that top(1) f64_val_less_0_iff [of v]
    by (auto simp: f64_le_def f64_lt_def f64_val_less_iff is_finite_iff f64_zero_def)
  have eq: "finite_u64_from_f64 v =
      (if is_finite v \<and> 0 \<le> f64_val v \<and> f64_val v < f64_val top then f64_as_u64 v else 0)"
    using guard by (auto simp: finite_u64_from_f64_def top_def)
  then show ?thesis using top f64_as_u64_in_range [of v] by auto
qed

lemma finite_u64_from_f64_exact_witness: "unat (finite_u64_from_f64 f64_zero) = 0"
  using finite_u64_from_f64_exact [of f64_zero] by simp

text \<open>(C32) Distinct buckets never share a key, whatever bytes the names hold.\<close>

theorem bucket_key_injective: "inj bucket_key"
  by (rule injI) simp

text \<open>
  The key range scan that finds the buckets of a short model name finds exactly the buckets
  of that model, in every reachable state.
\<close>

theorem bare_keys_complete:
  assumes "samples_fit (claude_samples rs)"
  shows "bare_keys (claude_agent (ingest_run rs (aggregator_new clk))) bare =
    map fst (filter (\<lambda>e. bs_provider (snd e) = PROVIDER_ANTHROPIC \<and> bs_model (snd e) = bare)
      (claude_buckets (ingest_run rs (aggregator_new clk))))"
  using claude_inv_run [OF assms, of clk] by (simp add: claude_inv_def buckets_rel_def bare_keys_filter)

lemma bare_keys_complete_witness:
  "bare_keys (claude_agent (ingest_run claude_batches (aggregator_new (\<lambda>_. 0)))) ''opus'' =
    map fst (filter (\<lambda>e. bs_provider (snd e) = PROVIDER_ANTHROPIC \<and> bs_model (snd e) = ''opus'')
      (claude_buckets (ingest_run claude_batches (aggregator_new (\<lambda>_. 0)))))"
  by (rule bare_keys_complete [OF claude_batches_fit])

text \<open>
  The early return of trace ingestion for batches without Codex spans changes nothing: the
  result is that of the plain loop over all resources.
\<close>

theorem ingest_traces_is_plain_loop: "ingest_traces g req = fold ingest_resource_spans req (g, 0)"
  by (simp add: ingest_traces_def ingest_traces_no_codex)

text \<open>
  A log or trace batch that reports no sample leaves the totals and the breakdown of every
  agent as they were, so a summary that is printed only for a positive count misses nothing.
\<close>

theorem silent_batches_change_nothing:
  assumes "snd (ingest r g) = 0" and "\<And>req. r \<noteq> Metrics req"
  shows "agents (fst (ingest r g)) = agents g"
  using assms announced_logs [of g] announced_traces [of g]
  by (cases r) (auto simp: ingest_def announced_def)

lemma silent_batches_change_nothing_witness:
  "agents (fst (ingest (Traces []) (aggregator_new (\<lambda>_. 0)))) = []"
  using silent_batches_change_nothing [of "Traces []" "aggregator_new (\<lambda>_. 0)"]
  by (simp add: ingest_def ingest_traces_def aggregator_new_def)

section \<open>The daily files\<close>

text \<open>
  (C7) Whatever system calls fail while a run of batches is appended, whatever the dates of the
  writes: each file then stores the complete lines it had when the writer was opened, followed by
  exactly the batches of its date that were reported as written, whole and in order. (Of the open
  file the bytes behind a pending rollback mark do not count as stored.)
\<close>

theorem daily_files_hold_acknowledged:
  assumes "daily_at_date show_date dir stem ext date d = (Inr w, d')"
    and "\<forall>x \<in> set items. complete_lines (fst x) = fst x"
    and "append_run show_date items w = (w', acked)"
  shows "dw_stored w' p = complete_lines (disk_bytes d p) @ bytes_for (daily_path show_date dir stem ext) p acked"
  using append_run_spec [OF _ assms(2,3)] daily_at_date_wf [OF assms(1)] by simp

lemma daily_files_hold_acknowledged_witness:
  "dw_stored sample_writer_end ''logs/a.2026-01-01.jsonl'' = [65, 10, 70, 10]"
  using daily_files_hold_acknowledged [OF sample_open sample_items_lines sample_run, of "''logs/a.2026-01-01.jsonl''"]
  by (simp add: bytes_for_def daily_path_def path_join_def full_disk_def disk_bytes_def complete_lines_def newline_def Let_def)

text \<open>
  (C8) When the process stops at any moment of such a run on one file and the file is opened
  again, it holds what it held at first and the batches that were reported as written, in order,
  and possibly one more line: the batch whose write was reported as failed and could not be taken
  back, if all of it had reached the file. A half-written line never survives.
\<close>

theorem reopened_file_holds_acknowledged:
  assumes "ta_append_run batches ta = (ta', acked)"
    and "ta_rollback ta = None" "complete_lines (file_bytes (ta_file ta)) = file_bytes (ta_file ta)"
    and "\<forall>bs \<in> set batches. one_line bs"
    and "recover_tail (ta_file ta') = (Inr (), f)"
  shows "\<exists>extra. (extra = [] \<or> extra \<in> set batches \<and> ta_rollback ta' \<noteq> None) \<and>
    file_bytes f = file_bytes (ta_file ta) @ concat acked @ extra"
  by (rule ta_run_recovered [OF assms])

lemma reopened_file_holds_acknowledged_witness:
  "\<exists>extra. (extra = [] \<or> extra = [67, 68, 69, 10]) \<and> file_bytes sample_reopened = [65, 10] @ [] @ extra"
  using reopened_file_holds_acknowledged [OF sample_crash sample_crash_start(1,2) sample_crash_line sample_reopen]
  by (auto simp: sample_crash_start(3))

text \<open>
  (C33) Failures do not last: after any run with any failures, as soon as the system calls succeed
  again, the next batch is written, to the file of its date, directly behind what was acknowledged.
\<close>

theorem append_recovers:
  assumes "daily_at_date show_date dir stem ext date d = (Inr w, d')"
    and "\<forall>x \<in> set items. complete_lines (fst x) = fst x" and "complete_lines bs = bs"
    and "append_run show_date items w = (w', acked)" and "disk_faults (dw_disk w') = []"
  shows "\<exists>w''. append_at show_date bs today w' = (Inr (), w'') \<and>
    dw_stored w'' (daily_path show_date dir stem ext today) =
      complete_lines (disk_bytes d (daily_path show_date dir stem ext today)) @
      bytes_for (daily_path show_date dir stem ext) (daily_path show_date dir stem ext today) acked @ bs"
proof -
  define path where "path = daily_path show_date dir stem ext today"
  note O = daily_at_date_wf [OF assms(1)]
  have R: "dw_wf show_date w'" "dw_dir w' = dir" "dw_prefix w' = stem" "dw_suffix w' = ext"
    "dw_stored w' path = complete_lines (disk_bytes d path) @ bytes_for (daily_path show_date dir stem ext) path acked"
    using append_run_spec [OF _ assms(2,4)] O by simp_all
  obtain w'' where a: "append_at show_date bs today w' = (Inr (), w'')" using no_fault_append_at [OF assms(5)] by blast
  then show ?thesis
    using append_at_spec [OF R(1) assms(3) a] R by (auto simp: path_def)
qed

lemma append_recovers_witness:
  "\<exists>w. append_at id [72, 10] ''2026-01-01'' sample_writer_end = (Inr (), w) \<and>
     dw_stored w ''logs/a.2026-01-01.jsonl'' = [65, 10, 70, 10, 72, 10]"
  using append_recovers [OF sample_open sample_items_lines _ sample_run, of "[72, 10]" "''2026-01-01''"]
  by (simp add: sample_writer_end_def bytes_for_def daily_path_def path_join_def full_disk_def disk_bytes_def
      complete_lines_def newline_def Let_def)

text \<open>
  Repairing a file on opening, which searches the last newline backwards in blocks of 8192
  bytes, leaves exactly the complete lines of the file, and leaves every other file alone; when a
  system call fails on the way, the file keeps all its complete lines.
\<close>

theorem recover_tail_keeps_complete_lines:
  assumes "recover_tail f = (r, f')"
  shows "(r = Inr () \<longrightarrow> file_bytes f' = complete_lines (file_bytes f)) \<and>
    complete_lines (file_bytes f') = complete_lines (file_bytes f) \<and>
    (\<forall>p. p \<noteq> fh_path f \<longrightarrow> disk_files (fh_disk f') p = disk_files (fh_disk f) p)"
  using recover_tail_spec [OF assms] by (auto simp: keeps_lines_def)

lemma recover_tail_keeps_complete_lines_witness:
  "file_bytes (snd (recover_tail (ta_file (dw_file sample_writer_failed)))) = [65, 10]"
  using recover_tail_keeps_complete_lines [OF sample_recover] by (simp add: sample_tail)

section \<open>Retention\<close>

text \<open>
  (C38) Cleaning up removes only regular files with the name of a daily log of an existing date,
  written by the program, that were last modified before the retention began; a file whose age
  cannot be read stays. If it reports success, every such file is gone.
\<close>

theorem cleanup_removes_old_daily_files:
  assumes "cleanup_old_rotated_logs cal now keep_days exists read_dir = (r, removed)"
  shows "(\<forall>p \<in> set removed. \<exists>entries e d. read_dir = Inr entries \<and> Inr e \<in> set entries \<and> de_path e = p \<and>
      de_is_file e = StatOk True \<and> is_calendar_date cal d \<and> de_name e \<in> {Some (jsonl_name d), Some (pretty_name d)} \<and>
      (\<exists>m. de_modified e = StatOk (Some m) \<and> m < cutoff_time now keep_days)) \<and>
    (r = Inr () \<longrightarrow> (\<forall>entries e d m. exists = Inr True \<longrightarrow> read_dir = Inr entries \<longrightarrow> Inr e \<in> set entries \<longrightarrow>
      de_is_file e = StatOk True \<longrightarrow> is_calendar_date cal d \<longrightarrow> de_name e \<in> {Some (jsonl_name d), Some (pretty_name d)} \<longrightarrow>
      de_modified e = StatOk (Some m) \<longrightarrow> m < cutoff_time now keep_days \<longrightarrow> de_path e \<in> set removed \<or> de_remove e = StatNotFound))"
  using cleanup_spec [OF assms] by blast

lemma cleanup_removes_old_daily_files_witness:
  "\<exists>entries e d. Inr sample_listing = Inr entries \<and> Inr e \<in> set entries \<and> de_path e = ''/v/otel-logger.2026-01-01'' \<and>
      is_calendar_date sample_calendar d \<and> de_name e \<in> {Some (jsonl_name d), Some (pretty_name d)}"
  using cleanup_removes_old_daily_files [OF sample_cleanup] by auto

section \<open>Failure reports\<close>

text \<open>
  The reports about a failing output are well nested: an outage is announced once before any
  reminder of it, a recovery is announced only for an announced outage, and after the run an outage
  is announced and open if and only if the health state holds a failure streak.
\<close>

theorem failure_reports_are_nested:
  assumes "health_run evs default_health = (rs, h)"
  shows "protocol (map snd rs) False = Some (failing h \<noteq> None)"
  using health_run_protocol [OF assms] by (simp add: default_health_def)

lemma failure_reports_are_nested_witness:
  "protocol (map snd [(0, Started), (secs 70, Recovered 2 (secs 70))]) False = Some False"
  using failure_reports_are_nested [OF sample_health] by (simp add: default_health_def)

text \<open>
  However often an output fails and recovers within a time span T, the log gets at most one
  report plus two for each quiet period and one for each reminder interval that fit into T.
\<close>

theorem failure_reports_are_rare:
  assumes "health_run evs default_health = (rs, h)" and "sorted (t0 # map fst evs)"
  shows "length rs \<le> 1 + 2 * ((last (t0 # map fst evs) - t0) div PRETTY_RECOVERY_QUIET_PERIOD)
    + (last (t0 # map fst evs) - t0) div PRETTY_FAILURE_REPORT_INTERVAL"
  by (rule report_rate [OF assms refl])

lemma failure_reports_are_rare_witness:
  "length [(0, Started), (secs 70, Recovered 2 (secs 70))] \<le> 1 + 2 * (secs 70 div PRETTY_RECOVERY_QUIET_PERIOD)
    + secs 70 div PRETTY_FAILURE_REPORT_INTERVAL"
  using failure_reports_are_rare [OF sample_health, of 0] by (simp add: secs_def)

text \<open>
  A writer stops for good exactly when it writes to stdout and the reader of stdout has
  gone; no other error, and no error of a file, ever stops it.
\<close>

theorem only_closed_stdout_stops_writer:
  "should_write (writer_run is_stdout rs default_writer_state) \<longleftrightarrow> \<not> (is_stdout \<and> BrokenPipe \<in> fst ` set rs)"
  by (simp add: should_write_def writer_run_broken default_writer_state_def)

section \<open>Human-readable output\<close>

text \<open>
  (C15) However handlers, writer and shutdown interleave: the strings an output has accepted and not
  handled never hold more than its budget of bytes nor are they more than its capacity, the byte
  counter is exactly those and the ones being enqueued, and every batch that was offered has been
  accepted, is being enqueued, or is counted as dropped.
\<close>

theorem pretty_output_is_bounded:
  assumes "pretty_reachable (fifo_ops cap) is_stdout (pretty_start fifo_new color) s"
  defines "jobs \<equiv> jobs_in_hand (ps_phase s) @ bf_items (po_tx (ps_out s))"
  shows "sum_list (map (length \<circ> pj_rendered) jobs) \<le> 64 * 1024 * 1024 \<and> length (bf_items (po_tx (ps_out s))) \<le> cap \<and>
    unat (po_queued_bytes (ps_out s)) =
      sum_list (map (length \<circ> pj_rendered) jobs) + sum_list (map (length \<circ> fst) (ps_enqueuing s)) \<and>
    ps_offered s = length (filter (\<lambda>job. pj_sync job = None) (ps_accepted s)) + length (ps_enqueuing s) + length (ps_drops s) \<and>
    po_dropped (ps_out s) = of_nat (length (ps_drops s))"
proof -
  have R: "fifo_pretty.budget_ok cap s" "fifo_pretty.history_ok s" "po_max_queued_bytes (ps_out s) = PRETTY_QUEUE_MAX_BYTES"
    using fifo_pretty.reachable_ok [OF assms(1)] by (simp_all add: fifo_new_def)
  then have "within_budget (po_queued_bytes (ps_out s)) (po_max_queued_bytes (ps_out s)) (ps_enqueuing s) jobs"
    "\<forall>job \<in> set jobs. pj_sync job \<noteq> None \<longrightarrow> pj_rendered job = []"
    by (simp_all add: fifo_pretty.budget_ok_def fifo_pretty.unhandled_def jobs_def)
  note B = budget_bound [OF this]
  have "length \<circ> pj_rendered = job_len" by (simp add: fun_eq_iff job_len_def)
  with B R show ?thesis
    by (simp add: fifo_pretty.budget_ok_def fifo_pretty.history_ok_def PRETTY_QUEUE_MAX_BYTES_def comp_def case_prod_beta')
qed

lemma pretty_output_is_bounded_witness:
  "po_dropped (ps_out sample_handled) = of_nat (length (ps_drops sample_handled)) \<and> ps_offered sample_handled = 2"
  using pretty_output_is_bounded [OF sample_handled_reachable] sample_handled_eq by simp

text \<open>
  (C36) When the writer answers a synchronisation of the shutdown, it has handled every batch that
  was accepted before it, in the order in which they were accepted.
\<close>

theorem drained_output_is_complete:
  assumes "pretty_reachable (fifo_ops cap) is_stdout (pretty_start fifo_new color) s"
    and "ps_accepted s = before @ sync_job n # after" and "n \<in> set (ps_synced s)"
    and "\<forall>job \<in> set (before @ after). pj_sync job \<noteq> Some n"
  shows "\<exists>more. ps_handled s = before @ sync_job n # more"
proof -
  have "fifo_pretty.history_ok s" using fifo_pretty.reachable_ok [OF assms(1)] by (simp add: fifo_new_def)
  from fifo_pretty.synced_prefix [OF this assms(2-4)] show ?thesis .
qed

lemma drained_output_is_complete_witness:
  "\<exists>more. ps_handled sample_handled = [sample_job ''b'' False, sample_job ''aa'' True] @ sync_job 7 # more"
  by (rule drained_output_is_complete [OF sample_handled_reachable, where after = "[]"])
    (use sample_handled_eq in \<open>simp_all add: sample_job_def\<close>)

text \<open>
  (C18) Whatever the telemetry contains, whatever system calls fail and whenever the day changes:
  behind its complete old lines a daily file of \<open>--pretty-log\<close> holds texts of batches and totals
  that were queued, in their order, each as a whole or not at all; so it consists of whole lines
  without control characters.
\<close>

theorem pretty_log_is_safe:
  assumes "times_clean tlib" and "open_pretty_log lib su dir d = (Inr w, d')" and "\<forall>r \<in> set rounds. round_clean tlib False r"
    and "writer_rounds out (sl_show_date lib) False rounds (s, TargetFile w) = (s', target)"
    and "path_of = daily_path (sl_show_date lib) dir PRETTY_LOG_PREFIX (Some PRETTY_LOG_SUFFIX)"
  shows "\<exists>w' written. target = TargetFile w' \<and> subseq (map fst written) (concat (map (round_chunks False) rounds)) \<and>
    (\<forall>p. dw_stored w' p = complete_lines (disk_bytes d p) @ bytes_for path_of p written \<and>
      shown_bytes False (bytes_for path_of p written))"
proof -
  have w: "whole_chunks (sl_show_date lib) (\<lambda>p. complete_lines (disk_bytes d p)) [] w w" "dw_dir w = dir"
    "dw_prefix w = PRETTY_LOG_PREFIX" "dw_suffix w = Some PRETTY_LOG_SUFFIX"
    using opened_pretty_log [OF assms(2)] by simp_all
  obtain s1 w' where k: "writer_rounds out (sl_show_date lib) False rounds (s, TargetFile w) = (s1, TargetFile w')"
    "whole_chunks (sl_show_date lib) (\<lambda>p. complete_lines (disk_bytes d p)) (concat (map (round_chunks False) rounds)) w w'"
    using writer_rounds_file [OF assms(1,3) w(1), of out s] by auto
  obtain written where W: "subseq (map fst written) (concat (map (round_chunks False) rounds))"
    "\<And>p. dw_stored w' p = complete_lines (disk_bytes d p) @ bytes_for path_of p written"
    using k(2) w(2-4) by (auto simp: whole_chunks_def assms(5))
  show ?thesis
    using k(1) W assms(4) bytes_for_shown [OF assms(1,3) W(1)] by (intro exI [of _ w'] exI [of _ written]) simp
qed

lemma pretty_log_is_safe_witness:
  "\<exists>w written. subseq (map fst written) (round_chunks False sample_round) \<and>
     (\<forall>p. dw_stored (w :: str daily_writer) p = bytes_for (daily_path id ''/d'' PRETTY_LOG_PREFIX (Some PRETTY_LOG_SUFFIX)) p written)"
proof -
  obtain w d where opened: "open_pretty_log sample_lib sample_surroundings ''/d'' sample_empty_disk = (Inr w, d)" using sample_pretty_opens by blast
  obtain s target where run: "writer_rounds sample_stdout (sl_show_date sample_lib) False [sample_round] (default_writer_state, TargetFile w) = (s, target)"
    by fastforce
  have empty: "complete_lines (disk_bytes sample_empty_disk p) = []" for p by (simp add: sample_empty_disk_def disk_bytes_def)
  have clean: "\<forall>r \<in> set [sample_round]. round_clean sample_text_library False r" using sample_round_clean by simp
  have date: "sl_show_date sample_lib = id" by (simp add: sample_lib_def)
  from pretty_log_is_safe [OF sample_times_clean opened clean run refl] show ?thesis
    unfolding date by (auto simp: empty)
qed

section \<open>The sink\<close>

text \<open>
  (C6) In every state the sink can reach, however its tasks interleave: the aggregator has counted
  exactly the batches of the tasks that got past the ingestion, each once, and with a log exactly
  the batches of the tasks past a successful write are saved, each once. A batch whose write failed
  is neither, so its retry does not count twice; when no task is under way, the acknowledged
  batches, the saved and the counted ones are the same.
\<close>

theorem acknowledged_batches_count_once:
  assumes "sink_from_settings lib su tx no_color is_terminal clk st proxy d = (Inr (sk, pretty), d')"
    and "sink_reachable qops lops lib (sink_start sk) s"
  shows "sk_aggregator (ss_sink s) = ingest_run (ss_ingested s) (aggregator_new clk) \<and>
    mset (ss_ingested s) = count_tasks phase_ingested (ss_tasks s) \<and>
    (st_log_sink st \<noteq> None \<longrightarrow> mset (ss_saved s) = count_tasks phase_saved (ss_tasks s)) \<and>
    (list_all (\<lambda>t. \<not> in_flight (snd t)) (ss_tasks s) \<longrightarrow>
      mset (ss_ingested s) = count_tasks phase_acknowledged (ss_tasks s) \<and>
      (st_log_sink st \<noteq> None \<longrightarrow> mset (ss_saved s) = count_tasks phase_acknowledged (ss_tasks s)))"
proof -
  note I = sink_invariant(1-3) [OF assms]
  have logged: "sk_file (ss_sink s) \<noteq> None \<longleftrightarrow> st_log_sink st \<noteq> None" using I(3) by simp
  show ?thesis using I(1,2) all_acknowledged [OF I(1)] logged by (simp add: tasks_ok_def list_all_iff)
qed

lemma acknowledged_batches_count_once_witness:
  "\<exists>s. sample_reaches (sink_start sample_opened) s \<and> mset (ss_saved s) = mset claude_batches \<and> mset (ss_ingested s) = mset claude_batches"
proof -
  obtain d where o: "sink_from_settings sample_lib sample_surroundings fifo_new None False (\<lambda>_. 0) sample_sink_settings None sample_disk =
     (Inr (sample_opened, None), d)" using sample_opens by blast
  obtain s where s: "sample_reaches (sink_start sample_opened) s" "ss_tasks s = sample_done" using sample_sink_run by blast
  from acknowledged_batches_count_once [OF o s(1)] s sample_done_phases show ?thesis
    by (auto simp: list_all_iff sample_sink_settings_def intro!: exI [of _ s])
qed



text \<open>
  (C3) End to end: when no task is under way, the usage of every Claude key is what the
  specification says of the acknowledged batches alone, whatever order their tasks took and
  whichever writes failed.
\<close>

theorem usage_is_of_acknowledged_batches:
  assumes "sink_from_settings lib su tx no_color is_terminal clk st proxy d = (Inr (sk, pretty), d')"
    and "sink_reachable qops lops lib (sink_start sk) s"
    and "list_all (\<lambda>t. \<not> in_flight (snd t)) (ss_tasks s)"
    and "mset rs = count_tasks phase_acknowledged (ss_tasks s)" and "samples_fit (claude_samples rs)"
  shows "key_sum c k (claude_buckets (sk_aggregator (ss_sink s))) = spec_total (claude_samples rs) c k"
proof -
  note I = sink_invariant(1,2) [OF assms(1,2)]
  have "mset (ss_ingested s) = mset rs" using all_acknowledged(1) [OF I(1)] assms(3,4) by (simp add: list_all_iff)
  then have m: "mset (claude_samples (ss_ingested s)) = mset (claude_samples rs)" by (rule claude_samples_perm)
  then have "samples_fit (claude_samples (ss_ingested s))" using assms(5) samples_fit_perm by metis
  then show ?thesis
    using claude_inv_run [of "ss_ingested s" clk] spec_total_perm [OF m] by (simp add: I(2) claude_inv_def buckets_rel_def)
qed

lemma usage_is_of_acknowledged_batches_witness:
  "\<exists>s. sample_reaches (sink_start sample_opened) s \<and>
     key_sum InputTokens (ClaudeUsageKey ''opus'' ''unknown'') (claude_buckets (sk_aggregator (ss_sink s))) = 7"
proof -
  obtain d where o: "sink_from_settings sample_lib sample_surroundings fifo_new None False (\<lambda>_. 0) sample_sink_settings None sample_disk =
     (Inr (sample_opened, None), d)" using sample_opens by blast
  obtain s where s: "sample_reaches (sink_start sample_opened) s" "ss_tasks s = sample_done" using sample_sink_run by blast
  have "list_all (\<lambda>t. \<not> in_flight (snd t)) (ss_tasks s)" "mset claude_batches = count_tasks phase_acknowledged (ss_tasks s)"
    using s(2) sample_done_phases by (simp_all add: list_all_iff)
  from usage_is_of_acknowledged_batches [OF o s(1) this claude_batches_fit] s(1) claude_batches_opus show ?thesis
    by (auto intro!: exI [of _ s])
qed

text \<open>
  (C16) Once the shutdown has closed the admission, nothing is saved or counted any more: every
  later state has the same saved and counted batches, and no task is under way in it, so the sync
  of the shutdown comes after the last write.
\<close>

theorem closed_sink_saves_nothing:
  assumes "sink_from_settings lib su tx no_color is_terminal clk st proxy d = (Inr (sk, pretty), d')"
    and "sink_reachable qops lops lib (sink_start sk) s" and "\<not> sk_admission (ss_sink s)"
    and "sink_reachable qops lops lib s s'"
  shows "ss_saved s' = ss_saved s \<and> ss_ingested s' = ss_ingested s \<and> \<not> sk_admission (ss_sink s') \<and>
    list_all (\<lambda>t. \<not> in_flight (snd t)) (ss_tasks s')"
proof -
  have "closed s" using sink_invariant(1) [OF assms(1,2)] assms(3) by (auto simp: closed_def tasks_ok_def)
  from closed_reachable [OF assms(4) this] show ?thesis by (simp add: closed_def list_all_iff)
qed

lemma closed_sink_saves_nothing_witness:
  "\<exists>s. sample_reaches (sink_start sample_opened) (shutdown_close s) \<and>
     ss_saved (shutdown_flush (shutdown_close s)) = ss_saved (shutdown_close s)"
proof -
  obtain d where o: "sink_from_settings sample_lib sample_surroundings fifo_new None False (\<lambda>_. 0) sample_sink_settings None sample_disk =
     (Inr (sample_opened, None), d)" using sample_opens by blast
  obtain s where s: "sample_reaches (sink_start sample_opened) s" "ss_tasks s = sample_done" "\<not> ss_locked s" using sample_sink_run by blast
  have c: "sample_reaches (sink_start sample_opened) (shutdown_close s)"
    by (rule sink_reachable.Step [OF s(1) sink_step.Close]) (use s sample_done_phases in \<open>simp_all add: list_all_iff\<close>)
  have "sample_reaches (shutdown_close s) (shutdown_flush (shutdown_close s))"
    by (rule sink_reachable.Step [OF sink_reachable.Start sink_step.Flush]) (simp add: shutdown_close_def)
  from closed_sink_saves_nothing [OF o c _ this] c show ?thesis by (auto simp: shutdown_close_def)
qed

section \<open>Settings and admission\<close>

text \<open>
  (C37) Settings that merge are usable: the limit of concurrent requests is positive and one the
  semaphore can take, the receive timeout is positive, human-readable files go to the directory of
  the log and only there, forwarding has a log, and a log destination that comes from the file is
  the only one there and not empty.
\<close>

theorem merged_settings_are_usable:
  assumes "merge_with_home max_permits env cli config home = Inr st"
  shows "1 \<le> st_max_inflight_requests st \<and> st_max_inflight_requests st \<le> max_permits \<and> 0 < st_receive_timeout st \<and>
    (\<forall>dir. st_pretty_log_dir st = Some dir \<longrightarrow> (\<exists>keep. st_log_sink st = Some (LogDirectory dir keep))) \<and>
    (st_proxy st \<noteq> None \<longrightarrow> st_log_sink st \<noteq> None) \<and>
    (cli_log_file cli = None \<and> cli_log_dir cli = None \<longrightarrow> (case st_log_sink st of None \<Rightarrow> True
      | Some (LogFile _) \<Rightarrow> cfg_log_file config \<noteq> Some '''' \<and> cfg_log_dir config = None
      | Some (LogDirectory _ _) \<Rightarrow> cfg_log_dir config \<noteq> Some '''' \<and> cfg_log_file config = None))"
proof -
  note M = merged_settings [OF assms]
  have "st_log_sink st \<noteq> None" if "st_proxy st = Some ps" for ps
    using M resolved_settings [of env "proxy_inputs cli" "cfg_proxy config" "st_log_sink st" home ps] that by simp
  moreover have "(case st_log_sink st of None \<Rightarrow> True
      | Some (LogFile _) \<Rightarrow> cfg_log_file config \<noteq> Some '''' \<and> cfg_log_dir config = None
      | Some (LogDirectory _ _) \<Rightarrow> cfg_log_dir config \<noteq> Some '''' \<and> cfg_log_file config = None)"
    if "cli_log_file cli = None" "cli_log_dir cli = None"
    using M log_sink_not_empty [of cli config home "the (st_log_sink st)"] that by (cases "st_log_sink st") auto
  ultimately show ?thesis
    using M max_inflight_Inr [of max_permits cli config] receive_timeout_Inr [of cli config]
    by (auto simp: pretty_log_dir_Inr)
qed

lemma merged_settings_are_usable_witness:
  "1 \<le> st_max_inflight_requests sample_settings \<and> st_max_inflight_requests sample_settings \<le> 100"
  using merged_settings_are_usable [OF sample_merge] by blast

text \<open>
  What the command line or the environment gives hides the configuration file, even where the
  file is invalid: two files that agree on what is not given lead to the same settings or the same
  error. A log destination that is given hides both destinations of the file.
\<close>

theorem command_line_hides_config:
  assumes "visible_config cli config = visible_config cli config'"
  shows "merge_with_home max_permits env cli config home = merge_with_home max_permits env cli config' home"
  using merge_visible [of max_permits env cli config home] merge_visible [of max_permits env cli config' home] assms by simp

lemma command_line_hides_config_witness:
  "merge_with_home 100 (\<lambda>_. EnvNotPresent) sample_cli_args (sample_file_config\<lparr>cfg_log_file := None\<rparr>) (Some ''/h'') = Inr sample_settings"
proof -
  have "visible_config sample_cli_args (sample_file_config\<lparr>cfg_log_file := None\<rparr>) = visible_config sample_cli_args sample_file_config"
    by (simp add: visible_config_def sample_cli_args_def)
  from command_line_hides_config [OF this] show ?thesis by (simp add: sample_merge)
qed

text \<open>
  With merged settings, however requests arrive, wait, time out, are cancelled, cloned and
  dropped: the permits that are held and those that are free are always the configured number
  together, so at most that many requests are worked on and every permit comes back; at most eight
  times as many wait for one, and the counter of waiting requests is exact.
\<close>

theorem admission_is_bounded:
  assumes "merge_with_home max_permits env cli config home = Inr st"
    and "admission_reachable (limits_new (st_max_inflight_requests st) (st_receive_timeout st)) s"
  shows "rl_slots (as_limits s) + how_many has_permit s = unat (st_max_inflight_requests st) \<and>
    0 < unat (st_max_inflight_requests st) \<and>
    how_many really_waiting s \<le> 8 * unat (st_max_inflight_requests st) \<and>
    unat (rl_waiting (as_limits s)) = how_many counted_waiting s"
proof -
  have "1 \<le> st_max_inflight_requests st"
    using merged_settings [OF assms(1)] max_inflight_Inr by blast
  then have "0 < unat (st_max_inflight_requests st)" by (simp add: word_le_nat_alt)
  moreover have "unat (saturating_mul (st_max_inflight_requests st) WAITING_PER_INFLIGHT) \<le> 8 * unat (st_max_inflight_requests st)"
    using saturating_mul_le [of "st_max_inflight_requests st" WAITING_PER_INFLIGHT] by (simp add: WAITING_PER_INFLIGHT_def)
  ultimately show ?thesis using limits_kept_reachable [OF assms(2)] by (simp add: limits_kept_def)
qed

lemma admission_is_bounded_witness:
  "rl_slots (as_limits sample_four) + how_many has_permit sample_four = 4"
  using admission_is_bounded [OF sample_merge sample_four_reachable] by (simp add: sample_settings_def)

section \<open>Forwarding: the settings\<close>

text \<open>
  (C25) Settings that resolve have routes with different names, each with at least one service
  name, no service name is empty or claimed by two routes (nor twice by one), and forwarding is
  never on without a file that keeps the batches.
\<close>

theorem resolved_routes_are_disjoint:
  assumes "resolve_proxy_settings env cli config sink home = Inr (Some ps)"
  shows "disjoint_routes (ps_routes ps) \<and> distinct (map pr_name (ps_routes ps)) \<and> ps_routes ps \<noteq> [] \<and>
    sink \<noteq> None \<and> 0 < ps_queue_capacity ps \<and> 0 < ps_timeout_ms ps"
  using resolved_settings [OF assms] by (auto simp: disjoint_routes_def)

lemma resolved_routes_are_disjoint_witness:
  "disjoint_routes sample_routes"
  using resolved_routes_are_disjoint [OF sample_resolve] by (simp add: sample_proxy_settings_def)

text \<open>
  (C34) Every header of a resolved route has a name of token characters in lower case that is not
  reserved, no name occurs twice, and no value holds a control character other than a tab, so no
  header can be injected, whether its value comes from the file, the command line or the
  environment.
\<close>

theorem resolved_headers_are_safe:
  assumes "resolve_proxy_settings env cli config sink home = Inr (Some ps)" and "r \<in> set (ps_routes ps)"
  shows "distinct (map fst (pr_headers r)) \<and> (\<forall>h \<in> set (pr_headers r). fst h \<noteq> '''' \<and> list_all token_char (fst h) \<and>
    to_ascii_lowercase (fst h) = fst h \<and> fst h \<notin> set DISALLOWED_KEYS \<and>
    (\<forall>ch \<in> set (utf8_chars (snd h)). is_control ch \<longrightarrow> ch = [CHR 0x09]))"
proof -
  have "headers_ok (pr_headers r)" using resolved_settings [OF assms(1)] assms(2) by blast
  then have "distinct (map fst (pr_headers r))" and "\<forall>h \<in> set (pr_headers r). header_ok h"
    by (simp_all add: headers_ok_def list_all_iff [of header_ok])
  then show ?thesis by (auto simp: header_ok_def value_chars_control)
qed

lemma resolved_headers_are_safe_witness:
  "distinct (map fst [(''authorization'', ''t0'')])"
  using resolved_headers_are_safe [OF sample_resolve, of "hd sample_routes"]
  by (simp add: sample_proxy_settings_def sample_routes_def)

text \<open>
  A header from the command line replaces every configured header of the same name, however
  the two are spelled, and the last one given wins; headers that are not given keep their values.
\<close>

theorem cli_headers_replace_config:
  assumes "merge_cli_headers dest entries = Inr dest'"
  shows "filter (\<lambda>e. eq_ignore_ascii_case (fst e) k) dest' = (case cli_value k entries of
      Some v \<Rightarrow> [(to_ascii_lowercase k, v)] | None \<Rightarrow> filter (\<lambda>e. eq_ignore_ascii_case (fst e) k) dest)"
  by (rule merge_cli_headers_spec [OF assms])

lemma cli_headers_replace_config_witness:
  "filter (\<lambda>e. eq_ignore_ascii_case (fst e) ''AUTHORIZATION'') [(''authorization'', ''env:TOKEN'')] =
     (case cli_value ''AUTHORIZATION'' ['' Authorization =env:TOKEN''] of
        Some v \<Rightarrow> [(to_ascii_lowercase ''AUTHORIZATION'', v)] | None \<Rightarrow> [])"
  using cli_headers_replace_config [OF sample_headers, of "''AUTHORIZATION''"] by (simp split: option.splits)

section \<open>Forwarding: routing\<close>

text \<open>
  With resolved settings a resource belongs to a lane exactly when the lane's route claims
  its service name; so it belongs to at most one lane, and to none when its service name is
  missing, empty or claimed by nobody.
\<close>

theorem resource_has_one_lane:
  assumes "resolve_proxy_settings env cli config sink home = Inr (Some ps)" and "i < length (ps_routes ps)"
  shows "(service_name_matches_lane res (build_matcher (ps_routes ps)) t (ps_routes ps ! i) \<longleftrightarrow>
      extract_service_name res \<in> set (pr_service_names (ps_routes ps ! i))) \<and>
    '''' \<notin> set (pr_service_names (ps_routes ps ! i)) \<and>
    (service_name_matches_lane res (build_matcher (ps_routes ps)) t (ps_routes ps ! i) \<longrightarrow>
      (\<forall>j < length (ps_routes ps). j \<noteq> i \<longrightarrow>
        \<not> service_name_matches_lane res (build_matcher (ps_routes ps)) t (ps_routes ps ! j)))"
proof -
  have d: "disjoint_routes (ps_routes ps)" using resolved_settings [OF assms(1)] by (auto simp: disjoint_routes_def)
  then show ?thesis
    using disjoint_routes_unique [OF d assms(2)] disjoint_routes_nonempty [OF d assms(2)] matches_lane_iff [OF d]
      assms(2) by blast
qed

lemma resource_has_one_lane_witness:
  "service_name_matches_lane (rl_resource (sample_resource_logs ''bench'')) (build_matcher (ps_routes sample_proxy_settings)) 0
      (ps_routes sample_proxy_settings ! 2)"
  using resource_has_one_lane [OF sample_resolve, of 2 "rl_resource (sample_resource_logs ''bench'')" 0]
  by (simp add: sample_proxy_settings_def sample_routes_def sample_resource_logs_def extract_service_name_def)

text \<open>
  (C26) A notification offers to each lane, in their order, exactly the resources of the batch that
  its route claims, and nothing when there are none or the route does not take the signal. A full
  or closed queue takes nothing and counts one drop; the other lanes are not affected.
\<close>

theorem notify_offers_claimed_part:
  assumes "resolve_proxy_settings env cli config sink home = Inr (Some ps)"
    and "map ln_route lanes = ps_routes ps" and "i < length lanes"
    and "lane = lanes ! i" and "lane' = rt_lanes (notify (fifo_ops cap) rcd (router_new lanes)) ! i"
    and "part = part_of (\<lambda>s. s \<in> set (pr_service_names (ln_route lane))) rcd"
  shows "ln_route lane' = ln_route lane \<and>
    (if is_empty_request part \<or> record_signal rcd \<notin> set (pr_signals (ln_route lane)) then lane' = lane
     else if bf_closed (ln_sender lane) \<or> cap \<le> length (bf_items (ln_sender lane))
       then ln_sender lane' = ln_sender lane \<and> ln_metrics lane' = count_drop (ln_metrics lane)
     else bf_items (ln_sender lane') = bf_items (ln_sender lane) @ [part] \<and> ln_metrics lane' = ln_metrics lane)"
proof -
  have d: "disjoint_routes (map ln_route lanes)"
    using resolved_settings [OF assms(1)] assms(2) by (auto simp: disjoint_routes_def)
  have "filter_record rcd (build_matcher (map ln_route lanes)) (ln_route lane) = (if is_empty_request part then None else Some part)"
    using filter_record_eq [OF d, of i part rcd] assms(3,4,6) by simp
  moreover have "lane' = notify_lane (fifo_ops cap) rcd (build_matcher (map ln_route lanes)) lane"
    using assms(3-5) by (simp add: notify_def router_new_def)
  ultimately show ?thesis
    by (auto simp: notify_lane_def accepts_signal_def offer_def fifo_ops_def fifo_try_send_def)
qed

lemma notify_offers_claimed_part_witness:
  "bf_items (ln_sender (rt_lanes (notify (fifo_ops 4) sample_batch (router_new sample_lanes)) ! 2)) =
     [ExportLogs [sample_resource_logs ''bench'']]"
proof -
  have "2 < length sample_lanes" by (simp add: sample_lanes_def sample_routes_def)
  from notify_offers_claimed_part [OF sample_resolve sample_lanes_routes this refl refl refl, of 4 sample_batch]
  show ?thesis
    by (simp add: sample_lanes_def sample_routes_def part_of_def sample_batch_def sample_resource_logs_def
      extract_service_name_def fifo_new_def)
qed

section \<open>Forwarding: delivery\<close>

text \<open>
  However notifications, sends, retries, failures, the shutdown and the end of the grace
  period interleave: every request that was ever offered to a lane is sent, failed, dropped, still
  in the queue or in the task's hands, and when the task has stopped the three counters alone
  account for all of them. (The counters are 64 bits wide and wrap around, and so does the sum.)
\<close>

theorem every_request_is_accounted_for:
  assumes "lane_reachable (fifo_ops cap) retry retry_max fifo_new s"
  shows "(of_nat (la_notified s) :: u64) = sent_total (la_metrics s) + failed_total (la_metrics s) + dropped_total (la_metrics s) +
      of_nat (in_hand (la_phase s)) + of_nat (length (bf_items (la_queue s))) \<and>
    length (bf_items (la_queue s)) \<le> cap \<and>
    (la_phase s = Stopped \<longrightarrow>
      (of_nat (la_notified s) :: u64) = sent_total (la_metrics s) + failed_total (la_metrics s) + dropped_total (la_metrics s))"
  using fifo_lane.reachable_accounted [OF assms]
  by (auto simp: fifo_new_def fifo_lane.accounted_def fifo_lane.closed_after_run_def counted_def)

lemma every_request_is_accounted_for_witness:
  "(of_nat (la_notified sample_stopped) :: u64) = sent_total (la_metrics sample_stopped) +
     failed_total (la_metrics sample_stopped) + dropped_total (la_metrics sample_stopped)"
  using every_request_is_accounted_for [OF sample_stopped_reachable] by (simp add: sample_stopped_def)

text \<open>
  (C24) Sending makes at most one attempt more than the configured retries. Before each retry it
  sleeps the back-off, which doubles from 200 ms up to 30 s, or longer if the upstream asked for
  it, and it goes on only after a failure that may be retried. It reports success exactly when the
  last attempt succeeded, and a failure only when that was not retryable or the last allowed.
\<close>

theorem retries_follow_schedule:
  assumes "send_with_retry retry env retry_max = (out, slept)"
  shows "length slept < attempts retry_max \<and> attempts retry_max \<le> Suc (unat retry_max) \<and>
    (\<forall>j < length slept. slept ! j = max (min (200000000 * 2 ^ j) 30000000000) (wait_after retry (env j)) \<and>
      goes_on retry (env j)) \<and>
    (out = Sent \<longleftrightarrow> \<not> att_cancelled (env (length slept)) \<and> att_result (env (length slept)) = Completed (Inr ())) \<and>
    (\<forall>e. out = SendFailed e \<longrightarrow> (\<exists>x. e = Some x \<and> att_result (env (length slept)) = Completed (Inl x) \<and>
      (retry x = None \<or> Suc (length slept) = attempts retry_max)))"
  using send_with_retry_spec [OF assms] by (simp add: backoff_def INITIAL_DELAY_def MAX_DELAY_def)

lemma retries_follow_schedule_witness:
  "[200000000, 1000000000] ! 1 = max (min (200000000 * 2 ^ 1) 30000000000) (wait_after Some (sample_attempts 1))"
  using retries_follow_schedule [OF sample_send] by auto

text \<open>
  Once the task drains its queue it stops after at most one round for each queued request,
  one for an interrupted request and one to notice the end, whatever the sends do.
\<close>

theorem drain_terminates:
  assumes "la_phase s = Draining interrupted abandoned expired"
    and "length outs = length (bf_items (la_queue s)) + (if interrupted = None then 1 else 2)"
  shows "la_phase (fold (drain_round (fifo_ops cap)) outs s) = Stopped"
  using assms fifo_lane.drain_ends [of s outs]
  by (auto simp: fifo_lane.draining_def fifo_lane.drain_left_def split: option.splits)

lemma drain_terminates_witness:
  "la_phase (fold (drain_round (fifo_ops 4)) [SendCancelled :: nat send_outcome, Sent]
     (sample_stopped\<lparr>la_queue := \<lparr>bf_items = [sample_request], bf_closed = True\<rparr>, la_phase := Draining None 0 False\<rparr>)) = Stopped"
  by (rule drain_terminates [where interrupted = None and abandoned = 0 and expired = False])
    (simp_all add: sample_stopped_def)



text \<open>
  A client is built only for an absolute HTTP(S) URL without query, fragment or credentials;
  a gRPC client only with a timeout that its header can express. The HTTP client posts each signal
  to the endpoint, without its trailing slashes, followed by the path of the signal.
\<close>

theorem built_clients_are_valid:
  assumes "route_client_build parse_url uri_scheme meta_name meta_value http_name http_value route timeout = Inr client"
  shows "(\<exists>url. parse_url (pr_endpoint route) = Some url \<and> url_scheme url \<in> {''http'', ''https''} \<and> url_has_host url \<and>
      url_query url = None \<and> url_fragment url = None \<and> url_username url = '''' \<and> url_password url = None) \<and>
    (case client of
       GrpcRoute c \<Rightarrow> gc_timeout c \<le> 99999999 * 3600000 \<and> ge_url (gc_endpoint c) = pr_endpoint route \<and>
         distinct (map fst (gc_metadata c))
     | HttpRoute c \<Rightarrow> hu_logs (hc_urls c) = trim_end_slashes (pr_endpoint route) @ ''/v1/logs'' \<and>
         hu_traces (hc_urls c) = trim_end_slashes (pr_endpoint route) @ ''/v1/traces'' \<and>
         hu_metrics (hc_urls c) = trim_end_slashes (pr_endpoint route) @ ''/v1/metrics'' \<and>
         distinct (map fst (hc_headers c)))"
  using client_built [OF assms] by (simp add: client_valid_def)

lemma built_clients_are_valid_witness:
  "distinct (map fst [(''content-type'', ''application/x-protobuf'')])"
  using built_clients_are_valid [OF sample_client] by simp

section \<open>The receiver\<close>

text \<open>
  (C1) However requests, receive limits, tasks and the shutdown interleave, an answer tells the
  exporter what has become of its batch. A batch that is acknowledged has been counted, and saved
  if there is a log; a batch that reached the sink and is not acknowledged has been neither saved
  nor counted, and the answer allows to send it again; and no two requests share a batch.
\<close>

theorem answers_tell_the_truth:
  assumes "sink_from_settings lib su tx no_color is_terminal clk st proxy d = (Inr (sk, pretty), d')"
    and "receiver_reachable qops lops lib wl (receiver_start l0 sk) s"
    and "handler_at s i h" and "rq_phase h = Answered a"
  shows "(acknowledges a \<longrightarrow> (\<exists>j rcd. rq_job h = Some j \<and> ss_tasks (rv_sink s) ! j = (rcd, TaskDone (Inr ())) \<and>
      rcd \<in> set (ss_ingested (rv_sink s)) \<and> (st_log_sink st \<noteq> None \<longrightarrow> rcd \<in> set (ss_saved (rv_sink s))))) \<and>
    (\<forall>j. rq_job h = Some j \<longrightarrow> \<not> acknowledges a \<longrightarrow>
      retryable a \<and> \<not> phase_saved (job_phase s j) \<and> \<not> phase_ingested (job_phase s j)) \<and>
    (\<forall>k g j. handler_at s k g \<longrightarrow> rq_job h = Some j \<longrightarrow> rq_job g = Some j \<longrightarrow> k = i)"
proof -
  have ok: "receiver_ok wl s" using receiver_invariant [OF assms(2)] .
  note A = answered_spec [OF ok assms(3,4)]
  note S = sink_invariant [OF assms(1) receiver_parts(2) [OF assms(2)]]
  have "\<exists>j rcd. rq_job h = Some j \<and> ss_tasks (rv_sink s) ! j = (rcd, TaskDone (Inr ())) \<and>
      rcd \<in> set (ss_ingested (rv_sink s)) \<and> (st_log_sink st \<noteq> None \<longrightarrow> rcd \<in> set (ss_saved (rv_sink s)))" if "acknowledges a"
  proof -
    obtain j where j: "rq_job h = Some j" "snd (ss_tasks (rv_sink s) ! j) = TaskDone (Inr ())"
      using A(1) \<open>acknowledges a\<close> by (auto simp: job_phase_def)
    then obtain rcd where t: "ss_tasks (rv_sink s) ! j = (rcd, TaskDone (Inr ()))" by (metis prod.collapse)
    then have "(rcd, TaskDone (Inr ())) \<in> set (ss_tasks (rv_sink s))" using A(3) [OF j(1)] by (metis nth_mem)
    with done_in_histories [OF S(1)] S(3) t j(1) show ?thesis by blast
  qed
  moreover have "\<forall>k g j. handler_at s k g \<longrightarrow> rq_job h = Some j \<longrightarrow> rq_job g = Some j \<longrightarrow> k = i"
    using ok assms(3) unfolding receiver_ok_def by blast
  ultimately show ?thesis using A(2) by blast
qed

lemma answers_tell_the_truth_witness:
  "\<exists>k :: (str, pretty_job bounded_fifo, export_request bounded_fifo) sink_state.
     Logs [] \<in> set (ss_saved k) \<and> ss_tasks k = [(Logs [], TaskDone (Inr ()))]"
proof -
  obtain k where k: "sample_receives (rcv 4 [Finished, Finished] k [sample_ok, sample_refused])" "ss_tasks k = [(Logs [], TaskDone (Inr ()))]"
    using sample_answers by blast
  obtain d where "sink_from_settings sample_lib sample_surroundings fifo_new None False (\<lambda>_. 0) sample_sink_settings None sample_disk =
      (Inr (sample_opened, None), d)" using sample_opens by blast
  from answers_tell_the_truth [OF this k(1), of 0 sample_ok] k(2) have "Logs [] \<in> set (ss_saved k)"
    by (auto simp: handler_at_def rcv_def sample_ok_def first_handler_def is_success_def sample_sink_settings_def)
  with k(2) show ?thesis by blast
qed

text \<open>
  (C14) At any time the bodies that are being read and the batches that the sink works on are
  together at most as many as the configured number of requests, for HTTP and gRPC and all signals
  together, even when handlers are dropped while their batches are being saved.
\<close>

theorem receiver_work_is_bounded:
  assumes "receiver_reachable qops lops lib wl (receiver_start (limits_new max_inflight timeout) sk) s"
  shows "length (filter (\<lambda>h. rq_phase h = Reading) (rv_handlers s)) +
    length (filter (\<lambda>t. in_flight (snd t)) (ss_tasks (rv_sink s))) \<le> unat max_inflight"
proof -
  have "how_many has_permit (rv_admission s) \<le> unat max_inflight"
    using limits_kept_reachable [OF receiver_parts(1) [OF assms]] by (simp add: limits_kept_def)
  with working_hold_permits [OF receiver_invariant [OF assms]] show ?thesis by (rule order_trans)
qed

lemma receiver_work_is_bounded_witness:
  "length (filter (\<lambda>h. rq_phase h = Reading) [first_handler Saving 0 (Some 0) True, sample_refused]) +
    length (filter (\<lambda>t. in_flight (snd t)) (ss_tasks sample_sent)) \<le> 4"
  using receiver_work_is_bounded [OF sample_saves [unfolded sample_limits_def]] by (simp add: rcv_def sample_sink_settings_def sample_settings_def)

section \<open>Running and stopping\<close>

text \<open>
  (C21) The server makes at most ten steps of its own until it has returned, and from the moment
  it is told to stop there is always a next one, even when no listener ever ends: no connection
  can keep it from closing the sink.
\<close>

theorem stopping_server_returns:
  assumes "server_run n s"
  shows "n \<le> 10 \<and> (sv_stopping s \<and> (\<forall>r. sv_phase s \<noteq> Returned r) \<longrightarrow> (\<exists>s'. server_step s s'))"
  using server_run_measure [OF assms] stopping_moves [of s] by simp

lemma stopping_server_returns_witness: "(6 :: nat) \<le> 10 \<and> sv_phase sample_run_end = Returned (Inl (GrpcTask ''bind''))"
  using stopping_server_returns [OF sample_server_run] by (simp add: sample_run_end_def)

text \<open>
  (C19) When the server returns, the sink has been shut down exactly once. An error it returns is
  one that the listener it names really ended with, or the one of the shutdown; without an error
  both listeners ended well, unless they were abandoned at the end of the grace period or at a
  second signal.
\<close>

theorem run_reports_real_errors:
  assumes "server_reachable s" and "sv_phase s = Returned r"
  shows "sv_sink_shutdowns s = 1 \<and> sv_stopping s \<and> (case r of
      Inr _ \<Rightarrow> sv_abandoned s \<or> sv_grpc s = TaskEnded (Finished_with (Inr ())) \<and> sv_http s = TaskEnded (Finished_with (Inr ()))
    | Inl (GrpcTask e) \<Rightarrow> sv_grpc s = TaskEnded (Finished_with (Inl e))
    | Inl GrpcPanicked \<Rightarrow> sv_grpc s = TaskEnded Panicked
    | Inl (HttpTask e) \<Rightarrow> sv_http s = TaskEnded (Finished_with (Inl e))
    | Inl HttpPanicked \<Rightarrow> sv_http s = TaskEnded Panicked
    | Inl (SinkShutdown _) \<Rightarrow> True)"
  using server_ok_reachable [OF assms(1)]
  by (auto simp: server_ok_def assms(2) ended_well_def results_named_def split: sum.split run_error.split)

lemma run_reports_real_errors_witness: "sv_grpc sample_run_end = TaskEnded (Finished_with (Inl ''bind''))"
  using run_reports_real_errors [OF server_run_reachable [OF sample_server_run], of "Inl (GrpcTask ''bind'')"]
  by (simp add: sample_run_end_def)

section \<open>Text for people\<close>

text \<open>
  (C17) Whatever a batch contains, its text consists of exactly the lines its structure asks for,
  and a line holds only characters that a terminal shows: no control character and no direction
  control of the telemetry gets through, and the only escape sequences are the colours the
  program puts in itself, and only when colours are on.
\<close>

theorem rendered_output_is_safe:
  assumes "times_clean lib"
  shows "lines_shown color (batch_lines rcd) (render lib rcd color)"
  by (rule render_shown [OF assms])

lemma rendered_output_is_safe_witness: "lines_shown False 1 (render sample_text_library hostile_batch False)"
  using rendered_output_is_safe [OF sample_times_clean, of False hostile_batch]
  by (simp add: batch_lines_def log_lines_def hostile_log_def hostile_batch_def)

text \<open>
  (C40) The quoting of a text can be undone: two different texts never look the same, quoted or not.
\<close>

theorem quoted_text_reads_back: "unquote (quote_for_pretty s) = Some s"
  by (rule unquote_quote)

text \<open>
  The text of attributes is linear in their size however deeply their values are nested, as
  nothing is escaped twice.
\<close>

theorem attribute_text_is_linear: "length (format_attrs attrs) \<le> 8 * sum_list (map attr_size attrs) + 2"
  by (rule attrs_bound)

section \<open>Diagnostics\<close>

text \<open>
  (C22) However the handlers and the writing thread interleave and whatever stderr does, every
  diagnostic line handed in is queued, in the thread's hands, written, counted as lost or reported
  as lost; the lines written keep their order, and each stands in the stream on a line of its own,
  even next to a line the stream cut short.
\<close>

theorem diagnostic_lines_are_accounted_for:
  assumes "diag_channel ops waiting cap" and "waiting q0 = []" and "diag_reachable ops (diag_start q0 calls) s"
  shows "length (dg_offered s) = length (queued_lines (waiting (dg_queue s))) + length (held_line s) + length (dg_written s)
      + held_count s + unat (dg_dropped s) + sum_list (map unat (dg_reported s)) \<and>
    subseq (dg_written s @ held_line s @ queued_lines (waiting (dg_queue s))) (dg_offered s) \<and>
    ((\<forall>l \<in> set (dg_offered s). ends_line l) \<longrightarrow> stand_in (dg_written s) (es_bytes (dg_out s)))"
  using diag_reachable_ok [OF assms] by (simp add: lines_counted_def lines_stand_def)

lemma diagnostic_lines_are_accounted_for_witness:
  "subseq [sample_line] (dg_offered sample_diag) \<and> stand_in [sample_line] (es_bytes (dg_out sample_diag)) \<and>
   dg_reported sample_diag = [1]"
proof -
  note d = diagnostic_lines_are_accounted_for [OF diag_fifo.diag_channel_axioms _ sample_diag_reachable]
  have "subseq (dg_written sample_diag @ (held_line sample_diag @ queued_lines (bf_items (dg_queue sample_diag)))) (dg_offered sample_diag)"
    using d by (simp add: fifo_new_def)
  then have "subseq (dg_written sample_diag) (dg_offered sample_diag)" 
    by (rule subseq_order.trans [OF list_emb_prefix [OF subseq_order.refl]])
  moreover have "stand_in (dg_written sample_diag) (es_bytes (dg_out sample_diag))"
    using d sample_diag_lines by (simp add: fifo_new_def)
  ultimately show ?thesis using sample_diag_written by simp
qed

text \<open>
  (C23) The end of the program waits for its diagnostics, but not for long: the guard pauses at most
  200 times, never past its deadline by more than one pause, and then ends in three steps whatever
  the thread does. If it got its answer, every line handed in before the drop has been written, or
  is counted as lost.
\<close>

theorem guard_waits_for_lines:
  assumes "diag_channel ops waiting cap" and "waiting q0 = []" and "guard_reachable ops (guard_start q0 calls now) s"
  shows "gd_pauses s \<le> 200 \<and> (\<forall>until. gd_phase s = FlushSleeping until \<longrightarrow> until < gd_deadline s + FLUSH_PAUSE) \<and>
    (gd_phase s \<noteq> GuardHeld \<and> gd_deadline s + FLUSH_PAUSE \<le> gd_now s \<longrightarrow>
      (\<exists>n \<le> 3. \<exists>s'. (guard_step ops ^^ n) s s' \<and> guard_done (gd_phase s') \<and> gd_now s' = gd_now s)) \<and>
    (gd_phase s = FlushAnswered \<longrightarrow> gd_before s \<le> length (dg_written (gd_diag s)) + held_count (gd_diag s) +
      unat (dg_dropped (gd_diag s)) + sum_list (map unat (dg_reported (gd_diag s))))"
proof -
  have t: "guard_timely s" by (rule guard_timely_reachable [OF assms(3)])
  have "\<forall>until. gd_phase s = FlushSleeping until \<longrightarrow> until < gd_deadline s + FLUSH_PAUSE" using t by (auto simp: guard_timely_def)
  then show ?thesis
    using pauses_bound [OF t] guard_ends [OF t, of ops]
      diag_channel.answered_flush [OF assms(1) diag_channel.guard_ok_reachable [OF assms]] by blast
qed

lemma guard_waits_for_lines_witness:
  "gd_pauses sample_answered \<le> 200 \<and> 1 \<le> length (dg_written (gd_diag sample_answered))"
proof -
  have "gd_pauses sample_answered \<le> 200 \<and> gd_before sample_answered \<le> length (dg_written (gd_diag sample_answered)) +
      held_count (gd_diag sample_answered) + unat (dg_dropped (gd_diag sample_answered)) + sum_list (map unat (dg_reported (gd_diag sample_answered)))"
    using guard_waits_for_lines [OF diag_fifo.diag_channel_axioms _ sample_answered_reachable] sample_answered_eq(1) by (simp add: fifo_new_def)
  then show ?thesis using sample_answered_eq by simp
qed

section \<open>The program as a whole\<close>

text \<open>
  (C2) Nothing is forwarded that is not on disk: with merged settings, in every state of the
  running program, whatever receives, saves, counts, sends, retries, fails or shuts down in
  whatever order, each request in the queue of a lane or in its worker's hands is exactly the part
  that the lane's route claims of a batch that has been saved and counted.
\<close>

theorem forwarded_requests_are_saved:
  assumes "merge_with_home max_inflight env cli config home = Inr st" and "st_proxy st = Some ps"
    and "run_settings max_permits (\<lambda>_. fifo_new) build_client so lib su tx no_color is_terminal clk st d = (Serve g0, d')"
    and "program_reachable qops (fifo_ops cap) lib retry (ps_retry_max ps) g0 g" and "i < length (ps_routes ps)"
    and "r \<in> set (bf_items (ln_sender (pl_lanes (pg_pipeline g) ! i))) \<union> set (held (pl_workers (pg_pipeline g) ! i))"
  shows "\<exists>rcd. rcd \<in> set (ss_saved (pl_sink (pg_pipeline g))) \<and> rcd \<in> set (ss_ingested (pl_sink (pg_pipeline g))) \<and>
    lane_part (ps_routes ps ! i) rcd = Some r"
proof -
  have m: "resolve_proxy_settings env (proxy_inputs cli) (cfg_proxy config) (st_log_sink st) home = Inr (Some ps)"
    using merged_settings [OF assms(1)] assms(2) by simp
  have d: "disjoint_routes (ps_routes ps)" "st_log_sink st \<noteq> None" using resolved_settings [OF m] by (auto simp: disjoint_routes_def)
  obtain rcd where rcd: "rcd \<in># acknowledged (pl_sink (pg_pipeline g))" "lane_part (ps_routes ps ! i) rcd = Some r"
    using fifo_lane.lane_requests [OF running_lane [OF assms(3,2) d(1) assms(4,5)] assms(6)] by blast
  obtain proxy sk pretty where g0: "g0 = \<lparr>pg_server = server_start, pg_pipeline = pipeline_start sk\<rparr>"
    "sink_from_settings lib su tx no_color is_terminal clk st proxy d = (Inr (sk, pretty), d')"
    using started [OF assms(3)] by metis
  have "sink_reachable qops (fifo_ops cap) lib (sink_start sk) (pl_sink (pg_pipeline g))"
    using pipeline_sink [OF run_pipeline [OF assms(4)]] by (simp add: g0(1) pipeline_start_def)
  note S = sink_invariant [OF g0(2) this]
  show ?thesis
    using acknowledged_saved [OF S(1)] rcd S(3) d(2) by (metis in_multiset_in_set mset_subset_eqD)
qed

lemma forwarded_requests_are_saved_witness:
  "\<exists>g rcd. bf_items (ln_sender (pl_lanes (pg_pipeline g) ! 2)) = [sample_part] \<and>
     rcd \<in> set (ss_saved (pl_sink (pg_pipeline g))) \<and> lane_part (sample_routes ! 2) rcd = Some sample_part \<and>
     program_reachable (fifo_ops 256) (fifo_ops 1024) sample_lib (Some :: nat \<Rightarrow> nat option) 2 sample_started g"
proof -
  obtain d where run: "run_settings 1000000 (\<lambda>_. fifo_new) (\<lambda>_. Inr ()) sample_sockets sample_lib sample_surroundings fifo_new None False (\<lambda>_. 0)
     sample_forward_settings sample_empty_disk = (Serve sample_started, d)" using sample_serves by blast
  obtain g where g: "program_reachable (fifo_ops 256) (fifo_ops 1024) sample_lib (Some :: nat \<Rightarrow> nat option) 2 sample_started g"
    "bf_items (ln_sender (pl_lanes (pg_pipeline g) ! 2)) = [sample_part]" using sample_forwarded by blast
  have ps: "st_proxy sample_forward_settings = Some sample_proxy_settings" "ps_retry_max sample_proxy_settings = 2"
    "ps_routes sample_proxy_settings = sample_routes" "2 < length sample_routes"
    by (simp_all add: sample_forward_settings_def sample_proxy_settings_def sample_routes_def)
  from forwarded_requests_are_saved [OF sample_forward_merge ps(1) run, unfolded ps(2,3), OF g(1) ps(4), of sample_part] g
  show ?thesis by auto
qed

text \<open>
  (C11) Every acknowledged batch is accounted for in every lane that claims a part of it: at any
  time the number of these batches is the sum of what the lane has sent, failed to send and
  dropped, of what its worker holds and of what waits in its queue; and once its worker has
  stopped, of the three counters alone. (The counters are 64 bits wide and wrap around.)
\<close>

theorem lanes_account_for_acknowledged:
  assumes "merge_with_home max_inflight env cli config home = Inr st" and "st_proxy st = Some ps"
    and "run_settings max_permits (\<lambda>_. fifo_new) build_client so lib su tx no_color is_terminal clk st d = (Serve g0, d')"
    and "program_reachable qops (fifo_ops cap) lib retry (ps_retry_max ps) g0 g" and "i < length (ps_routes ps)"
    and "lane = pl_lanes (pg_pipeline g) ! i" and "ph = pl_workers (pg_pipeline g) ! i"
  shows "(of_nat (acknowledged_for (ps_routes ps ! i) (pl_sink (pg_pipeline g))) :: u64) =
      sent_total (ln_metrics lane) + failed_total (ln_metrics lane) + dropped_total (ln_metrics lane) +
      of_nat (in_hand ph) + of_nat (length (bf_items (ln_sender lane))) \<and>
    length (bf_items (ln_sender lane)) \<le> cap \<and>
    (ph = Stopped \<longrightarrow> (of_nat (acknowledged_for (ps_routes ps ! i) (pl_sink (pg_pipeline g))) :: u64) =
      sent_total (ln_metrics lane) + failed_total (ln_metrics lane) + dropped_total (ln_metrics lane))"
proof -
  have m: "resolve_proxy_settings env (proxy_inputs cli) (cfg_proxy config) (st_log_sink st) home = Inr (Some ps)"
    using merged_settings [OF assms(1)] assms(2) by simp
  have d: "disjoint_routes (ps_routes ps)" using resolved_settings [OF m] by (auto simp: disjoint_routes_def)
  note L = fifo_lane.lane_counts [OF running_lane [OF assms(3,2) d assms(4,5)]]
  show ?thesis using L by (auto simp: acknowledged_for_def counted_def assms(6,7))
qed

lemma lanes_account_for_acknowledged_witness:
  "\<exists>g. program_reachable (fifo_ops 256) (fifo_ops 1024) sample_lib (Some :: nat \<Rightarrow> nat option) 2 sample_started g \<and>
     acknowledged_for (sample_routes ! 2) (pl_sink (pg_pipeline g)) = 1 \<and>
     (1 :: u64) = sent_total (ln_metrics (pl_lanes (pg_pipeline g) ! 2)) + failed_total (ln_metrics (pl_lanes (pg_pipeline g) ! 2)) +
       dropped_total (ln_metrics (pl_lanes (pg_pipeline g) ! 2)) + of_nat (in_hand (pl_workers (pg_pipeline g) ! 2)) + 1"
proof -
  obtain d where run: "run_settings 1000000 (\<lambda>_. fifo_new) (\<lambda>_. Inr ()) sample_sockets sample_lib sample_surroundings fifo_new None False (\<lambda>_. 0)
     sample_forward_settings sample_empty_disk = (Serve sample_started, d)" using sample_serves by blast
  obtain g where g: "program_reachable (fifo_ops 256) (fifo_ops 1024) sample_lib (Some :: nat \<Rightarrow> nat option) 2 sample_started g"
    "acknowledged (pl_sink (pg_pipeline g)) = {#sample_batch#}" "bf_items (ln_sender (pl_lanes (pg_pipeline g) ! 2)) = [sample_part]"
    using sample_forwarded by blast
  have ps: "st_proxy sample_forward_settings = Some sample_proxy_settings" "ps_retry_max sample_proxy_settings = 2"
    "ps_routes sample_proxy_settings = sample_routes" "2 < length sample_routes"
    by (simp_all add: sample_forward_settings_def sample_proxy_settings_def sample_routes_def)
  have "acknowledged_for (sample_routes ! 2) (pl_sink (pg_pipeline g)) = 1"
    by (simp add: acknowledged_for_def g(2) sample_lane_part)
  with lanes_account_for_acknowledged [OF sample_forward_merge ps(1) run, unfolded ps(2,3), OF g(1) ps(4) refl refl] g show ?thesis
    by (intro exI [of _ g]) simp
qed

text \<open>
  (C10) The parts end in order: no worker of a lane stops before the server has returned; and when
  the server has returned, no batch is under way, none is admitted any more, and the acknowledged
  batches are exactly the counted ones and, with a log, the saved ones. So whatever a worker drains
  at the end, nothing comes after it.
\<close>

theorem program_ends_in_order:
  assumes "run_settings max_permits new_channel build_client so lib su tx no_color is_terminal clk st d = (Serve g0, d')"
    and "program_reachable qops lops lib retry retry_max g0 g" and "s = pl_sink (pg_pipeline g)"
  shows "(\<forall>i < length (pl_workers (pg_pipeline g)). worker_stopping (pl_workers (pg_pipeline g) ! i) \<longrightarrow> server_returned (pg_server g)) \<and>
    (server_returned (pg_server g) \<longrightarrow> \<not> sk_admission (ss_sink s) \<and> (\<forall>t \<in> set (ss_tasks s). \<not> in_flight (snd t)) \<and>
      acknowledged s = mset (ss_ingested s) \<and> (st_log_sink st \<noteq> None \<longrightarrow> acknowledged s = mset (ss_saved s)))"
proof -
  obtain proxy sk pretty where g0: "g0 = \<lparr>pg_server = server_start, pg_pipeline = pipeline_start sk\<rparr>"
    "sink_from_settings lib su tx no_color is_terminal clk st proxy d = (Inr (sk, pretty), d')"
    using started [OF assms(1)] by metis
  have order: "in_order g" by (rule in_order_reachable) (use assms(2) g0(1) in simp)
  have "sink_reachable qops lops lib (sink_start sk) s"
    using pipeline_sink [OF run_pipeline [OF assms(2)]] by (simp add: g0(1) pipeline_start_def assms(3))
  note S = sink_invariant [OF g0(2) this]
  have "acknowledged s = mset (ss_ingested s) \<and> (st_log_sink st \<noteq> None \<longrightarrow> acknowledged s = mset (ss_saved s))"
    if "\<forall>t \<in> set (ss_tasks s). \<not> in_flight (snd t)"
    using all_acknowledged [OF S(1) that] S(3) by (simp add: acknowledged_def)
  with order show ?thesis by (auto simp: in_order_def closed_def assms(3))
qed

lemma program_ends_in_order_witness:
  "\<exists>g r. program_reachable (fifo_ops 256) (fifo_ops 1024) sample_lib (Some :: nat \<Rightarrow> nat option) 2 sample_started g \<and> main_returns g r \<and>
     acknowledged (pl_sink (pg_pipeline g)) = mset (ss_saved (pl_sink (pg_pipeline g))) \<and> sample_batch \<in># acknowledged (pl_sink (pg_pipeline g))"
proof -
  obtain d where run: "run_settings 1000000 (\<lambda>_. fifo_new) (\<lambda>_. Inr ()) sample_sockets sample_lib sample_surroundings fifo_new None False (\<lambda>_. 0)
     sample_forward_settings sample_empty_disk = (Serve sample_started, d)" using sample_serves by blast
  obtain g where g: "program_reachable (fifo_ops 256) (fifo_ops 1024) sample_lib (Some :: nat \<Rightarrow> nat option) 2 sample_started g"
    "acknowledged (pl_sink (pg_pipeline g)) = {#sample_batch#}" using sample_forwarded by blast
  obtain g' r where g': "program_reachable (fifo_ops 256) (fifo_ops 1024) sample_lib (Some :: nat \<Rightarrow> nat option) 2 g g'" "main_returns g' r"
    using fifo_lane.program_ends [OF g(1)] by blast
  note k = program_trans [OF g'(1) g(1)]
  have "acknowledged (pl_sink (pg_pipeline g)) \<subseteq># acknowledged (pl_sink (pg_pipeline g'))" by (rule acknowledged_grows [OF g'(1)])
  then show ?thesis
    using k g' g(2) program_ends_in_order [OF run k refl]
    by (intro exI [of _ g'] exI [of _ r]) (auto simp: main_returns_def server_returned_def sample_forward_settings_def)
qed

text \<open>
  (C20) The program can end from every state it can get into: there is a run on to the return of
  \<open>main\<close>, with the sink closed and flushed and all workers joined. No part waits for ever for
  another one.
\<close>

theorem program_can_always_end:
  assumes "run_settings max_permits (\<lambda>_. fifo_new) build_client so lib su tx no_color is_terminal clk st d = (Serve g0, d')"
    and "program_reachable qops (fifo_ops cap) lib (retry :: 'e \<Rightarrow> nat option) retry_max g0 g"
  shows "\<exists>g' r. program_reachable qops (fifo_ops cap) lib retry retry_max g g' \<and> main_returns g' r"
proof -
  obtain sk where "g0 = \<lparr>pg_server = server_start, pg_pipeline = pipeline_start sk\<rparr>" using started [OF assms(1)] by metis
  with assms(2) show ?thesis using fifo_lane.program_ends by blast
qed

lemma program_can_always_end_witness:
  "\<exists>g r. program_reachable (fifo_ops 256) (fifo_ops 1024) sample_lib (Some :: nat \<Rightarrow> nat option) 2 sample_started g \<and> main_returns g r"
proof -
  obtain d where run: "run_settings 1000000 (\<lambda>_. fifo_new) (\<lambda>_. Inr ()) sample_sockets sample_lib sample_surroundings fifo_new None False (\<lambda>_. 0)
     sample_forward_settings sample_empty_disk = (Serve sample_started, d)" using sample_serves by blast
  show ?thesis by (rule program_can_always_end [OF run program_reachable.Begin])
qed

text \<open>
  (C39) A dry run serves nothing and changes the contents of no file; it reports success only when
  both listeners could be bound at the same time, the second while the first one was held.
\<close>

theorem dry_run_is_harmless:
  assumes "st_dry_run st" and "run_settings max_permits new_channel build_client so lib su tx no_color is_terminal clk st d = (r, d')"
  shows "(\<forall>p. disk_bytes d' p = disk_bytes d p) \<and> (\<forall>g. r \<noteq> Serve g) \<and>
    (\<forall>grpc http. r = DryRunDone grpc http \<longrightarrow> (\<exists>a b. so_bind so [] (st_grpc_addr st) = Inr a \<and> so_local_addr so a = Inr grpc \<and>
      so_bind so [a] (st_http_addr st) = Inr b \<and> so_local_addr so b = Inr http))"
  using dry_run_outcome [OF assms] by (auto simp: same_contents_def probe_binds_Inr)

lemma dry_run_is_harmless_witness:
  "\<exists>d. \<forall>p. disk_bytes d p = disk_bytes sample_empty_disk p"
proof -
  obtain d where "run_settings 1000000 (\<lambda>_. fifo_new :: export_request bounded_fifo) (\<lambda>_. Inr ()) sample_sockets sample_lib
      sample_surroundings fifo_new None False (\<lambda>_. 0) (sample_forward_settings\<lparr>st_dry_run := True\<rparr>) sample_empty_disk =
      (DryRunDone ''127.0.0.1:4317'' ''0.0.0.0:4318'', d)" using sample_dry_run by blast
  from dry_run_is_harmless [OF _ this] show ?thesis by (intro exI [of _ d]) simp
qed

section \<open>Files and settings at the start\<close>



text \<open>
  (C27) The program starts to receive only with settings merged from what the configuration file
  says: the file named on the command line, or the one at the default path. It goes on without a
  file only if none is named and none is at the default path; a file that cannot be looked at or
  read stops it.
\<close>

theorem settings_come_from_the_file:
  assumes "main_start lib tt max_permits env xdg home cli d = (StartServer s, d')"
  shows "\<exists>c. merge_with_home max_permits env cli c home = Inr s \<and> (case cli_config cli of
      Some path \<Rightarrow> expand_user_path path home \<in> dom (disk_files d) \<and> tl_parse lib (disk_bytes d (expand_user_path path home)) = Inr c
    | None \<Rightarrow> (case default_config_path xdg home of
        Some path \<Rightarrow> if path \<in> dom (disk_files d) then tl_parse lib (disk_bytes d path) = Inr c else c = empty_config
      | None \<Rightarrow> c = empty_config))"
proof -
  obtain c where c: "config_load lib (cli_config cli) xdg home d = (Inr c, d')" "merge_with_home max_permits env cli c home = Inr s"
    using main_start_settings [OF assms] .
  show ?thesis by (rule exI [of _ c]) (rule conjI [OF c(2) load_spec(2) [OF c(1) [unfolded config_load_def] refl]])
qed

lemma settings_come_from_the_file_witness:
  "\<exists>c. merge_with_home 100 (\<lambda>_. EnvNotPresent) sample_cli_args c (Some ''/h'') = Inr sample_settings \<and>
     tl_parse sample_toml (disk_bytes sample_config_disk ''/h/.config/otel-logger/config.toml'') = Inr c"
proof -
  have dom: "''/h/.config/otel-logger/config.toml'' \<in> dom (disk_files sample_config_disk)" by (simp add: sample_config_disk_def)
  have none: "cli_config sample_cli_args = None" by (simp add: sample_cli_args_def)
  show ?thesis
    using settings_come_from_the_file [OF sample_start [of "\<lambda>_. EnvNotPresent"]] unfolding none sample_default_path option.case
    by (simp only: dom if_True)
qed

section \<open>The configuration template\<close>

text \<open>
  (C29) A file that \<open>init\<close> wrote can be started with: with the same path and no other option the
  program has exactly the settings that the profile announces, and so \<open>--daemon\<close> writes nothing to
  standard output and logs to daily files that are removed after ten days. The TOML library is
  assumed to read flat documents, the comments of the source to be free of control characters.
\<close>

theorem init_file_starts:
  assumes "reads_flat_toml lib" and "clean_notes note"
    and "tl_utf8 lib (render_config_template (source_texts note) (if daemon then ProfileDaemon else ProfileDefault))"
    and "cli_command cli = Some (Init path force daemon)"
    and "main_start lib (source_texts note) max_permits env xdg home cli d = (InitDone (Inr out), d')"
    and "disk_files d2 = disk_files d'" and "disk_faults d2 = []" and "8 \<le> max_permits"
  shows "main_start lib (source_texts note) max_permits env' xdg home (bare_cli (or_else path (cli_config cli)) dry_run) d2 =
    (StartServer (template_settings daemon dry_run), d2)"
proof -
  obtain dest where dest: "config_destination xdg home (or_else path (cli_config cli)) = Some dest"
      "disk_files d2 dest = Some (section_text (template_lines note daemon))"
    using init_leaves_template [OF assms(5,4)] assms(6) by (metis template_text)
  have "tl_parse lib (section_text (template_lines note daemon)) = Inr (template_config daemon)"
    using assms(1,3) template_reads [OF assms(2), of daemon] unfolding reads_flat_toml_def template_text by blast
  then have "config_load lib (or_else path (cli_config cli)) xdg home d2 = (Inr (template_config daemon), d2)"
    using load_destination [OF dest assms(7)] assms(3) unfolding template_text by blast
  moreover have "cli_config (bare_cli p dry_run) = p" "cli_command (bare_cli p dry_run) = None" for p
    by (simp_all add: bare_cli_def)
  ultimately show ?thesis
    using template_merges [OF assms(8)] by (simp add: main_start_def)
qed

lemma init_file_starts_witness:
  "main_start flat_library (source_texts sample_note) 100 (\<lambda>_. EnvNotPresent) None None (bare_cli (Some ''/new'') False) template_disk =
     (StartServer (template_settings True False), template_disk)"
proof -
  have c: "or_else (Some ''/new'') (cli_config (sample_cli_args\<lparr>cli_command := Some (Init (Some ''/new'') False True)\<rparr>)) = Some ''/new''" by simp
  have "disk_faults template_disk = []" by (simp add: template_disk_def)
  from init_file_starts [OF flat_library_reads(1,3,2) _ sample_template_written [of "\<lambda>_. EnvNotPresent"] refl this, of "Some ''/new''" False, unfolded c]
  show ?thesis by simp
qed

section \<open>Numbers in the JSON lines\<close>

text \<open>
  (C30) The wrapper around the JSON writer leaves a value of finite numbers as it is, so its bytes
  are those of the writer alone. Of any value it hands over exactly the finite numbers, in order:
  a number that JSON cannot express never reaches the writer as a number.
\<close>

theorem json_numbers_are_finite:
  "(list_all number_finite (numbers v) \<longrightarrow> json_to_vec write v = write v) \<and>
   numbers (non_finite v) = filter number_finite (numbers v)"
  by (simp add: json_to_vec_def non_finite_unchanged numbers_kept)

lemma json_numbers_are_finite_witness:
  "json_to_vec (\<lambda>_. Inr [7] :: str + u8 list) (SSeq None [SF64 f64_zero]) = Inr [7] \<and>
   numbers (non_finite (SSeq None [SF64 f64_nan, SF64 f64_zero])) = [Inr f64_zero]"
  using json_numbers_are_finite [of "SSeq None [SF64 f64_zero]" "\<lambda>_. Inr [7] :: str + u8 list"]
    json_numbers_are_finite [of "SSeq None [SF64 f64_nan, SF64 f64_zero]"]
  by (simp add: is_finite_def f64_mag_def f64_zero_def f64_nan_def f64_of_bits_def f64_inf_mag_def)

end
